(* ===== verification/Json.thy ===== *)
theory Json
  imports Prelude
begin

text \<open>
  The JSON values of the \<open>serde_json\<close> crate as the adapters use them: the \<open>Value\<close> type, the
  object map (the crate is built without \<open>preserve_order\<close>, so an object is a \<open>BTreeMap\<close>,
  here an association list sorted by key), the accessors, and the \<open>json!\<close> constructors.
  Reading and printing JSON text is the crate's own business: it is the parameter of type
  \<open>serde_json\<close> that the definitions take.
\<close>

section \<open>Options\<close>

definition unwrap_or :: "'a option \<Rightarrow> 'a \<Rightarrow> 'a" where
  "unwrap_or x d = (case x of None \<Rightarrow> d | Some y \<Rightarrow> y)"

definition or_else :: "'a option \<Rightarrow> 'a option \<Rightarrow> 'a option" where
  "or_else x y = (case x of None \<Rightarrow> y | Some z \<Rightarrow> Some z)"

definition opt_filter :: "('a \<Rightarrow> bool) \<Rightarrow> 'a option \<Rightarrow> 'a option" where
  "opt_filter P x = (case x of None \<Rightarrow> None | Some y \<Rightarrow> if P y then Some y else None)"

lemma unwrap_or_simps [simp]: "unwrap_or None d = d" "unwrap_or (Some x) d = x"
  by (simp_all add: unwrap_or_def)

lemma or_else_simps [simp]: "or_else None y = y" "or_else (Some x) y = Some x"
  by (simp_all add: or_else_def)

lemma or_else_None [simp]: "or_else m None = m"
  by (cases m) simp_all

lemma opt_filter_simps [simp]:
  "opt_filter P None = None" "opt_filter P (Some x) = (if P x then Some x else None)"
  by (simp_all add: opt_filter_def)

section \<open>Values\<close>

type_synonym f64 = "64 word"

datatype number = PosInt u64 | NegInt i64 | Float f64

datatype "value" =
    Null
  | Bool bool
  | Number number
  | String string
  | Array "value list"
  | Object "(string \<times> value) list"

type_synonym object = "(string \<times> value) list"

text \<open>\<open>BTreeMap::insert\<close>: replaces the value of a present key, keeps the keys in order.\<close>

fun obj_insert :: "string \<Rightarrow> value \<Rightarrow> object \<Rightarrow> object" where
  "obj_insert k v [] = [(k, v)]"
| "obj_insert k v ((k', v') # m) =
     (if k = k' then (k, v) # m
      else if k < k' then (k, v) # (k', v') # m
      else (k', v') # obj_insert k v m)"

definition obj_get :: "object \<Rightarrow> string \<Rightarrow> value option" where
  "obj_get m k = map_of m k"

definition obj_insert_all :: "(string \<times> value) list \<Rightarrow> object \<Rightarrow> object" where
  "obj_insert_all kvs m = foldl (\<lambda>m (k, v). obj_insert k v m) m kvs"

text \<open>\<open>json!({k: v, ...})\<close>: the entries inserted in the order written.\<close>

definition jobj :: "(string \<times> value) list \<Rightarrow> value" where
  "jobj kvs = Object (obj_insert_all kvs [])"

lemma obj_get_insert: "obj_get (obj_insert k v m) k' = (if k = k' then Some v else obj_get m k')"
  by (induction k v m rule: obj_insert.induct) (auto simp: obj_get_def)

lemma obj_get_insert_all:
  "obj_get (obj_insert_all kvs m) k = (case map_of (rev kvs) k of None \<Rightarrow> obj_get m k | Some v \<Rightarrow> Some v)"
proof (induction kvs arbitrary: m)
  case (Cons kv kvs)
  then show ?case
    by (cases kv) (auto simp: obj_insert_all_def obj_get_insert map_add_def split: option.splits)
qed (simp add: obj_insert_all_def)

definition keys_sorted :: "object \<Rightarrow> bool" where
  "keys_sorted m \<longleftrightarrow> sorted_wrt (<) (map fst m)"

lemma keys_obj_insert: "fst ` set (obj_insert k v m) = insert k (fst ` set m)"
  by (induction k v m rule: obj_insert.induct) auto

lemma obj_insert_sorted: "keys_sorted m \<Longrightarrow> keys_sorted (obj_insert k v m)"
proof (induction k v m rule: obj_insert.induct)
  case (2 k v k' v' m)
  from "2.prems" have lt: "\<forall>x \<in> fst ` set m. k' < x" and sm: "keys_sorted m"
    by (auto simp: keys_sorted_def)
  show ?case
  proof (cases "k < k' \<or> k = k'")
    case True
    then show ?thesis using "2.prems" lt by (fastforce simp: keys_sorted_def)
  next
    case False
    then have k: "k' < k" using linorder_less_linear [of k k'] by blast
    then have "keys_sorted (obj_insert k v m)" using False sm "2.IH" by simp
    moreover have "\<forall>x \<in> set (map fst (obj_insert k v m)). k' < x"
      using keys_obj_insert [of k v m] lt k by auto
    ultimately show ?thesis using False by (simp add: keys_sorted_def)
  qed
qed (simp add: keys_sorted_def)

lemma obj_insert_all_sorted: "keys_sorted m \<Longrightarrow> keys_sorted (obj_insert_all kvs m)"
  by (induction kvs arbitrary: m)
    (auto simp: obj_insert_all_def obj_insert_sorted split: prod.splits)

section \<open>Accessors\<close>

fun value_get :: "value \<Rightarrow> string \<Rightarrow> value option" where
  "value_get (Object m) k = obj_get m k"
| "value_get _ k = None"

fun as_str :: "value \<Rightarrow> string option" where
  "as_str (String s) = Some s"
| "as_str _ = None"

fun as_bool :: "value \<Rightarrow> bool option" where
  "as_bool (Bool b) = Some b"
| "as_bool _ = None"

fun as_array :: "value \<Rightarrow> value list option" where
  "as_array (Array xs) = Some xs"
| "as_array _ = None"

fun as_object :: "value \<Rightarrow> object option" where
  "as_object (Object m) = Some m"
| "as_object _ = None"

fun as_u64 :: "value \<Rightarrow> u64 option" where
  "as_u64 (Number (PosInt n)) = Some n"
| "as_u64 _ = None"

text \<open>
  \<open>n as f64\<close> for an integer of at most 64 bits: IEEE 754 binary64, rounded to nearest, ties
  to even. A float is its 64-bit pattern.
\<close>

fun floor_log2 :: "nat \<Rightarrow> nat" where
  "floor_log2 n = (if n < 2 then 0 else Suc (floor_log2 (n div 2)))"

declare floor_log2.simps [simp del]

definition f64_of_nat :: "nat \<Rightarrow> f64" where
  "f64_of_nat n =
     (if n = 0 then 0
      else
        let e = floor_log2 n;
            m = (if e \<le> 52 then n * 2 ^ (52 - e)
                 else
                   let q = n div 2 ^ (e - 52);
                       r = n mod 2 ^ (e - 52);
                       h = 2 ^ (e - 53)
                   in if h < r \<or> (r = h \<and> odd q) then q + 1 else q)
        in of_nat ((e + 1023) * 2 ^ 52 + (m - 2 ^ 52)))"

fun as_f64 :: "value \<Rightarrow> f64 option" where
  "as_f64 (Number (PosInt n)) = Some (f64_of_nat (unat n))"
| "as_f64 (Number (NegInt n)) = Some (2 ^ 63 + f64_of_nat (nat (- sint n)))"
| "as_f64 (Number (Float x)) = Some x"
| "as_f64 _ = None"

definition f64_is_finite :: "f64 \<Rightarrow> bool" where
  "f64_is_finite x \<longleftrightarrow> (unat x div 2 ^ 52) mod 2048 \<noteq> 2047"

section \<open>Constructors\<close>

text \<open>\<open>json!(n)\<close> of a \<open>u64\<close>, of a \<open>u32\<close>, and of an \<open>f64\<close> (a non-finite one becomes null).\<close>

definition jnum :: "u64 \<Rightarrow> value" where
  "jnum n = Number (PosInt n)"

definition jnum32 :: "u32 \<Rightarrow> value" where
  "jnum32 n = Number (PosInt (ucast n))"

definition jf64 :: "f64 \<Rightarrow> value" where
  "jf64 x = (if f64_is_finite x then Number (Float x) else Null)"

text \<open>The \<open>v as u32\<close> cast of a \<open>u64\<close>: it truncates.\<close>

definition as_u32 :: "u64 \<Rightarrow> u32" where
  "as_u32 n = ucast n"

abbreviation get_str :: "value \<Rightarrow> string \<Rightarrow> string option" where
  "get_str v k \<equiv> Option.bind (value_get v k) as_str"

abbreviation get_u64 :: "value \<Rightarrow> string \<Rightarrow> u64 option" where
  "get_u64 v k \<equiv> Option.bind (value_get v k) as_u64"

abbreviation get_bool :: "value \<Rightarrow> string \<Rightarrow> bool option" where
  "get_bool v k \<equiv> Option.bind (value_get v k) as_bool"

abbreviation get_f64 :: "value \<Rightarrow> string \<Rightarrow> f64 option" where
  "get_f64 v k \<equiv> Option.bind (value_get v k) as_f64"

abbreviation get_array :: "value \<Rightarrow> string \<Rightarrow> value list option" where
  "get_array v k \<equiv> Option.bind (value_get v k) as_array"

abbreviation str_or_empty :: "value \<Rightarrow> string \<Rightarrow> string" where
  "str_or_empty v k \<equiv> unwrap_or (get_str v k) []"

lemma value_get_jobj [simp, json_simps]: "value_get (jobj kvs) k = map_of (rev kvs) k"
  using obj_get_insert_all [of kvs "[]" k]
  by (simp add: jobj_def obj_get_def split: option.splits)

text \<open>
  A lookup in an object written field by field, some of them optional: the last field of the
  name that was written answers.
\<close>

lemma fields_append: "map_of (rev (a @ b)) k = or_else (map_of (rev b) k) (map_of (rev a) k)"
  by (simp add: map_add_def split: option.split)

lemma fields_opt:
  "map_of (rev (case m of None \<Rightarrow> [] | Some x \<Rightarrow> [(k', f x)])) k = (if k = k' then map_option f m else None)"
  by (cases m) simp_all

lemma fields_if: "map_of (rev (if c then a else b)) k = (if c then map_of (rev a) k else map_of (rev b) k)"
  by simp

lemmas obj_fields = value_get_jobj fields_append fields_opt fields_if

lemma value_get_insert [simp, json_simps]:
  "value_get (Object (obj_insert k v m)) k' = (if k = k' then Some v else value_get (Object m) k')"
  by (simp add: obj_get_insert)

lemma value_get_empty [simp, json_simps]: "value_get (Object []) k = None"
  by (simp add: obj_get_def)

lemma keys_sorted_distinct: "keys_sorted m \<Longrightarrow> distinct (map fst m)"
  unfolding keys_sorted_def by (simp add: strict_sorted_iff)

lemma map_of_rev_sorted: "keys_sorted m \<Longrightarrow> map_of (rev m) k = map_of m k"
proof (cases "map_of m k")
  case (Some v)
  assume "keys_sorted m"
  then have "distinct (map fst (rev m))" by (simp add: keys_sorted_distinct rev_map [symmetric])
  moreover have "(k, v) \<in> set (rev m)" using Some by (simp add: map_of_SomeD)
  ultimately show ?thesis using Some by (metis map_of_is_SomeI)
next
  case None
  then have "map_of (rev m) k = None" by (simp add: map_of_eq_None_iff)
  with None show ?thesis by simp
qed

text \<open>The entries of one \<open>json!\<close> object inserted into another.\<close>

lemma value_get_merge [simp]:
  "value_get (Object (obj_insert_all (obj_insert_all kvs []) m)) k
   = (case map_of (rev kvs) k of None \<Rightarrow> obj_get m k | Some v \<Rightarrow> Some v)"
proof -
  have s: "keys_sorted (obj_insert_all kvs [])" by (rule obj_insert_all_sorted) (simp add: keys_sorted_def)
  have "map_of (rev (obj_insert_all kvs [])) k = map_of (rev kvs) k"
    using obj_get_insert_all [of kvs "[]" k] by (simp add: map_of_rev_sorted [OF s] obj_get_def split: option.splits)
  then show ?thesis by (simp add: obj_get_insert_all value_get.simps)
qed

declare value_get.simps(1) [simp del]

lemma as_of_jobj [simp, json_simps]:
  "as_str (jobj kvs) = None" "as_bool (jobj kvs) = None" "as_array (jobj kvs) = None"
  "as_u64 (jobj kvs) = None" "\<exists>m. jobj kvs = Object m" "as_object (jobj kvs) \<noteq> None"
  by (simp_all add: jobj_def)

lemma as_num [simp, json_simps]:
  "as_u64 (jnum n) = Some n" "as_u64 (jnum32 m) = Some (ucast m)"
  "as_str (jnum n) = None" "as_str (jnum32 m) = None"
  by (simp_all add: jnum_def jnum32_def)

lemma as_f64_jf64 [simp, json_simps]: "f64_is_finite x \<Longrightarrow> as_f64 (jf64 x) = Some x"
  by (simp add: jf64_def)

lemma as_u32_ucast [simp, json_simps]: "as_u32 (ucast (m :: u32)) = m"
  by (simp add: as_u32_def ucast_down_ucast_id is_down)

lemma unat_as_u32: "unat (as_u32 n) = unat n mod 2 ^ 32"
  by (simp add: as_u32_def unsigned_ucast_eq take_bit_eq_mod)

section \<open>The crate's text functions\<close>

text \<open>
  \<open>from_str\<close> returns the parsed value or the text of its error; \<open>to_string\<close> prints a value
  in compact form (it is also \<open>Value\<close>'s \<open>Display\<close>).
\<close>

record serde_json =
  from_str :: "string \<Rightarrow> string + value"
  to_string :: "value \<Rightarrow> string"

text \<open>An instance with finitely many texts, for the examples.\<close>

definition table_json :: "(string \<times> value) list \<Rightarrow> serde_json" where
  "table_json tab =
     \<lparr>from_str = (\<lambda>s. case map_of tab s of Some v \<Rightarrow> Inr v | None \<Rightarrow> Inl ''expected value''),
      to_string = (\<lambda>v. case List.find (\<lambda>(s, w). w = v) tab of Some (s, _) \<Rightarrow> s | None \<Rightarrow> [])\<rparr>"

text \<open>\<open>from_str\<close> reads back what \<open>to_string\<close> printed, for one value.\<close>

definition reads_back :: "serde_json \<Rightarrow> value \<Rightarrow> bool" where
  "reads_back J v \<longleftrightarrow> from_str J (to_string J v) = Inr v"

end
