(* ===== verification/Neutral.thy ===== *)
theory Neutral
  imports Json
begin

text \<open>
  The protocol-neutral model (\<open>src/core/neutral.rs\<close>) and the error taxonomy
  (\<open>src/core/error.rs\<close>): what the adapters convert to and from, and what the pipeline passes
  along.
\<close>

section \<open>Errors\<close>

datatype adapter_error =
    InvalidRequest string
  | Authentication
  | PermissionDenied
  | RateLimit "u64 option"
  | Overloaded
  | InsufficientQuota
  | Api string
  | Upstream u16 string
  | Internal string

type_synonym 'a result = "adapter_error + 'a"

text \<open>\<open>AdapterError\<close>'s \<open>Display\<close> (the \<open>#[error(...)]\<close> attributes).\<close>

fun error_to_string :: "adapter_error \<Rightarrow> string" where
  "error_to_string (InvalidRequest s) = ''invalid request: '' @ s"
| "error_to_string Authentication = ''authentication failed''"
| "error_to_string PermissionDenied = ''permission denied''"
| "error_to_string (RateLimit _) = ''rate limit exceeded''"
| "error_to_string Overloaded = ''upstream overloaded''"
| "error_to_string InsufficientQuota = ''insufficient quota''"
| "error_to_string (Api s) = ''upstream api error: '' @ s"
| "error_to_string (Upstream status body) =
     ''upstream http '' @ dec (unat status) @ '': '' @ body"
| "error_to_string (Internal s) = ''internal error: '' @ s"

section \<open>Messages and content blocks\<close>

datatype neutral_role = System | User | Assistant | Tool

datatype content_block =
    Text string
  | Image (media_type: string) (base64: string)
  | Thinking (thinking: string) (signature: "string option")
  | ToolUse (tool_id: string) (tool_name: string) (tool_input: "value")
  | ToolResult (tool_use_id: string) (result_content: string) (is_error: bool)
  | RedactedThinking (redacted_data: string)

text \<open>\<open>ContentBlock::text\<close>.\<close>

fun block_text :: "content_block \<Rightarrow> string option" where
  "block_text (Text t) = Some t"
| "block_text _ = None"

fun is_image :: "content_block \<Rightarrow> bool" where
  "is_image (Image _ _) = True"
| "is_image _ = False"

fun is_tool_result :: "content_block \<Rightarrow> bool" where
  "is_tool_result (ToolResult _ _ _) = True"
| "is_tool_result _ = False"

record neutral_message =
  msg_role :: neutral_role
  msg_content :: "content_block list"

record neutral_tool =
  nt_name :: string
  nt_description :: "string option"
  nt_parameters :: "value"

section \<open>Requests and responses\<close>

record neutral_request =
  req_model :: string
  req_messages :: "neutral_message list"
  req_tools :: "neutral_tool list"
  req_max_tokens :: "u32 option"
  req_max_completion_tokens :: "u32 option"
  req_temperature :: "f64 option"
  req_top_p :: "f64 option"
  req_top_k :: "u32 option"
  req_stop :: "string list option"
  req_stream :: bool

text \<open>\<open>NeutralRequest::new\<close>.\<close>

definition new_request :: "string \<Rightarrow> neutral_message list \<Rightarrow> neutral_request" where
  "new_request model messages =
     \<lparr>req_model = model, req_messages = messages, req_tools = [], req_max_tokens = None,
      req_max_completion_tokens = None, req_temperature = None, req_top_p = None,
      req_top_k = None, req_stop = None, req_stream = False\<rparr>"

datatype finish_reason = Stop | Length | ToolCalls | ContentFilter | Other string

text \<open>\<open>FinishReason::as_str\<close>.\<close>

fun finish_as_str :: "finish_reason \<Rightarrow> string" where
  "finish_as_str Stop = ''stop''"
| "finish_as_str Length = ''length''"
| "finish_as_str ToolCalls = ''tool_calls''"
| "finish_as_str ContentFilter = ''content_filter''"
| "finish_as_str (Other s) = s"

record neutral_usage =
  input_tokens :: u64
  output_tokens :: u64

record neutral_response =
  resp_id :: string
  resp_model :: string
  resp_content :: "content_block list"
  resp_finish_reason :: finish_reason
  resp_usage :: "neutral_usage option"

record model_info =
  model_id :: string
  model_owned_by :: string

section \<open>Stream events\<close>

datatype stream_event =
    MessageStart string string "neutral_usage option"
  | TextDelta string
  | ReasoningDelta string
  | ReasoningSignature string
  | ToolCallDelta u32 string string string
  | MessageStop finish_reason "neutral_usage option"
  | Error adapter_error

fun is_message_stop :: "stream_event \<Rightarrow> bool" where
  "is_message_stop (MessageStop _ _) = True"
| "is_message_stop _ = False"

fun is_message_start :: "stream_event \<Rightarrow> bool" where
  "is_message_start (MessageStart _ _ _) = True"
| "is_message_start _ = False"

fun is_error_event :: "stream_event \<Rightarrow> bool" where
  "is_error_event (Error _) = True"
| "is_error_event _ = False"

fun is_content_event :: "stream_event \<Rightarrow> bool" where
  "is_content_event (TextDelta _) = True"
| "is_content_event (ReasoningDelta _) = True"
| "is_content_event (ToolCallDelta _ _ _ _) = True"
| "is_content_event _ = False"

section \<open>Shared views of a content list\<close>

text \<open>The texts of a block list (\<open>filter_map(ContentBlock::text)\<close>), and its thinking texts.\<close>

definition block_texts :: "content_block list \<Rightarrow> string list" where
  "block_texts bs = List.map_filter block_text bs"

fun block_thinking :: "content_block \<Rightarrow> string option" where
  "block_thinking (Thinking t _) = Some t"
| "block_thinking _ = None"

definition block_thinkings :: "content_block list \<Rightarrow> string list" where
  "block_thinkings bs = List.map_filter block_thinking bs"

lemma map_filter_Nil [simp]: "List.map_filter f [] = []"
  by (simp add: List.map_filter_def)

lemma map_filter_Cons [simp]:
  "List.map_filter f (x # xs) =
     (case f x of None \<Rightarrow> List.map_filter f xs | Some y \<Rightarrow> y # List.map_filter f xs)"
  by (simp add: List.map_filter_def split: option.split)

lemma map_filter_append [simp]:
  "List.map_filter f (xs @ ys) = List.map_filter f xs @ List.map_filter f ys"
  by (simp add: List.map_filter_def)

lemma map_filter_map_Some: "(\<And>x. x \<in> set xs \<Longrightarrow> f (g x) = Some (h x)) \<Longrightarrow> List.map_filter f (map g xs) = map h xs"
  by (induction xs) auto

lemma map_filter_inverse:
  assumes "\<And>x v. x \<in> set xs \<Longrightarrow> f x = Some v \<Longrightarrow> g v = Some (h x)"
  shows "List.map_filter g (List.map_filter f xs) = map h (filter (\<lambda>x. f x \<noteq> None) xs)"
  using assms
proof (induction xs)
  case (Cons x xs)
  then have IH: "List.map_filter g (List.map_filter f xs) = map h (filter (\<lambda>x. f x \<noteq> None) xs)"
    by simp
  show ?case
  proof (cases "f x")
    case (Some v)
    with Cons.prems [of x v] show ?thesis using IH by simp
  qed (use IH in simp)
qed simp

lemma map_filter_none: "(\<And>x. x \<in> set xs \<Longrightarrow> f x = None) \<Longrightarrow> List.map_filter f xs = []"
  by (induction xs) auto

end
