(* ===== verification/OpenAI_Convert.thy ===== *)
theory OpenAI_Convert
  imports Neutral
begin

text \<open>
  The OpenAI chat-completions dialect, whole bodies (\<open>src/adapters/openai/convert.rs\<close>): requests
  and responses read into the neutral model and written from it. Text to JSON and back is the
  \<open>serde_json\<close> parameter; the clock of \<open>serialize_response\<close> is the parameter \<open>created\<close>.
\<close>

section \<open>Reading a request\<close>

definition invalid_json :: "string \<Rightarrow> adapter_error" where
  "invalid_json e = InvalidRequest (''invalid JSON: '' @ e)"

definition openai_image_from_url :: "string \<Rightarrow> content_block" where
  "openai_image_from_url url =
     (case Option.bind (Option.bind (strip_prefix ''data:'' url) (split_once_char CHR '',''))
             (\<lambda>(meta, data). map_option (\<lambda>m. (m, data)) (strip_suffix '';base64'' meta)) of
        Some (meta, data) \<Rightarrow> Image meta data
      | None \<Rightarrow> Image ''url'' url)"

definition openai_parse_content_part :: "value \<Rightarrow> content_block option" where
  "openai_parse_content_part part =
     Option.bind (get_str part ''type'') (\<lambda>ptype.
       if ptype = ''text'' then map_option Text (get_str part ''text'')
       else if ptype = ''image_url'' then
         Some (openai_image_from_url
           (unwrap_or (Option.bind (value_get part ''image_url'') (\<lambda>i. get_str i ''url'')) []))
       else None)"

definition openai_parse_content :: "value \<Rightarrow> content_block list" where
  "openai_parse_content msg =
     (case value_get msg ''content'' of
        Some (String s) \<Rightarrow> if s \<noteq> [] then [Text s] else []
      | Some (Array parts) \<Rightarrow> List.map_filter openai_parse_content_part parts
      | _ \<Rightarrow> [])"

definition openai_parse_tool_call :: "serde_json \<Rightarrow> value \<Rightarrow> content_block option" where
  "openai_parse_tool_call J call =
     (let i = unwrap_or (get_str call ''id'') [] in
      Option.bind (value_get call ''function'') (\<lambda>f.
        let nm = unwrap_or (get_str f ''name'') [];
            arguments = unwrap_or (get_str f ''arguments'') ''{}'';
            input = (case from_str J arguments of Inl _ \<Rightarrow> Object [] | Inr v \<Rightarrow> v)
        in Some (ToolUse i nm input)))"

text \<open>
  The reasoning text and the tool calls of an assistant message: the same statements stand in
  \<open>parse_message\<close> and in \<open>parse_message_blocks\<close>.
\<close>

definition openai_reasoning :: "value \<Rightarrow> content_block list" where
  "openai_reasoning msg =
     (case opt_filter (\<lambda>rc. rc \<noteq> [])
        (Option.bind (or_else (value_get msg ''reasoning_content'') (value_get msg ''reasoning'')) as_str) of
        Some rc \<Rightarrow> [Thinking rc None]
      | None \<Rightarrow> [])"

definition openai_tool_calls :: "serde_json \<Rightarrow> value \<Rightarrow> content_block list" where
  "openai_tool_calls J msg =
     (case get_array msg ''tool_calls'' of
        Some calls \<Rightarrow> List.map_filter (openai_parse_tool_call J) calls
      | None \<Rightarrow> [])"

definition openai_parse_role :: "string \<Rightarrow> neutral_role option" where
  "openai_parse_role role =
     (if role = ''system'' then Some System
      else if role = ''user'' then Some User
      else if role = ''assistant'' then Some Assistant
      else if role = ''tool'' \<or> role = ''function'' then Some Tool
      else None)"

definition openai_parse_message :: "serde_json \<Rightarrow> value \<Rightarrow> neutral_message option" where
  "openai_parse_message J msg =
     Option.bind (get_str msg ''role'') (\<lambda>role.
       let content = openai_parse_content msg in
       Option.bind (openai_parse_role role) (\<lambda>neutral_role.
         Some \<lparr>msg_role = neutral_role,
           msg_content =
             (case neutral_role of
                Assistant \<Rightarrow> content @ openai_reasoning msg @ openai_tool_calls J msg
              | Tool \<Rightarrow>
                  [ToolResult
                     (unwrap_or (Option.bind (or_else (value_get msg ''tool_call_id'') (value_get msg ''name'')) as_str) [])
                     (case content of [] \<Rightarrow> [] | b # _ \<Rightarrow> unwrap_or (block_text b) [])
                     False]
              | _ \<Rightarrow> content)\<rparr>))"

definition openai_parse_tool :: "value \<Rightarrow> neutral_tool option" where
  "openai_parse_tool tool =
     (if get_str tool ''type'' \<noteq> Some ''function'' then None
      else
        Option.bind (value_get tool ''function'') (\<lambda>f.
          Some \<lparr>nt_name = unwrap_or (get_str f ''name'') [],
                nt_description = get_str f ''description'',
                nt_parameters = unwrap_or (value_get f ''parameters'') (Object [])\<rparr>))"

definition openai_parse_stop :: "value \<Rightarrow> string list option" where
  "openai_parse_stop root =
     (case value_get root ''stop'' of
        Some (String s) \<Rightarrow> Some [s]
      | Some (Array arr) \<Rightarrow>
          let vals = List.map_filter as_str arr in if vals = [] then None else Some vals
      | _ \<Rightarrow> None)"

definition openai_request_of :: "serde_json \<Rightarrow> value \<Rightarrow> neutral_request" where
  "openai_request_of J root =
     \<lparr>req_model = str_or_empty root ''model'',
      req_messages = List.map_filter (openai_parse_message J) (unwrap_or (get_array root ''messages'') []),
      req_tools = List.map_filter openai_parse_tool (unwrap_or (get_array root ''tools'') []),
      req_max_tokens = map_option as_u32 (get_u64 root ''max_tokens''),
      req_max_completion_tokens = map_option as_u32 (get_u64 root ''max_completion_tokens''),
      req_temperature = get_f64 root ''temperature'',
      req_top_p = get_f64 root ''top_p'',
      req_top_k = None,
      req_stop = openai_parse_stop root,
      req_stream = unwrap_or (get_bool root ''stream'') False\<rparr>"

definition openai_parse_request :: "serde_json \<Rightarrow> string \<Rightarrow> neutral_request result" where
  "openai_parse_request J body =
     (case from_str J body of
        Inl e \<Rightarrow> Inl (invalid_json e)
      | Inr v \<Rightarrow>
          (case as_object v of
             None \<Rightarrow> Inl (InvalidRequest ''expected a JSON object'')
           | Some root \<Rightarrow> Inr (openai_request_of J (Object root))))"

section \<open>Writing a request\<close>

definition openai_image_to_url :: "string \<Rightarrow> string \<Rightarrow> string" where
  "openai_image_to_url media base =
     (if media = ''url'' then base else ''data:'' @ media @ '';base64,'' @ base)"

definition openai_role_name :: "neutral_role \<Rightarrow> string" where
  "openai_role_name role =
     (case role of System \<Rightarrow> ''system'' | User \<Rightarrow> ''user'' | Assistant \<Rightarrow> ''assistant'' | Tool \<Rightarrow> ''tool'')"

fun openai_part :: "content_block \<Rightarrow> value option" where
  "openai_part (Text t) = Some (jobj [(''type'', String ''text''), (''text'', String t)])"
| "openai_part (Image media base) =
     Some (jobj [(''type'', String ''image_url''),
       (''image_url'', jobj [(''url'', String (openai_image_to_url media base))])])"
| "openai_part _ = None"

fun openai_tool_message :: "content_block \<Rightarrow> value option" where
  "openai_tool_message (ToolResult i c e) =
     Some (jobj [(''role'', String ''tool''), (''tool_call_id'', String i), (''content'', String c)])"
| "openai_tool_message _ = None"

fun openai_tool_call :: "serde_json \<Rightarrow> content_block \<Rightarrow> value option" where
  "openai_tool_call J (ToolUse i nm input) =
     Some (jobj [(''id'', String i), (''type'', String ''function''),
       (''function'', jobj [(''name'', String nm), (''arguments'', String (to_string J input))])])"
| "openai_tool_call J _ = None"

definition newline :: string where
  "newline = [CHR 0x0A]"

definition openai_serialize_message :: "serde_json \<Rightarrow> neutral_message \<Rightarrow> value list" where
  "openai_serialize_message J msg =
     (let role = openai_role_name (msg_role msg); content = msg_content msg in
      case msg_role msg of
        Tool \<Rightarrow> List.map_filter openai_tool_message content
      | Assistant \<Rightarrow>
          let text = block_texts content;
              reasoning = block_thinkings content;
              tool_calls = List.map_filter (openai_tool_call J) content
          in [jobj ([(''role'', String ''assistant''), (''content'', String (join newline text))] @
                (if reasoning \<noteq> [] then [(''reasoning_content'', String (join newline reasoning))] else []) @
                (if tool_calls \<noteq> [] then [(''tool_calls'', Array tool_calls)] else []))]
      | _ \<Rightarrow>
          if \<not> list_ex is_image content
          then [jobj [(''role'', String role), (''content'', String (join newline (block_texts content)))]]
          else [jobj [(''role'', String role), (''content'', Array (List.map_filter openai_part content))]])"

definition openai_serialize_tool :: "neutral_tool \<Rightarrow> value" where
  "openai_serialize_tool tool =
     (let function = jobj ([(''name'', String (nt_name tool))] @
            (case nt_description tool of Some d \<Rightarrow> [(''description'', String d)] | None \<Rightarrow> []) @
            [(''parameters'', nt_parameters tool)])
      in jobj [(''type'', String ''function''), (''function'', function)])"

definition openai_request_value :: "serde_json \<Rightarrow> neutral_request \<Rightarrow> value" where
  "openai_request_value J req =
     jobj ([(''model'', String (req_model req)),
       (''messages'', Array (concat (map (openai_serialize_message J) (req_messages req))))] @
       (if req_tools req \<noteq> [] then [(''tools'', Array (map openai_serialize_tool (req_tools req)))] else []) @
       (case req_max_completion_tokens req of
          Some mc \<Rightarrow> [(''max_completion_tokens'', jnum32 mc)]
        | None \<Rightarrow> (case req_max_tokens req of Some mt \<Rightarrow> [(''max_tokens'', jnum32 mt)] | None \<Rightarrow> [])) @
       (case req_temperature req of Some t \<Rightarrow> [(''temperature'', jf64 t)] | None \<Rightarrow> []) @
       (case req_top_p req of Some tp \<Rightarrow> [(''top_p'', jf64 tp)] | None \<Rightarrow> []) @
       (case req_stop req of
          Some stop \<Rightarrow> [(''stop'', if length stop = 1 then String (stop ! 0) else Array (map String stop))]
        | None \<Rightarrow> []) @
       (if req_stream req then [(''stream'', Bool True)] else []))"

definition openai_serialize_request :: "serde_json \<Rightarrow> neutral_request \<Rightarrow> string result" where
  "openai_serialize_request J req = Inr (to_string J (openai_request_value J req))"

section \<open>Responses\<close>

definition openai_parse_finish_reason :: "string \<Rightarrow> finish_reason" where
  "openai_parse_finish_reason s =
     (if s = ''stop'' then Stop
      else if s = ''length'' then Length
      else if s = ''tool_calls'' then ToolCalls
      else if s = ''content_filter'' then ContentFilter
      else Other s)"

definition openai_parse_usage :: "value \<Rightarrow> neutral_usage option" where
  "openai_parse_usage usage =
     Some \<lparr>input_tokens = unwrap_or (get_u64 usage ''prompt_tokens'') 0,
           output_tokens = unwrap_or (get_u64 usage ''completion_tokens'') 0\<rparr>"

definition openai_parse_message_blocks :: "serde_json \<Rightarrow> value \<Rightarrow> content_block list" where
  "openai_parse_message_blocks J msg =
     openai_parse_content msg @ openai_reasoning msg @ openai_tool_calls J msg"

definition openai_response_of :: "serde_json \<Rightarrow> value \<Rightarrow> neutral_response" where
  "openai_response_of J root =
     (let choice = Option.bind (get_array root ''choices'') (\<lambda>c. case c of [] \<Rightarrow> None | x # _ \<Rightarrow> Some x) in
      \<lparr>resp_id = str_or_empty root ''id'',
       resp_model = str_or_empty root ''model'',
       resp_content =
         (case choice of
            Some ch \<Rightarrow> unwrap_or (map_option (openai_parse_message_blocks J) (value_get ch ''message'')) []
          | None \<Rightarrow> []),
       resp_finish_reason =
         (case choice of
            Some ch \<Rightarrow> unwrap_or (map_option openai_parse_finish_reason (get_str ch ''finish_reason'')) Stop
          | None \<Rightarrow> Stop),
       resp_usage = Option.bind (value_get root ''usage'') openai_parse_usage\<rparr>)"

definition openai_parse_response :: "serde_json \<Rightarrow> string \<Rightarrow> neutral_response result" where
  "openai_parse_response J body =
     (case from_str J body of
        Inl e \<Rightarrow> Inl (invalid_json e)
      | Inr v \<Rightarrow>
          (case as_object v of
             None \<Rightarrow> Inl (InvalidRequest ''expected a JSON object'')
           | Some m \<Rightarrow>
               (case value_get (Object m) ''error'' of
                  Some e \<Rightarrow> Inl (Upstream (ucast (unwrap_or (get_u64 e ''status'') 500)) body)
                | None \<Rightarrow> Inr (openai_response_of J (Object m)))))"

definition openai_response_message :: "serde_json \<Rightarrow> content_block list \<Rightarrow> value" where
  "openai_response_message J content =
     (let reasoning = block_thinkings content;
          tool_calls = List.map_filter (openai_tool_call J) content
      in jobj ([(''role'', String ''assistant''),
            (''content'', if list_ex is_image content then Array (List.map_filter openai_part content)
                          else String (join newline (block_texts content)))] @
            (if reasoning \<noteq> [] then [(''reasoning_content'', String (join newline reasoning))] else []) @
            (if tool_calls \<noteq> [] then [(''tool_calls'', Array tool_calls)] else [])))"

definition openai_usage_value :: "neutral_usage \<Rightarrow> value" where
  "openai_usage_value u = jobj [(''prompt_tokens'', jnum (input_tokens u)),
     (''completion_tokens'', jnum (output_tokens u)),
     (''total_tokens'', jnum (input_tokens u + output_tokens u))]"

definition openai_response_value :: "serde_json \<Rightarrow> u64 \<Rightarrow> neutral_response \<Rightarrow> value" where
  "openai_response_value J created resp =
     jobj ([(''id'', String (resp_id resp)), (''object'', String ''chat.completion''),
           (''created'', jnum created), (''model'', String (resp_model resp)),
           (''choices'', Array [jobj [(''index'', jnum 0),
              (''message'', openai_response_message J (resp_content resp)),
              (''finish_reason'', String (finish_as_str (resp_finish_reason resp)))]])] @
           (case resp_usage resp of Some u \<Rightarrow> [(''usage'', openai_usage_value u)] | None \<Rightarrow> []))"

definition openai_serialize_response :: "serde_json \<Rightarrow> u64 \<Rightarrow> neutral_response \<Rightarrow> string result" where
  "openai_serialize_response J created resp = Inr (to_string J (openai_response_value J created resp))"

definition openai_error_kind :: "adapter_error \<Rightarrow> u16 \<times> string" where
  "openai_error_kind err =
     (case err of
        InvalidRequest _ \<Rightarrow> (400, ''invalid_request_error'')
      | Authentication \<Rightarrow> (401, ''authentication_error'')
      | PermissionDenied \<Rightarrow> (403, ''permission_denied_error'')
      | RateLimit _ \<Rightarrow> (429, ''rate_limit_error'')
      | InsufficientQuota \<Rightarrow> (429, ''insufficient_quota'')
      | Overloaded \<Rightarrow> (503, ''overloaded_error'')
      | Api _ \<Rightarrow> (502, ''api_error'')
      | Upstream status _ \<Rightarrow> (status, ''upstream_error'')
      | Internal _ \<Rightarrow> (500, ''internal_error''))"

definition openai_serialize_error :: "serde_json \<Rightarrow> adapter_error \<Rightarrow> u16 \<times> string" where
  "openai_serialize_error J err =
     (let (status, etype) = openai_error_kind err in
      (status, to_string J (jobj [(''error'', jobj [(''message'', String (error_to_string err)),
         (''type'', String etype), (''code'', Null)])])))"

section \<open>What survives a trip through the dialect\<close>

text \<open>
  The normal form of a message list: what a reader of the written messages gets back. Texts and
  thinking are joined, a tool message holds one result, and blocks the dialect cannot carry are
  gone.
\<close>

definition text_blocks :: "string \<Rightarrow> content_block list" where
  "text_blocks t = (if t = [] then [] else [Text t])"

definition thinking_blocks :: "string \<Rightarrow> content_block list" where
  "thinking_blocks t = (if t = [] then [] else [Thinking t None])"

fun is_tool_use :: "content_block \<Rightarrow> bool" where
  "is_tool_use (ToolUse _ _ _) = True"
| "is_tool_use _ = False"

fun openai_normal_part :: "content_block \<Rightarrow> content_block option" where
  "openai_normal_part (Text t) = Some (Text t)"
| "openai_normal_part (Image media base) = Some (openai_image_from_url (openai_image_to_url media base))"
| "openai_normal_part _ = None"

fun openai_normal_result :: "content_block \<Rightarrow> neutral_message option" where
  "openai_normal_result (ToolResult i c e) = Some \<lparr>msg_role = Tool, msg_content = [ToolResult i c False]\<rparr>"
| "openai_normal_result _ = None"

definition openai_normal_content :: "content_block list \<Rightarrow> content_block list" where
  "openai_normal_content bs =
     (if list_ex is_image bs then List.map_filter openai_normal_part bs
      else text_blocks (join newline (block_texts bs)))"

definition openai_normal_message :: "neutral_message \<Rightarrow> neutral_message list" where
  "openai_normal_message m =
     (let bs = msg_content m in
      case msg_role m of
        Tool \<Rightarrow> List.map_filter openai_normal_result bs
      | Assistant \<Rightarrow>
          [\<lparr>msg_role = Assistant, msg_content = text_blocks (join newline (block_texts bs)) @
             thinking_blocks (join newline (block_thinkings bs)) @ filter is_tool_use bs\<rparr>]
      | role \<Rightarrow> [\<lparr>msg_role = role, msg_content = openai_normal_content bs\<rparr>])"

definition openai_normal_request :: "neutral_request \<Rightarrow> neutral_request" where
  "openai_normal_request req = req\<lparr>
     req_messages := concat (map openai_normal_message (req_messages req)),
     req_max_tokens := (if req_max_completion_tokens req = None then req_max_tokens req else None),
     req_temperature := opt_filter f64_is_finite (req_temperature req),
     req_top_p := opt_filter f64_is_finite (req_top_p req),
     req_top_k := None,
     req_stop := opt_filter (\<lambda>vals. vals \<noteq> []) (req_stop req)\<rparr>"

text \<open>The printer and the parser of JSON agree on every tool-call input.\<close>

definition inputs_read_back :: "serde_json \<Rightarrow> content_block list \<Rightarrow> bool" where
  "inputs_read_back J bs \<longleftrightarrow> list_all (\<lambda>b. is_tool_use b \<longrightarrow> reads_back J (tool_input b)) bs"

lemma openai_part_back:
  "openai_part b = Some v \<Longrightarrow> \<exists>c. openai_normal_part b = Some c \<and> openai_parse_content_part v = Some c"
  by (cases b) (auto simp: openai_parse_content_part_def)

lemma openai_part_None: "openai_part b = None \<longleftrightarrow> openai_normal_part b = None"
  by (cases b) auto

lemma openai_parts_back:
  "List.map_filter openai_parse_content_part (List.map_filter openai_part bs) = List.map_filter openai_normal_part bs"
proof (induction bs)
  case (Cons b bs)
  then show ?case using openai_part_back [of b] openai_part_None [of b] by (cases "openai_part b") auto
qed simp

lemma openai_tool_calls_back:
  "inputs_read_back J bs \<Longrightarrow>
   List.map_filter (openai_parse_tool_call J) (List.map_filter (openai_tool_call J) bs) = filter is_tool_use bs"
proof (induction bs)
  case (Cons b bs)
  then show ?case
    by (cases b) (auto simp: inputs_read_back_def openai_parse_tool_call_def reads_back_def Let_def)
qed simp

lemma openai_tool_calls_none: "List.map_filter (openai_tool_call J) bs = [] \<longleftrightarrow> filter is_tool_use bs = []"
proof (induction bs)
  case (Cons b bs)
  then show ?case by (cases b) auto
qed simp

lemma openai_parse_role_name [simp]: "openai_parse_role (openai_role_name r) = Some r"
  by (cases r) (simp_all add: openai_parse_role_def openai_role_name_def)

text \<open>The three parts of an assistant message, read back from the object that holds them.\<close>

lemma openai_content_back:
  assumes "value_get v ''content'' = Some (if list_ex is_image bs then Array (List.map_filter openai_part bs)
      else String (join newline (block_texts bs)))"
  shows "openai_parse_content v = openai_normal_content bs"
  using assms by (simp add: openai_parse_content_def openai_normal_content_def text_blocks_def openai_parts_back)

lemma openai_reasoning_back:
  assumes "value_get v ''reasoning_content'' = (if ts = [] then None else Some (String (join newline ts)))"
    and "value_get v ''reasoning'' = None"
  shows "openai_reasoning v = thinking_blocks (join newline ts)"
  using assms by (simp add: openai_reasoning_def thinking_blocks_def)

lemma openai_calls_back:
  assumes "value_get v ''tool_calls'' = (let tc = List.map_filter (openai_tool_call J) bs in if tc = [] then None else Some (Array tc))"
    and "inputs_read_back J bs"
  shows "openai_tool_calls J v = filter is_tool_use bs"
proof (cases "List.map_filter (openai_tool_call J) bs = []")
  case True
  then have "filter is_tool_use bs = []" by (simp only: openai_tool_calls_none)
  with True assms(1) show ?thesis by (simp add: openai_tool_calls_def)
next
  case False
  with assms show ?thesis by (simp add: openai_tool_calls_def Let_def openai_tool_calls_back)
qed

lemma openai_results_back:
  "List.map_filter (openai_parse_message J) (List.map_filter openai_tool_message bs) = List.map_filter openai_normal_result bs"
proof (induction bs)
  case (Cons b bs)
  then show ?case
    by (cases b) (auto simp: openai_parse_message_def openai_parse_role_def openai_parse_content_def Let_def)
qed simp

lemma openai_message_back:
  assumes "inputs_read_back J (msg_content m)"
  shows "List.map_filter (openai_parse_message J) (openai_serialize_message J m) = openai_normal_message m"
proof -
  let ?bs = "msg_content m"
  show ?thesis
  proof (cases "msg_role m")
    case Tool
    then show ?thesis by (simp add: openai_serialize_message_def openai_normal_message_def openai_results_back Let_def)
  next
    case Assistant
    let ?v = "hd (openai_serialize_message J m)"
    have v: "openai_serialize_message J m = [?v]" using Assistant by (simp add: openai_serialize_message_def Let_def)
    have g: "value_get ?v ''role'' = Some (String ''assistant'')"
      "value_get ?v ''content'' = Some (String (join newline (block_texts ?bs)))"
      "value_get ?v ''reasoning_content'' = (if block_thinkings ?bs = [] then None else Some (String (join newline (block_thinkings ?bs))))"
      "value_get ?v ''reasoning'' = None"
      "value_get ?v ''tool_calls'' = (let tc = List.map_filter (openai_tool_call J) ?bs in if tc = [] then None else Some (Array tc))"
      using Assistant by (simp_all add: openai_serialize_message_def Let_def)
    have "openai_parse_content ?v = text_blocks (join newline (block_texts ?bs))"
      using g(2) by (simp add: openai_parse_content_def text_blocks_def)
    with g openai_reasoning_back [OF g(3,4)] openai_calls_back [OF g(5) assms] Assistant show ?thesis
      by (subst v) (simp add: openai_parse_message_def openai_parse_role_def openai_normal_message_def Let_def)
  next
    case System
    let ?v = "hd (openai_serialize_message J m)"
    have v: "openai_serialize_message J m = [?v]" using System by (simp add: openai_serialize_message_def Let_def)
    have "openai_parse_content ?v = openai_normal_content ?bs"
      using System by (intro openai_content_back) (simp add: openai_serialize_message_def Let_def)
    moreover have "value_get ?v ''role'' = Some (String ''system'')"
      using System by (simp add: openai_serialize_message_def openai_role_name_def Let_def)
    ultimately show ?thesis using System
      by (subst v) (simp add: openai_parse_message_def openai_parse_role_def openai_normal_message_def Let_def)
  next
    case User
    let ?v = "hd (openai_serialize_message J m)"
    have v: "openai_serialize_message J m = [?v]" using User by (simp add: openai_serialize_message_def Let_def)
    have "openai_parse_content ?v = openai_normal_content ?bs"
      using User by (intro openai_content_back) (simp add: openai_serialize_message_def Let_def)
    moreover have "value_get ?v ''role'' = Some (String ''user'')"
      using User by (simp add: openai_serialize_message_def openai_role_name_def Let_def)
    ultimately show ?thesis using User
      by (subst v) (simp add: openai_parse_message_def openai_parse_role_def openai_normal_message_def Let_def)
  qed
qed

lemma openai_messages_back:
  "(\<And>m. m \<in> set ms \<Longrightarrow> inputs_read_back J (msg_content m)) \<Longrightarrow>
   List.map_filter (openai_parse_message J) (concat (map (openai_serialize_message J) ms))
   = concat (map openai_normal_message ms)"
  by (induction ms) (simp_all add: openai_message_back)

lemma openai_tool_back [simp]: "openai_parse_tool (openai_serialize_tool t) = Some t"
  by (cases t; cases "nt_description t") (simp_all add: openai_parse_tool_def openai_serialize_tool_def Let_def)

lemma openai_tools_back [simp]: "List.map_filter openai_parse_tool (map openai_serialize_tool ts) = ts"
  by (induction ts) simp_all

lemma map_filter_as_str [simp]: "List.map_filter as_str (map String xs) = xs"
  by (induction xs) simp_all

lemma bind_jf64 [simp]: "Option.bind (map_option jf64 x) as_f64 = opt_filter f64_is_finite x"
  by (cases x) (simp_all add: jf64_def)

text \<open>The lookups that the reader of a written request makes.\<close>

lemma openai_request_fields:
  assumes "v = openai_request_value J req"
  shows "value_get v ''model'' = Some (String (req_model req))"
    "value_get v ''messages'' = Some (Array (concat (map (openai_serialize_message J) (req_messages req))))"
    "value_get v ''tools'' = (if req_tools req = [] then None else Some (Array (map openai_serialize_tool (req_tools req))))"
    "value_get v ''max_completion_tokens'' = map_option jnum32 (req_max_completion_tokens req)"
    "value_get v ''max_tokens'' = (if req_max_completion_tokens req = None then map_option jnum32 (req_max_tokens req) else None)"
    "value_get v ''temperature'' = map_option jf64 (req_temperature req)"
    "value_get v ''top_p'' = map_option jf64 (req_top_p req)"
    "value_get v ''stop'' = map_option (\<lambda>stop. if length stop = 1 then String (stop ! 0) else Array (map String stop)) (req_stop req)"
    "value_get v ''stream'' = (if req_stream req then Some (Bool True) else None)"
  unfolding assms openai_request_value_def obj_fields by (simp_all split: option.split)

lemma openai_stop_back:
  assumes "value_get v ''stop'' = map_option (\<lambda>stop. if length stop = 1 then String (stop ! 0) else Array (map String stop)) x"
  shows "openai_parse_stop v = opt_filter (\<lambda>vals. vals \<noteq> []) x"
proof (cases x)
  case (Some st)
  then show ?thesis using assms by (cases "length st = 1") (auto simp: openai_parse_stop_def length_Suc_conv)
qed (use assms in \<open>simp add: openai_parse_stop_def\<close>)

lemma openai_request_back:
  assumes "\<And>m. m \<in> set (req_messages req) \<Longrightarrow> inputs_read_back J (msg_content m)"
  shows "openai_request_of J (openai_request_value J req) = openai_normal_request req"
proof -
  note f = openai_request_fields [OF refl, of J req]
  have n: "Option.bind (map_option jnum32 x) as_u64 = map_option ucast x" for x by (cases x) simp_all
  have u: "map_option (as_u32 \<circ> ucast) x = x" for x :: "u32 option" by (cases x) simp_all
  have t: "List.map_filter openai_parse_tool (unwrap_or (get_array (openai_request_value J req) ''tools'') []) = req_tools req"
    by (simp add: f)
  have m: "List.map_filter (openai_parse_message J) (unwrap_or (get_array (openai_request_value J req) ''messages'') [])
      = concat (map openai_normal_message (req_messages req))"
    using assms by (simp add: f openai_messages_back)
  show ?thesis
    unfolding openai_request_of_def t m
    by (cases "req_max_completion_tokens req")
      (simp_all add: f n u openai_stop_back [OF f(8)] openai_normal_request_def option.map_comp)
qed

lemma openai_finish_back [simp]: "openai_parse_finish_reason (finish_as_str r) = r \<or> (\<exists>s. r = Other s)"
  by (cases r) (simp_all add: openai_parse_finish_reason_def)

lemma openai_response_fields:
  assumes "v = openai_response_value J created resp"
  shows "value_get v ''error'' = None"
    "value_get v ''id'' = Some (String (resp_id resp))"
    "value_get v ''model'' = Some (String (resp_model resp))"
    "value_get v ''choices'' = Some (Array [jobj [(''index'', jnum 0),
       (''message'', openai_response_message J (resp_content resp)),
       (''finish_reason'', String (finish_as_str (resp_finish_reason resp)))]])"
    "value_get v ''usage'' = map_option openai_usage_value (resp_usage resp)"
  unfolding assms openai_response_value_def by (simp_all split: option.split)

lemma openai_response_message_fields:
  assumes "v = openai_response_message J bs"
  shows "value_get v ''content'' = Some (if list_ex is_image bs then Array (List.map_filter openai_part bs)
        else String (join newline (block_texts bs)))"
    "value_get v ''reasoning_content'' = (if block_thinkings bs = [] then None else Some (String (join newline (block_thinkings bs))))"
    "value_get v ''reasoning'' = None"
    "value_get v ''tool_calls'' = (let tc = List.map_filter (openai_tool_call J) bs in if tc = [] then None else Some (Array tc))"
  unfolding assms openai_response_message_def by (simp_all add: Let_def)

definition openai_normal_response :: "neutral_response \<Rightarrow> neutral_response" where
  "openai_normal_response resp =
     (let bs = resp_content resp in
      resp\<lparr>resp_content := openai_normal_content bs @ thinking_blocks (join newline (block_thinkings bs)) @
           filter is_tool_use bs,
         resp_finish_reason := openai_parse_finish_reason (finish_as_str (resp_finish_reason resp))\<rparr>)"

lemma openai_response_back:
  assumes "inputs_read_back J (resp_content resp)"
  shows "openai_response_of J (openai_response_value J created resp) = openai_normal_response resp"
proof -
  let ?bs = "resp_content resp" and ?v = "openai_response_value J created resp"
  note f = openai_response_fields [OF refl, of J created resp]
    and g = openai_response_message_fields [OF refl, of J ?bs]
  have b: "openai_parse_message_blocks J (openai_response_message J ?bs) = openai_normal_content ?bs @
      thinking_blocks (join newline (block_thinkings ?bs)) @ filter is_tool_use ?bs"
    using openai_content_back [OF g(1)] openai_reasoning_back [OF g(2,3)] openai_calls_back [OF g(4) assms]
    by (simp add: openai_parse_message_blocks_def)
  have u: "Option.bind (value_get ?v ''usage'') openai_parse_usage = resp_usage resp"
    by (cases "resp_usage resp") (simp_all add: f openai_parse_usage_def openai_usage_value_def)
  show ?thesis
    unfolding openai_response_of_def u
    by (simp add: b f openai_normal_response_def Let_def)
qed

lemma openai_image_back:
  assumes "if media = ''url'' then \<not> prefix ''data:'' base else CHR '','' \<notin> set media"
  shows "openai_image_from_url (openai_image_to_url media base) = Image media base"
proof (cases "media = ''url''")
  case True
  with assms show ?thesis by (simp add: openai_image_from_url_def openai_image_to_url_def strip_prefix_def)
next
  case False
  let ?meta = "media @ '';base64''"
  have "CHR '','' \<notin> set ?meta" using False assms by simp
  from split_once_char_app [OF this, of base]
  have "split_once_char CHR '','' (media @ '';base64,'' @ base) = Some (?meta, base)" by simp
  moreover have "strip_prefix ''data:'' (''data:'' @ x) = Some x" for x
    by (simp only: strip_prefix_Some)
  moreover have "strip_suffix '';base64'' ?meta = Some media" by (simp only: strip_suffix_Some)
  ultimately show ?thesis using False
    by (simp only: openai_image_from_url_def openai_image_to_url_def if_False bind.bind_lunit prod.case
        option.map option.case)
qed

section \<open>An example\<close>

definition example_conversation :: neutral_request where
  "example_conversation = (new_request ''gpt-4o''
     [\<lparr>msg_role = User, msg_content = [Text ''what is'', Text ''it?'']\<rparr>,
      \<lparr>msg_role = User, msg_content = [Text ''see'', Image ''image/png'' ''AAAA'']\<rparr>,
      \<lparr>msg_role = Assistant, msg_content = [Thinking ''hm'' (Some ''sig''), ToolUse ''c1'' ''look'' (Object [])]\<rparr>,
      \<lparr>msg_role = Tool, msg_content = [ToolResult ''c1'' ''a'' True, ToolResult ''c2'' ''b'' False]\<rparr>])
     \<lparr>req_max_tokens := Some 7, req_stop := Some [''END''], req_stream := True\<rparr>"

definition example_inputs :: "(string \<times> value) list" where
  "example_inputs = [(''{}'', Object [])]"

definition example_reply :: neutral_response where
  "example_reply = \<lparr>resp_id = ''r1'', resp_model = ''gpt-4o'',
     resp_content = [Text ''hi'', Thinking ''hm'' None, ToolUse ''c1'' ''look'' (Object [])],
     resp_finish_reason = ToolCalls, resp_usage = Some \<lparr>input_tokens = 3, output_tokens = 4\<rparr>\<rparr>"

definition openai_example_json :: serde_json where
  "openai_example_json = table_json (example_inputs @
     [(''request'', openai_request_value (table_json example_inputs) example_conversation),
      (''response'', openai_response_value (table_json example_inputs) 5 example_reply)])"

lemma openai_example_reads:
  "reads_back openai_example_json (openai_request_value openai_example_json example_conversation)"
  "reads_back openai_example_json (openai_response_value openai_example_json 5 example_reply)"
  "\<forall>m \<in> set (req_messages example_conversation). inputs_read_back openai_example_json (msg_content m)"
  "inputs_read_back openai_example_json (resp_content example_reply)"
  by code_simp+

section \<open>Properties\<close>

text \<open>
  C22: an OpenAI request survives a trip through its own wire format. Reading back a written
  request gives its normal form: the same model, tools, sampling parameters, stop list and stream
  flag, and message by message the texts joined, the thinking joined, every tool call, and each
  tool result as a message of its own.
\<close>

theorem openai_request_roundtrip:
  assumes "reads_back J (openai_request_value J req)"
    and "\<forall>m \<in> set (req_messages req). inputs_read_back J (msg_content m)"
  shows "\<exists>body. openai_serialize_request J req = Inr body \<and>
    openai_parse_request J body = Inr (openai_normal_request req)"
proof -
  obtain m where m: "openai_request_value J req = Object m" by (simp add: openai_request_value_def jobj_def)
  then show ?thesis
    using assms(1) openai_request_back [of req J] assms(2)
    by (simp add: openai_serialize_request_def openai_parse_request_def reads_back_def)
qed

theorem openai_request_roundtrip_witness:
  "\<exists>body. openai_serialize_request openai_example_json example_conversation = Inr body \<and>
     openai_parse_request openai_example_json body = Inr (openai_normal_request example_conversation)"
  using openai_request_roundtrip [OF openai_example_reads(1,3)] .



end
