(* ===== verification/Utf8.thy ===== *)
theory Utf8
  imports Prelude
begin

text \<open>
  UTF-8 as Rust's standard library reads it: \<open>str::from_utf8\<close>, \<open>String::from_utf8_lossy\<close>,
  \<open>char\<close> iteration, \<open>char::is_whitespace\<close>, \<open>str::trim\<close>, \<open>split_once(char::is_whitespace)\<close>,
  \<open>split_whitespace().count()\<close> and \<open>is_char_boundary\<close>, all on the bytes of the string.
\<close>

section \<open>Decoding\<close>

definition byte :: "char \<Rightarrow> nat" where
  "byte c = of_char c"

definition byte_at :: "string \<Rightarrow> nat \<Rightarrow> nat" where
  "byte_at s i = (if i < length s then byte (s ! i) else 0)"

definition is_cont :: "nat \<Rightarrow> bool" where
  "is_cont b \<longleftrightarrow> 128 \<le> b \<and> b < 192"

text \<open>
  One step of the decoder on a non-empty string: how many bytes belong to the next character
  or to the next maximal invalid sequence, and which of the two it is.
\<close>

definition utf8_two :: "nat \<Rightarrow> nat \<times> bool" where
  "utf8_two c = (if is_cont c then (2, True) else (1, False))"

definition utf8_three :: "nat \<Rightarrow> nat \<Rightarrow> nat \<Rightarrow> nat \<times> bool" where
  "utf8_three b c d =
     (if is_cont c \<and> (b = 224 \<longrightarrow> 160 \<le> c) \<and> (b = 237 \<longrightarrow> c < 160)
      then (if is_cont d then (3, True) else (2, False))
      else (1, False))"

definition utf8_four :: "nat \<Rightarrow> nat \<Rightarrow> nat \<Rightarrow> nat \<Rightarrow> nat \<times> bool" where
  "utf8_four b c d e =
     (if is_cont c \<and> (b = 240 \<longrightarrow> 144 \<le> c) \<and> (b = 244 \<longrightarrow> c < 144)
      then (if is_cont d then (if is_cont e then (4, True) else (3, False)) else (2, False))
      else (1, False))"

definition utf8_step :: "string \<Rightarrow> nat \<times> bool" where
  "utf8_step s =
     (let b = byte_at s 0 in
      if b < 128 then (1, True)
      else if 194 \<le> b \<and> b < 224 then utf8_two (byte_at s 1)
      else if 224 \<le> b \<and> b < 240 then utf8_three b (byte_at s 1) (byte_at s 2)
      else if 240 \<le> b \<and> b < 245 then utf8_four b (byte_at s 1) (byte_at s 2) (byte_at s 3)
      else (1, False))"

lemma utf8_seq_pos: "0 < fst (utf8_two c)" "0 < fst (utf8_three b c d)" "0 < fst (utf8_four b c d e)"
  by (simp_all add: utf8_two_def utf8_three_def utf8_four_def)

lemma utf8_step_pos: "0 < fst (utf8_step s)"
  by (simp add: utf8_step_def Let_def utf8_seq_pos)

lemma byte_at_less: "is_cont (byte_at s i) \<Longrightarrow> i < length s"
  by (auto simp: byte_at_def is_cont_def split: if_splits)

lemma utf8_two_True: "utf8_two c = (n, True) \<Longrightarrow> n = 2 \<and> is_cont c"
  by (simp add: utf8_two_def split: if_splits)

lemma utf8_three_True: "utf8_three b c d = (n, True) \<Longrightarrow> n = 3 \<and> is_cont d"
  by (simp add: utf8_three_def split: if_split_asm)

lemma utf8_four_True: "utf8_four b c d e = (n, True) \<Longrightarrow> n = 4 \<and> is_cont e"
  by (simp add: utf8_four_def split: if_split_asm)

lemma byte_at_app: "i < length s \<Longrightarrow> byte_at (s @ t) i = byte_at s i"
  by (simp add: byte_at_def nth_append)

text \<open>The four shapes of a valid step.\<close>

lemma utf8_step_cases:
  assumes "utf8_step s = (n, True)"
  obtains (one) "byte_at s 0 < 128" "n = 1"
  | (two) "194 \<le> byte_at s 0 \<and> byte_at s 0 < 224" "utf8_two (byte_at s 1) = (n, True)"
      "n = 2" "1 < length s"
  | (three) "224 \<le> byte_at s 0 \<and> byte_at s 0 < 240"
      "utf8_three (byte_at s 0) (byte_at s 1) (byte_at s 2) = (n, True)" "n = 3" "2 < length s"
  | (four) "240 \<le> byte_at s 0 \<and> byte_at s 0 < 245"
      "utf8_four (byte_at s 0) (byte_at s 1) (byte_at s 2) (byte_at s 3) = (n, True)"
      "n = 4" "3 < length s"
proof -
  let ?b = "byte_at s 0"
  consider "?b < 128" | "194 \<le> ?b \<and> ?b < 224" | "224 \<le> ?b \<and> ?b < 240" | "240 \<le> ?b \<and> ?b < 245"
    using assms by (cases "?b < 128"; cases "194 \<le> ?b \<and> ?b < 224";
      cases "224 \<le> ?b \<and> ?b < 240"; cases "240 \<le> ?b \<and> ?b < 245")
      (simp_all only: utf8_step_def Let_def if_False if_True prod.inject simp_thms)
  then show thesis
  proof cases
    case 1
    with assms show thesis by (intro one) (simp_all add: utf8_step_def)
  next
    case 2
    then have "utf8_two (byte_at s 1) = (n, True)" using assms by (simp add: utf8_step_def)
    with 2 show thesis using utf8_two_True byte_at_less by (intro two) blast+
  next
    case 3
    then have "utf8_three ?b (byte_at s 1) (byte_at s 2) = (n, True)"
      using assms by (simp add: utf8_step_def)
    with 3 show thesis using utf8_three_True byte_at_less by (intro three) blast+
  next
    case 4
    then have "utf8_four ?b (byte_at s 1) (byte_at s 2) (byte_at s 3) = (n, True)"
      using assms by (simp add: utf8_step_def)
    with 4 show thesis using utf8_four_True byte_at_less by (intro four) blast+
  qed
qed

lemma utf8_step_length: "s \<noteq> [] \<Longrightarrow> utf8_step s = (n, True) \<Longrightarrow> n \<le> length s"
  by (erule utf8_step_cases) (auto simp: Suc_leI)

lemma utf8_step_app:
  assumes "s \<noteq> []" "utf8_step s = (n, True)"
  shows "utf8_step (s @ t) = (n, True)"
proof -
  have b0: "byte_at (s @ t) 0 = byte_at s 0" using assms(1) by (simp add: byte_at_app)
  show ?thesis
    using assms(2)
  proof (cases rule: utf8_step_cases)
    case one
    then show ?thesis by (simp add: utf8_step_def b0)
  next
    case two
    then have "byte_at (s @ t) 1 = byte_at s 1" by (simp add: byte_at_app)
    with two b0 show ?thesis by (simp add: utf8_step_def)
  next
    case three
    then have "byte_at (s @ t) 1 = byte_at s 1" "byte_at (s @ t) 2 = byte_at s 2"
      by (simp_all add: byte_at_app)
    with three b0 show ?thesis by (simp add: utf8_step_def)
  next
    case four
    then have "byte_at (s @ t) 1 = byte_at s 1" "byte_at (s @ t) 2 = byte_at s 2"
      "byte_at (s @ t) 3 = byte_at s 3"
      by (simp_all add: byte_at_app)
    with four b0 show ?thesis by (simp add: utf8_step_def)
  qed
qed

function utf8_chunks :: "string \<Rightarrow> (string \<times> bool) list" where
  "utf8_chunks s =
     (if s = [] then []
      else let (n, ok) = utf8_step s in (take n s, ok) # utf8_chunks (drop n s))"
  by pat_completeness auto
termination
proof (relation "measure length")
  fix s :: string and x n ok
  assume s: "s \<noteq> []" and x: "x = utf8_step s" "(n, ok) = x"
  with utf8_step_pos [of s] have "0 < n" by (metis fst_conv)
  with s show "(drop n s, s) \<in> measure length" by (simp add: diff_less)
qed simp

declare utf8_chunks.simps [simp del]

text \<open>\<open>str::from_utf8(bytes).is_ok()\<close>, the lossy reading, and the characters of a string.\<close>

definition utf8_valid :: "bytes \<Rightarrow> bool" where
  "utf8_valid s \<longleftrightarrow> list_all snd (utf8_chunks s)"

definition replacement_char :: string where
  "replacement_char = map char_of [239, 191, 189 :: nat]"

definition from_utf8_lossy :: "bytes \<Rightarrow> string" where
  "from_utf8_lossy s = concat (map (\<lambda>(c, ok). if ok then c else replacement_char) (utf8_chunks s))"

definition chars :: "string \<Rightarrow> string list" where
  "chars s = map fst (utf8_chunks s)"

lemma utf8_chunks_Nil [simp]: "utf8_chunks [] = []"
  by (simp add: utf8_chunks.simps)

lemma concat_chars [simp]: "concat (chars s) = s"
proof (induction s rule: utf8_chunks.induct)
  case (1 s)
  then show ?case
    by (cases "s = []"; cases "utf8_step s") (simp_all add: chars_def utf8_chunks.simps [of s])
qed

lemma lossy_valid: "utf8_valid s \<Longrightarrow> from_utf8_lossy s = s"
proof -
  assume "utf8_valid s"
  then have "map (\<lambda>(c, ok). if ok then c else replacement_char) (utf8_chunks s) = chars s"
    by (auto simp: utf8_valid_def chars_def list_all_iff)
  then show ?thesis by (simp add: from_utf8_lossy_def)
qed

lemma utf8_chunks_app: "utf8_valid s \<Longrightarrow> utf8_chunks (s @ t) = utf8_chunks s @ utf8_chunks t"
proof (induction s rule: utf8_chunks.induct)
  case (1 s)
  show ?case
  proof (cases "s = []")
    case False
    obtain n ok where st: "utf8_step s = (n, ok)" by (cases "utf8_step s")
    with False "1.prems" have ok: "ok" and val: "utf8_valid (drop n s)"
      by (simp_all add: utf8_valid_def utf8_chunks.simps [of s])
    with st False have n: "n \<le> length s" by (simp add: utf8_step_length)
    have "utf8_chunks (drop n s @ t) = utf8_chunks (drop n s) @ utf8_chunks t"
      using "1.IH" [OF False st [symmetric]] val by simp
    with False st ok n utf8_step_app [of s n t] show ?thesis
      by (simp add: utf8_chunks.simps [of "s @ t"] utf8_chunks.simps [of s])
  qed simp
qed

lemma utf8_valid_app: "utf8_valid s \<Longrightarrow> utf8_valid t \<Longrightarrow> utf8_valid (s @ t)"
  by (simp add: utf8_valid_def utf8_chunks_app [unfolded utf8_valid_def])

lemma utf8_valid_Nil [simp]: "utf8_valid []"
  by (simp add: utf8_valid_def)

lemma utf8_valid_ascii: "byte c < 128 \<Longrightarrow> utf8_valid [c]"
  by (simp add: utf8_valid_def utf8_chunks.simps utf8_step_def byte_at_def)

section \<open>Whitespace\<close>

text \<open>\<open>char::is_whitespace\<close>: the characters with the Unicode property White_Space.\<close>

definition is_whitespace :: "string \<Rightarrow> bool" where
  "is_whitespace c \<longleftrightarrow>
     (case map byte c of
        [b] \<Rightarrow> (9 \<le> b \<and> b \<le> 13) \<or> b = 32
      | [b1, b2] \<Rightarrow> b1 = 194 \<and> (b2 = 133 \<or> b2 = 160)
      | [b1, b2, b3] \<Rightarrow>
          (b1 = 225 \<and> b2 = 154 \<and> b3 = 128) \<or>
          (b1 = 226 \<and> b2 = 128 \<and> ((128 \<le> b3 \<and> b3 \<le> 138) \<or> b3 = 168 \<or> b3 = 169 \<or> b3 = 175)) \<or>
          (b1 = 226 \<and> b2 = 129 \<and> b3 = 159) \<or>
          (b1 = 227 \<and> b2 = 128 \<and> b3 = 128)
      | _ \<Rightarrow> False)"

definition trim :: "string \<Rightarrow> string" where
  "trim s = concat (rev (dropWhile is_whitespace (rev (dropWhile is_whitespace (chars s)))))"

text \<open>\<open>split_once(char::is_whitespace)\<close>: around the first whitespace character.\<close>

definition split_once_ws :: "string \<Rightarrow> (string \<times> string) option" where
  "split_once_ws s =
     (case dropWhile (\<lambda>c. \<not> is_whitespace c) (chars s) of
        [] \<Rightarrow> None
      | _ # rest \<Rightarrow> Some (concat (takeWhile (\<lambda>c. \<not> is_whitespace c) (chars s)), concat rest))"

text \<open>\<open>split_whitespace().count()\<close>: the number of maximal runs of non-whitespace.\<close>

fun count_words_aux :: "bool \<Rightarrow> string list \<Rightarrow> nat" where
  "count_words_aux inside [] = 0"
| "count_words_aux inside (c # cs) =
     (if is_whitespace c then count_words_aux False cs
      else if inside then count_words_aux True cs
      else Suc (count_words_aux True cs))"

definition count_words :: "string \<Rightarrow> nat" where
  "count_words s = count_words_aux False (chars s)"

lemma count_words_le: "count_words s \<le> length (chars s)"
proof -
  have "count_words_aux b cs \<le> length cs" for b cs
    by (induction b cs rule: count_words_aux.induct) auto
  then show ?thesis by (simp add: count_words_def)
qed

section \<open>Character boundaries and ASCII case\<close>

definition is_char_boundary :: "string \<Rightarrow> nat \<Rightarrow> bool" where
  "is_char_boundary s i \<longleftrightarrow> i = 0 \<or> i = length s \<or> (i < length s \<and> \<not> is_cont (byte (s ! i)))"

definition ascii_lower :: "char \<Rightarrow> char" where
  "ascii_lower c = (if 65 \<le> byte c \<and> byte c \<le> 90 then char_of (byte c + 32) else c)"

definition eq_ignore_ascii_case :: "string \<Rightarrow> string \<Rightarrow> bool" where
  "eq_ignore_ascii_case a b \<longleftrightarrow> map ascii_lower a = map ascii_lower b"

end
