(* ===== verification/Sse.thy ===== *)
theory Sse
  imports Utf8
begin

text \<open>
  The SSE framing parser (\<open>src/core/sse.rs\<close>): bytes in, event payloads out. The cursor of the
  code's line loop is the recursion over what is left of the buffer; the bytes before the
  cursor are drained once at the end, so the remainder is the new buffer.
\<close>

section \<open>State\<close>

definition MAX_BUFFER_BYTES :: nat where
  "MAX_BUFFER_BYTES = 64 * 1024 * 1024"

abbreviation nl :: char where "nl \<equiv> CHR 0x0A"
abbreviation cr :: char where "cr \<equiv> CHR 0x0D"

record sse_framing =
  sf_buffer :: bytes
  sf_data_lines :: bytes
  sf_data_lines_bytes :: nat
  sf_invalid_utf8_lines :: u64

definition sse_new :: sse_framing where
  "sse_new = \<lparr>sf_buffer = [], sf_data_lines = [], sf_data_lines_bytes = 0, sf_invalid_utf8_lines = 0\<rparr>"

section \<open>Operations\<close>

text \<open>A line without its optional carriage return, and the value of a \<open>data:\<close> field.\<close>

definition strip_cr :: "bytes \<Rightarrow> bytes" where
  "strip_cr line = (case strip_suffix [cr] line of Some stripped \<Rightarrow> stripped | None \<Rightarrow> line)"

definition data_field :: "bytes \<Rightarrow> bytes option" where
  "data_field line =
     (case strip_prefix ''data:'' line of
        None \<Rightarrow> None
      | Some data \<Rightarrow> Some (case strip_prefix '' '' data of Some d \<Rightarrow> d | None \<Rightarrow> data))"

text \<open>One line, its terminator removed: the new state and the payload a blank line completes.\<close>

definition sse_line :: "bytes \<Rightarrow> sse_framing \<Rightarrow> sse_framing \<times> string list" where
  "sse_line raw f =
     (let line = strip_cr raw in
      if line = [] then
        (if sf_data_lines f \<noteq> []
         then (f\<lparr>sf_data_lines := [], sf_data_lines_bytes := 0\<rparr>,
               [from_utf8_lossy (butlast (sf_data_lines f))])
         else (f, []))
      else
        (case data_field line of
           None \<Rightarrow> (f, [])
         | Some data \<Rightarrow>
             if utf8_valid data then
               (let n = sf_data_lines_bytes f + length data + 1 in
                if MAX_BUFFER_BYTES < n
                then (f\<lparr>sf_data_lines := [], sf_data_lines_bytes := 0\<rparr>, [])
                else (f\<lparr>sf_data_lines := sf_data_lines f @ data @ [nl],
                        sf_data_lines_bytes := n\<rparr>, []))
             else (f\<lparr>sf_invalid_utf8_lines := sf_invalid_utf8_lines f + 1\<rparr>, [])))"

lemma split_once_char_less: "split_once_char c s = Some (a, b) \<Longrightarrow> length b < length s"
  by (simp add: split_once_char_Some)

function sse_lines :: "bytes \<Rightarrow> sse_framing \<Rightarrow> bytes \<times> sse_framing \<times> string list" where
  "sse_lines buf f =
     (case split_once_char nl buf of
        None \<Rightarrow> (buf, f, [])
      | Some (line, rest) \<Rightarrow>
          (let (f', ps) = sse_line line f;
               (left, f'', ps') = sse_lines rest f'
           in (left, f'', ps @ ps')))"
  by pat_completeness auto
termination
  by (relation "measure (\<lambda>(buf, f). length buf)") (auto dest: split_once_char_less)

declare sse_lines.simps [simp del]

definition sse_push :: "sse_framing \<Rightarrow> bytes \<Rightarrow> sse_framing \<times> string list" where
  "sse_push f chunk =
     (if MAX_BUFFER_BYTES < length chunk then (f, [])
      else
        let f1 = (if MAX_BUFFER_BYTES < length (sf_buffer f) + length chunk
                  then f\<lparr>sf_buffer := [], sf_data_lines := [], sf_data_lines_bytes := 0\<rparr>
                  else f);
            (left, f2, payloads) = sse_lines (sf_buffer f1 @ chunk) f1
        in (f2\<lparr>sf_buffer := left\<rparr>, payloads))"

definition sse_finish :: "sse_framing \<Rightarrow> sse_framing \<times> string list" where
  "sse_finish f =
     (f\<lparr>sf_data_lines := [], sf_data_lines_bytes := 0, sf_buffer := []\<rparr>,
      if sf_data_lines f = [] then [] else [from_utf8_lossy (butlast (sf_data_lines f))])"

text \<open>A stream of chunks, as the pipeline feeds them.\<close>

fun sse_run :: "sse_framing \<Rightarrow> bytes list \<Rightarrow> sse_framing \<times> string list" where
  "sse_run f [] = (f, [])"
| "sse_run f (c # cs) =
     (let (f', ps) = sse_push f c; (f'', ps') = sse_run f' cs in (f'', ps @ ps'))"

section \<open>Line loop\<close>

lemma sse_line_frame:
  "sse_line raw f = (f', ps) \<Longrightarrow> sf_buffer f' = sf_buffer f"
  by (auto simp: sse_line_def Let_def split: if_splits option.splits)

text \<open>The loop line by line: a case rule that hides the tuples of the definition.\<close>

lemma sse_lines_no_nl: "nl \<notin> set buf \<Longrightarrow> sse_lines buf f = (buf, f, [])"
proof -
  assume "nl \<notin> set buf"
  then have "split_once_char nl buf = None"
    by (metis in_set_conv_decomp option.exhaust prod.exhaust split_once_char_Some)
  then show ?thesis by (simp add: sse_lines.simps)
qed

lemma sse_lines_nl:
  "nl \<notin> set line \<Longrightarrow> sse_line line f = (f1, p1) \<Longrightarrow> sse_lines rest f1 = (left, f2, p2) \<Longrightarrow>
   sse_lines (line @ nl # rest) f = (left, f2, p1 @ p2)"
  by (simp add: sse_lines.simps [of "line @ nl # rest"])

lemma sse_lines_induct [consumes 1, case_names rest line]:
  assumes eq: "sse_lines buf f = (left, f2, p2)"
    and rest: "\<And>buf f. nl \<notin> set buf \<Longrightarrow> P buf f buf f []"
    and line: "\<And>line rest f f1 p1 left f2 p2. nl \<notin> set line \<Longrightarrow> sse_line line f = (f1, p1) \<Longrightarrow>
      sse_lines rest f1 = (left, f2, p2) \<Longrightarrow> P rest f1 left f2 p2 \<Longrightarrow>
      P (line @ nl # rest) f left f2 (p1 @ p2)"
  shows "P buf f left f2 p2"
  using eq
proof (induction "length buf" arbitrary: buf f left f2 p2 rule: less_induct)
  case less
  show ?case
  proof (cases "nl \<in> set buf")
    case False
    with less.prems show ?thesis by (auto simp: sse_lines_no_nl intro: rest)
  next
    case True
    then obtain l r where buf: "buf = l @ nl # r" and l: "nl \<notin> set l"
      using split_list_first by metis
    obtain f1 p1 where sl: "sse_line l f = (f1, p1)" by (cases "sse_line l f")
    obtain left' f2' p2' where sr: "sse_lines r f1 = (left', f2', p2')"
      by (cases "sse_lines r f1")
    have "P r f1 left' f2' p2'" by (rule less.hyps [OF _ sr]) (simp add: buf)
    with sse_lines_nl [OF l sl sr] less.prems buf show ?thesis
      using line [OF l sl sr] by simp
  qed
qed

lemma sse_lines_frame: "sse_lines buf f = (left, f', ps) \<Longrightarrow> sf_buffer f' = sf_buffer f"
  by (induction rule: sse_lines_induct) (auto dest: sse_line_frame)

lemma sse_lines_left: "sse_lines buf f = (left, f', ps) \<Longrightarrow> nl \<notin> set left \<and> length left \<le> length buf"
  by (induction rule: sse_lines_induct) auto

text \<open>Splitting the input of the line loop anywhere gives the same lines.\<close>

lemma sse_lines_append:
  "sse_lines a f = (r, f1, p1) \<Longrightarrow>
   sse_lines (a @ b) f = (let (r2, f2, p2) = sse_lines (r @ b) f1 in (r2, f2, p1 @ p2))"
proof (induction rule: sse_lines_induct)
  case (rest buf f)
  then show ?case by (simp split: prod.splits)
next
  case (line l rest f f1 p1 left f2 p2)
  obtain r3 f3 p3 where app: "sse_lines (left @ b) f2 = (r3, f3, p3)"
    by (cases "sse_lines (left @ b) f2")
  with line.IH have "sse_lines (rest @ b) f1 = (r3, f3, p2 @ p3)" by simp
  with line.hyps app show ?case using sse_lines_nl [of l f f1 p1 "rest @ b"] by simp
qed

section \<open>Pushing a chunk\<close>

lemma sse_line_set_buffer:
  "sse_line raw (f\<lparr>sf_buffer := x\<rparr>) = (let (f', ps) = sse_line raw f in (f'\<lparr>sf_buffer := x\<rparr>, ps))"
  by (simp add: sse_line_def Let_def split: option.split)

lemma sse_lines_set_buffer:
  "sse_lines buf f = (left, f', ps) \<Longrightarrow>
   sse_lines buf (f\<lparr>sf_buffer := x\<rparr>) = (left, f'\<lparr>sf_buffer := x\<rparr>, ps)"
proof (induction rule: sse_lines_induct)
  case (line l rest f f1 p1 left f2 p2)
  then have "sse_line l (f\<lparr>sf_buffer := x\<rparr>) = (f1\<lparr>sf_buffer := x\<rparr>, p1)"
    by (simp add: sse_line_set_buffer)
  with line show ?case by (intro sse_lines_nl)
qed (simp add: sse_lines_no_nl)

lemma sse_push_small:
  assumes "length (sf_buffer f) + length c \<le> MAX_BUFFER_BYTES"
    and "sse_lines (sf_buffer f @ c) f = (left, f', ps)"
  shows "sse_push f c = (f'\<lparr>sf_buffer := left\<rparr>, ps)"
  using assms by (simp add: sse_push_def Let_def)

section \<open>The invariant\<close>

definition lines_bytes :: "string list \<Rightarrow> bytes" where
  "lines_bytes ls = concat (map (\<lambda>l. l @ [nl]) ls)"

lemma lines_bytes_simps [simp]:
  "lines_bytes [] = []" "lines_bytes (l # ls) = l @ nl # lines_bytes ls"
  "lines_bytes (ls @ [l]) = lines_bytes ls @ l @ [nl]"
  by (simp_all add: lines_bytes_def)

lemma lines_bytes_eq_Nil [simp]: "lines_bytes ls = [] \<longleftrightarrow> ls = []"
  by (cases ls) simp_all

lemma butlast_lines_bytes: "ls \<noteq> [] \<Longrightarrow> butlast (lines_bytes ls) = join [nl] ls"
proof (induction "[nl]" ls rule: join.induct)
  case (3 x y ys)
  then show ?case by (simp add: butlast_append)
qed simp_all

lemma utf8_valid_nl: "utf8_valid [nl]"
  by (rule utf8_valid_ascii) (simp add: byte_def)

lemma utf8_valid_join: "list_all utf8_valid ls \<Longrightarrow> utf8_valid (join [nl] ls)"
proof (induction "[nl]" ls rule: join.induct)
  case (3 x y ys)
  then show ?case
    using utf8_valid_app [OF utf8_valid_nl, of "join [nl] (y # ys)"]
      utf8_valid_app [of x "nl # join [nl] (y # ys)"] by simp
qed simp_all

text \<open>The state holds the data lines \<open>pend\<close> of the event being read.\<close>

definition sse_holds :: "sse_framing \<Rightarrow> string list \<Rightarrow> bool" where
  "sse_holds f pend \<longleftrightarrow>
     sf_data_lines f = lines_bytes pend \<and> sf_data_lines_bytes f = length (lines_bytes pend) \<and>
     list_all utf8_valid pend \<and> length (lines_bytes pend) \<le> MAX_BUFFER_BYTES"

definition sse_ok :: "sse_framing \<Rightarrow> bool" where
  "sse_ok f \<longleftrightarrow> (\<exists>pend. sse_holds f pend) \<and> nl \<notin> set (sf_buffer f) \<and>
     length (sf_buffer f) \<le> MAX_BUFFER_BYTES"

text \<open>What one line does, read abstractly on the list of pending data lines.\<close>

definition spec_line :: "bytes \<Rightarrow> string list \<Rightarrow> string list \<times> string list" where
  "spec_line raw pend =
     (let line = strip_cr raw in
      if line = [] then ([], if pend = [] then [] else [join [nl] pend])
      else
        (case data_field line of
           None \<Rightarrow> (pend, [])
         | Some d \<Rightarrow> (if utf8_valid d then pend @ [d] else pend, [])))"

lemma data_field_length: "data_field line = Some d \<Longrightarrow> length d < length line"
  by (auto simp: data_field_def strip_prefix_Some split: option.splits)

lemma strip_cr_length: "length (strip_cr raw) \<le> length raw"
  by (auto simp: strip_cr_def strip_suffix_Some split: option.split)

lemma lossy_pending:
  "list_all utf8_valid pend \<Longrightarrow> pend \<noteq> [] \<Longrightarrow>
   from_utf8_lossy (butlast (lines_bytes pend)) = join [nl] pend"
  by (simp add: butlast_lines_bytes lossy_valid utf8_valid_join)

text \<open>
  One line keeps the representation of the pending lines, and does what the abstract line
  does as long as the cap is not hit.
\<close>

lemma sse_holds_empty: "sse_holds (f\<lparr>sf_data_lines := [], sf_data_lines_bytes := 0\<rparr>) []"
  by (simp add: sse_holds_def)

lemma sse_line_holds:
  assumes "sse_holds f pend" "sse_line raw f = (f', ps)"
  shows "(\<exists>pend'. sse_holds f' pend') \<and> list_all utf8_valid ps"
proof (cases "strip_cr raw = []")
  case True
  with assms show ?thesis
    using sse_holds_empty [of f]
    by (cases "pend = []") (auto simp: sse_line_def sse_holds_def lossy_pending utf8_valid_join)
next
  case False
  show ?thesis
  proof (cases "data_field (strip_cr raw)")
    case None
    with False assms show ?thesis by (auto simp: sse_line_def)
  next
    case (Some d)
    let ?n = "sf_data_lines_bytes f + length d + 1"
    consider "\<not> utf8_valid d" | "utf8_valid d" "MAX_BUFFER_BYTES < ?n" | "utf8_valid d" "?n \<le> MAX_BUFFER_BYTES"
      by linarith
    then show ?thesis
    proof cases
      case 1
      then have "sse_holds f' pend" "ps = []" using False Some assms by (auto simp: sse_line_def sse_holds_def)
      then show ?thesis by auto
    next
      case 2
      then show ?thesis using False Some assms sse_holds_empty [of f] by (auto simp: sse_line_def)
    next
      case 3
      then have "sse_holds f' (pend @ [d])" "ps = []"
        using False Some assms by (auto simp: sse_line_def sse_holds_def)
      then show ?thesis by auto
    qed
  qed
qed

lemma sse_line_refines:
  assumes "sse_holds f pend" "sse_line raw f = (f', ps)"
    and "length (lines_bytes pend) + length raw + 1 \<le> MAX_BUFFER_BYTES"
    and "spec_line raw pend = (pend', ps')"
  shows "sse_holds f' pend' \<and> ps = ps' \<and>
    length (lines_bytes pend') \<le> length (lines_bytes pend) + length raw + 1"
proof (cases "strip_cr raw = []")
  case True
  with assms show ?thesis
    by (cases "pend = []") (auto simp: sse_line_def spec_line_def sse_holds_def lossy_pending)
next
  case False
  show ?thesis
  proof (cases "data_field (strip_cr raw)")
    case None
    with False assms show ?thesis by (auto simp: sse_line_def spec_line_def)
  next
    case (Some d)
    then have "length d < length raw"
      using data_field_length strip_cr_length less_le_trans by blast
    with Some False assms show ?thesis
      by (cases "utf8_valid d") (auto simp: sse_line_def spec_line_def sse_holds_def)
  qed
qed

section \<open>Runs\<close>

lemma sse_lines_holds:
  "sse_lines buf f = (left, f', ps) \<Longrightarrow> sse_holds f pend \<Longrightarrow>
   (\<exists>pend'. sse_holds f' pend') \<and> list_all utf8_valid ps"
proof (induction arbitrary: pend rule: sse_lines_induct)
  case (line l rest f f1 p1 left f2 p2)
  from sse_line_holds [OF line.prems line.hyps(2)] obtain pend1
    where "sse_holds f1 pend1" "list_all utf8_valid p1" by blast
  with line.IH show ?case by auto
qed auto

lemma sse_ok_new: "sse_ok sse_new"
  using sse_holds_empty [of sse_new] by (auto simp: sse_ok_def sse_new_def)

lemma sse_push_ok:
  assumes "sse_ok f" "sse_push f c = (f', ps)"
  shows "sse_ok f' \<and> list_all utf8_valid ps"
proof (cases "MAX_BUFFER_BYTES < length c")
  case True
  with assms show ?thesis by (simp add: sse_push_def)
next
  case False
  define f1 where "f1 = (if MAX_BUFFER_BYTES < length (sf_buffer f) + length c
    then f\<lparr>sf_buffer := [], sf_data_lines := [], sf_data_lines_bytes := 0\<rparr> else f)"
  obtain left f2 p2 where l: "sse_lines (sf_buffer f1 @ c) f1 = (left, f2, p2)"
    by (cases "sse_lines (sf_buffer f1 @ c) f1")
  have "\<exists>pend. sse_holds f1 pend"
    using assms(1) sse_holds_empty [of "f\<lparr>sf_buffer := []\<rparr>"] by (auto simp: f1_def sse_ok_def)
  with sse_lines_holds [OF l] have "\<exists>pend. sse_holds f2 pend" "list_all utf8_valid p2" by blast+
  moreover have "length (sf_buffer f1 @ c) \<le> MAX_BUFFER_BYTES"
    using False by (simp add: f1_def)
  moreover have "f' = f2\<lparr>sf_buffer := left\<rparr>" "ps = p2"
    using assms(2) False l by (simp_all add: sse_push_def f1_def Let_def)
  ultimately show ?thesis
    using sse_lines_left [OF l] by (auto simp: sse_ok_def sse_holds_def)
qed

lemma sse_run_ok: "sse_ok f \<Longrightarrow> sse_run f cs = (f', ps) \<Longrightarrow> sse_ok f' \<and> list_all utf8_valid ps"
proof (induction cs arbitrary: f ps)
  case (Cons c cs)
  obtain f1 p1 where p: "sse_push f c = (f1, p1)" by (cases "sse_push f c")
  obtain f2 p2 where r: "sse_run f1 cs = (f2, p2)" by (cases "sse_run f1 cs")
  from sse_push_ok [OF Cons.prems(1) p] Cons.IH [of f1 p2] Cons.prems(2) p r
  show ?case by auto
qed simp

text \<open>The abstract reading of a whole byte stream: its complete lines, one after the other.\<close>

definition complete_lines :: "bytes \<Rightarrow> bytes list" where
  "complete_lines s = butlast (split_char nl s)"

fun spec_run :: "bytes list \<Rightarrow> string list \<Rightarrow> string list \<times> string list" where
  "spec_run [] pend = (pend, [])"
| "spec_run (l # ls) pend =
     (let (pend1, p1) = spec_line l pend; (pend2, p2) = spec_run ls pend1 in (pend2, p1 @ p2))"

lemma split_char_nonempty [simp]: "split_char c s \<noteq> []"
  by (induction s) (auto split: list.split)

lemma split_char_none: "c \<notin> set s \<Longrightarrow> split_char c s = [s]"
  by (induction s) auto

lemma split_char_app: "c \<notin> set l \<Longrightarrow> split_char c (l @ c # r) = l # split_char c r"
  by (induction l) (auto split: list.split)

lemma complete_lines_simps [simp]:
  "nl \<notin> set s \<Longrightarrow> complete_lines s = []"
  "nl \<notin> set l \<Longrightarrow> complete_lines (l @ nl # r) = l # complete_lines r"
  by (simp_all add: complete_lines_def split_char_none split_char_app)

lemma sse_lines_refines:
  "sse_lines buf f = (left, f', ps) \<Longrightarrow> sse_holds f pend \<Longrightarrow>
   length (lines_bytes pend) + length buf \<le> MAX_BUFFER_BYTES \<Longrightarrow>
   spec_run (complete_lines buf) pend = (pend', ps') \<Longrightarrow>
   sse_holds f' pend' \<and> ps = ps'"
proof (induction arbitrary: pend pend' ps' rule: sse_lines_induct)
  case (line l rest f f1 p1 left f2 p2)
  obtain pend1 q1 where sl: "spec_line l pend = (pend1, q1)" by (cases "spec_line l pend")
  obtain pend2 q2 where sr: "spec_run (complete_lines rest) pend1 = (pend2, q2)"
    by (cases "spec_run (complete_lines rest) pend1")
  have "sse_holds f1 pend1 \<and> p1 = q1 \<and>
      length (lines_bytes pend1) \<le> length (lines_bytes pend) + length l + 1"
    by (rule sse_line_refines [OF line.prems(1) line.hyps(2) _ sl]) (use line.prems(2) in simp)
  with line.IH [of pend1 pend2 q2] sr line.prems sl line.hyps(1) show ?case by auto
qed simp

text \<open>Pushing two chunks is pushing their concatenation, and so is any run of chunks.\<close>

lemma sse_push_two:
  assumes "length (sf_buffer f) + length a + length b \<le> MAX_BUFFER_BYTES"
  shows "sse_push f (a @ b) =
    (let (f1, p1) = sse_push f a; (f2, p2) = sse_push f1 b in (f2, p1 @ p2))"
proof -
  obtain left f1 p1 where a: "sse_lines (sf_buffer f @ a) f = (left, f1, p1)"
    by (cases "sse_lines (sf_buffer f @ a) f")
  obtain left2 f2 p2 where b: "sse_lines (left @ b) f1 = (left2, f2, p2)"
    by (cases "sse_lines (left @ b) f1")
  have ab: "sse_lines (sf_buffer f @ a @ b) f = (left2, f2, p1 @ p2)"
    using sse_lines_append [OF a, of b] b by simp
  have "length left \<le> length (sf_buffer f) + length a" using sse_lines_left [OF a] by simp
  then have "sse_push (f1\<lparr>sf_buffer := left\<rparr>) b = (f2\<lparr>sf_buffer := left2\<rparr>, p2)"
    using assms sse_lines_set_buffer [OF b, of left]
      sse_push_small [of "f1\<lparr>sf_buffer := left\<rparr>" b left2 "f2\<lparr>sf_buffer := left\<rparr>" p2] by simp
  then show ?thesis
    using assms a ab sse_push_small [of f a left f1 p1] sse_push_small [of f "a @ b" left2 f2 "p1 @ p2"]
    by simp
qed

lemma sse_push_buffer:
  assumes "length (sf_buffer f) + length c \<le> MAX_BUFFER_BYTES" "sse_push f c = (f', ps)"
  shows "length (sf_buffer f') \<le> length (sf_buffer f) + length c"
proof -
  obtain left f1 p1 where c: "sse_lines (sf_buffer f @ c) f = (left, f1, p1)"
    by (cases "sse_lines (sf_buffer f @ c) f")
  with assms sse_lines_left [OF c] show ?thesis by (auto simp: sse_push_small)
qed

lemma sse_run_concat:
  "sse_ok f \<Longrightarrow> length (sf_buffer f) + length (concat cs) \<le> MAX_BUFFER_BYTES \<Longrightarrow>
   sse_run f cs = sse_push f (concat cs)"
proof (induction cs arbitrary: f)
  case Nil
  then have "sse_lines (sf_buffer f @ []) f = (sf_buffer f, f, [])"
    by (simp add: sse_lines_no_nl sse_ok_def)
  with Nil show ?case by (subst sse_push_small) auto
next
  case (Cons c cs)
  obtain f1 p1 where c: "sse_push f c = (f1, p1)" by (cases "sse_push f c")
  have "sse_ok f1" using sse_push_ok [OF Cons.prems(1) c] by simp
  moreover have "length (sf_buffer f1) + length (concat cs) \<le> MAX_BUFFER_BYTES"
    using sse_push_buffer [OF _ c] Cons.prems(2) by simp
  ultimately have "sse_run f1 cs = sse_push f1 (concat cs)" by (rule Cons.IH)
  with c Cons.prems(2) show ?case by (simp add: sse_push_two)
qed

text \<open>An event as the encoders frame it.\<close>

definition sse_frame :: "string \<Rightarrow> bytes" where
  "sse_frame payload = ''data: '' @ payload @ [nl, nl]"

definition framable :: "string \<Rightarrow> bool" where
  "framable p \<longleftrightarrow> utf8_valid p \<and> nl \<notin> set p \<and> (p = [] \<or> last p \<noteq> cr)"

lemma spec_line_frame: "framable p \<Longrightarrow> spec_line (''data: '' @ p) [] = ([p], [])"
proof -
  assume p: "framable p"
  have "strip_suffix [cr] (''data: '' @ p) = None"
    using p by (cases p rule: rev_cases) (auto simp: strip_suffix_def suffix_def framable_def)
  then have "strip_cr (''data: '' @ p) = ''data: '' @ p" by (simp add: strip_cr_def)
  moreover have "data_field (''data: '' @ p) = Some p"
    by (simp add: data_field_def strip_prefix_def)
  ultimately show ?thesis using p by (simp add: spec_line_def framable_def)
qed

lemma spec_line_blank: "spec_line [] [p] = ([], [p])"
  by (simp add: spec_line_def strip_cr_def strip_suffix_def)

lemma spec_run_frames:
  "list_all framable ps \<Longrightarrow> spec_run (complete_lines (concat (map sse_frame ps))) [] = ([], ps)"
proof (induction ps)
  case (Cons p ps)
  let ?r = "concat (map sse_frame ps)"
  have p: "framable p" "nl \<notin> set (''data: '' @ p)" using Cons.prems by (simp_all add: framable_def)
  have "complete_lines (sse_frame p @ ?r) = complete_lines ((''data: '' @ p) @ nl # [] @ nl # ?r)"
    by (simp add: sse_frame_def)
  then have lines: "complete_lines (sse_frame p @ ?r) = (''data: '' @ p) # [] # complete_lines ?r"
    by (simp only: complete_lines_simps(2) [OF p(2)] complete_lines_simps(2) [of "[]" ?r, simplified]
        append_Nil)
  have IH: "spec_run (complete_lines ?r) [] = ([], ps)" using Cons by simp
  show ?case
    unfolding list.map concat.simps lines spec_run.simps spec_line_frame [OF p(1)]
    by (simp add: spec_line_blank IH)
qed simp

lemma sse_push_new_spec:
  assumes "length s \<le> MAX_BUFFER_BYTES"
  shows "snd (sse_push sse_new s) = snd (spec_run (complete_lines s) [])"
proof -
  obtain left f ps where l: "sse_lines s sse_new = (left, f, ps)" by (cases "sse_lines s sse_new")
  obtain pend qs where sp: "spec_run (complete_lines s) [] = (pend, qs)"
    by (cases "spec_run (complete_lines s) []")
  have "sse_holds sse_new []" by (simp add: sse_holds_def sse_new_def)
  with sse_lines_refines [OF l _ _ sp] assms have "ps = qs" by simp
  moreover have "sse_push sse_new s = (f\<lparr>sf_buffer := left\<rparr>, ps)"
    using assms l by (intro sse_push_small) (simp_all add: sse_new_def)
  ultimately show ?thesis using sp by simp
qed

section \<open>Properties\<close>

text \<open>
  C15: however the upstream's bytes are cut into chunks, the payloads the parser yields are the
  events of the whole byte stream: the complete lines read one by one, \<open>data:\<close> lines
  collected, an event completed by each blank line (for streams within the buffer cap).
\<close>

theorem sse_run_refines_spec:
  assumes "length (concat chunks) \<le> MAX_BUFFER_BYTES"
  shows "snd (sse_run sse_new chunks) = snd (spec_run (complete_lines (concat chunks)) [])"
  using sse_push_new_spec [OF assms] sse_run_concat [OF sse_ok_new, of chunks] assms
  by (simp add: sse_new_def)

theorem sse_run_refines_spec_witness:
  "snd (sse_run sse_new [''data: a'', [nl], [nl]])
   = snd (spec_run (complete_lines (concat [''data: a'', [nl], [nl]])) [])"
  by (rule sse_run_refines_spec) (simp add: MAX_BUFFER_BYTES_def)

text \<open>
  C30: whatever bytes arrive in whatever chunks, the parser never buffers more than the cap:
  neither the unterminated line nor the data of the event being read exceeds it, the byte
  accounting is exact, no complete line is left in the buffer, and every payload is valid
  UTF-8.
\<close>

theorem sse_memory_bounded:
  "length (sf_buffer (fst (sse_run sse_new chunks))) \<le> MAX_BUFFER_BYTES \<and>
   length (sf_data_lines (fst (sse_run sse_new chunks))) \<le> MAX_BUFFER_BYTES \<and>
   sf_data_lines_bytes (fst (sse_run sse_new chunks))
     = length (sf_data_lines (fst (sse_run sse_new chunks))) \<and>
   nl \<notin> set (sf_buffer (fst (sse_run sse_new chunks))) \<and>
   list_all utf8_valid (snd (sse_run sse_new chunks))"
  using sse_run_ok [OF sse_ok_new, of chunks] by (cases "sse_run sse_new chunks")
    (auto simp: sse_ok_def sse_holds_def)

text \<open>
  Events framed as \<open>data: <payload>\<close> and a blank line are read back in order, one payload
  each, with nothing left in the parser.
\<close>

theorem sse_frames_roundtrip:
  assumes "list_all framable ps" "length (concat (map sse_frame ps)) \<le> MAX_BUFFER_BYTES"
  shows "snd (sse_push sse_new (concat (map sse_frame ps))) = ps"
  using sse_push_new_spec [OF assms(2)] spec_run_frames [OF assms(1)] by simp

theorem sse_frames_roundtrip_witness:
  "snd (sse_push sse_new (concat (map sse_frame [''a'', ''[DONE]'']))) = [''a'', ''[DONE]'']"
  by (rule sse_frames_roundtrip)
    (simp_all add: framable_def sse_frame_def MAX_BUFFER_BYTES_def utf8_valid_def utf8_chunks.simps
      utf8_step_def byte_at_def byte_def)

text \<open>
  At the end of the stream, an event whose lines are complete is delivered although no blank
  line followed it, but a last line with no terminator is dropped, whatever it holds.
\<close>

theorem sse_finish_drops_unterminated_line:
  assumes tail: "nl \<notin> set tail" and fits: "length s + length tail \<le> MAX_BUFFER_BYTES"
  shows "snd (sse_push sse_new (s @ tail)) = snd (sse_push sse_new s) \<and>
    snd (sse_finish (fst (sse_push sse_new (s @ tail)))) = snd (sse_finish (fst (sse_push sse_new s)))"
proof -
  obtain f1 p1 where s: "sse_push sse_new s = (f1, p1)" by (cases "sse_push sse_new s")
  have buf: "length (sf_buffer f1) \<le> length s"
    using sse_push_buffer [OF _ s] fits by (simp add: sse_new_def)
  have "nl \<notin> set (sf_buffer f1 @ tail)"
    using sse_push_ok [OF sse_ok_new s] tail by (simp add: sse_ok_def)
  then have "sse_push f1 tail = (f1\<lparr>sf_buffer := sf_buffer f1 @ tail\<rparr>, [])"
    using buf fits by (intro sse_push_small) (simp_all add: sse_lines_no_nl)
  moreover have "sse_push sse_new (s @ tail) =
      (let (f1, p1) = sse_push sse_new s; (f2, p2) = sse_push f1 tail in (f2, p1 @ p2))"
    using fits by (intro sse_push_two) (simp add: sse_new_def)
  ultimately show ?thesis using s by (simp add: sse_finish_def)
qed

theorem sse_finish_drops_unterminated_line_witness:
  "snd (sse_finish (fst (sse_push sse_new ([] @ ''data: x'')))) = snd (sse_finish (fst (sse_push sse_new [])))"
  using sse_finish_drops_unterminated_line [of "''data: x''" "[]"] by (simp add: MAX_BUFFER_BYTES_def)

end
