(* ===== verification/Streams.thy ===== *)
theory Streams
  imports Neutral Sse
begin

text \<open>
  The interface between the protocol adapters and the pipeline for streams (the traits
  \<open>StreamDecoder\<close> and \<open>StreamEncoder\<close> of \<open>src/core/registry.rs\<close>): what every decoder and every
  encoder promises, as locales, and what the pipeline gets from it.
\<close>

section \<open>Endpoints\<close>

datatype endpoint_kind = Chat | Messages | Models | CountTokens

section \<open>Decoders\<close>

text \<open>The calls of the pipeline on a decoder: \<open>feed\<close> with a payload, and \<open>finish\<close>.\<close>

datatype decoder_call = Feed string | Finish

definition stops :: "stream_event list \<Rightarrow> nat" where
  "stops es = length (filter is_message_stop es)"

lemma stops_simps [simp]:
  "stops [] = 0" "stops (e # es) = (if is_message_stop e then Suc (stops es) else stops es)"
  "stops (es @ fs) = stops es + stops fs"
  by (simp_all add: stops_def)

fun decoder_run :: "('d \<Rightarrow> string \<Rightarrow> stream_event list \<times> 'd) \<Rightarrow> ('d \<Rightarrow> stream_event list \<times> 'd) \<Rightarrow> 'd
    \<Rightarrow> decoder_call list \<Rightarrow> stream_event list \<times> 'd" where
  "decoder_run feed finish d [] = ([], d)"
| "decoder_run feed finish d (c # cs) =
     (let (es, d1) = (case c of Feed s \<Rightarrow> feed d s | Finish \<Rightarrow> finish d);
          (fs, d2) = decoder_run feed finish d1 cs
      in (es @ fs, d2))"

text \<open>
  The contract: a stop is emitted exactly when the state says from then on that it was, and
  \<open>finish\<close> has nothing left to say when it is called again.
\<close>

locale stream_decoder =
  fixes feed :: "'d \<Rightarrow> string \<Rightarrow> stream_event list \<times> 'd"
    and finish :: "'d \<Rightarrow> stream_event list \<times> 'd"
    and stopped :: "'d \<Rightarrow> bool"
  assumes feed_stops: "feed d s = (es, d') \<Longrightarrow> stops es + of_bool (stopped d) = of_bool (stopped d')"
    and finish_stops: "finish d = (es, d') \<Longrightarrow> stops es + of_bool (stopped d) = of_bool (stopped d')"
    and finish_once: "finish d = (es, d') \<Longrightarrow> finish d' = ([], d')"
begin

lemma run_stops: "decoder_run feed finish d cs = (es, d') \<Longrightarrow> stops es + of_bool (stopped d) = of_bool (stopped d')"
proof (induction cs arbitrary: d es)
  case (Cons c cs)
  obtain es1 d1 where c: "(case c of Feed s \<Rightarrow> feed d s | Finish \<Rightarrow> finish d) = (es1, d1)" by fastforce
  then have 1: "stops es1 + of_bool (stopped d) = of_bool (stopped d1)"
    using feed_stops finish_stops by (cases c) auto
  obtain es2 where r: "decoder_run feed finish d1 cs = (es2, d')" "es = es1 @ es2"
    using Cons.prems c by (auto split: prod.splits)
  from Cons.IH [OF r(1)] 1 show ?case by (simp add: r(2))
qed simp

text \<open>Whatever the upstream sends and however often the pipeline flushes, there is one stop at most.\<close>

lemma at_most_one_stop: "stops (fst (decoder_run feed finish d cs)) \<le> 1"
proof -
  obtain es d' where r: "decoder_run feed finish d cs = (es, d')" by fastforce
  have "(of_bool (stopped d') :: nat) \<le> 1" by simp
  with run_stops [OF r] r show ?thesis by simp
qed

lemma no_stop_after_stop: "stopped d \<Longrightarrow> stops (fst (decoder_run feed finish d cs)) = 0"
proof -
  assume s: "stopped d"
  obtain es d' where r: "decoder_run feed finish d cs = (es, d')" by fastforce
  from run_stops [OF r] s show ?thesis by (cases "stopped d'") (simp_all add: r)
qed

lemma flush_twice: "snd (finish d) = d' \<Longrightarrow> finish d' = ([], d')"
  using finish_once by (cases "finish d") auto

end

section \<open>The content of a stream\<close>

text \<open>
  What a user gets from a stream, in order: the pieces of text and of reasoning, the tool calls
  that were named, and the fragments of their arguments.
\<close>

datatype piece = TextPiece string | ReasoningPiece string | CallPiece string string | ArgumentsPiece string

fun event_pieces :: "stream_event \<Rightarrow> piece list" where
  "event_pieces (TextDelta t) = [TextPiece t]"
| "event_pieces (ReasoningDelta t) = [ReasoningPiece t]"
| "event_pieces (ToolCallDelta k i nm a) =
     (if i = [] \<and> nm = [] then [] else [CallPiece i nm]) @ (if a = [] then [] else [ArgumentsPiece a])"
| "event_pieces _ = []"

definition pieces :: "stream_event list \<Rightarrow> piece list" where
  "pieces es = concat (map event_pieces es)"

lemma pieces_simps [simp]:
  "pieces [] = []" "pieces (e # es) = event_pieces e @ pieces es" "pieces (es @ fs) = pieces es @ pieces fs"
  by (simp_all add: pieces_def)

text \<open>A call's name and id come with the first fragment of its index, as every decoder sends them.\<close>

fun calls_named_once :: "u32 set \<Rightarrow> stream_event list \<Rightarrow> bool" where
  "calls_named_once seen [] = True"
| "calls_named_once seen (ToolCallDelta k i nm a # es) =
     ((k \<in> seen \<longrightarrow> i = [] \<and> nm = []) \<and> calls_named_once (insert k seen) es)"
| "calls_named_once seen (e # es) = calls_named_once seen es"

lemma calls_named_once_mono: "calls_named_once S es \<Longrightarrow> T \<subseteq> S \<Longrightarrow> calls_named_once T es"
proof (induction S es arbitrary: T rule: calls_named_once.induct)
  case (2 seen k i nm a es)
  then show ?case by (auto elim!: meta_allE [of _ "insert k T"])
qed auto

section \<open>Encoders\<close>

text \<open>
  A frame is sound when an SSE parser in its start state reads exactly its payload from it and
  is in its start state again, whatever follows.
\<close>

definition carries :: "bytes \<Rightarrow> string \<Rightarrow> bool" where
  "carries frame p \<longleftrightarrow>
     (\<forall>rest. spec_run (complete_lines (frame @ rest)) [] =
        (let (d, ps) = spec_run (complete_lines rest) [] in (d, p # ps)))"

text \<open>The documented shape of \<open>serde_json\<close>'s compact output: one line of UTF-8.\<close>

definition prints_lines :: "serde_json \<Rightarrow> bool" where
  "prints_lines J \<longleftrightarrow> (\<forall>v. framable (to_string J v))"

fun encoder_run :: "('e \<Rightarrow> stream_event \<Rightarrow> string list \<times> 'e) \<Rightarrow> 'e \<Rightarrow> stream_event list \<Rightarrow> string list \<times> 'e" where
  "encoder_run encode e [] = ([], e)"
| "encoder_run encode e (ev # evs) =
     (let (fs, e1) = encode e ev; (gs, e2) = encoder_run encode e1 evs in (fs @ gs, e2))"

locale stream_encoder =
  fixes encode :: "serde_json \<Rightarrow> 'e \<Rightarrow> stream_event \<Rightarrow> string list \<times> 'e"
  assumes frames: "\<lbrakk>prints_lines J; encode J e ev = (fs, e')\<rbrakk> \<Longrightarrow> \<exists>ps. list_all2 carries fs ps"
begin

lemma run_frames: "prints_lines J \<Longrightarrow> encoder_run (encode J) e evs = (fs, e') \<Longrightarrow> \<exists>ps. list_all2 carries fs ps"
proof (induction evs arbitrary: e fs)
  case (Cons ev evs)
  obtain f1 e1 where f: "encode J e ev = (f1, e1)" by fastforce
  obtain f2 where r: "encoder_run (encode J) e1 evs = (f2, e')" "fs = f1 @ f2"
    using Cons.prems(2) f by (auto split: prod.splits)
  from frames [OF Cons.prems(1) f] Cons.IH [OF Cons.prems(1) r(1)] show ?case
    unfolding r(2) by (blast intro: list_all2_appendI)
qed (auto intro: exI [of _ "[]"])

lemma carried: "list_all2 carries fs ps \<Longrightarrow> spec_run (complete_lines (concat fs)) [] = ([], ps)"
proof (induction rule: list_all2_induct)
  case (Cons f fs p ps)
  then show ?case by (simp add: carries_def)
qed (simp add: complete_lines_def)

text \<open>A client that parses what the encoder wrote gets one payload for every frame, in order.\<close>

lemma client_reads_every_frame:
  assumes "prints_lines J" "encoder_run (encode J) e evs = (fs, e')"
    and "length (concat fs) \<le> MAX_BUFFER_BYTES"
  shows "length (snd (sse_push sse_new (concat fs))) = length fs"
proof -
  obtain ps where "list_all2 carries fs ps" using run_frames [OF assms(1,2)] by blast
  then show ?thesis using sse_push_new_spec [OF assms(3)] carried [of fs ps] list_all2_lengthD by force
qed

end

text \<open>The two frame shapes of the adapters.\<close>

lemma single_cons: "[x] @ xs = x # xs"
  by simp

lemma spec_run_frame_lines:
  assumes "framable p"
  shows "spec_run (complete_lines (sse_frame p @ rest)) [] =
    (let (d, ps) = spec_run (complete_lines rest) [] in (d, p # ps))"
proof -
  have n: "nl \<notin> set (''data: '' @ p)" using assms by (simp add: framable_def)
  have "sse_frame p @ rest = (''data: '' @ p) @ nl # [] @ nl # rest" by (simp add: sse_frame_def)
  then have "complete_lines (sse_frame p @ rest) = (''data: '' @ p) # [] # complete_lines rest"
    by (simp only: complete_lines_simps(2) [OF n] complete_lines_simps(2) [of "[]" rest, simplified] append_Nil)
  moreover obtain d ps where "spec_run (complete_lines rest) [] = (d, ps)" by fastforce
  ultimately show ?thesis
    by (simp only: spec_run.simps spec_line_frame [OF assms] spec_line_blank Let_def prod.case append_Nil
        single_cons)
qed

lemma carries_frame: "framable p \<Longrightarrow> carries (sse_frame p) p"
  unfolding carries_def by (rule allI) (rule spec_run_frame_lines)

definition sse_event_frame :: "string \<Rightarrow> string \<Rightarrow> bytes" where
  "sse_event_frame name p = ''event: '' @ name @ [nl] @ sse_frame p"

lemma spec_line_event:
  assumes "cr \<notin> set name"
  shows "spec_line (''event: '' @ name) pend = (pend, [])"
proof -
  have "cr \<notin> set (''event: '' @ name)" using assms by simp
  then have "strip_suffix [cr] (''event: '' @ name) = None"
    by (metis in_set_conv_decomp not_None_eq strip_suffix_Some)
  then have "strip_cr (''event: '' @ name) = ''event: '' @ name" by (simp only: strip_cr_def option.case)
  moreover have "data_field (''event: '' @ name) = None" by (simp add: data_field_def strip_prefix_def)
  ultimately show ?thesis by (simp add: spec_line_def)
qed

lemma carries_event_frame:
  assumes "framable p" "nl \<notin> set name" "cr \<notin> set name"
  shows "carries (sse_event_frame name p) p"
  unfolding carries_def
proof
  fix rest
  have n: "nl \<notin> set (''event: '' @ name)" using assms(2) by simp
  have "sse_event_frame name p @ rest = (''event: '' @ name) @ nl # (sse_frame p @ rest)"
    by (simp add: sse_event_frame_def)
  then have "complete_lines (sse_event_frame name p @ rest) = (''event: '' @ name) # complete_lines (sse_frame p @ rest)"
    by (simp only: complete_lines_simps(2) [OF n])
  moreover obtain d ps where "spec_run (complete_lines (sse_frame p @ rest)) [] = (d, ps)" by fastforce
  ultimately show "spec_run (complete_lines (sse_event_frame name p @ rest)) [] =
      (let (d, ps) = spec_run (complete_lines rest) [] in (d, p # ps))"
    unfolding spec_run_frame_lines [OF assms(1), symmetric]
    by (simp only: spec_run.simps spec_line_event [OF assms(3)] Let_def prod.case append_Nil)
qed

end
