(* ===== verification/OpenAI_Stream.thy ===== *)
theory OpenAI_Stream
  imports OpenAI_Convert Streams
begin

text \<open>
  The OpenAI dialect, streams and adapter (\<open>src/adapters/openai/stream.rs\<close> and \<open>mod.rs\<close>): the
  chunk decoder, the chunk encoder, and the endpoints.
\<close>

section \<open>The decoder\<close>

record openai_decoder =
  od_started :: bool
  od_failed :: bool
  od_stop_emitted :: bool
  od_seen_tool_indices :: "u32 set"
  od_pending_finish :: "finish_reason option"
  od_pending_usage :: "neutral_usage option"

definition openai_decoder_new :: openai_decoder where
  "openai_decoder_new =
     \<lparr>od_started = False, od_failed = False, od_stop_emitted = False, od_seen_tool_indices = {},
      od_pending_finish = None, od_pending_usage = None\<rparr>"

definition openai_stream_tool_call :: "value \<Rightarrow> u32 set \<Rightarrow> stream_event \<times> u32 set" where
  "openai_stream_tool_call call seen =
     (let index = as_u32 (unwrap_or (get_u64 call ''index'') 0);
          arguments = unwrap_or (Option.bind (value_get call ''function'') (\<lambda>f. get_str f ''arguments'')) [];
          (i, nm) = (if index \<notin> seen
            then (str_or_empty call ''id'',
                  unwrap_or (Option.bind (value_get call ''function'') (\<lambda>f. get_str f ''name'')) [])
            else ([], []))
      in (ToolCallDelta index i nm arguments, insert index seen))"

fun openai_stream_tool_calls :: "value list \<Rightarrow> u32 set \<Rightarrow> stream_event list \<times> u32 set" where
  "openai_stream_tool_calls [] seen = ([], seen)"
| "openai_stream_tool_calls (call # calls) seen =
     (let (e, seen1) = openai_stream_tool_call call seen;
          (es, seen2) = openai_stream_tool_calls calls seen1
      in (e # es, seen2))"

text \<open>The events of one \<open>delta\<close> object.\<close>

definition openai_delta :: "value \<Rightarrow> u32 set \<Rightarrow> stream_event list \<times> u32 set" where
  "openai_delta delta seen =
     (let text = (case opt_filter (\<lambda>c. c \<noteq> []) (get_str delta ''content'') of
            Some c \<Rightarrow> [TextDelta c] | None \<Rightarrow> []);
          reasoning = (case opt_filter (\<lambda>r. r \<noteq> [])
              (Option.bind (or_else (value_get delta ''reasoning_content'') (value_get delta ''reasoning'')) as_str) of
            Some r \<Rightarrow> [ReasoningDelta r] | None \<Rightarrow> []);
          (calls, seen1) = (case get_array delta ''tool_calls'' of
            Some cs \<Rightarrow> openai_stream_tool_calls cs seen | None \<Rightarrow> ([], seen))
      in (text @ reasoning @ calls, seen1))"

definition upstream_error_message :: "value \<Rightarrow> string" where
  "upstream_error_message error = unwrap_or (get_str error ''message'') ''upstream stream error''"

definition openai_start :: "openai_decoder \<Rightarrow> value \<Rightarrow> stream_event list \<times> openai_decoder" where
  "openai_start d parsed =
     (if \<not> od_started d
      then ([MessageStart (str_or_empty parsed ''id'') (str_or_empty parsed ''model'') None],
            d\<lparr>od_started := True\<rparr>)
      else ([], d))"

definition openai_take_usage :: "value \<Rightarrow> openai_decoder \<Rightarrow> openai_decoder" where
  "openai_take_usage parsed d =
     (case value_get parsed ''usage'' of
        Some usage \<Rightarrow> d\<lparr>od_pending_usage := openai_parse_usage usage\<rparr>
      | None \<Rightarrow> d)"

definition openai_choice :: "openai_decoder \<Rightarrow> value \<Rightarrow> stream_event list \<times> openai_decoder" where
  "openai_choice d choice =
     (let (events, seen) = (case value_get choice ''delta'' of
            Some delta \<Rightarrow> openai_delta delta (od_seen_tool_indices d)
          | None \<Rightarrow> ([], od_seen_tool_indices d));
          d1 = d\<lparr>od_seen_tool_indices := seen\<rparr>
      in (events,
          case get_str choice ''finish_reason'' of
            Some fr \<Rightarrow> d1\<lparr>od_pending_finish := Some (openai_parse_finish_reason fr)\<rparr>
          | None \<Rightarrow> d1))"

definition openai_feed_value :: "openai_decoder \<Rightarrow> value \<Rightarrow> stream_event list \<times> openai_decoder" where
  "openai_feed_value d parsed =
     (case value_get parsed ''error'' of
        Some error \<Rightarrow> ([Error (Api (upstream_error_message error))], d\<lparr>od_failed := True\<rparr>)
      | None \<Rightarrow>
          (let (start, d1) = openai_start d parsed in
           case Option.bind (get_array parsed ''choices'') (\<lambda>c. case c of [] \<Rightarrow> None | x # _ \<Rightarrow> Some x) of
             None \<Rightarrow> (start, openai_take_usage parsed d1)
           | Some choice \<Rightarrow>
               (let (events, d2) = openai_choice d1 choice in (start @ events, openai_take_usage parsed d2))))"

definition openai_feed :: "serde_json \<Rightarrow> openai_decoder \<Rightarrow> string \<Rightarrow> stream_event list \<times> openai_decoder" where
  "openai_feed J d data =
     (case from_str J data of Inl _ \<Rightarrow> ([], d) | Inr parsed \<Rightarrow> openai_feed_value d parsed)"

definition openai_finish :: "openai_decoder \<Rightarrow> stream_event list \<times> openai_decoder" where
  "openai_finish d =
     (if \<not> od_started d \<or> od_failed d \<or> od_stop_emitted d then ([], d)
      else ([MessageStop (unwrap_or (od_pending_finish d) Stop) (od_pending_usage d)],
            d\<lparr>od_stop_emitted := True\<rparr>))"

section \<open>The encoder\<close>

record openai_encoder =
  oe_id :: string
  oe_model :: string
  oe_created :: u64

definition openai_encoder_new :: "u64 \<Rightarrow> openai_encoder" where
  "openai_encoder_new created = \<lparr>oe_id = [], oe_model = [], oe_created = created\<rparr>"

text \<open>\<open>chunk\<close>: the payload's entries inserted into the frame's own.\<close>

definition openai_chunk :: "openai_encoder \<Rightarrow> (string \<times> value) list \<Rightarrow> value" where
  "openai_chunk enc payload =
     Object (obj_insert_all (obj_insert_all payload [])
       (obj_insert_all ((if oe_id enc \<noteq> [] then [(''id'', String (oe_id enc))] else []) @
          [(''object'', String ''chat.completion.chunk''), (''created'', jnum (oe_created enc)),
           (''model'', String (oe_model enc))]) []))"

definition openai_delta_payload :: "(string \<times> value) list \<Rightarrow> value \<Rightarrow> (string \<times> value) list" where
  "openai_delta_payload delta finish =
     [(''choices'', Array [jobj [(''index'', jnum 0), (''delta'', jobj delta), (''finish_reason'', finish)]])]"

definition openai_call_value :: "u32 \<Rightarrow> string \<Rightarrow> string \<Rightarrow> string \<Rightarrow> value" where
  "openai_call_value index i nm arguments =
     jobj ([(''index'', jnum32 index)] @
       (if i \<noteq> [] then [(''id'', String i), (''type'', String ''function'')] else []) @
       [(''function'', jobj ((if nm \<noteq> [] then [(''name'', String nm)] else []) @
           (if arguments \<noteq> [] then [(''arguments'', String arguments)] else [])))])"

fun openai_encode_values :: "openai_encoder \<Rightarrow> stream_event \<Rightarrow> value list \<times> openai_encoder" where
  "openai_encode_values enc (MessageStart i m _) =
     (let enc1 = enc\<lparr>oe_id := i, oe_model := m\<rparr> in
      ([openai_chunk enc1 (openai_delta_payload [(''role'', String ''assistant''), (''content'', String [])] Null)], enc1))"
| "openai_encode_values enc (TextDelta t) =
     ([openai_chunk enc (openai_delta_payload [(''content'', String t)] Null)], enc)"
| "openai_encode_values enc (ReasoningDelta t) =
     ([openai_chunk enc (openai_delta_payload [(''reasoning_content'', String t)] Null)], enc)"
| "openai_encode_values enc (ToolCallDelta index i nm arguments) =
     ([openai_chunk enc (openai_delta_payload
         [(''tool_calls'', Array [openai_call_value index i nm arguments])] Null)], enc)"
| "openai_encode_values enc (ReasoningSignature _) = ([], enc)"
| "openai_encode_values enc (MessageStop finish_reason usage) =
     ([openai_chunk enc (openai_delta_payload [] (String (finish_as_str finish_reason)) @
         (case usage of Some u \<Rightarrow> [(''usage'', openai_usage_value u)] | None \<Rightarrow> []))], enc)"
| "openai_encode_values enc (Error e) =
     ([openai_chunk enc [(''error'', jobj [(''message'', String (error_to_string e))])]], enc)"

definition openai_encode :: "serde_json \<Rightarrow> openai_encoder \<Rightarrow> stream_event \<Rightarrow> string list \<times> openai_encoder" where
  "openai_encode J enc event =
     (let (vs, enc1) = openai_encode_values enc event in (map (\<lambda>v. sse_frame (to_string J v)) vs, enc1))"

definition openai_done :: "openai_encoder \<Rightarrow> string" where
  "openai_done enc = sse_frame ''[DONE]''"

section \<open>The adapter\<close>

definition openai_endpoints :: "(string \<times> endpoint_kind) list" where
  "openai_endpoints = [(''/v1/chat/completions'', Chat), (''/v1/models'', Models)]"

definition openai_conversation_url :: "string \<Rightarrow> string \<Rightarrow> string result" where
  "openai_conversation_url base model = Inr (trim_end_char CHR ''/'' base @ ''/v1/chat/completions'')"

definition openai_models_path :: "string option" where
  "openai_models_path = Some ''/v1/models''"

definition openai_serialize_models :: "serde_json \<Rightarrow> u64 \<Rightarrow> model_info list \<Rightarrow> string result" where
  "openai_serialize_models J created models =
     Inr (to_string J (jobj [(''object'', String ''list''), (''data'', Array (map (\<lambda>m.
       jobj [(''id'', String (model_id m)), (''object'', String ''model''), (''created'', jnum created),
             (''owned_by'', String (model_owned_by m))]) models))]))"

section \<open>The contracts\<close>

lemma openai_tool_calls_no_stop: "openai_stream_tool_calls calls seen = (es, seen') \<Longrightarrow> stops es = 0"
  by (induction calls arbitrary: seen es)
    (auto simp: openai_stream_tool_call_def Let_def split: prod.splits if_splits)

lemma openai_delta_no_stop: "openai_delta delta seen = (es, seen') \<Longrightarrow> stops es = 0"
  by (auto simp: openai_delta_def Let_def dest: openai_tool_calls_no_stop split: option.splits prod.splits)

lemma openai_choice_stop:
  "openai_choice d ch = (es, d') \<Longrightarrow> stops es = 0 \<and> od_stop_emitted d' = od_stop_emitted d"
  by (auto simp: openai_choice_def Let_def dest: openai_delta_no_stop split: option.splits prod.splits)

lemma openai_feed_value_stop:
  "openai_feed_value d v = (es, d') \<Longrightarrow> stops es = 0 \<and> od_stop_emitted d' = od_stop_emitted d"
  by (auto simp: openai_feed_value_def openai_start_def openai_take_usage_def Let_def
      dest!: openai_choice_stop split: option.splits prod.splits if_splits)

interpretation openai_dec: stream_decoder "openai_feed J" openai_finish od_stop_emitted for J
proof unfold_locales
  show "stops es + of_bool (od_stop_emitted d) = of_bool (od_stop_emitted d')"
    if "openai_feed J d s = (es, d')" for d s es d'
    using that openai_feed_value_stop by (auto simp: openai_feed_def split: sum.splits)
qed (auto simp: openai_finish_def split: if_splits)

interpretation openai_enc: stream_encoder openai_encode
proof unfold_locales
  fix J enc ev fs enc'
  assume J: "prints_lines J" and e: "openai_encode J enc ev = (fs, enc')"
  obtain vs where "fs = map (\<lambda>v. sse_frame (to_string J v)) vs"
    using e by (auto simp: openai_encode_def split: prod.splits)
  then have "list_all2 carries fs (map (to_string J) vs)"
    using J by (simp add: list_all2_conv_all_nth prints_lines_def carries_frame)
  then show "\<exists>ps. list_all2 carries fs ps" ..
qed

section \<open>Decoding what was encoded\<close>

lemma openai_chunk_get:
  "value_get (openai_chunk enc payload) k =
     (case map_of (rev payload) k of
        Some v \<Rightarrow> Some v
      | None \<Rightarrow>
          (if k = ''model'' then Some (String (oe_model enc))
           else if k = ''created'' then Some (jnum (oe_created enc))
           else if k = ''object'' then Some (String ''chat.completion.chunk'')
           else if k = ''id'' \<and> oe_id enc \<noteq> [] then Some (String (oe_id enc))
           else None))"
  unfolding openai_chunk_def value_get_merge obj_get_insert_all
  by (auto simp: obj_get_def split: option.split)

text \<open>
  The events of a message body as the upstream dialects produce them: no empty text or reasoning
  delta, and a tool call's name and id only with the first fragment of its index.
\<close>

fun openai_body_ok :: "u32 set \<Rightarrow> stream_event list \<Rightarrow> bool" where
  "openai_body_ok seen [] = True"
| "openai_body_ok seen (TextDelta t # es) = (t \<noteq> [] \<and> openai_body_ok seen es)"
| "openai_body_ok seen (ReasoningDelta t # es) = (t \<noteq> [] \<and> openai_body_ok seen es)"
| "openai_body_ok seen (ToolCallDelta k i nm a # es) =
     ((k \<in> seen \<longrightarrow> i = [] \<and> nm = []) \<and> openai_body_ok (insert k seen) es)"
| "openai_body_ok seen (e # es) = False"

fun openai_encode_all :: "openai_encoder \<Rightarrow> stream_event list \<Rightarrow> value list" where
  "openai_encode_all enc [] = []"
| "openai_encode_all enc (e # es) =
     (let (vs, enc1) = openai_encode_values enc e in vs @ openai_encode_all enc1 es)"

fun openai_feed_values :: "openai_decoder \<Rightarrow> value list \<Rightarrow> stream_event list \<times> openai_decoder" where
  "openai_feed_values d [] = ([], d)"
| "openai_feed_values d (v # vs) =
     (let (es, d1) = openai_feed_value d v; (fs, d2) = openai_feed_values d1 vs in (es @ fs, d2))"

text \<open>What the decoder looks up in a chunk that carries one delta.\<close>

lemma openai_delta_chunk:
  assumes "od_started d" "openai_delta (jobj delta) (od_seen_tool_indices d) = (es, seen)"
  shows "openai_feed_value d (openai_chunk enc (openai_delta_payload delta Null))
    = (es, d\<lparr>od_seen_tool_indices := seen\<rparr>)"
  using assms by (simp add: openai_feed_value_def openai_chunk_get openai_delta_payload_def openai_start_def
      openai_choice_def openai_take_usage_def)

lemma openai_text_delta: "t \<noteq> [] \<Longrightarrow> openai_delta (jobj [(''content'', String t)]) seen = ([TextDelta t], seen)"
  by (simp add: openai_delta_def)

lemma openai_reasoning_delta:
  "t \<noteq> [] \<Longrightarrow> openai_delta (jobj [(''reasoning_content'', String t)]) seen = ([ReasoningDelta t], seen)"
  by (simp add: openai_delta_def)

lemma openai_call_delta:
  "k \<in> seen \<longrightarrow> i = [] \<and> nm = [] \<Longrightarrow>
   openai_delta (jobj [(''tool_calls'', Array [openai_call_value k i nm a])]) seen = ([ToolCallDelta k i nm a], insert k seen)"
  by (cases "k \<in> seen")
    (simp_all add: openai_delta_def openai_stream_tool_call_def openai_call_value_def Let_def)

lemma openai_body_back:
  "openai_body_ok (od_seen_tool_indices d) body \<Longrightarrow> od_started d \<Longrightarrow>
   \<exists>d' vs. openai_encode_all enc (body @ rest) = vs @ openai_encode_all enc rest \<and>
     openai_feed_values d vs = (body, d') \<and>
     (\<exists>seen. d' = d\<lparr>od_seen_tool_indices := seen\<rparr>)"
proof (induction body arbitrary: d)
  case Nil
  then show ?case by (intro exI [of _ d] exI [of _ "[]"]) (auto intro: exI [of _ "od_seen_tool_indices d"])
next
  case (Cons e es)
  have one: "\<exists>v seen. openai_encode_values enc e = ([v], enc) \<and>
      openai_feed_value d v = ([e], d\<lparr>od_seen_tool_indices := seen\<rparr>) \<and> openai_body_ok seen es"
  proof (cases e)
    case (TextDelta t)
    with Cons.prems show ?thesis by (simp add: openai_delta_chunk [OF _ openai_text_delta])
        (auto intro!: exI [of _ "od_seen_tool_indices d"])
  next
    case (ReasoningDelta t)
    with Cons.prems show ?thesis by (simp add: openai_delta_chunk [OF _ openai_reasoning_delta])
        (auto intro!: exI [of _ "od_seen_tool_indices d"])
  next
    case (ToolCallDelta k i nm a)
    then have ok: "k \<in> od_seen_tool_indices d \<longrightarrow> i = [] \<and> nm = []" using Cons.prems by simp
    show ?thesis using ToolCallDelta Cons.prems openai_delta_chunk [OF Cons.prems(2) openai_call_delta [OF ok]]
      by auto
  qed (use Cons.prems in auto)
  then obtain v seen where v: "openai_encode_values enc e = ([v], enc)"
    "openai_feed_value d v = ([e], d\<lparr>od_seen_tool_indices := seen\<rparr>)" "openai_body_ok seen es" by blast
  let ?d = "d\<lparr>od_seen_tool_indices := seen\<rparr>"
  have "openai_body_ok (od_seen_tool_indices ?d) es" "od_started ?d" using v(3) Cons.prems by simp_all
  from Cons.IH [OF this] obtain d' vs where r: "openai_encode_all enc (es @ rest) = vs @ openai_encode_all enc rest"
    "openai_feed_values ?d vs = (es, d')" "\<exists>seen. d' = ?d\<lparr>od_seen_tool_indices := seen\<rparr>" by blast
  show ?case using v(1,2) r by (intro exI [of _ d'] exI [of _ "v # vs"]) auto
qed

text \<open>The chunks at both ends of a message.\<close>

lemma openai_start_back:
  "openai_feed_value openai_decoder_new (openai_chunk (enc\<lparr>oe_id := i, oe_model := m\<rparr>)
      (openai_delta_payload [(''role'', String ''assistant''), (''content'', String [])] Null))
   = ([MessageStart i m None], openai_decoder_new\<lparr>od_started := True\<rparr>)"
  by (cases "i = []") (simp_all add: openai_feed_value_def openai_chunk_get openai_delta_payload_def
      openai_start_def openai_choice_def openai_take_usage_def openai_delta_def openai_decoder_new_def)

lemma openai_stop_chunk_back:
  assumes "od_started d" "od_pending_usage d = None"
  shows "openai_feed_value d (openai_chunk enc (openai_delta_payload [] (String (finish_as_str fr)) @
      (case us of Some u \<Rightarrow> [(''usage'', openai_usage_value u)] | None \<Rightarrow> [])))
    = ([], d\<lparr>od_pending_finish := Some (openai_parse_finish_reason (finish_as_str fr)), od_pending_usage := us\<rparr>)"
  using assms
  by (cases us) (simp_all add: openai_feed_value_def openai_chunk_get openai_delta_payload_def openai_start_def
      openai_choice_def openai_take_usage_def openai_delta_def openai_parse_usage_def openai_usage_value_def)

lemma openai_feed_values_append:
  "openai_feed_values d (vs @ ws) =
     (let (es, d1) = openai_feed_values d vs; (fs, d2) = openai_feed_values d1 ws in (es @ fs, d2))"
  by (induction vs arbitrary: d) (simp_all add: Let_def split: prod.splits)

lemma openai_decoder_run:
  "\<forall>v \<in> set vs. reads_back J v \<Longrightarrow>
   decoder_run (openai_feed J) openai_finish d (map (\<lambda>v. Feed (to_string J v)) vs @ [Finish])
   = (let (es, d1) = openai_feed_values d vs; (fs, d2) = openai_finish d1 in (es @ fs, d2))"
  by (induction vs arbitrary: d) (simp_all add: openai_feed_def reads_back_def Let_def split: prod.splits)

lemma openai_encoder_run:
  "encoder_run (openai_encode J) enc es = (fs, enc') \<Longrightarrow> fs = map (\<lambda>v. sse_frame (to_string J v)) (openai_encode_all enc es)"
  by (induction es arbitrary: enc fs) (auto simp: openai_encode_def Let_def split: prod.splits)

lemma openai_message_events:
  fixes i m fr us body created u
  defines "vs \<equiv> openai_encode_all (openai_encoder_new created) (MessageStart i m u # body @ [MessageStop fr us])"
  assumes "openai_body_ok {} body"
  shows "let (es, d1) = openai_feed_values openai_decoder_new vs; (fs, d2) = openai_finish d1 in
    es @ fs = MessageStart i m None # body @ [MessageStop (openai_parse_finish_reason (finish_as_str fr)) us]"
proof -
  let ?enc = "(openai_encoder_new created)\<lparr>oe_id := i, oe_model := m\<rparr>"
  let ?d = "openai_decoder_new\<lparr>od_started := True\<rparr>"
  have "openai_body_ok (od_seen_tool_indices ?d) body" "od_started ?d"
    using assms(2) by (simp_all add: openai_decoder_new_def)
  from openai_body_back [OF this, of ?enc "[MessageStop fr us]"] obtain d' ws seen where
    b: "openai_encode_all ?enc (body @ [MessageStop fr us]) = ws @ openai_encode_all ?enc [MessageStop fr us]"
      "openai_feed_values ?d ws = (body, d')" "d' = ?d\<lparr>od_seen_tool_indices := seen\<rparr>" by blast
  have "od_started d'" "od_pending_usage d' = None" by (simp_all add: b(3) openai_decoder_new_def)
  note st = openai_stop_chunk_back [OF this, of ?enc fr us]
  show ?thesis unfolding vs_def
    by (simp add: Let_def b(1) openai_feed_values_append openai_start_back b(2) st)
      (simp add: b(3) openai_finish_def openai_decoder_new_def)
qed

section \<open>Properties\<close>


section \<open>An example stream\<close>

definition openai_example_events :: "stream_event list" where
  "openai_example_events = [MessageStart ''id1'' ''gpt-4o'' None, TextDelta ''hi'', ReasoningDelta ''hm'',
     ToolCallDelta 0 ''c1'' ''look'' [], ToolCallDelta 0 [] [] ''{}'',
     MessageStop ToolCalls (Some \<lparr>input_tokens = 1, output_tokens = 2\<rparr>)]"

definition openai_example_chunks :: serde_json where
  "openai_example_chunks = table_json
     (zip [''c0'', ''c1'', ''c2'', ''c3'', ''c4'', ''c5'']
       (openai_encode_all (openai_encoder_new 7) openai_example_events))"

lemma table_json_prints_lines:
  assumes "list_all (\<lambda>(s, v). framable s) tab"
  shows "prints_lines (table_json tab)"
proof -
  have "framable []" by (simp add: framable_def)
  then show ?thesis using assms
    by (auto simp: prints_lines_def table_json_def list_all_iff find_Some_iff split: option.split)
      (metis case_prodD nth_mem)
qed


end
