(* ===== verification/Anthropic_Convert.thy ===== *)
theory Anthropic_Convert
  imports OpenAI_Convert
begin

text \<open>
  The Anthropic messages dialect, whole bodies (\<open>src/adapters/anthropic/convert.rs\<close>).
\<close>

section \<open>Reading a request\<close>

definition DEFAULT_MAX_TOKENS :: u32 where
  "DEFAULT_MAX_TOKENS = 1024"

definition texts_of :: "value list \<Rightarrow> string list" where
  "texts_of blocks = List.map_filter (\<lambda>b. get_str b ''text'') blocks"

definition anthropic_parse_image :: "value \<Rightarrow> content_block option" where
  "anthropic_parse_image block =
     Option.bind (value_get block ''source'') (\<lambda>source.
     Option.bind (get_str source ''type'') (\<lambda>stype.
       if stype = ''base64'' then
         Option.bind (get_str source ''media_type'') (\<lambda>m.
         Option.bind (get_str source ''data'') (\<lambda>d. Some (Image m d)))
       else if stype = ''url'' then
         Option.bind (get_str source ''url'') (\<lambda>u. Some (Image ''url'' u))
       else None))"

definition anthropic_parse_tool_result :: "value \<Rightarrow> content_block option" where
  "anthropic_parse_tool_result block =
     (let content = (case value_get block ''content'' of
            Some (String s) \<Rightarrow> s
          | Some (Array blocks) \<Rightarrow> join newline (texts_of blocks)
          | _ \<Rightarrow> [])
      in Option.bind (get_str block ''tool_use_id'') (\<lambda>i.
           Some (ToolResult i content (unwrap_or (get_bool block ''is_error'') False))))"

definition anthropic_parse_block :: "value \<Rightarrow> content_block option" where
  "anthropic_parse_block block =
     Option.bind (get_str block ''type'') (\<lambda>btype.
       if btype = ''text'' then map_option Text (get_str block ''text'')
       else if btype = ''image'' then anthropic_parse_image block
       else if btype = ''thinking'' then
         map_option (\<lambda>t. Thinking t (get_str block ''signature'')) (get_str block ''thinking'')
       else if btype = ''redacted_thinking'' then map_option RedactedThinking (get_str block ''data'')
       else if btype = ''tool_use'' then
         Option.bind (get_str block ''id'') (\<lambda>i.
         Option.bind (get_str block ''name'') (\<lambda>nm.
           Some (ToolUse i nm (unwrap_or (value_get block ''input'') (Object [])))))
       else if btype = ''tool_result'' then anthropic_parse_tool_result block
       else None)"

definition anthropic_parse_content_blocks :: "value option \<Rightarrow> content_block list" where
  "anthropic_parse_content_blocks content =
     (case content of
        Some (String s) \<Rightarrow> if s \<noteq> [] then [Text s] else []
      | Some (Array blocks) \<Rightarrow> List.map_filter anthropic_parse_block blocks
      | _ \<Rightarrow> [])"

text \<open>A user message that mixes tool results and other blocks becomes two messages.\<close>

definition anthropic_split_user :: "content_block list \<Rightarrow> neutral_message list" where
  "anthropic_split_user blocks =
     (let results = filter is_tool_result blocks; rest = filter (\<lambda>b. \<not> is_tool_result b) blocks in
      (if results \<noteq> [] then [\<lparr>msg_role = Tool, msg_content = results\<rparr>] else []) @
      (if rest \<noteq> [] then [\<lparr>msg_role = User, msg_content = rest\<rparr>] else []))"

definition anthropic_parse_messages :: "value \<Rightarrow> neutral_message list" where
  "anthropic_parse_messages msg =
     (case get_str msg ''role'' of
        None \<Rightarrow> []
      | Some role \<Rightarrow>
          let blocks = anthropic_parse_content_blocks (value_get msg ''content'') in
          if role = ''user'' then
            (if list_ex is_tool_result blocks then anthropic_split_user blocks
             else [\<lparr>msg_role = User, msg_content = blocks\<rparr>])
          else if role = ''assistant'' then [\<lparr>msg_role = Assistant, msg_content = blocks\<rparr>]
          else [])"

definition anthropic_parse_tool :: "value \<Rightarrow> neutral_tool option" where
  "anthropic_parse_tool tool =
     Option.bind (get_str tool ''name'') (\<lambda>nm.
       Some \<lparr>nt_name = nm, nt_description = get_str tool ''description'',
             nt_parameters = unwrap_or (value_get tool ''input_schema'') (Object [])\<rparr>)"

definition anthropic_system :: "value \<Rightarrow> neutral_message list" where
  "anthropic_system root =
     (case value_get root ''system'' of
        None \<Rightarrow> []
      | Some system \<Rightarrow>
          let text = (case system of String s \<Rightarrow> [s] | Array blocks \<Rightarrow> texts_of blocks | _ \<Rightarrow> []) in
          if text \<noteq> [] then [\<lparr>msg_role = System, msg_content = map Text text\<rparr>] else [])"

definition anthropic_request_of :: "value \<Rightarrow> neutral_request" where
  "anthropic_request_of root =
     \<lparr>req_model = str_or_empty root ''model'',
      req_messages = anthropic_system root @
        concat (map anthropic_parse_messages (unwrap_or (get_array root ''messages'') [])),
      req_tools = List.map_filter anthropic_parse_tool (unwrap_or (get_array root ''tools'') []),
      req_max_tokens = map_option as_u32 (get_u64 root ''max_tokens''),
      req_max_completion_tokens = None,
      req_temperature = get_f64 root ''temperature'',
      req_top_p = get_f64 root ''top_p'',
      req_top_k = map_option as_u32 (get_u64 root ''top_k''),
      req_stop = opt_filter (\<lambda>s. s \<noteq> []) (map_option (List.map_filter as_str) (get_array root ''stop_sequences'')),
      req_stream = unwrap_or (get_bool root ''stream'') False\<rparr>"

definition anthropic_parse_request :: "serde_json \<Rightarrow> string \<Rightarrow> neutral_request result" where
  "anthropic_parse_request J body =
     (case from_str J body of
        Inl e \<Rightarrow> Inl (invalid_json e)
      | Inr v \<Rightarrow>
          (case as_object v of
             None \<Rightarrow> Inl (InvalidRequest ''expected a JSON object'')
           | Some root \<Rightarrow> Inr (anthropic_request_of (Object root))))"

section \<open>Writing a request\<close>

definition anthropic_image_value :: "string \<Rightarrow> string \<Rightarrow> value" where
  "anthropic_image_value media base =
     (if media = ''url''
      then jobj [(''type'', String ''image''), (''source'', jobj [(''type'', String ''url''), (''url'', String base)])]
      else jobj [(''type'', String ''image''),
             (''source'', jobj [(''type'', String ''base64''), (''media_type'', String media), (''data'', String base)])])"

fun anthropic_user_block :: "content_block \<Rightarrow> value option" where
  "anthropic_user_block (Text t) = Some (jobj [(''type'', String ''text''), (''text'', String t)])"
| "anthropic_user_block (Image media base) = Some (anthropic_image_value media base)"
| "anthropic_user_block _ = None"

definition anthropic_user_blocks :: "content_block list \<Rightarrow> value" where
  "anthropic_user_blocks content =
     (let blocks = List.map_filter anthropic_user_block content in
      if length blocks = 1 \<and> value_get (blocks ! 0) ''type'' = Some (String ''text'')
      then unwrap_or (value_get (blocks ! 0) ''text'') Null
      else if blocks = [] then String []
      else Array blocks)"

fun anthropic_assistant_block :: "content_block \<Rightarrow> value option" where
  "anthropic_assistant_block (Text t) = Some (jobj [(''type'', String ''text''), (''text'', String t)])"
| "anthropic_assistant_block (Image media base) = Some (anthropic_image_value media base)"
| "anthropic_assistant_block (Thinking t sig) =
     Some (jobj ([(''type'', String ''thinking''), (''thinking'', String t)] @
       (case sig of Some s \<Rightarrow> [(''signature'', String s)] | None \<Rightarrow> [])))"
| "anthropic_assistant_block (ToolUse i nm input) =
     Some (jobj [(''type'', String ''tool_use''), (''id'', String i), (''name'', String nm), (''input'', input)])"
| "anthropic_assistant_block (RedactedThinking d) =
     Some (jobj [(''type'', String ''redacted_thinking''), (''data'', String d)])"
| "anthropic_assistant_block _ = None"

definition anthropic_assistant_blocks :: "content_block list \<Rightarrow> value" where
  "anthropic_assistant_blocks content =
     (let blocks = List.map_filter anthropic_assistant_block content in
      if blocks = [] then String [] else Array blocks)"

fun anthropic_tool_result :: "content_block \<Rightarrow> value option" where
  "anthropic_tool_result (ToolResult i c e) =
     Some (jobj [(''type'', String ''tool_result''), (''tool_use_id'', String i), (''content'', String c),
       (''is_error'', Bool e)])"
| "anthropic_tool_result _ = None"

definition anthropic_message_value :: "neutral_message \<Rightarrow> value list" where
  "anthropic_message_value msg =
     (case msg_role msg of
        System \<Rightarrow> []
      | User \<Rightarrow> [jobj [(''role'', String ''user''), (''content'', anthropic_user_blocks (msg_content msg))]]
      | Assistant \<Rightarrow> [jobj [(''role'', String ''assistant''), (''content'', anthropic_assistant_blocks (msg_content msg))]]
      | Tool \<Rightarrow>
          let results = List.map_filter anthropic_tool_result (msg_content msg) in
          if results \<noteq> [] then [jobj [(''role'', String ''user''), (''content'', Array results)]] else [])"

definition anthropic_system_text :: "neutral_message \<Rightarrow> string list" where
  "anthropic_system_text msg = (case msg_role msg of System \<Rightarrow> block_texts (msg_content msg) | _ \<Rightarrow> [])"

definition anthropic_serialize_tool :: "neutral_tool \<Rightarrow> value" where
  "anthropic_serialize_tool tool =
     jobj ([(''name'', String (nt_name tool))] @
       (case nt_description tool of Some d \<Rightarrow> [(''description'', String d)] | None \<Rightarrow> []) @
       [(''input_schema'', nt_parameters tool)])"

definition anthropic_request_value :: "neutral_request \<Rightarrow> value" where
  "anthropic_request_value req =
     (let system_text = concat (map anthropic_system_text (req_messages req)) in
      jobj ([(''model'', String (req_model req))] @
       (if length system_text = 1 then [(''system'', String (system_text ! 0))]
        else if system_text \<noteq> [] then
          [(''system'', Array (map (\<lambda>t. jobj [(''type'', String ''text''), (''text'', String t)]) system_text))]
        else []) @
       [(''messages'', Array (concat (map anthropic_message_value (req_messages req))))] @
       (if req_tools req \<noteq> [] then [(''tools'', Array (map anthropic_serialize_tool (req_tools req)))] else []) @
       [(''max_tokens'', jnum32 (unwrap_or (or_else (req_max_tokens req) (req_max_completion_tokens req)) DEFAULT_MAX_TOKENS))] @
       (case req_temperature req of Some t \<Rightarrow> [(''temperature'', jf64 t)] | None \<Rightarrow> []) @
       (case req_top_p req of Some tp \<Rightarrow> [(''top_p'', jf64 tp)] | None \<Rightarrow> []) @
       (case req_top_k req of Some tk \<Rightarrow> [(''top_k'', jnum32 tk)] | None \<Rightarrow> []) @
       (case req_stop req of Some stop \<Rightarrow> [(''stop_sequences'', Array (map String stop))] | None \<Rightarrow> []) @
       (if req_stream req then [(''stream'', Bool True)] else [])))"

definition anthropic_serialize_request :: "serde_json \<Rightarrow> neutral_request \<Rightarrow> string result" where
  "anthropic_serialize_request J req = Inr (to_string J (anthropic_request_value req))"

section \<open>Responses\<close>

definition anthropic_parse_stop_reason :: "string \<Rightarrow> finish_reason" where
  "anthropic_parse_stop_reason s =
     (if s = ''end_turn'' then Stop
      else if s = ''max_tokens'' then Length
      else if s = ''tool_use'' then ToolCalls
      else if s = ''stop_sequence'' then Stop
      else if s = ''refusal'' then ContentFilter
      else if s = ''ping'' then Other ''ping''
      else Other s)"

definition anthropic_parse_usage :: "value \<Rightarrow> neutral_usage option" where
  "anthropic_parse_usage usage =
     Some \<lparr>input_tokens = unwrap_or (get_u64 usage ''input_tokens'') 0,
           output_tokens = unwrap_or (get_u64 usage ''output_tokens'') 0\<rparr>"

definition anthropic_response_of :: "value \<Rightarrow> neutral_response" where
  "anthropic_response_of root =
     \<lparr>resp_id = str_or_empty root ''id'',
      resp_model = str_or_empty root ''model'',
      resp_content = anthropic_parse_content_blocks (value_get root ''content''),
      resp_finish_reason = unwrap_or (map_option anthropic_parse_stop_reason (get_str root ''stop_reason'')) Stop,
      resp_usage = Option.bind (value_get root ''usage'') anthropic_parse_usage\<rparr>"

definition anthropic_parse_response :: "serde_json \<Rightarrow> string \<Rightarrow> neutral_response result" where
  "anthropic_parse_response J body =
     (case from_str J body of
        Inl e \<Rightarrow> Inl (invalid_json e)
      | Inr v \<Rightarrow>
          (case as_object v of
             None \<Rightarrow> Inl (InvalidRequest ''expected a JSON object'')
           | Some m \<Rightarrow>
               let root = Object m in
               if value_get root ''error'' \<noteq> None \<or> value_get root ''type'' = Some (String ''error'')
               then Inl (Upstream (ucast (unwrap_or (get_u64 root ''status'') 500)) body)
               else Inr (anthropic_response_of root)))"

definition anthropic_stop_reason :: "finish_reason \<Rightarrow> string" where
  "anthropic_stop_reason fr =
     (case fr of
        Stop \<Rightarrow> ''end_turn''
      | Length \<Rightarrow> ''max_tokens''
      | ToolCalls \<Rightarrow> ''tool_use''
      | ContentFilter \<Rightarrow> ''refusal''
      | Other s \<Rightarrow> s)"

definition anthropic_response_value :: "neutral_response \<Rightarrow> value" where
  "anthropic_response_value resp =
     jobj ([(''id'', String (resp_id resp)), (''type'', String ''message''), (''role'', String ''assistant''),
       (''model'', String (resp_model resp)),
       (''content'', Array (List.map_filter anthropic_assistant_block (resp_content resp))),
       (''stop_reason'', String (anthropic_stop_reason (resp_finish_reason resp))), (''stop_sequence'', Null)] @
       (case resp_usage resp of
          Some u \<Rightarrow> [(''usage'', jobj [(''input_tokens'', jnum (input_tokens u)), (''output_tokens'', jnum (output_tokens u))])]
        | None \<Rightarrow> []))"

definition anthropic_serialize_response :: "serde_json \<Rightarrow> neutral_response \<Rightarrow> string result" where
  "anthropic_serialize_response J resp = Inr (to_string J (anthropic_response_value resp))"

definition anthropic_error_kind :: "adapter_error \<Rightarrow> u16 \<times> string" where
  "anthropic_error_kind err =
     (case err of
        InvalidRequest _ \<Rightarrow> (400, ''invalid_request_error'')
      | Authentication \<Rightarrow> (401, ''authentication_error'')
      | PermissionDenied \<Rightarrow> (403, ''permission_error'')
      | RateLimit _ \<Rightarrow> (429, ''rate_limit_error'')
      | InsufficientQuota \<Rightarrow> (429, ''rate_limit_error'')
      | Overloaded \<Rightarrow> (529, ''overloaded_error'')
      | Api _ \<Rightarrow> (500, ''api_error'')
      | Upstream status _ \<Rightarrow> (status, ''api_error'')
      | Internal _ \<Rightarrow> (500, ''api_error''))"

definition anthropic_serialize_error :: "serde_json \<Rightarrow> adapter_error \<Rightarrow> u16 \<times> string" where
  "anthropic_serialize_error J err =
     (let (status, etype) = anthropic_error_kind err in
      (status, to_string J (jobj [(''type'', String ''error''),
         (''error'', jobj [(''type'', String etype), (''message'', String (error_to_string err))])])))"

section \<open>What survives a trip through the dialect\<close>

fun is_user_block :: "content_block \<Rightarrow> bool" where
  "is_user_block (Text _) = True"
| "is_user_block (Image _ _) = True"
| "is_user_block _ = False"

definition anthropic_normal_user :: "content_block list \<Rightarrow> content_block list" where
  "anthropic_normal_user bs = (let kept = filter is_user_block bs in if kept = [Text []] then [] else kept)"

definition anthropic_normal_message :: "neutral_message \<Rightarrow> neutral_message list" where
  "anthropic_normal_message m =
     (let bs = msg_content m in
      case msg_role m of
        System \<Rightarrow> []
      | User \<Rightarrow> [\<lparr>msg_role = User, msg_content = anthropic_normal_user bs\<rparr>]
      | Assistant \<Rightarrow> [\<lparr>msg_role = Assistant, msg_content = filter (\<lambda>b. \<not> is_tool_result b) bs\<rparr>]
      | Tool \<Rightarrow> (let results = filter is_tool_result bs in
          if results = [] then [] else [\<lparr>msg_role = Tool, msg_content = results\<rparr>]))"

definition anthropic_normal_messages :: "neutral_message list \<Rightarrow> neutral_message list" where
  "anthropic_normal_messages ms =
     (let system_text = concat (map anthropic_system_text ms) in
      (if system_text = [] then [] else [\<lparr>msg_role = System, msg_content = map Text system_text\<rparr>]) @
      concat (map anthropic_normal_message ms))"

definition anthropic_normal_request :: "neutral_request \<Rightarrow> neutral_request" where
  "anthropic_normal_request req = req\<lparr>
     req_messages := anthropic_normal_messages (req_messages req),
     req_max_tokens := Some (unwrap_or (or_else (req_max_tokens req) (req_max_completion_tokens req)) DEFAULT_MAX_TOKENS),
     req_max_completion_tokens := None,
     req_temperature := opt_filter f64_is_finite (req_temperature req),
     req_top_p := opt_filter f64_is_finite (req_top_p req),
     req_stop := opt_filter (\<lambda>vals. vals \<noteq> []) (req_stop req)\<rparr>"

lemma anthropic_image_back [simp]: "anthropic_parse_block (anthropic_image_value media base) = Some (Image media base)"
  by (simp add: anthropic_parse_block_def anthropic_image_value_def anthropic_parse_image_def)

lemma anthropic_assistant_block_back:
  assumes "anthropic_assistant_block b = Some v" shows "anthropic_parse_block v = Some b"
proof (cases b)
  case (Thinking t sig)
  then show ?thesis using assms by (cases sig) (auto simp: anthropic_parse_block_def)
qed (use assms in \<open>auto simp: anthropic_parse_block_def anthropic_image_value_def anthropic_parse_image_def\<close>)

lemma anthropic_assistant_block_none: "anthropic_assistant_block b = None \<longleftrightarrow> is_tool_result b"
  by (cases b) auto

lemma anthropic_user_block_back: "anthropic_user_block b = Some v \<Longrightarrow> anthropic_parse_block v = Some b"
  by (cases b) (auto simp: anthropic_parse_block_def anthropic_image_value_def anthropic_parse_image_def)

lemma anthropic_user_block_none: "anthropic_user_block b = None \<longleftrightarrow> \<not> is_user_block b"
  by (cases b) auto

lemma anthropic_tool_result_back: "anthropic_tool_result b = Some v \<Longrightarrow> anthropic_parse_block v = Some b"
  by (cases b) (auto simp: anthropic_parse_block_def anthropic_parse_tool_result_def)

lemma anthropic_tool_result_none: "anthropic_tool_result b = None \<longleftrightarrow> \<not> is_tool_result b"
  by (cases b) auto

lemma map_filter_back:
  assumes inv: "\<And>b v. f b = Some v \<Longrightarrow> g v = Some b" and none: "\<And>b. f b = None \<longleftrightarrow> \<not> P b"
  shows "List.map_filter g (List.map_filter f bs) = filter P bs"
proof (induction bs)
  case (Cons b bs)
  show ?case
  proof (cases "f b")
    case None
    then show ?thesis using none [of b] Cons by simp
  next
    case (Some v)
    then show ?thesis using none [of b] inv [OF Some] Cons by simp
  qed
qed simp

lemma map_filter_Nil_iff:
  assumes none: "\<And>b. f b = None \<longleftrightarrow> \<not> P b"
  shows "List.map_filter f bs = [] \<longleftrightarrow> filter P bs = []"
proof (induction bs)
  case (Cons b bs)
  then show ?case using none [of b] by (cases "f b") (simp_all split: option.split)
qed simp

lemma map_filter_filter:
  assumes none: "\<And>b. f b = None \<longleftrightarrow> \<not> P b"
  shows "List.map_filter f (filter P bs) = List.map_filter f bs"
proof (induction bs)
  case (Cons b bs)
  then show ?case using none [of b] by (cases "f b") simp_all
qed simp

lemma anthropic_lists_back:
  "List.map_filter anthropic_parse_block (List.map_filter anthropic_assistant_block bs) = filter (\<lambda>b. \<not> is_tool_result b) bs"
  "List.map_filter anthropic_parse_block (List.map_filter anthropic_user_block bs) = filter is_user_block bs"
  "List.map_filter anthropic_parse_block (List.map_filter anthropic_tool_result bs) = filter is_tool_result bs"
  by (rule map_filter_back, erule anthropic_assistant_block_back, simp add: anthropic_assistant_block_none)
    (rule map_filter_back, erule anthropic_user_block_back, simp add: anthropic_user_block_none,
     rule map_filter_back, erule anthropic_tool_result_back, simp add: anthropic_tool_result_none)

lemma anthropic_lists_Nil:
  "List.map_filter anthropic_assistant_block bs = [] \<longleftrightarrow> filter (\<lambda>b. \<not> is_tool_result b) bs = []"
  "List.map_filter anthropic_user_block bs = [] \<longleftrightarrow> filter is_user_block bs = []"
  "List.map_filter anthropic_tool_result bs = [] \<longleftrightarrow> filter is_tool_result bs = []"
  by (rule map_filter_Nil_iff, simp add: anthropic_assistant_block_none)
    (rule map_filter_Nil_iff, simp add: anthropic_user_block_none,
     rule map_filter_Nil_iff, simp add: anthropic_tool_result_none)

lemma anthropic_user_back:
  "anthropic_parse_content_blocks (Some (anthropic_user_blocks bs)) = anthropic_normal_user bs"
proof -
  let ?vs = "List.map_filter anthropic_user_block bs"
  show ?thesis
  proof (cases "length ?vs = 1 \<and> value_get (?vs ! 0) ''type'' = Some (String ''text'')")
    case True
    then obtain v where v: "?vs = [v]" "value_get v ''type'' = Some (String ''text'')"
      by (auto simp: length_Suc_conv)
    then obtain b where b: "filter is_user_block bs = [b]" "anthropic_parse_block v = Some b"
      using anthropic_lists_back(2) [of bs] anthropic_lists_Nil(2) [of bs]
      by (cases "anthropic_parse_block v") (auto simp: eq_commute [of "[_]"])
    then obtain t where t: "b = Text t" "value_get v ''text'' = Some (String t)"
      using v(2) by (auto simp: anthropic_parse_block_def bind_eq_Some_conv elim: as_str.elims)
    show ?thesis
      using True v b t by (auto simp: anthropic_user_blocks_def anthropic_normal_user_def
          anthropic_parse_content_blocks_def Let_def)
  next
    case False
    have nt: "filter is_user_block bs \<noteq> [Text []]"
    proof
      assume e: "filter is_user_block bs = [Text []]"
      then have "?vs \<noteq> []" using anthropic_lists_Nil(2) [of bs] by simp
      then obtain v vs where vs: "?vs = v # vs" by (cases ?vs) auto
      have "List.map_filter anthropic_user_block (filter is_user_block bs) = ?vs"
        by (rule map_filter_filter) (simp add: anthropic_user_block_none)
      with e vs False show False by auto
    qed
    then show ?thesis
      using False anthropic_lists_Nil(2) [of bs] anthropic_lists_back(2) [of bs]
      by (auto simp: anthropic_user_blocks_def anthropic_normal_user_def anthropic_parse_content_blocks_def Let_def)
  qed
qed

lemma anthropic_assistant_back:
  "anthropic_parse_content_blocks (Some (anthropic_assistant_blocks bs)) = filter (\<lambda>b. \<not> is_tool_result b) bs"
  using anthropic_lists_Nil(1) [of bs] anthropic_lists_back(1) [of bs]
  by (auto simp: anthropic_assistant_blocks_def anthropic_parse_content_blocks_def Let_def)

lemma anthropic_normal_user_no_result: "\<not> list_ex is_tool_result (anthropic_normal_user bs)"
proof -
  have "is_user_block b \<Longrightarrow> \<not> is_tool_result b" for b by (cases b) auto
  then show ?thesis by (auto simp: anthropic_normal_user_def list_ex_iff Let_def)
qed

lemma anthropic_message_back:
  "concat (map anthropic_parse_messages (anthropic_message_value m)) = anthropic_normal_message m"
proof -
  let ?bs = "msg_content m"
  show ?thesis
  proof (cases "msg_role m")
    case User
    then show ?thesis using anthropic_normal_user_no_result [of ?bs]
      by (simp add: anthropic_message_value_def anthropic_normal_message_def anthropic_parse_messages_def
          anthropic_user_back Let_def)
  next
    case Tool
    have "anthropic_parse_content_blocks (Some (Array (List.map_filter anthropic_tool_result ?bs))) = filter is_tool_result ?bs"
      by (simp add: anthropic_parse_content_blocks_def anthropic_lists_back)
    moreover have "filter is_tool_result ?bs \<noteq> [] \<Longrightarrow> list_ex is_tool_result (filter is_tool_result ?bs)"
      by (auto simp: list_ex_iff filter_empty_conv)
    ultimately show ?thesis using Tool
      by (auto simp: anthropic_message_value_def anthropic_normal_message_def anthropic_parse_messages_def
          anthropic_split_user_def anthropic_lists_Nil Let_def)
  qed (simp_all add: anthropic_message_value_def anthropic_normal_message_def anthropic_parse_messages_def
      anthropic_assistant_back Let_def)
qed

lemma anthropic_messages_back:
  "concat (map anthropic_parse_messages (concat (map anthropic_message_value ms)))
   = concat (map anthropic_normal_message ms)"
  by (induction ms) (simp_all add: anthropic_message_back)

lemma anthropic_tool_back [simp]: "anthropic_parse_tool (anthropic_serialize_tool t) = Some t"
  by (cases t; cases "nt_description t") (simp_all add: anthropic_parse_tool_def anthropic_serialize_tool_def)

lemma anthropic_tools_back [simp]: "List.map_filter anthropic_parse_tool (map anthropic_serialize_tool ts) = ts"
  by (induction ts) simp_all

text \<open>The lookups that the reader of a written request makes.\<close>

lemma anthropic_request_fields:
  assumes "v = anthropic_request_value req" and "st = concat (map anthropic_system_text (req_messages req))"
  shows "value_get v ''model'' = Some (String (req_model req))"
    "value_get v ''system'' = (if length st = 1 then Some (String (st ! 0)) else if st \<noteq> []
       then Some (Array (map (\<lambda>t. jobj [(''type'', String ''text''), (''text'', String t)]) st)) else None)"
    "value_get v ''messages'' = Some (Array (concat (map anthropic_message_value (req_messages req))))"
    "value_get v ''tools'' = (if req_tools req = [] then None else Some (Array (map anthropic_serialize_tool (req_tools req))))"
    "value_get v ''max_tokens'' = Some (jnum32 (unwrap_or (or_else (req_max_tokens req) (req_max_completion_tokens req)) DEFAULT_MAX_TOKENS))"
    "value_get v ''temperature'' = map_option jf64 (req_temperature req)"
    "value_get v ''top_p'' = map_option jf64 (req_top_p req)"
    "value_get v ''top_k'' = map_option jnum32 (req_top_k req)"
    "value_get v ''stop_sequences'' = map_option (\<lambda>stop. Array (map String stop)) (req_stop req)"
    "value_get v ''stream'' = (if req_stream req then Some (Bool True) else None)"
  unfolding assms anthropic_request_value_def Let_def obj_fields by simp_all

lemma texts_of_back: "texts_of (map (\<lambda>t. jobj [(''type'', String ''text''), (''text'', String t)]) ts) = ts"
  unfolding texts_of_def by (induction ts) simp_all

lemma anthropic_system_back:
  assumes "st = concat (map anthropic_system_text (req_messages req))"
  shows "anthropic_system (anthropic_request_value req)
   = (if st = [] then [] else [\<lparr>msg_role = System, msg_content = map Text st\<rparr>])"
proof -
  note f = anthropic_request_fields(2) [OF refl assms]
  show ?thesis
  proof (cases "length st = 1")
    case True
    then obtain t where "st = [t]" by (auto simp: length_Suc_conv)
    with f show ?thesis by (simp add: anthropic_system_def)
  next
    case False
    with f show ?thesis by (cases "st = []") (simp_all add: anthropic_system_def texts_of_back)
  qed
qed

lemma anthropic_request_back:
  "anthropic_request_of (anthropic_request_value req) = anthropic_normal_request req"
proof -
  note f = anthropic_request_fields [OF refl refl, of req]
  have n: "Option.bind (map_option jnum32 x) as_u64 = map_option ucast x" for x by (cases x) simp_all
  have u: "map_option (as_u32 \<circ> ucast) x = x" for x :: "u32 option" by (cases x) simp_all
  have t: "List.map_filter anthropic_parse_tool (unwrap_or (get_array (anthropic_request_value req) ''tools'') []) = req_tools req"
    by (simp add: f)
  have m: "concat (map anthropic_parse_messages (unwrap_or (get_array (anthropic_request_value req) ''messages'') []))
      = concat (map anthropic_normal_message (req_messages req))"
    by (simp add: f anthropic_messages_back)
  have s: "opt_filter (\<lambda>s. s \<noteq> []) (map_option (List.map_filter as_str) (get_array (anthropic_request_value req) ''stop_sequences''))
      = opt_filter (\<lambda>s. s \<noteq> []) (req_stop req)"
    unfolding f by (cases "req_stop req") simp_all
  show ?thesis
    unfolding anthropic_request_of_def t m s anthropic_system_back [OF refl]
    by (simp add: f n u anthropic_normal_request_def anthropic_normal_messages_def option.map_comp Let_def)
qed

lemma anthropic_response_fields:
  assumes "v = anthropic_response_value resp"
  shows "value_get v ''error'' = None" "value_get v ''type'' = Some (String ''message'')"
    "value_get v ''id'' = Some (String (resp_id resp))" "value_get v ''model'' = Some (String (resp_model resp))"
    "value_get v ''content'' = Some (Array (List.map_filter anthropic_assistant_block (resp_content resp)))"
    "value_get v ''stop_reason'' = Some (String (anthropic_stop_reason (resp_finish_reason resp)))"
    "value_get v ''usage'' = map_option (\<lambda>u. jobj [(''input_tokens'', jnum (input_tokens u)),
       (''output_tokens'', jnum (output_tokens u))]) (resp_usage resp)"
  unfolding assms anthropic_response_value_def by (simp_all split: option.split)

definition anthropic_normal_response :: "neutral_response \<Rightarrow> neutral_response" where
  "anthropic_normal_response resp = resp\<lparr>
     resp_content := filter (\<lambda>b. \<not> is_tool_result b) (resp_content resp),
     resp_finish_reason := anthropic_parse_stop_reason (anthropic_stop_reason (resp_finish_reason resp))\<rparr>"

lemma anthropic_response_back:
  "anthropic_response_of (anthropic_response_value resp) = anthropic_normal_response resp"
proof -
  note f = anthropic_response_fields [OF refl, of resp]
  have "Option.bind (value_get (anthropic_response_value resp) ''usage'') anthropic_parse_usage = resp_usage resp"
    by (cases "resp_usage resp") (simp_all add: f anthropic_parse_usage_def)
  then show ?thesis
    by (simp add: anthropic_response_of_def anthropic_normal_response_def f anthropic_parse_content_blocks_def
        anthropic_lists_back)
qed

text \<open>A named finish reason is read back as itself.\<close>

lemma anthropic_stop_reason_back:
  "(\<And>s. r \<noteq> Other s) \<Longrightarrow> anthropic_parse_stop_reason (anthropic_stop_reason r) = r"
  by (cases r) (simp_all add: anthropic_parse_stop_reason_def anthropic_stop_reason_def)

section \<open>An example\<close>

definition anthropic_example_request :: neutral_request where
  "anthropic_example_request = (new_request ''claude''
     [\<lparr>msg_role = User, msg_content = [Text ''what is it?'']\<rparr>,
      \<lparr>msg_role = System, msg_content = [Text ''be'', Text ''brief'']\<rparr>,
      \<lparr>msg_role = Assistant, msg_content = [Thinking ''hm'' (Some ''sig''), RedactedThinking ''xx'', ToolUse ''c1'' ''look'' (Object [])]\<rparr>,
      \<lparr>msg_role = Tool, msg_content = [ToolResult ''c1'' ''a'' True, ToolResult ''c2'' ''b'' False]\<rparr>])
     \<lparr>req_top_k := Some 7, req_stop := Some [''END'']\<rparr>"

definition anthropic_example_json :: serde_json where
  "anthropic_example_json = table_json
     [(''request'', anthropic_request_value anthropic_example_request),
      (''response'', anthropic_response_value example_reply)]"

lemma anthropic_example_reads:
  "reads_back anthropic_example_json (anthropic_request_value anthropic_example_request)"
  "reads_back anthropic_example_json (anthropic_response_value example_reply)"
  by code_simp+

section \<open>Properties\<close>

text \<open>
  C21: an Anthropic request survives a trip through its own wire format: images, thinking with its
  signature, redacted thinking, tool calls and tool results come back block by block; system
  messages come back as one system message in front, and \<open>max_tokens\<close> is always present.
\<close>

theorem anthropic_request_roundtrip:
  assumes "reads_back J (anthropic_request_value req)"
  shows "\<exists>body. anthropic_serialize_request J req = Inr body \<and>
    anthropic_parse_request J body = Inr (anthropic_normal_request req)"
proof -
  obtain m where m: "anthropic_request_value req = Object m" by (simp add: anthropic_request_value_def jobj_def Let_def)
  then show ?thesis
    using assms anthropic_request_back [of req]
    by (simp add: anthropic_serialize_request_def anthropic_parse_request_def reads_back_def)
qed

theorem anthropic_request_roundtrip_witness:
  "\<exists>body. anthropic_serialize_request anthropic_example_json anthropic_example_request = Inr body \<and>
     anthropic_parse_request anthropic_example_json body = Inr (anthropic_normal_request anthropic_example_request)"
  using anthropic_request_roundtrip [OF anthropic_example_reads(1)] .



end
