(* ===== verification/Anthropic_Stream.thy ===== *)
theory Anthropic_Stream
  imports Anthropic_Convert OpenAI_Stream
begin

text \<open>
  The Anthropic dialect, streams and adapter (\<open>src/adapters/anthropic/stream.rs\<close> and \<open>mod.rs\<close>):
  the event decoder, the encoder that opens and closes content blocks, and the endpoints.
\<close>

section \<open>The decoder\<close>

record anthropic_decoder =
  ad_started :: bool
  ad_failed :: bool
  ad_message_id :: string
  ad_model :: string
  ad_input_tokens :: u64
  ad_stop_emitted :: bool
  ad_pending_finish :: "finish_reason option"
  ad_pending_usage :: "neutral_usage option"

definition anthropic_decoder_new :: anthropic_decoder where
  "anthropic_decoder_new =
     \<lparr>ad_started = False, ad_failed = False, ad_message_id = [], ad_model = [], ad_input_tokens = 0,
      ad_stop_emitted = False, ad_pending_finish = None, ad_pending_usage = None\<rparr>"

text \<open>The copy of \<open>parse_stop_reason\<close> in the stream module, without the ping case.\<close>

definition anthropic_stream_stop_reason :: "string \<Rightarrow> finish_reason" where
  "anthropic_stream_stop_reason s =
     (if s = ''end_turn'' then Stop
      else if s = ''max_tokens'' then Length
      else if s = ''tool_use'' then ToolCalls
      else if s = ''stop_sequence'' then Stop
      else if s = ''refusal'' then ContentFilter
      else Other s)"

abbreviation get_str_in :: "value \<Rightarrow> string \<Rightarrow> string \<Rightarrow> string option" where
  "get_str_in v k k' \<equiv> Option.bind (value_get v k) (\<lambda>w. get_str w k')"

definition anthropic_message_start :: "anthropic_decoder \<Rightarrow> value \<Rightarrow> stream_event list \<times> anthropic_decoder" where
  "anthropic_message_start d parsed =
     (let d1 = d\<lparr>ad_started := True\<rparr>;
          d2 = (case value_get parsed ''message'' of
            Some message \<Rightarrow> d1\<lparr>
              ad_message_id := str_or_empty message ''id'',
              ad_model := str_or_empty message ''model'',
              ad_input_tokens := unwrap_or (Option.bind (value_get message ''usage'') (\<lambda>u. get_u64 u ''input_tokens'')) 0\<rparr>
          | None \<Rightarrow> d1)
      in ([MessageStart (ad_message_id d2) (ad_model d2)
            (Some \<lparr>input_tokens = ad_input_tokens d2, output_tokens = 0\<rparr>)], d2))"

definition anthropic_block_start :: "value \<Rightarrow> stream_event list" where
  "anthropic_block_start parsed =
     (let index = as_u32 (unwrap_or (get_u64 parsed ''index'') 0) in
      if get_str_in parsed ''content_block'' ''type'' = Some ''tool_use''
      then [ToolCallDelta index (unwrap_or (get_str_in parsed ''content_block'' ''id'') [])
              (unwrap_or (get_str_in parsed ''content_block'' ''name'') []) []]
      else [])"

definition anthropic_block_delta :: "value \<Rightarrow> stream_event list" where
  "anthropic_block_delta parsed =
     (let index = as_u32 (unwrap_or (get_u64 parsed ''index'') 0);
          field = get_str_in parsed ''delta''
      in case field ''type'' of
           None \<Rightarrow> []
         | Some dtype \<Rightarrow>
             if dtype = ''text_delta'' then
               (case field ''text'' of Some t \<Rightarrow> [TextDelta t] | None \<Rightarrow> [])
             else if dtype = ''thinking_delta'' then
               (case field ''thinking'' of Some t \<Rightarrow> [ReasoningDelta t] | None \<Rightarrow> [])
             else if dtype = ''input_json_delta'' then
               (case field ''partial_json'' of Some j \<Rightarrow> [ToolCallDelta index [] [] j] | None \<Rightarrow> [])
             else if dtype = ''signature_delta'' then
               (case field ''signature'' of Some s \<Rightarrow> [ReasoningSignature s] | None \<Rightarrow> [])
             else [])"

definition anthropic_message_delta :: "anthropic_decoder \<Rightarrow> value \<Rightarrow> anthropic_decoder" where
  "anthropic_message_delta d parsed =
     (let d1 = (case get_str_in parsed ''delta'' ''stop_reason'' of
            Some reason \<Rightarrow> d\<lparr>ad_pending_finish := Some (anthropic_stream_stop_reason reason)\<rparr>
          | None \<Rightarrow> d)
      in case value_get parsed ''usage'' of
           Some usage \<Rightarrow> d1\<lparr>ad_pending_usage := Some \<lparr>input_tokens = ad_input_tokens d1,
             output_tokens = unwrap_or (get_u64 usage ''output_tokens'') 0\<rparr>\<rparr>
         | None \<Rightarrow> d1)"

text \<open>The stop, from \<open>message_stop\<close> and from \<open>finish\<close>.\<close>

definition anthropic_stop :: "anthropic_decoder \<Rightarrow> stream_event list \<times> anthropic_decoder" where
  "anthropic_stop d =
     (if \<not> ad_stop_emitted d
      then ([MessageStop (unwrap_or (ad_pending_finish d) Stop) (ad_pending_usage d)], d\<lparr>ad_stop_emitted := True\<rparr>)
      else ([], d))"

definition anthropic_feed_value :: "anthropic_decoder \<Rightarrow> value \<Rightarrow> stream_event list \<times> anthropic_decoder" where
  "anthropic_feed_value d parsed =
     (case get_str parsed ''type'' of
        None \<Rightarrow> ([], d)
      | Some etype \<Rightarrow>
          if etype = ''message_start'' then anthropic_message_start d parsed
          else if etype = ''content_block_start'' then (anthropic_block_start parsed, d)
          else if etype = ''content_block_delta'' then (anthropic_block_delta parsed, d)
          else if etype = ''message_delta'' then ([], anthropic_message_delta d parsed)
          else if etype = ''message_stop'' then anthropic_stop d
          else if etype = ''ping'' then ([], d)
          else if etype = ''error'' then
            ([Error (Api (unwrap_or (get_str_in parsed ''error'' ''message'') ''upstream stream error''))],
             d\<lparr>ad_failed := True\<rparr>)
          else ([], d))"

definition anthropic_feed :: "serde_json \<Rightarrow> anthropic_decoder \<Rightarrow> string \<Rightarrow> stream_event list \<times> anthropic_decoder" where
  "anthropic_feed J d data =
     (case from_str J data of Inl _ \<Rightarrow> ([], d) | Inr parsed \<Rightarrow> anthropic_feed_value d parsed)"

definition anthropic_finish :: "anthropic_decoder \<Rightarrow> stream_event list \<times> anthropic_decoder" where
  "anthropic_finish d = (if \<not> ad_started d \<or> ad_failed d then ([], d) else anthropic_stop d)"

section \<open>The encoder\<close>

datatype block_kind = TextBlock | ThinkingBlock | ToolUseBlock

record anthropic_encoder =
  ae_block_index :: u32
  ae_current_block :: "block_kind option"
  ae_message_started :: bool
  ae_pending_signature :: "string option"
  ae_tool_blocks_open :: "u32 set"
  ae_open_tool_index :: "u32 option"

definition anthropic_encoder_new :: anthropic_encoder where
  "anthropic_encoder_new =
     \<lparr>ae_block_index = 0, ae_current_block = None, ae_message_started = False,
      ae_pending_signature = None, ae_tool_blocks_open = {}, ae_open_tool_index = None\<rparr>"

text \<open>An event of the dialect: its name and its payload.\<close>

type_synonym anthropic_event = "string \<times> value"

definition anthropic_start_event :: "u32 \<Rightarrow> value \<Rightarrow> anthropic_event" where
  "anthropic_start_event index content_block =
     (''content_block_start'', jobj [(''type'', String ''content_block_start''), (''index'', jnum32 index),
        (''content_block'', content_block)])"

definition anthropic_delta_event :: "u32 \<Rightarrow> string \<Rightarrow> string \<Rightarrow> string \<Rightarrow> anthropic_event" where
  "anthropic_delta_event index dtype field s =
     (''content_block_delta'', jobj [(''type'', String ''content_block_delta''), (''index'', jnum32 index),
        (''delta'', jobj [(''type'', String dtype), (field, String s)])])"

definition anthropic_stop_event :: "u32 \<Rightarrow> anthropic_event" where
  "anthropic_stop_event index =
     (''content_block_stop'', jobj [(''type'', String ''content_block_stop''), (''index'', jnum32 index)])"

definition close_block :: "anthropic_encoder \<Rightarrow> anthropic_event list \<times> anthropic_encoder" where
  "close_block enc =
     (case ae_current_block enc of
        None \<Rightarrow> ([], enc)
      | Some kind \<Rightarrow>
          let enc1 = enc\<lparr>ae_current_block := None\<rparr>;
              (signed, enc2) = (if kind = ThinkingBlock then
                (case ae_pending_signature enc1 of
                   Some s \<Rightarrow> ([anthropic_delta_event (ae_block_index enc1) ''signature_delta'' ''signature'' s],
                             enc1\<lparr>ae_pending_signature := None\<rparr>)
                 | None \<Rightarrow> ([], enc1)) else ([], enc1));
              enc3 = (if kind = ToolUseBlock then
                (case ae_open_tool_index enc2 of
                   Some i \<Rightarrow> enc2\<lparr>ae_open_tool_index := None, ae_tool_blocks_open := ae_tool_blocks_open enc2 - {i}\<rparr>
                 | None \<Rightarrow> enc2) else enc2)
          in (signed @ [anthropic_stop_event (ae_block_index enc3)], enc3\<lparr>ae_block_index := ae_block_index enc3 + 1\<rparr>))"

fun block_type :: "block_kind \<Rightarrow> string" where
  "block_type TextBlock = ''text''"
| "block_type ThinkingBlock = ''thinking''"
| "block_type ToolUseBlock = ''tool_use''"

definition ensure_block :: "anthropic_encoder \<Rightarrow> block_kind \<Rightarrow> anthropic_event list \<times> anthropic_encoder" where
  "ensure_block enc kind =
     (if ae_current_block enc = Some kind then ([], enc)
      else
        let (closed, enc1) = close_block enc;
            content_block = jobj [(''type'', String (block_type kind)),
              ((if kind = ThinkingBlock then ''thinking'' else ''text''), String [])]
        in (closed @ [anthropic_start_event (ae_block_index enc1) content_block],
            enc1\<lparr>ae_current_block := Some kind\<rparr>))"

definition anthropic_start_payload :: "string \<Rightarrow> string \<Rightarrow> neutral_usage option \<Rightarrow> value" where
  "anthropic_start_payload i m usage =
     jobj [(''type'', String ''message_start''),
       (''message'', jobj [(''id'', String i), (''type'', String ''message''), (''role'', String ''assistant''),
          (''model'', String m), (''content'', Array []), (''stop_reason'', Null), (''stop_sequence'', Null),
          (''usage'', jobj [(''input_tokens'', jnum (unwrap_or (map_option input_tokens usage) 0)),
             (''output_tokens'', jnum 0)])])]"

definition anthropic_open_tool :: "anthropic_encoder \<Rightarrow> u32 \<Rightarrow> string \<Rightarrow> string \<Rightarrow> anthropic_event list \<times> anthropic_encoder" where
  "anthropic_open_tool enc index i nm =
     (if index \<in> ae_tool_blocks_open enc then ([], enc)
      else
        let (closed, enc1) = close_block enc
        in (closed @ [anthropic_start_event (ae_block_index enc1)
              (jobj [(''type'', String ''tool_use''), (''id'', String i), (''name'', String nm), (''input'', jobj [])])],
            enc1\<lparr>ae_current_block := Some ToolUseBlock,
                 ae_tool_blocks_open := insert index (ae_tool_blocks_open enc1),
                 ae_open_tool_index := Some index\<rparr>))"

fun anthropic_encode_events :: "anthropic_encoder \<Rightarrow> stream_event \<Rightarrow> anthropic_event list \<times> anthropic_encoder" where
  "anthropic_encode_events enc (MessageStart i m usage) =
     ([(''message_start'', anthropic_start_payload i m usage)], enc\<lparr>ae_message_started := True\<rparr>)"
| "anthropic_encode_events enc (TextDelta t) =
     (let (es, enc1) = ensure_block enc TextBlock
      in (es @ [anthropic_delta_event (ae_block_index enc1) ''text_delta'' ''text'' t], enc1))"
| "anthropic_encode_events enc (ReasoningDelta t) =
     (let (es, enc1) = ensure_block enc ThinkingBlock
      in (es @ [anthropic_delta_event (ae_block_index enc1) ''thinking_delta'' ''thinking'' t], enc1))"
| "anthropic_encode_events enc (ReasoningSignature s) = ([], enc\<lparr>ae_pending_signature := Some s\<rparr>)"
| "anthropic_encode_events enc (ToolCallDelta index i nm arguments) =
     (let (es, enc1) = anthropic_open_tool enc index i nm
      in (es @ (if arguments \<noteq> []
                then [anthropic_delta_event (ae_block_index enc1) ''input_json_delta'' ''partial_json'' arguments]
                else []), enc1))"
| "anthropic_encode_events enc (MessageStop finish_reason usage) =
     (let (es, enc1) = close_block enc
      in (es @ [(''message_delta'', jobj [(''type'', String ''message_delta''),
                   (''delta'', jobj [(''stop_reason'', String (anthropic_stop_reason finish_reason))]),
                   (''usage'', jobj [(''output_tokens'', jnum (unwrap_or (map_option output_tokens usage) 0))])]),
                (''message_stop'', jobj [(''type'', String ''message_stop'')])], enc1))"
| "anthropic_encode_events enc (Error e) =
     (let (es, enc1) = close_block enc
      in (es @ [(''error'', jobj [(''type'', String ''error''),
                   (''error'', jobj [(''type'', String ''api_error''), (''message'', String (error_to_string e))])])], enc1))"

text \<open>The frame of \<open>message_stop\<close> is a string literal in the code; the others print their value.\<close>

definition dquoted :: "string \<Rightarrow> string" where
  "dquoted s = [CHR 0x22] @ s @ [CHR 0x22]"

definition message_stop_text :: string where
  "message_stop_text = ''{'' @ dquoted ''type'' @ '':'' @ dquoted ''message_stop'' @ ''}''"

definition anthropic_frame :: "serde_json \<Rightarrow> anthropic_event \<Rightarrow> string" where
  "anthropic_frame J e =
     sse_event_frame (fst e) (if fst e = ''message_stop'' then message_stop_text else to_string J (snd e))"

definition anthropic_encode :: "serde_json \<Rightarrow> anthropic_encoder \<Rightarrow> stream_event \<Rightarrow> string list \<times> anthropic_encoder" where
  "anthropic_encode J enc event =
     (let (es, enc1) = anthropic_encode_events enc event in (map (anthropic_frame J) es, enc1))"

definition anthropic_done :: "anthropic_encoder \<Rightarrow> string" where
  "anthropic_done enc = []"

section \<open>The adapter\<close>

definition anthropic_endpoints :: "(string \<times> endpoint_kind) list" where
  "anthropic_endpoints = [(''/v1/messages'', Messages), (''/v1/messages/count_tokens'', CountTokens), (''/v1/models'', Models)]"

definition anthropic_conversation_url :: "string \<Rightarrow> string \<Rightarrow> string result" where
  "anthropic_conversation_url base model = Inr (trim_end_char CHR ''/'' base @ ''/v1/messages'')"

definition anthropic_models_path :: "string option" where
  "anthropic_models_path = Some ''/v1/models''"

definition anthropic_model_info :: "value \<Rightarrow> model_info option" where
  "anthropic_model_info m =
     Option.bind (get_str m ''id'') (\<lambda>i.
       Some \<lparr>model_id = i,
             model_owned_by = unwrap_or (Option.bind (or_else (value_get m ''display_name'') (value_get m ''owner'')) as_str) []\<rparr>)"

definition anthropic_parse_models :: "serde_json \<Rightarrow> string \<Rightarrow> model_info list result" where
  "anthropic_parse_models J body =
     (case from_str J body of
        Inl e \<Rightarrow> Inl (invalid_json e)
      | Inr root \<Rightarrow>
          (case get_array root ''data'' of
             None \<Rightarrow> Inl (InvalidRequest ''expected a data array'')
           | Some data \<Rightarrow> Inr (List.map_filter anthropic_model_info data)))"

definition anthropic_models_value :: "model_info list \<Rightarrow> value" where
  "anthropic_models_value models =
     jobj [(''data'', Array (map (\<lambda>m. jobj [(''type'', String ''model''), (''id'', String (model_id m)),
        (''display_name'', String (model_owned_by m)), (''created_at'', String ''1970-01-01T00:00:00Z'')]) models))]"

definition anthropic_serialize_models :: "serde_json \<Rightarrow> model_info list \<Rightarrow> string result" where
  "anthropic_serialize_models J models = Inr (to_string J (anthropic_models_value models))"

definition anthropic_request_headers :: "(string \<times> string) list" where
  "anthropic_request_headers = [(''anthropic-version'', ''2023-06-01'')]"

section \<open>The contracts\<close>

lemma anthropic_stop_reasons_agree: "anthropic_stream_stop_reason s = anthropic_parse_stop_reason s"
  by (simp add: anthropic_stream_stop_reason_def anthropic_parse_stop_reason_def)

lemma anthropic_stop_stops:
  "anthropic_stop d = (es, d') \<Longrightarrow> stops es + of_bool (ad_stop_emitted d) = of_bool (ad_stop_emitted d')"
  by (auto simp: anthropic_stop_def split: if_splits)

lemma anthropic_block_no_stop [simp]:
  "stops (anthropic_block_start v) = 0" "stops (anthropic_block_delta v) = 0"
  by (simp_all add: anthropic_block_start_def anthropic_block_delta_def Let_def split: option.splits)

lemma anthropic_message_delta_stop [simp]:
  "ad_stop_emitted (anthropic_message_delta d v) = ad_stop_emitted d"
  by (simp add: anthropic_message_delta_def Let_def split: option.splits)

lemma anthropic_feed_value_stops:
  assumes "anthropic_feed_value d v = (es, d')"
  shows "stops es + of_bool (ad_stop_emitted d) = of_bool (ad_stop_emitted d')"
proof (cases "get_str v ''type''")
  case (Some etype)
  show ?thesis
  proof (cases "etype = ''message_stop''")
    case True
    then have "anthropic_stop d = (es, d')" using assms Some by (simp add: anthropic_feed_value_def)
    then show ?thesis by (rule anthropic_stop_stops)
  next
    case False
    then show ?thesis using assms Some
      by (auto simp: anthropic_feed_value_def anthropic_message_start_def Let_def split: if_splits option.splits)
  qed
qed (use assms in \<open>simp add: anthropic_feed_value_def\<close>)

interpretation anthropic_dec: stream_decoder "anthropic_feed J" anthropic_finish ad_stop_emitted for J
proof unfold_locales
  show "stops es + of_bool (ad_stop_emitted d) = of_bool (ad_stop_emitted d')"
    if "anthropic_feed J d s = (es, d')" for d s es d'
    using that anthropic_feed_value_stops [of d _ es d'] by (cases "from_str J s") (simp_all add: anthropic_feed_def)
  show "stops es + of_bool (ad_stop_emitted d) = of_bool (ad_stop_emitted d')"
    if f: "anthropic_finish d = (es, d')" for d es d'
  proof (cases "\<not> ad_started d \<or> ad_failed d")
    case False
    then have "anthropic_stop d = (es, d')" using f by (simp add: anthropic_finish_def)
    then show ?thesis by (rule anthropic_stop_stops)
  qed (use f in \<open>simp add: anthropic_finish_def\<close>)
qed (auto simp: anthropic_finish_def anthropic_stop_def split: if_splits)

section \<open>The client's view of an encoded stream\<close>

text \<open>
  A reader of the dialect: the type of the open block, if one is open, and the index of the
  block that is open or comes next. It accepts a block's start only when no block is open, a
  delta only for the open block and only of a type that block has, and the end of the message
  only when every block is closed.
\<close>

definition delta_types :: "string \<Rightarrow> string list" where
  "delta_types t =
     (if t = ''text'' then [''text_delta'']
      else if t = ''thinking'' then [''thinking_delta'', ''signature_delta'']
      else if t = ''tool_use'' then [''input_json_delta'']
      else [])"

type_synonym client = "string option \<times> u32"

fun client_step :: "client \<Rightarrow> anthropic_event \<Rightarrow> client option" where
  "client_step (opened, n) (name, v) =
     (let here = (get_u64 v ''index'' = Some (ucast n)) in
      if name = ''content_block_start'' then
        (if opened = None \<and> here then map_option (\<lambda>t. (Some t, n)) (get_str_in v ''content_block'' ''type'') else None)
      else if name = ''content_block_delta'' then
        (case (opened, get_str_in v ''delta'' ''type'') of
           (Some t, Some dt) \<Rightarrow> if here \<and> dt \<in> set (delta_types t) then Some (opened, n) else None
         | _ \<Rightarrow> None)
      else if name = ''content_block_stop'' then
        (if opened \<noteq> None \<and> here then Some (None, n + 1) else None)
      else if name \<in> {''message_delta'', ''message_stop'', ''error''} then
        (if opened = None then Some (opened, n) else None)
      else Some (opened, n))"

fun client_run :: "client \<Rightarrow> anthropic_event list \<Rightarrow> client option" where
  "client_run c [] = Some c"
| "client_run c (e # es) = Option.bind (client_step c e) (\<lambda>c1. client_run c1 es)"

lemma client_run_append: "client_run c (es @ fs) = Option.bind (client_run c es) (\<lambda>c1. client_run c1 fs)"
  by (induction es arbitrary: c) (auto split: bind_splits)

definition client_of :: "anthropic_encoder \<Rightarrow> client" where
  "client_of enc = (map_option block_type (ae_current_block enc), ae_block_index enc)"

text \<open>The invariant of the encoder: the set of open tool blocks is the open tool block.\<close>

definition anthropic_encoder_ok :: "anthropic_encoder \<Rightarrow> bool" where
  "anthropic_encoder_ok enc \<longleftrightarrow>
     ae_tool_blocks_open enc = set_option (ae_open_tool_index enc) \<and>
     (ae_open_tool_index enc \<noteq> None \<longleftrightarrow> ae_current_block enc = Some ToolUseBlock)"

lemma client_step_start:
  "get_str cb ''type'' = Some t \<Longrightarrow> client_step (None, n) (anthropic_start_event n cb) = Some (Some t, n)"
  by (simp add: anthropic_start_event_def)

lemma client_step_delta:
  "dt \<in> set (delta_types t) \<Longrightarrow> field \<noteq> ''type'' \<Longrightarrow>
   client_step (Some t, n) (anthropic_delta_event n dt field s) = Some (Some t, n)"
  by (simp add: anthropic_delta_event_def)

lemma client_step_stop: "client_step (Some t, n) (anthropic_stop_event n) = Some (None, n + 1)"
  by (simp add: anthropic_stop_event_def)

lemmas client_steps = client_step_start client_step_delta client_step_stop

lemma close_block_client:
  assumes "close_block enc = (es, enc')" "anthropic_encoder_ok enc"
  shows "client_run (client_of enc) es = Some (client_of enc') \<and> anthropic_encoder_ok enc' \<and> ae_current_block enc' = None"
proof (cases "ae_current_block enc")
  case None
  then show ?thesis using assms by (simp add: close_block_def)
next
  case (Some kind)
  have sig: "''signature_delta'' \<in> set (delta_types ''thinking'')" by (simp add: delta_types_def)
  show ?thesis
    using assms Some
    by (cases kind) (auto simp: close_block_def client_of_def anthropic_encoder_ok_def Let_def
        client_step_stop client_step_delta [OF sig] simp del: client_step.simps split: option.splits)
qed

lemma ensure_block_client:
  assumes "ensure_block enc kind = (es, enc')" "anthropic_encoder_ok enc" "kind \<noteq> ToolUseBlock"
  shows "client_run (client_of enc) es = Some (client_of enc') \<and> anthropic_encoder_ok enc' \<and> ae_current_block enc' = Some kind"
proof (cases "ae_current_block enc = Some kind")
  case True
  then show ?thesis using assms by (simp add: ensure_block_def)
next
  case False
  obtain cs enc1 where c: "close_block enc = (cs, enc1)" by fastforce
  note cl = close_block_client [OF c assms(2)]
  show ?thesis
    using assms False cl
    by (cases kind) (auto simp: ensure_block_def c client_run_append client_of_def anthropic_encoder_ok_def
        client_step_start simp del: client_step.simps)
qed

lemma open_tool_client:
  assumes "anthropic_open_tool enc index i nm = (es, enc')" "anthropic_encoder_ok enc"
  shows "client_run (client_of enc) es = Some (client_of enc') \<and> anthropic_encoder_ok enc' \<and>
    ae_current_block enc' = Some ToolUseBlock"
proof (cases "index \<in> ae_tool_blocks_open enc")
  case True
  then have "ae_current_block enc = Some ToolUseBlock"
    using assms(2) by (cases "ae_open_tool_index enc") (auto simp: anthropic_encoder_ok_def)
  with True show ?thesis using assms by (simp add: anthropic_open_tool_def)
next
  case False
  obtain cs enc1 where c: "close_block enc = (cs, enc1)" by fastforce
  note cl = close_block_client [OF c assms(2)]
  then have "ae_tool_blocks_open enc1 = {}" by (auto simp: anthropic_encoder_ok_def)
  with cl False assms(1) show ?thesis
    by (auto simp: anthropic_open_tool_def c client_run_append client_of_def anthropic_encoder_ok_def
        client_step_start simp del: client_step.simps)
qed

lemma encode_client:
  assumes "anthropic_encode_events enc ev = (es, enc')" "anthropic_encoder_ok enc"
  shows "client_run (client_of enc) es = Some (client_of enc') \<and> anthropic_encoder_ok enc'"
proof (cases ev)
  case (TextDelta t)
  obtain cs enc1 where c: "ensure_block enc TextBlock = (cs, enc1)" by fastforce
  have "''text_delta'' \<in> set (delta_types ''text'')" by (simp add: delta_types_def)
  then show ?thesis using TextDelta assms(1) ensure_block_client [OF c assms(2)]
    by (auto simp: c client_run_append client_of_def client_step_delta simp del: client_step.simps)
next
  case (ReasoningDelta t)
  obtain cs enc1 where c: "ensure_block enc ThinkingBlock = (cs, enc1)" by fastforce
  have "''thinking_delta'' \<in> set (delta_types ''thinking'')" by (simp add: delta_types_def)
  then show ?thesis using ReasoningDelta assms(1) ensure_block_client [OF c assms(2)]
    by (auto simp: c client_run_append client_of_def client_step_delta simp del: client_step.simps)
next
  case (ToolCallDelta index i nm a)
  obtain cs enc1 where c: "anthropic_open_tool enc index i nm = (cs, enc1)" by fastforce
  have "''input_json_delta'' \<in> set (delta_types ''tool_use'')" by (simp add: delta_types_def)
  then show ?thesis using ToolCallDelta assms(1) open_tool_client [OF c assms(2)]
    by (auto simp: c client_run_append client_of_def client_step_delta simp del: client_step.simps split: if_splits)
next
  case (MessageStop fr us)
  obtain cs enc1 where c: "close_block enc = (cs, enc1)" by fastforce
  then show ?thesis using MessageStop assms(1) close_block_client [OF c assms(2)]
    by (auto simp: c client_run_append client_of_def Let_def)
next
  case (Error e)
  obtain cs enc1 where c: "close_block enc = (cs, enc1)" by fastforce
  then show ?thesis using Error assms(1) close_block_client [OF c assms(2)]
    by (auto simp: c client_run_append client_of_def Let_def)
qed (use assms in \<open>auto simp: client_of_def anthropic_encoder_ok_def\<close>)

fun anthropic_encode_all :: "anthropic_encoder \<Rightarrow> stream_event list \<Rightarrow> anthropic_event list \<times> anthropic_encoder" where
  "anthropic_encode_all enc [] = ([], enc)"
| "anthropic_encode_all enc (ev # evs) =
     (let (es, enc1) = anthropic_encode_events enc ev; (fs, enc2) = anthropic_encode_all enc1 evs in (es @ fs, enc2))"

lemma encode_all_client:
  "anthropic_encode_all enc evs = (es, enc') \<Longrightarrow> anthropic_encoder_ok enc \<Longrightarrow>
   client_run (client_of enc) es = Some (client_of enc') \<and> anthropic_encoder_ok enc'"
proof (induction evs arbitrary: enc es)
  case (Cons ev evs)
  obtain es1 enc1 where 1: "anthropic_encode_events enc ev = (es1, enc1)" by fastforce
  obtain es2 where 2: "anthropic_encode_all enc1 evs = (es2, enc')" "es = es1 @ es2"
    using Cons.prems(1) 1 by (auto split: prod.splits)
  from encode_client [OF 1 Cons.prems(2)] Cons.IH [OF 2(1)] show ?case by (simp add: 2(2) client_run_append)
qed simp

lemma anthropic_encoder_new_ok: "anthropic_encoder_ok anthropic_encoder_new"
  by (simp add: anthropic_encoder_ok_def anthropic_encoder_new_def)

section \<open>Content through encoder and decoder\<close>

fun anthropic_feed_values :: "anthropic_decoder \<Rightarrow> value list \<Rightarrow> stream_event list \<times> anthropic_decoder" where
  "anthropic_feed_values d [] = ([], d)"
| "anthropic_feed_values d (v # vs) =
     (let (es, d1) = anthropic_feed_value d v; (fs, d2) = anthropic_feed_values d1 vs in (es @ fs, d2))"

definition fed_pieces :: "anthropic_decoder \<Rightarrow> anthropic_event list \<Rightarrow> piece list" where
  "fed_pieces d es = pieces (fst (anthropic_feed_values d (map snd es)))"

definition fed_decoder :: "anthropic_decoder \<Rightarrow> anthropic_event list \<Rightarrow> anthropic_decoder" where
  "fed_decoder d es = snd (anthropic_feed_values d (map snd es))"

lemma fed_Cons:
  "anthropic_feed_value d (snd e) = (gs, d1) \<Longrightarrow> fed_pieces d (e # es) = pieces gs @ fed_pieces d1 es"
  "anthropic_feed_value d (snd e) = (gs, d1) \<Longrightarrow> fed_decoder d (e # es) = fed_decoder d1 es"
  by (simp_all add: fed_pieces_def fed_decoder_def split: prod.split)

lemma fed_append:
  "fed_pieces d (es @ fs) = fed_pieces d es @ fed_pieces (fed_decoder d es) fs"
proof (induction es arbitrary: d)
  case (Cons e es)
  obtain gs d1 where "anthropic_feed_value d (snd e) = (gs, d1)" by fastforce
  with Cons.IH [of d1] show ?case by (simp add: fed_Cons)
qed (simp add: fed_pieces_def fed_decoder_def)

lemma fed_two: "fed_pieces d [e, f] = fed_pieces d [e] @ fed_pieces (fed_decoder d [e]) [f]"
  using fed_append [of d "[e]" "[f]"] by simp

lemma fed_Nil [simp]: "fed_pieces d [] = []"
  by (simp add: fed_pieces_def)

lemma fed_events:
  "fed_pieces d [anthropic_start_event n (jobj [(''type'', String ''tool_use''), (''id'', String i), (''name'', String nm), (''input'', w)])]
     = event_pieces (ToolCallDelta n i nm [])"
  "kind \<noteq> ToolUseBlock \<Longrightarrow>
   fed_pieces d [anthropic_start_event n (jobj [(''type'', String (block_type kind)), (field, String [])])] = []"
  "fed_pieces d [anthropic_stop_event n] = []"
  "fed_pieces d [anthropic_delta_event n ''text_delta'' ''text'' s] = [TextPiece s]"
  "fed_pieces d [anthropic_delta_event n ''thinking_delta'' ''thinking'' s] = [ReasoningPiece s]"
  "fed_pieces d [anthropic_delta_event n ''input_json_delta'' ''partial_json'' s] = event_pieces (ToolCallDelta n [] [] s)"
  "fed_pieces d [anthropic_delta_event n ''signature_delta'' ''signature'' s] = []"
  "fed_pieces d [(''message_start'', anthropic_start_payload j m us)] = []"
  by (cases kind; simp add: fed_pieces_def anthropic_feed_value_def anthropic_start_event_def anthropic_stop_event_def
        anthropic_delta_event_def anthropic_block_start_def anthropic_block_delta_def anthropic_message_start_def
        anthropic_start_payload_def)+

lemma fed_ends:
  "fed_pieces d [(''message_delta'', jobj [(''type'', String ''message_delta''), (''delta'', x), (''usage'', y)])] = []"
  "fed_pieces d [(''message_stop'', jobj [(''type'', String ''message_stop'')])] = []"
  "fed_pieces d [(''error'', jobj [(''type'', String ''error''), (''error'', x)])] = []"
  by (simp_all add: fed_pieces_def anthropic_feed_value_def anthropic_stop_def)

lemma close_block_pieces:
  assumes "close_block enc = (es, enc')"
  shows "fed_pieces d es = []"
  using assms
  by (auto simp: close_block_def fed_events fed_two Let_def split: option.splits if_splits)

lemma ensure_block_pieces:
  assumes "ensure_block enc kind = (es, enc')" "kind \<noteq> ToolUseBlock"
  shows "fed_pieces d es = []"
proof (cases "ae_current_block enc = Some kind")
  case False
  obtain cs enc1 where c: "close_block enc = (cs, enc1)" by fastforce
  show ?thesis using assms(1) False
    by (auto simp: ensure_block_def c fed_append close_block_pieces [OF c] Let_def fed_events(2) [OF assms(2)])
qed (use assms in \<open>simp add: ensure_block_def\<close>)

lemma tool_pieces:
  assumes "anthropic_encode_events enc (ToolCallDelta k i nm a) = (es, enc')"
    and "k \<in> ae_tool_blocks_open enc \<Longrightarrow> i = [] \<and> nm = []"
  shows "fed_pieces d es = event_pieces (ToolCallDelta k i nm a)"
proof -
  obtain cs enc1 where c: "anthropic_open_tool enc k i nm = (cs, enc1)" by fastforce
  have o: "fed_pieces d cs = event_pieces (ToolCallDelta k i nm [])"
  proof (cases "k \<in> ae_tool_blocks_open enc")
    case True
    with c assms(2) show ?thesis by (simp add: anthropic_open_tool_def)
  next
    case False
    obtain bs enc2 where b: "close_block enc = (bs, enc2)" by fastforce
    show ?thesis using c False
      by (auto simp: anthropic_open_tool_def b fed_append close_block_pieces [OF b] fed_events(1))
  qed
  show ?thesis using assms(1) by (auto simp: c fed_append o fed_events(6))
qed

lemma encode_pieces:
  assumes "anthropic_encode_events enc ev = (es, enc')"
    and "\<And>k i nm a. ev = ToolCallDelta k i nm a \<Longrightarrow> k \<in> ae_tool_blocks_open enc \<Longrightarrow> i = [] \<and> nm = []"
  shows "fed_pieces d es = event_pieces ev"
proof (cases ev)
  case (TextDelta t)
  obtain cs enc1 where c: "ensure_block enc TextBlock = (cs, enc1)" by fastforce
  show ?thesis using TextDelta assms(1) ensure_block_pieces [OF c] by (auto simp: c fed_append fed_events(4))
next
  case (ReasoningDelta t)
  obtain cs enc1 where c: "ensure_block enc ThinkingBlock = (cs, enc1)" by fastforce
  show ?thesis using ReasoningDelta assms(1) ensure_block_pieces [OF c] by (auto simp: c fed_append fed_events(5))
next
  case (ToolCallDelta k i nm a)
  show ?thesis unfolding ToolCallDelta
    by (rule tool_pieces [OF assms(1) [unfolded ToolCallDelta]]) (erule assms(2) [OF ToolCallDelta])
next
  case (MessageStop fr us)
  obtain cs enc1 where c: "close_block enc = (cs, enc1)" by fastforce
  show ?thesis using MessageStop assms(1)
    by (auto simp: c fed_append close_block_pieces [OF c] fed_two fed_ends)
next
  case (Error e)
  obtain cs enc1 where c: "close_block enc = (cs, enc1)" by fastforce
  show ?thesis using Error assms(1)
    by (auto simp: c fed_append close_block_pieces [OF c] fed_ends)
qed (use assms in \<open>auto simp: fed_events(8)\<close>)

text \<open>The tool blocks that are open belong to calls seen so far.\<close>

lemma close_block_open: "close_block enc = (es, enc') \<Longrightarrow> ae_tool_blocks_open enc' \<subseteq> ae_tool_blocks_open enc"
  by (auto simp: close_block_def Let_def split: option.splits if_splits)

lemma encode_open:
  assumes "anthropic_encode_events enc ev = (es, enc')"
  shows "ae_tool_blocks_open enc' \<subseteq> ae_tool_blocks_open enc \<union> (case ev of ToolCallDelta k i nm a \<Rightarrow> {k} | _ \<Rightarrow> {})"
  using assms
  by (cases ev) (auto simp: ensure_block_def anthropic_open_tool_def Let_def dest!: close_block_open split: prod.splits if_splits)

lemma encode_all_pieces:
  "anthropic_encode_all enc evs = (es, enc') \<Longrightarrow> calls_named_once seen evs \<Longrightarrow> ae_tool_blocks_open enc \<subseteq> seen \<Longrightarrow>
   fed_pieces d es = pieces evs"
proof (induction evs arbitrary: enc es seen d)
  case (Cons ev evs)
  obtain es1 enc1 where 1: "anthropic_encode_events enc ev = (es1, enc1)" by fastforce
  obtain es2 where 2: "anthropic_encode_all enc1 evs = (es2, enc')" "es = es1 @ es2"
    using Cons.prems(1) 1 by (auto split: prod.splits)
  have p: "fed_pieces d es1 = event_pieces ev"
    by (rule encode_pieces [OF 1]) (use Cons.prems(2,3) in auto)
  let ?seen = "seen \<union> (case ev of ToolCallDelta k i nm a \<Rightarrow> {k} | _ \<Rightarrow> {})"
  have "calls_named_once ?seen evs" using Cons.prems(2) by (cases ev) simp_all
  moreover have "ae_tool_blocks_open enc1 \<subseteq> ?seen" using encode_open [OF 1] Cons.prems(3) by auto
  ultimately have "fed_pieces (fed_decoder d es1) es2 = pieces evs" using Cons.IH [OF 2(1)] by blast
  with p show ?case by (simp add: 2(2) fed_append)
qed simp

section \<open>Frames\<close>

lemma message_stop_framable: "framable message_stop_text"
  by code_simp

lemma anthropic_event_names:
  assumes "anthropic_encode_events enc ev = (es, enc')"
  shows "list_all (\<lambda>e. nl \<notin> set (fst e) \<and> cr \<notin> set (fst e)) es"
proof -
  have c: "list_all (\<lambda>e. nl \<notin> set (fst e) \<and> cr \<notin> set (fst e)) cs" if "close_block enc = (cs, enc1)" for enc cs enc1
    using that by (auto simp: close_block_def anthropic_delta_event_def anthropic_stop_event_def
        Let_def split: option.splits if_splits)
  show ?thesis
    using assms
    by (cases ev) (auto simp: ensure_block_def anthropic_open_tool_def anthropic_delta_event_def anthropic_start_event_def
        Let_def dest!: c split: prod.splits if_splits)
qed

interpretation anthropic_enc: stream_encoder anthropic_encode
proof unfold_locales
  fix J enc ev fs enc'
  assume J: "prints_lines J" and e: "anthropic_encode J enc ev = (fs, enc')"
  obtain es where es: "anthropic_encode_events enc ev = (es, enc')" "fs = map (anthropic_frame J) es"
    using e by (auto simp: anthropic_encode_def split: prod.splits)
  have "list_all2 carries fs (map (\<lambda>e. if fst e = ''message_stop'' then message_stop_text else to_string J (snd e)) es)"
    using anthropic_event_names [OF es(1)] J unfolding es(2)
    by (induction es) (auto simp: anthropic_frame_def prints_lines_def message_stop_framable intro!: carries_event_frame)
  then show "\<exists>ps. list_all2 carries fs ps" ..
qed

section \<open>Properties\<close>

text \<open>
  C18: whatever events reach the Anthropic encoder, its output follows the dialect's choreography:
  blocks are opened one at a time at consecutive indices, every delta refers to the block that is
  open and has a type of that block, and \<open>message_delta\<close>, \<open>message_stop\<close> and \<open>error\<close> come only
  when every block is closed. A client that insists on this accepts the whole stream and ends in
  the encoder's state.
\<close>

theorem anthropic_stream_choreography:
  "client_run (None, 0) (fst (anthropic_encode_all anthropic_encoder_new evs))
   = Some (client_of (snd (anthropic_encode_all anthropic_encoder_new evs)))"
proof -
  obtain es enc where e: "anthropic_encode_all anthropic_encoder_new evs = (es, enc)" by fastforce
  have "client_of anthropic_encoder_new = (None, 0)" by (simp add: client_of_def anthropic_encoder_new_def)
  with encode_all_client [OF e anthropic_encoder_new_ok] show ?thesis by (simp add: e)
qed



end
