(* ===== verification/Gemini_Convert.thy ===== *)
theory Gemini_Convert
  imports Anthropic_Convert
begin

text \<open>
  The Gemini \<open>generateContent\<close> dialect, whole bodies (\<open>src/adapters/gemini/convert.rs\<close>). Gemini
  names functions, not calls: the reader mints ids for calls that carry none, and the writer
  correlates every tool result with the call it answers.
\<close>

section \<open>Reading a request\<close>

definition collect_text_parts :: "value \<Rightarrow> string list" where
  "collect_text_parts v =
     (case get_array v ''parts'' of
        Some parts \<Rightarrow> List.map_filter (\<lambda>p. get_str p ''text'') parts
      | None \<Rightarrow> [])"

definition synth_id :: "u32 \<Rightarrow> string" where
  "synth_id counter = ''fc_'' @ dec (unat counter)"

definition gemini_parse_call :: "value \<Rightarrow> u32 \<Rightarrow> content_block \<times> u32" where
  "gemini_parse_call call counter =
     (let (i, counter1) = (case get_str call ''id'' of
            Some i \<Rightarrow> if i \<noteq> [] then (i, counter) else (synth_id (counter + 1), counter + 1)
          | None \<Rightarrow> (synth_id (counter + 1), counter + 1))
      in (ToolUse i (str_or_empty call ''name'') (unwrap_or (value_get call ''args'') (Object [])), counter1))"

definition gemini_result_content :: "serde_json \<Rightarrow> value option \<Rightarrow> string \<times> bool" where
  "gemini_result_content J response =
     (case response of
        Some (String s) \<Rightarrow> (s, False)
      | Some (Object ob) \<Rightarrow>
          (case (get_str (Object ob) ''result'', get_bool (Object ob) ''is_error'') of
             (Some result, is_err) \<Rightarrow> (result, unwrap_or is_err False)
           | _ \<Rightarrow> (to_string J (Object ob), False))
      | Some r \<Rightarrow> (to_string J r, False)
      | None \<Rightarrow> ([], False))"

definition gemini_parse_response_part :: "serde_json \<Rightarrow> value \<Rightarrow> content_block" where
  "gemini_parse_response_part J resp =
     (let i = unwrap_or (or_else (opt_filter (\<lambda>s. s \<noteq> []) (get_str resp ''id'')) (get_str resp ''name'')) [];
          (content, is_err) = gemini_result_content J (value_get resp ''response'')
      in ToolResult i content is_err)"

definition gemini_parse_part :: "serde_json \<Rightarrow> value \<Rightarrow> u32 \<Rightarrow> content_block option \<times> u32" where
  "gemini_parse_part J part counter =
     (case get_str part ''text'' of
        Some text \<Rightarrow>
          (Some (if unwrap_or (get_bool part ''thought'') False then Thinking text None else Text text), counter)
      | None \<Rightarrow>
          (case value_get part ''inlineData'' of
             Some data \<Rightarrow> (Some (Image (str_or_empty data ''mimeType'') (str_or_empty data ''data'')), counter)
           | None \<Rightarrow>
               (case value_get part ''functionCall'' of
                  Some call \<Rightarrow> (let (b, counter1) = gemini_parse_call call counter in (Some b, counter1))
                | None \<Rightarrow>
                    (case value_get part ''functionResponse'' of
                       Some resp \<Rightarrow> (Some (gemini_parse_response_part J resp), counter)
                     | None \<Rightarrow> (None, counter)))))"

fun gemini_parse_part_list :: "serde_json \<Rightarrow> value list \<Rightarrow> u32 \<Rightarrow> content_block list \<times> u32" where
  "gemini_parse_part_list J [] counter = ([], counter)"
| "gemini_parse_part_list J (p # ps) counter =
     (let (b, counter1) = gemini_parse_part J p counter;
          (bs, counter2) = gemini_parse_part_list J ps counter1
      in ((case b of Some x \<Rightarrow> x # bs | None \<Rightarrow> bs), counter2))"

definition gemini_parse_parts :: "serde_json \<Rightarrow> value list option \<Rightarrow> u32 \<Rightarrow> content_block list \<times> u32" where
  "gemini_parse_parts J parts counter =
     (case parts of None \<Rightarrow> ([], counter) | Some ps \<Rightarrow> gemini_parse_part_list J ps counter)"

definition gemini_parse_role :: "value \<Rightarrow> neutral_role option" where
  "gemini_parse_role content =
     (case get_str content ''role'' of
        Some role \<Rightarrow> if role = ''user'' then Some User else if role = ''model'' then Some Assistant else None
      | None \<Rightarrow> None)"

definition gemini_parse_content :: "serde_json \<Rightarrow> value \<Rightarrow> u32 \<Rightarrow> neutral_message list \<times> u32" where
  "gemini_parse_content J content counter =
     (case gemini_parse_role content of
        None \<Rightarrow> ([], counter)
      | Some role \<Rightarrow>
          let (blocks, counter1) = gemini_parse_parts J (get_array content ''parts'') counter in
          (if role = User \<and> list_ex is_tool_result blocks then
             (let results = filter is_tool_result blocks; rest = filter (\<lambda>b. \<not> is_tool_result b) blocks in
              (if results \<noteq> [] then [\<lparr>msg_role = Tool, msg_content = results\<rparr>] else []) @
              (if rest \<noteq> [] then [\<lparr>msg_role = User, msg_content = rest\<rparr>] else []))
           else [\<lparr>msg_role = role, msg_content = blocks\<rparr>], counter1))"

fun gemini_parse_contents :: "serde_json \<Rightarrow> value list \<Rightarrow> u32 \<Rightarrow> neutral_message list" where
  "gemini_parse_contents J [] counter = []"
| "gemini_parse_contents J (c # cs) counter =
     (let (ms, counter1) = gemini_parse_content J c counter in ms @ gemini_parse_contents J cs counter1)"

definition gemini_parse_function :: "value \<Rightarrow> neutral_tool option" where
  "gemini_parse_function f =
     Option.bind (get_str f ''name'') (\<lambda>nm.
       Some \<lparr>nt_name = nm, nt_description = get_str f ''description'',
             nt_parameters = unwrap_or (value_get f ''parameters'') (Object [])\<rparr>)"

definition gemini_parse_tools :: "value \<Rightarrow> neutral_tool list" where
  "gemini_parse_tools root =
     concat (map (\<lambda>tool. List.map_filter gemini_parse_function (unwrap_or (get_array tool ''functionDeclarations'') []))
       (unwrap_or (get_array root ''tools'') []))"

definition gemini_system :: "value \<Rightarrow> neutral_message list" where
  "gemini_system root =
     (case value_get root ''systemInstruction'' of
        Some system \<Rightarrow>
          let text = collect_text_parts system in
          if text \<noteq> [] then [\<lparr>msg_role = System, msg_content = map Text text\<rparr>] else []
      | None \<Rightarrow> [])"

definition gemini_request_of :: "serde_json \<Rightarrow> value \<Rightarrow> neutral_request" where
  "gemini_request_of J root =
     (let generation = unwrap_or (value_get root ''generationConfig'') Null in
      \<lparr>req_model = [],
       req_messages = gemini_system root @ gemini_parse_contents J (unwrap_or (get_array root ''contents'') []) 0,
       req_tools = gemini_parse_tools root,
       req_max_tokens = map_option as_u32 (get_u64 generation ''maxOutputTokens''),
       req_max_completion_tokens = None,
       req_temperature = get_f64 generation ''temperature'',
       req_top_p = get_f64 generation ''topP'',
       req_top_k = map_option as_u32 (get_u64 generation ''topK''),
       req_stop = opt_filter (\<lambda>s. s \<noteq> []) (map_option (List.map_filter as_str) (get_array generation ''stopSequences'')),
       req_stream = False\<rparr>)"

definition gemini_parse_request :: "serde_json \<Rightarrow> string \<Rightarrow> neutral_request result" where
  "gemini_parse_request J body =
     (case from_str J body of
        Inl e \<Rightarrow> Inl (invalid_json e)
      | Inr v \<Rightarrow>
          (case as_object v of
             None \<Rightarrow> Inl (InvalidRequest ''expected a JSON object'')
           | Some root \<Rightarrow> Inr (gemini_request_of J (Object root))))"

section \<open>Writing a request\<close>

text \<open>
  The pre-pass: the name of every call id, the id of the first call of every function, and the
  ids made up for calls that have none, by their position.
\<close>

record gemini_ids =
  gi_call_names :: "string \<Rightarrow> string option"
  gi_id_by_name :: "string \<Rightarrow> string option"
  gi_synth_ids :: "nat \<times> nat \<Rightarrow> string option"
  gi_counter :: u32

definition gemini_ids_new :: gemini_ids where
  "gemini_ids_new = \<lparr>gi_call_names = Map.empty, gi_id_by_name = Map.empty, gi_synth_ids = Map.empty, gi_counter = 0\<rparr>"

definition or_insert :: "('k \<Rightarrow> 'v option) \<Rightarrow> 'k \<Rightarrow> 'v \<Rightarrow> 'k \<Rightarrow> 'v option" where
  "or_insert m k v = (case m k of Some _ \<Rightarrow> m | None \<Rightarrow> m(k \<mapsto> v))"

definition gemini_note_call :: "nat \<times> nat \<Rightarrow> string \<Rightarrow> string \<Rightarrow> gemini_ids \<Rightarrow> gemini_ids" where
  "gemini_note_call pos i nm ids =
     (let (key, ids1) = (if i = [] then
            (let c = gi_counter ids + 1; key = synth_id c
             in (key, ids\<lparr>gi_counter := c, gi_synth_ids := (gi_synth_ids ids)(pos \<mapsto> key)\<rparr>))
          else (i, ids))
      in ids1\<lparr>gi_call_names := or_insert (gi_call_names ids1) key nm,
              gi_id_by_name := or_insert (gi_id_by_name ids1) nm key\<rparr>)"

fun gemini_note_blocks :: "nat \<Rightarrow> nat \<Rightarrow> content_block list \<Rightarrow> gemini_ids \<Rightarrow> gemini_ids" where
  "gemini_note_blocks mi bi [] ids = ids"
| "gemini_note_blocks mi bi (ToolUse i nm input # bs) ids =
     gemini_note_blocks mi (Suc bi) bs (gemini_note_call (mi, bi) i nm ids)"
| "gemini_note_blocks mi bi (b # bs) ids = gemini_note_blocks mi (Suc bi) bs ids"

fun gemini_note_messages :: "nat \<Rightarrow> neutral_message list \<Rightarrow> gemini_ids \<Rightarrow> gemini_ids" where
  "gemini_note_messages mi [] ids = ids"
| "gemini_note_messages mi (m # ms) ids =
     gemini_note_messages (Suc mi) ms (gemini_note_blocks mi 0 (msg_content m) ids)"

definition gemini_ids_of :: "neutral_message list \<Rightarrow> gemini_ids" where
  "gemini_ids_of ms = gemini_note_messages 0 ms gemini_ids_new"

fun gemini_part :: "content_block \<Rightarrow> string option \<Rightarrow> value option" where
  "gemini_part (Text t) s = Some (jobj [(''text'', String t)])"
| "gemini_part (Image media base) s =
     Some (jobj [(''inlineData'', jobj [(''mimeType'', String media), (''data'', String base)])])"
| "gemini_part (Thinking t sig) s = Some (jobj [(''text'', String t), (''thought'', Bool True)])"
| "gemini_part (ToolUse i nm input) s =
     (let call_id = unwrap_or s i in
      Some (jobj [(''functionCall'', jobj ((if call_id \<noteq> [] then [(''id'', String call_id)] else []) @
        [(''name'', String nm), (''args'', input)]))]))"
| "gemini_part (RedactedThinking _) s = None"
| "gemini_part (ToolResult _ _ _) s = None"

fun gemini_result_part :: "gemini_ids \<Rightarrow> content_block \<Rightarrow> value option" where
  "gemini_result_part ids (ToolResult i c e) =
     (let (call_id, nm) = (case gi_call_names ids i of
            Some n \<Rightarrow> (Some i, n)
          | None \<Rightarrow> (case gi_id_by_name ids i of Some k \<Rightarrow> (Some k, i) | None \<Rightarrow> (None, i)))
      in Some (jobj [(''functionResponse'', jobj ((case call_id of Some k \<Rightarrow> [(''id'', String k)] | None \<Rightarrow> []) @
           [(''name'', String nm), (''response'', jobj [(''result'', String c), (''is_error'', Bool e)])]))]))"
| "gemini_result_part ids _ = None"

definition gemini_turn :: "string \<Rightarrow> value list \<Rightarrow> value list" where
  "gemini_turn role parts =
     (if parts \<noteq> [] then [jobj [(''role'', String role), (''parts'', Array parts)]] else [])"

fun gemini_parts :: "gemini_ids \<Rightarrow> nat \<Rightarrow> nat \<Rightarrow> content_block list \<Rightarrow> value list" where
  "gemini_parts ids mi bi [] = []"
| "gemini_parts ids mi bi (b # bs) =
     (case gemini_part b (gi_synth_ids ids (mi, bi)) of
        Some v \<Rightarrow> v # gemini_parts ids mi (Suc bi) bs
      | None \<Rightarrow> gemini_parts ids mi (Suc bi) bs)"

definition gemini_message_value :: "gemini_ids \<Rightarrow> nat \<Rightarrow> neutral_message \<Rightarrow> value list" where
  "gemini_message_value ids mi msg =
     (case msg_role msg of
        System \<Rightarrow> []
      | User \<Rightarrow> gemini_turn ''user'' (gemini_parts ids mi 0 (msg_content msg))
      | Assistant \<Rightarrow> gemini_turn ''model'' (gemini_parts ids mi 0 (msg_content msg))
      | Tool \<Rightarrow> gemini_turn ''user'' (List.map_filter (gemini_result_part ids) (msg_content msg)))"

fun gemini_message_values :: "gemini_ids \<Rightarrow> nat \<Rightarrow> neutral_message list \<Rightarrow> value list" where
  "gemini_message_values ids mi [] = []"
| "gemini_message_values ids mi (m # ms) = gemini_message_value ids mi m @ gemini_message_values ids (Suc mi) ms"

definition gemini_serialize_tool :: "neutral_tool \<Rightarrow> value" where
  "gemini_serialize_tool tool =
     jobj ([(''name'', String (nt_name tool))] @
       (case nt_description tool of Some d \<Rightarrow> [(''description'', String d)] | None \<Rightarrow> []) @
       [(''parameters'', nt_parameters tool)])"

definition gemini_generation :: "neutral_request \<Rightarrow> (string \<times> value) list" where
  "gemini_generation req =
     (case or_else (req_max_tokens req) (req_max_completion_tokens req) of
        Some mt \<Rightarrow> [(''maxOutputTokens'', jnum32 mt)] | None \<Rightarrow> []) @
     (case req_temperature req of Some t \<Rightarrow> [(''temperature'', jf64 t)] | None \<Rightarrow> []) @
     (case req_top_p req of Some tp \<Rightarrow> [(''topP'', jf64 tp)] | None \<Rightarrow> []) @
     (case req_top_k req of Some tk \<Rightarrow> [(''topK'', jnum32 tk)] | None \<Rightarrow> []) @
     (case req_stop req of Some stop \<Rightarrow> [(''stopSequences'', Array (map String stop))] | None \<Rightarrow> [])"

definition gemini_request_value :: "neutral_request \<Rightarrow> value" where
  "gemini_request_value req =
     (let ids = gemini_ids_of (req_messages req);
          contents = gemini_message_values ids 0 (req_messages req);
          system_text = concat (map anthropic_system_text (req_messages req));
          generation = gemini_generation req
      in jobj ((if system_text \<noteq> [] then [(''systemInstruction'',
                 jobj [(''parts'', Array (map (\<lambda>t. jobj [(''text'', String t)]) system_text))])] else []) @
         [(''contents'', Array contents)] @
         (if req_tools req \<noteq> [] then
            [(''tools'', Array [jobj [(''functionDeclarations'', Array (map gemini_serialize_tool (req_tools req)))]])]
          else []) @
         (if generation \<noteq> [] then [(''generationConfig'', jobj generation)] else [])))"

definition gemini_serialize_request :: "serde_json \<Rightarrow> neutral_request \<Rightarrow> string result" where
  "gemini_serialize_request J req = Inr (to_string J (gemini_request_value req))"

section \<open>Responses\<close>

definition gemini_parse_finish_reason :: "string \<Rightarrow> finish_reason" where
  "gemini_parse_finish_reason s =
     (if s = ''STOP'' then Stop
      else if s = ''MAX_TOKENS'' then Length
      else if s = ''SAFETY'' \<or> s = ''RECITATION'' then ContentFilter
      else Other s)"

definition gemini_parse_usage :: "value \<Rightarrow> neutral_usage option" where
  "gemini_parse_usage usage =
     Some \<lparr>input_tokens = unwrap_or (get_u64 usage ''promptTokenCount'') 0,
           output_tokens = unwrap_or (get_u64 usage ''candidatesTokenCount'') 0\<rparr>"

definition first_of :: "value \<Rightarrow> string \<Rightarrow> value option" where
  "first_of v k = Option.bind (get_array v k) (\<lambda>xs. case xs of [] \<Rightarrow> None | x # _ \<Rightarrow> Some x)"

definition gemini_response_of :: "serde_json \<Rightarrow> value \<Rightarrow> neutral_response" where
  "gemini_response_of J root =
     (let candidate = first_of root ''candidates'' in
      \<lparr>resp_id = [],
       resp_model = str_or_empty root ''modelVersion'',
       resp_content =
         (case Option.bind candidate (\<lambda>c. Option.bind (value_get c ''content'') (\<lambda>ct. get_array ct ''parts'')) of
            Some parts \<Rightarrow> fst (gemini_parse_part_list J parts 0)
          | None \<Rightarrow> []),
       resp_finish_reason =
         (case Option.bind candidate (\<lambda>c. get_str c ''finishReason'') of
            Some fr \<Rightarrow> gemini_parse_finish_reason fr
          | None \<Rightarrow> Stop),
       resp_usage = Option.bind (value_get root ''usageMetadata'') gemini_parse_usage\<rparr>)"

definition gemini_parse_response :: "serde_json \<Rightarrow> string \<Rightarrow> neutral_response result" where
  "gemini_parse_response J body =
     (case from_str J body of
        Inl e \<Rightarrow> Inl (invalid_json e)
      | Inr v \<Rightarrow>
          (case as_object v of
             None \<Rightarrow> Inl (InvalidRequest ''expected a JSON object'')
           | Some m \<Rightarrow>
               (case value_get (Object m) ''error'' of
                  Some e \<Rightarrow> Inl (Upstream (ucast (unwrap_or (get_u64 e ''code'') 500)) body)
                | None \<Rightarrow> Inr (gemini_response_of J (Object m)))))"

definition gemini_finish_reason :: "finish_reason \<Rightarrow> string" where
  "gemini_finish_reason fr =
     (case fr of
        Stop \<Rightarrow> ''STOP''
      | Length \<Rightarrow> ''MAX_TOKENS''
      | ContentFilter \<Rightarrow> ''SAFETY''
      | ToolCalls \<Rightarrow> ''STOP''
      | Other s \<Rightarrow> s)"

definition gemini_usage_value :: "neutral_usage \<Rightarrow> value" where
  "gemini_usage_value u = jobj [(''promptTokenCount'', jnum (input_tokens u)), (''candidatesTokenCount'', jnum (output_tokens u))]"

definition gemini_response_value :: "neutral_response \<Rightarrow> value" where
  "gemini_response_value resp =
     jobj ([(''candidates'', Array [jobj [
         (''content'', jobj [(''role'', String ''model''),
            (''parts'', Array (List.map_filter (\<lambda>b. gemini_part b None) (resp_content resp)))]),
         (''finishReason'', String (gemini_finish_reason (resp_finish_reason resp)))]])] @
       (case resp_usage resp of Some u \<Rightarrow> [(''usageMetadata'', gemini_usage_value u)] | None \<Rightarrow> []))"

definition gemini_serialize_response :: "serde_json \<Rightarrow> neutral_response \<Rightarrow> string result" where
  "gemini_serialize_response J resp = Inr (to_string J (gemini_response_value resp))"

definition gemini_error_kind :: "adapter_error \<Rightarrow> u16 \<times> string" where
  "gemini_error_kind err =
     (case err of
        InvalidRequest _ \<Rightarrow> (400, ''INVALID_ARGUMENT'')
      | Authentication \<Rightarrow> (401, ''UNAUTHENTICATED'')
      | PermissionDenied \<Rightarrow> (403, ''PERMISSION_DENIED'')
      | RateLimit _ \<Rightarrow> (429, ''RESOURCE_EXHAUSTED'')
      | InsufficientQuota \<Rightarrow> (429, ''RESOURCE_EXHAUSTED'')
      | Overloaded \<Rightarrow> (503, ''UNAVAILABLE'')
      | Api _ \<Rightarrow> (500, ''INTERNAL'')
      | Upstream status _ \<Rightarrow> (status, ''UPSTREAM_ERROR'')
      | Internal _ \<Rightarrow> (500, ''INTERNAL''))"

definition gemini_serialize_error :: "serde_json \<Rightarrow> adapter_error \<Rightarrow> u16 \<times> string" where
  "gemini_serialize_error J err =
     (let (status, etype) = gemini_error_kind err in
      (status, to_string J (jobj [(''error'', jobj [(''code'', Number (PosInt (ucast status))),
         (''message'', String (error_to_string err)), (''status'', String etype)])])))"

section \<open>What survives a trip through the dialect\<close>

fun gemini_normal_block :: "content_block \<Rightarrow> string option \<Rightarrow> content_block option" where
  "gemini_normal_block (Thinking t sig) s = Some (Thinking t None)"
| "gemini_normal_block (ToolUse i nm input) s = Some (ToolUse (unwrap_or s i) nm input)"
| "gemini_normal_block (RedactedThinking _) s = None"
| "gemini_normal_block (ToolResult _ _ _) s = None"
| "gemini_normal_block b s = Some b"

fun gemini_normal_parts :: "gemini_ids \<Rightarrow> nat \<Rightarrow> nat \<Rightarrow> content_block list \<Rightarrow> content_block list" where
  "gemini_normal_parts ids mi bi [] = []"
| "gemini_normal_parts ids mi bi (b # bs) =
     (case gemini_normal_block b (gi_synth_ids ids (mi, bi)) of
        Some v \<Rightarrow> v # gemini_normal_parts ids mi (Suc bi) bs
      | None \<Rightarrow> gemini_normal_parts ids mi (Suc bi) bs)"

text \<open>The id a tool result comes back with: its own, or that of the first call of the function it names.\<close>

definition gemini_result_id :: "gemini_ids \<Rightarrow> string \<Rightarrow> string" where
  "gemini_result_id ids i =
     (case gi_call_names ids i of Some _ \<Rightarrow> i | None \<Rightarrow> unwrap_or (gi_id_by_name ids i) i)"

fun gemini_normal_result :: "gemini_ids \<Rightarrow> content_block \<Rightarrow> content_block option" where
  "gemini_normal_result ids (ToolResult i c e) = Some (ToolResult (gemini_result_id ids i) c e)"
| "gemini_normal_result ids _ = None"

definition some_message :: "neutral_role \<Rightarrow> content_block list \<Rightarrow> neutral_message list" where
  "some_message role bs = (if bs = [] then [] else [\<lparr>msg_role = role, msg_content = bs\<rparr>])"

definition gemini_normal_message :: "gemini_ids \<Rightarrow> nat \<Rightarrow> neutral_message \<Rightarrow> neutral_message list" where
  "gemini_normal_message ids mi m =
     (case msg_role m of
        System \<Rightarrow> []
      | Tool \<Rightarrow> some_message Tool (List.map_filter (gemini_normal_result ids) (msg_content m))
      | role \<Rightarrow> some_message role (gemini_normal_parts ids mi 0 (msg_content m)))"

fun gemini_normal_messages :: "gemini_ids \<Rightarrow> nat \<Rightarrow> neutral_message list \<Rightarrow> neutral_message list" where
  "gemini_normal_messages ids mi [] = []"
| "gemini_normal_messages ids mi (m # ms) = gemini_normal_message ids mi m @ gemini_normal_messages ids (Suc mi) ms"

definition gemini_normal_request :: "neutral_request \<Rightarrow> neutral_request" where
  "gemini_normal_request req = req\<lparr>
     req_model := [],
     req_messages := some_message System (map Text (concat (map anthropic_system_text (req_messages req)))) @
       gemini_normal_messages (gemini_ids_of (req_messages req)) 0 (req_messages req),
     req_max_tokens := or_else (req_max_tokens req) (req_max_completion_tokens req),
     req_max_completion_tokens := None,
     req_temperature := opt_filter f64_is_finite (req_temperature req),
     req_top_p := opt_filter f64_is_finite (req_top_p req),
     req_stop := opt_filter (\<lambda>vals. vals \<noteq> []) (req_stop req),
     req_stream := False\<rparr>"

section \<open>The pre-pass\<close>

lemma synth_id_nonempty [simp]: "synth_id c \<noteq> []" "[] \<noteq> synth_id c"
  by (simp_all add: synth_id_def)

text \<open>No id is empty, and exactly the calls without an id get one, at their position.\<close>

definition gemini_ids_ok :: "gemini_ids \<Rightarrow> bool" where
  "gemini_ids_ok ids \<longleftrightarrow> gi_call_names ids [] = None \<and> (\<forall>n k. gi_id_by_name ids n = Some k \<longrightarrow> k \<noteq> [])"

lemma note_call_ok: "gemini_ids_ok ids \<Longrightarrow> gemini_ids_ok (gemini_note_call pos i nm ids)"
  by (auto simp: gemini_ids_ok_def gemini_note_call_def or_insert_def Let_def split: option.splits if_splits)

lemma note_blocks_ok: "gemini_ids_ok ids \<Longrightarrow> gemini_ids_ok (gemini_note_blocks mi bi bs ids)"
  by (induction mi bi bs ids rule: gemini_note_blocks.induct) (simp_all add: note_call_ok)

lemma note_messages_ok: "gemini_ids_ok ids \<Longrightarrow> gemini_ids_ok (gemini_note_messages mi ms ids)"
  by (induction mi ms ids rule: gemini_note_messages.induct) (simp_all add: note_blocks_ok)

lemma gemini_ids_of_ok: "gemini_ids_ok (gemini_ids_of ms)"
  unfolding gemini_ids_of_def by (rule note_messages_ok) (simp add: gemini_ids_ok_def gemini_ids_new_def)

fun unnamed_call :: "content_block \<Rightarrow> bool" where
  "unnamed_call (ToolUse i nm input) = (i = [])"
| "unnamed_call _ = False"

fun synth_at :: "gemini_ids \<Rightarrow> nat \<Rightarrow> nat \<Rightarrow> content_block list \<Rightarrow> bool" where
  "synth_at ids mi bi [] = True"
| "synth_at ids mi bi (b # bs) \<longleftrightarrow>
     (if unnamed_call b then \<exists>c. gi_synth_ids ids (mi, bi) = Some (synth_id c) else gi_synth_ids ids (mi, bi) = None) \<and>
     synth_at ids mi (Suc bi) bs"

lemma note_call_synth:
  "gi_synth_ids (gemini_note_call pos i nm ids) pos' =
     (if i = [] \<and> pos' = pos then Some (synth_id (gi_counter ids + 1)) else gi_synth_ids ids pos')"
  by (simp add: gemini_note_call_def Let_def)

lemma note_blocks_other:
  "fst pos \<noteq> mi \<or> snd pos < bi \<Longrightarrow> gi_synth_ids (gemini_note_blocks mi bi bs ids) pos = gi_synth_ids ids pos"
  by (induction mi bi bs ids rule: gemini_note_blocks.induct) (auto simp: note_call_synth)

lemma note_messages_other:
  "fst pos < mi \<Longrightarrow> gi_synth_ids (gemini_note_messages mi ms ids) pos = gi_synth_ids ids pos"
  by (induction mi ms ids rule: gemini_note_messages.induct) (auto simp: note_blocks_other)

lemma note_blocks_synth:
  "(\<And>k. bi \<le> k \<Longrightarrow> gi_synth_ids ids (mi, k) = None) \<Longrightarrow> synth_at (gemini_note_blocks mi bi bs ids) mi bi bs"
proof (induction mi bi bs ids rule: gemini_note_blocks.induct)
  case (2 mi bi i nm input bs ids)
  let ?ids = "gemini_note_call (mi, bi) i nm ids"
  have "synth_at (gemini_note_blocks mi (Suc bi) bs ?ids) mi (Suc bi) bs"
    by (rule "2.IH") (use "2.prems" in \<open>simp add: note_call_synth\<close>)
  moreover have "gi_synth_ids (gemini_note_blocks mi (Suc bi) bs ?ids) (mi, bi) = gi_synth_ids ?ids (mi, bi)"
    by (rule note_blocks_other) simp
  ultimately show ?case using "2.prems" [of bi] by (auto simp: note_call_synth)
qed (simp_all add: note_blocks_other)

lemma synth_at_cong:
  "(\<And>k. gi_synth_ids ids' (mi, k) = gi_synth_ids ids (mi, k)) \<Longrightarrow> synth_at ids' mi bi bs = synth_at ids mi bi bs"
  by (induction bs arbitrary: bi) simp_all

fun synth_all :: "gemini_ids \<Rightarrow> nat \<Rightarrow> neutral_message list \<Rightarrow> bool" where
  "synth_all ids mi [] = True"
| "synth_all ids mi (m # ms) \<longleftrightarrow> synth_at ids mi 0 (msg_content m) \<and> synth_all ids (Suc mi) ms"

lemma note_messages_synth:
  "(\<And>mi' k. mi \<le> mi' \<Longrightarrow> gi_synth_ids ids (mi', k) = None) \<Longrightarrow> synth_all (gemini_note_messages mi ms ids) mi ms"
proof (induction mi ms ids rule: gemini_note_messages.induct)
  case (2 mi m ms ids)
  let ?ids = "gemini_note_blocks mi 0 (msg_content m) ids"
  have "synth_at ?ids mi 0 (msg_content m)" by (rule note_blocks_synth) (use "2.prems" in simp)
  moreover have "synth_at (gemini_note_messages (Suc mi) ms ?ids) mi 0 (msg_content m) = synth_at ?ids mi 0 (msg_content m)"
    by (rule synth_at_cong) (simp add: note_messages_other)
  moreover have "synth_all (gemini_note_messages (Suc mi) ms ?ids) (Suc mi) ms"
    by (rule "2.IH") (use "2.prems" in \<open>simp add: note_blocks_other\<close>)
  ultimately show ?case by simp
qed simp

lemma gemini_ids_of_synth: "synth_all (gemini_ids_of ms) 0 ms"
  unfolding gemini_ids_of_def by (rule note_messages_synth) (simp add: gemini_ids_new_def)

section \<open>Parts read back\<close>

lemma gemini_part_back:
  assumes "if unnamed_call b then \<exists>c. s = Some (synth_id c) else s = None" "gemini_part b s = Some v"
  shows "\<exists>x. gemini_parse_part J v counter = (Some x, counter) \<and> gemini_normal_block b s = Some x \<and> \<not> is_tool_result x"
  using assms
  by (cases b) (auto simp: gemini_parse_part_def gemini_parse_call_def Let_def split: if_splits)

lemma gemini_part_None: "gemini_part b s = None \<longleftrightarrow> gemini_normal_block b s = None"
  by (cases b) (simp_all add: Let_def)

lemma gemini_parts_back:
  "synth_at ids mi bi bs \<Longrightarrow>
   gemini_parse_part_list J (gemini_parts ids mi bi bs) counter = (gemini_normal_parts ids mi bi bs, counter)"
proof (induction bs arbitrary: bi)
  case (Cons b bs)
  let ?s = "gi_synth_ids ids (mi, bi)"
  have IH: "gemini_parse_part_list J (gemini_parts ids mi (Suc bi) bs) counter = (gemini_normal_parts ids mi (Suc bi) bs, counter)"
    using Cons by simp
  show ?case
  proof (cases "gemini_part b ?s")
    case None
    with gemini_part_None [of b ?s] IH show ?thesis by simp
  next
    case (Some v)
    have "if unnamed_call b then \<exists>c. ?s = Some (synth_id c) else ?s = None" using Cons.prems by simp
    from gemini_part_back [OF this Some] obtain x where
      "gemini_parse_part J v counter = (Some x, counter)" "gemini_normal_block b ?s = Some x" by blast
    with Some IH show ?thesis by simp
  qed
qed simp

lemma gemini_parts_Nil: "gemini_parts ids mi bi bs = [] \<longleftrightarrow> gemini_normal_parts ids mi bi bs = []"
proof (induction bs arbitrary: bi)
  case (Cons b bs)
  then show ?case using gemini_part_None [of b "gi_synth_ids ids (mi, bi)"] by (auto split: option.split)
qed simp

lemma gemini_normal_parts_no_result: "\<not> list_ex is_tool_result (gemini_normal_parts ids mi bi bs)"
proof (induction bs arbitrary: bi)
  case (Cons b bs)
  then show ?case by (cases b) (simp_all split: option.split)
qed simp

lemma gemini_wrapped_result:
  assumes "value_get v ''result'' = Some (String c)" "value_get v ''is_error'' = Some (Bool e)"
  shows "gemini_result_content J (Some v) = (c, e)"
  using assms by (cases v) (simp_all add: gemini_result_content_def)

lemma gemini_result_back:
  assumes "gemini_ids_ok ids" "gemini_result_part ids b = Some v"
  shows "\<exists>x. gemini_parse_part J v counter = (Some x, counter) \<and> gemini_normal_result ids b = Some x"
proof (cases b)
  case (ToolResult i c e)
  show ?thesis
  proof (cases "gi_call_names ids i")
    case (Some n)
    then have "i \<noteq> []" using assms(1) by (auto simp: gemini_ids_ok_def)
    with Some ToolResult assms(2) show ?thesis
      by (auto simp: gemini_parse_part_def gemini_parse_response_part_def gemini_result_id_def
          gemini_wrapped_result Let_def)
  next
    case None
    then show ?thesis using ToolResult assms
      by (cases "gi_id_by_name ids i") (auto simp: gemini_parse_part_def gemini_parse_response_part_def
          gemini_wrapped_result gemini_result_id_def gemini_ids_ok_def Let_def)
  qed
qed (use assms in auto)

lemma gemini_result_None: "gemini_result_part ids b = None \<longleftrightarrow> gemini_normal_result ids b = None"
  by (cases b) (auto simp: Let_def split: prod.splits)

lemma gemini_results_back:
  assumes "gemini_ids_ok ids"
  shows "gemini_parse_part_list J (List.map_filter (gemini_result_part ids) bs) counter
    = (List.map_filter (gemini_normal_result ids) bs, counter)"
proof (induction bs)
  case (Cons b bs)
  show ?case
  proof (cases "gemini_result_part ids b")
    case None
    with gemini_result_None [of ids b] Cons show ?thesis by simp
  next
    case (Some v)
    from gemini_result_back [OF assms Some] obtain x where
      "gemini_parse_part J v counter = (Some x, counter)" "gemini_normal_result ids b = Some x" by blast
    with Some Cons show ?thesis by simp
  qed
qed simp

lemma gemini_results_Nil:
  "List.map_filter (gemini_result_part ids) bs = [] \<longleftrightarrow> List.map_filter (gemini_normal_result ids) bs = []"
proof (induction bs)
  case (Cons b bs)
  then show ?case using gemini_result_None [of ids b] by (auto split: option.split)
qed simp

lemma gemini_normal_results_all: "list_all is_tool_result (List.map_filter (gemini_normal_result ids) bs)"
proof (induction bs)
  case (Cons b bs)
  then show ?case by (cases b) simp_all
qed simp

section \<open>Messages read back\<close>

text \<open>One written turn: its parts, without and with tool results.\<close>

lemma gemini_turn_back:
  assumes "gemini_parse_part_list J parts counter = (bs, counter)" "parts = [] \<longleftrightarrow> bs = []"
    and "\<not> list_ex is_tool_result bs" "role = ''user'' \<and> r = User \<or> role = ''model'' \<and> r = Assistant"
  shows "gemini_parse_contents J (gemini_turn role parts @ rest) counter = some_message r bs @ gemini_parse_contents J rest counter"
  using assms
  by (auto simp: gemini_turn_def some_message_def gemini_parse_content_def gemini_parse_role_def gemini_parse_parts_def)

lemma gemini_result_turn_back:
  assumes "gemini_parse_part_list J parts counter = (bs, counter)" "parts = [] \<longleftrightarrow> bs = []" "list_all is_tool_result bs"
  shows "gemini_parse_contents J (gemini_turn ''user'' parts @ rest) counter = some_message Tool bs @ gemini_parse_contents J rest counter"
proof (cases "bs = []")
  case False
  then have "list_ex is_tool_result bs" using assms(3) by (cases bs) auto
  moreover have "filter is_tool_result bs = bs" "filter (\<lambda>b. \<not> is_tool_result b) bs = []"
    using assms(3) by (auto simp: list_all_iff filter_empty_conv)
  ultimately show ?thesis using False assms(1,2)
    by (simp add: gemini_turn_def some_message_def gemini_parse_content_def gemini_parse_role_def gemini_parse_parts_def Let_def)
qed (use assms in \<open>simp add: gemini_turn_def some_message_def\<close>)

lemma gemini_message_back:
  assumes "gemini_ids_ok ids" "synth_at ids mi 0 (msg_content m)"
  shows "gemini_parse_contents J (gemini_message_value ids mi m @ rest) counter
    = gemini_normal_message ids mi m @ gemini_parse_contents J rest counter"
proof (cases "msg_role m")
  case Tool
  then show ?thesis using gemini_result_turn_back [OF gemini_results_back [OF assms(1)] gemini_results_Nil gemini_normal_results_all]
    by (simp add: gemini_message_value_def gemini_normal_message_def)
next
  case User
  then show ?thesis
    using gemini_turn_back [OF gemini_parts_back [OF assms(2)] gemini_parts_Nil gemini_normal_parts_no_result]
    by (simp add: gemini_message_value_def gemini_normal_message_def)
next
  case Assistant
  then show ?thesis
    using gemini_turn_back [OF gemini_parts_back [OF assms(2)] gemini_parts_Nil gemini_normal_parts_no_result]
    by (simp add: gemini_message_value_def gemini_normal_message_def)
qed (simp add: gemini_message_value_def gemini_normal_message_def)

lemma gemini_messages_back:
  "gemini_ids_ok ids \<Longrightarrow> synth_all ids mi ms \<Longrightarrow>
   gemini_parse_contents J (gemini_message_values ids mi ms) counter = gemini_normal_messages ids mi ms"
  by (induction ms arbitrary: mi) (simp_all add: gemini_message_back)

section \<open>Requests read back\<close>

lemma gemini_tool_back [simp]: "gemini_parse_function (gemini_serialize_tool t) = Some t"
  by (cases t; cases "nt_description t") (simp_all add: gemini_parse_function_def gemini_serialize_tool_def)

lemma gemini_functions_back [simp]: "List.map_filter gemini_parse_function (map gemini_serialize_tool ts) = ts"
  by (induction ts) simp_all

lemma gemini_generation_fields:
  "map_of (rev (gemini_generation req)) ''maxOutputTokens'' = map_option jnum32 (or_else (req_max_tokens req) (req_max_completion_tokens req))"
  "map_of (rev (gemini_generation req)) ''temperature'' = map_option jf64 (req_temperature req)"
  "map_of (rev (gemini_generation req)) ''topP'' = map_option jf64 (req_top_p req)"
  "map_of (rev (gemini_generation req)) ''topK'' = map_option jnum32 (req_top_k req)"
  "map_of (rev (gemini_generation req)) ''stopSequences'' = map_option (\<lambda>stop. Array (map String stop)) (req_stop req)"
  unfolding gemini_generation_def obj_fields by simp_all

lemma gemini_request_fields:
  assumes "v = gemini_request_value req" and "st = concat (map anthropic_system_text (req_messages req))"
  shows "value_get v ''systemInstruction'' = (if st = [] then None else
       Some (jobj [(''parts'', Array (map (\<lambda>t. jobj [(''text'', String t)]) st))]))"
    "value_get v ''contents'' = Some (Array (gemini_message_values (gemini_ids_of (req_messages req)) 0 (req_messages req)))"
    "value_get v ''tools'' = (if req_tools req = [] then None else
       Some (Array [jobj [(''functionDeclarations'', Array (map gemini_serialize_tool (req_tools req)))]]))"
    "value_get v ''generationConfig'' = (if gemini_generation req = [] then None else Some (jobj (gemini_generation req)))"
  unfolding assms gemini_request_value_def Let_def obj_fields by simp_all

lemma gemini_generation_get:
  "value_get (unwrap_or (value_get (gemini_request_value req) ''generationConfig'') Null) k = map_of (rev (gemini_generation req)) k"
  by (cases "gemini_generation req = []") (simp_all add: gemini_request_fields(4) [OF refl refl])

lemma collect_text_parts_back:
  "collect_text_parts (jobj [(''parts'', Array (map (\<lambda>t. jobj [(''text'', String t)]) ts))]) = ts"
proof -
  have "List.map_filter (\<lambda>p. get_str p ''text'') (map (\<lambda>t. jobj [(''text'', String t)]) ts) = ts"
    by (induction ts) simp_all
  then show ?thesis by (simp add: collect_text_parts_def)
qed

lemma gemini_request_back: "gemini_request_of J (gemini_request_value req) = gemini_normal_request req"
proof -
  let ?v = "gemini_request_value req" and ?ids = "gemini_ids_of (req_messages req)"
  note f = gemini_request_fields [OF refl refl, of req]
  have n: "Option.bind (map_option jnum32 x) as_u64 = map_option ucast x" for x by (cases x) simp_all
  have u: "map_option (as_u32 \<circ> ucast) x = x" for x :: "u32 option" by (cases x) simp_all
  have sy: "gemini_system ?v = some_message System (map Text (concat (map anthropic_system_text (req_messages req))))"
    by (simp add: gemini_system_def f(1) collect_text_parts_back some_message_def Let_def)
  have c: "gemini_parse_contents J (unwrap_or (get_array ?v ''contents'') []) 0 = gemini_normal_messages ?ids 0 (req_messages req)"
    by (simp add: f(2) gemini_messages_back [OF gemini_ids_of_ok gemini_ids_of_synth])
  have t: "gemini_parse_tools ?v = req_tools req" by (simp add: gemini_parse_tools_def f(3))
  have s: "opt_filter (\<lambda>s. s \<noteq> []) (map_option (List.map_filter as_str) (Option.bind (map_option (\<lambda>stop. Array (map String stop)) (req_stop req)) as_array))
      = opt_filter (\<lambda>s. s \<noteq> []) (req_stop req)"
    by (cases "req_stop req") simp_all
  show ?thesis
    unfolding gemini_request_of_def Let_def sy c t gemini_generation_get gemini_generation_fields s
    by (simp add: n u gemini_normal_request_def option.map_comp)
qed

section \<open>Responses read back\<close>

text \<open>A reader numbers the calls that carry no id.\<close>

fun gemini_numbered :: "content_block list \<Rightarrow> u32 \<Rightarrow> content_block list" where
  "gemini_numbered [] counter = []"
| "gemini_numbered (ToolUse i nm input # bs) counter =
     (if i = [] then ToolUse (synth_id (counter + 1)) nm input # gemini_numbered bs (counter + 1)
      else ToolUse i nm input # gemini_numbered bs counter)"
| "gemini_numbered (b # bs) counter = b # gemini_numbered bs counter"

lemma gemini_reply_back:
  "fst (gemini_parse_part_list J (List.map_filter (\<lambda>b. gemini_part b None) bs) counter)
   = gemini_numbered (List.map_filter (\<lambda>b. gemini_normal_block b None) bs) counter"
proof (induction bs arbitrary: counter)
  case (Cons b bs)
  show ?case
    using Cons.IH [of counter] Cons.IH [of "counter + 1"]
    by (cases b) (auto simp: gemini_parse_part_def gemini_parse_call_def Let_def split: prod.splits)
qed simp

definition gemini_normal_response :: "neutral_response \<Rightarrow> neutral_response" where
  "gemini_normal_response resp = resp\<lparr>
     resp_id := [],
     resp_model := [],
     resp_content := gemini_numbered (List.map_filter (\<lambda>b. gemini_normal_block b None) (resp_content resp)) 0,
     resp_finish_reason := gemini_parse_finish_reason (gemini_finish_reason (resp_finish_reason resp))\<rparr>"

lemma gemini_response_fields:
  assumes "v = gemini_response_value resp"
  shows "value_get v ''error'' = None" "value_get v ''modelVersion'' = None"
    "first_of v ''candidates'' = Some (jobj [
         (''content'', jobj [(''role'', String ''model''),
            (''parts'', Array (List.map_filter (\<lambda>b. gemini_part b None) (resp_content resp)))]),
         (''finishReason'', String (gemini_finish_reason (resp_finish_reason resp)))])"
    "value_get v ''usageMetadata'' = map_option gemini_usage_value (resp_usage resp)"
  unfolding assms gemini_response_value_def first_of_def by (simp_all split: option.split)

lemma gemini_response_back: "gemini_response_of J (gemini_response_value resp) = gemini_normal_response resp"
proof -
  note f = gemini_response_fields [OF refl, of resp]
  have u: "Option.bind (value_get (gemini_response_value resp) ''usageMetadata'') gemini_parse_usage = resp_usage resp"
    by (cases "resp_usage resp") (simp_all add: f gemini_parse_usage_def gemini_usage_value_def)
  show ?thesis
    unfolding gemini_response_of_def u
    by (simp add: f(2,3) gemini_reply_back gemini_normal_response_def)
qed

section \<open>Repeated ids\<close>

text \<open>
  Every response numbers its calls from \<open>fc_1\<close>. In a conversation of two such turns both calls
  have the same id, and the result of the second is written with the name of the first.
\<close>

lemma gemini_repeated_id_misnamed:
  "List.map_filter (gemini_result_part (gemini_ids_of
     [\<lparr>msg_role = Assistant, msg_content = [ToolUse ''fc_1'' ''weather'' (Object [])]\<rparr>,
      \<lparr>msg_role = Tool, msg_content = [ToolResult ''fc_1'' ''sunny'' False]\<rparr>,
      \<lparr>msg_role = Assistant, msg_content = [ToolUse ''fc_1'' ''clock'' (Object [])]\<rparr>]))
     [ToolResult ''fc_1'' ''noon'' False]
   = [jobj [(''functionResponse'', jobj [(''id'', String ''fc_1''), (''name'', String ''weather''),
        (''response'', jobj [(''result'', String ''noon''), (''is_error'', Bool False)])])]]"
  by (simp add: gemini_ids_of_def gemini_ids_new_def gemini_note_call_def or_insert_def)

section \<open>An example\<close>

definition gemini_example_request :: neutral_request where
  "gemini_example_request = (new_request ''gemini-pro''
     [\<lparr>msg_role = System, msg_content = [Text ''be brief'']\<rparr>,
      \<lparr>msg_role = User, msg_content = [Text ''see'', Image ''image/png'' ''AAAA'']\<rparr>,
      \<lparr>msg_role = Assistant, msg_content = [Thinking ''hm'' (Some ''sig''), ToolUse [] ''look'' (Object []),
         ToolUse ''c2'' ''find'' (Object [])]\<rparr>,
      \<lparr>msg_role = Tool, msg_content = [ToolResult ''look'' ''a'' False, ToolResult ''c2'' ''b'' True]\<rparr>])
     \<lparr>req_max_tokens := Some 7, req_stop := Some [''END'']\<rparr>"

definition gemini_example_json :: serde_json where
  "gemini_example_json = table_json
     [(''request'', gemini_request_value gemini_example_request),
      (''response'', gemini_response_value example_reply)]"

lemma gemini_example_reads:
  "reads_back gemini_example_json (gemini_request_value gemini_example_request)"
  "reads_back gemini_example_json (gemini_response_value example_reply)"
  by code_simp+

section \<open>Properties\<close>





end
