(* ===== verification/Gemini_Stream.thy ===== *)
theory Gemini_Stream
  imports Gemini_Convert Streams
begin

text \<open>
  The Gemini dialect, streams and adapter (\<open>src/adapters/gemini/stream.rs\<close> and \<open>mod.rs\<close>): the
  chunk decoder, the encoder that buffers tool-call arguments, and the URLs built from a model
  name the client chose.
\<close>

section \<open>The decoder\<close>

record gemini_decoder =
  gd_started :: bool
  gd_failed :: bool
  gd_stop_emitted :: bool
  gd_pending_finish :: "finish_reason option"
  gd_pending_usage :: "neutral_usage option"
  gd_tool_index :: u32

definition gemini_decoder_new :: gemini_decoder where
  "gemini_decoder_new =
     \<lparr>gd_started = False, gd_failed = False, gd_stop_emitted = False, gd_pending_finish = None,
      gd_pending_usage = None, gd_tool_index = 0\<rparr>"

definition gemini_text_events :: "value \<Rightarrow> stream_event list" where
  "gemini_text_events part =
     (case get_str part ''text'' of
        Some text \<Rightarrow>
          if unwrap_or (get_bool part ''thought'') False then [ReasoningDelta text]
          else if text \<noteq> [] then [TextDelta text]
          else []
      | None \<Rightarrow> [])"

definition gemini_call_events :: "serde_json \<Rightarrow> value \<Rightarrow> u32 \<Rightarrow> stream_event list \<times> u32" where
  "gemini_call_events J part tool_index =
     (case value_get part ''functionCall'' of
        Some call \<Rightarrow>
          (let index = tool_index;
               i = (case get_str call ''id'' of
                      Some i \<Rightarrow> if i \<noteq> [] then i else synth_id (index + 1)
                    | None \<Rightarrow> synth_id (index + 1))
           in ([ToolCallDelta index i (str_or_empty call ''name'')
                  (case value_get call ''args'' of Some a \<Rightarrow> to_string J a | None \<Rightarrow> ''{}'')], tool_index + 1))
      | None \<Rightarrow> ([], tool_index))"

fun gemini_parts_events :: "serde_json \<Rightarrow> value list \<Rightarrow> u32 \<Rightarrow> stream_event list \<times> u32" where
  "gemini_parts_events J [] tool_index = ([], tool_index)"
| "gemini_parts_events J (part # parts) tool_index =
     (let (calls, index1) = gemini_call_events J part tool_index;
          (es, index2) = gemini_parts_events J parts index1
      in (gemini_text_events part @ calls @ es, index2))"

definition gemini_candidate :: "serde_json \<Rightarrow> gemini_decoder \<Rightarrow> value \<Rightarrow> stream_event list \<times> gemini_decoder" where
  "gemini_candidate J d candidate =
     (let (es, index) = (case Option.bind (value_get candidate ''content'') (\<lambda>c. get_array c ''parts'') of
            Some parts \<Rightarrow> gemini_parts_events J parts (gd_tool_index d)
          | None \<Rightarrow> ([], gd_tool_index d));
          d1 = d\<lparr>gd_tool_index := index\<rparr>
      in (es, case get_str candidate ''finishReason'' of
                Some fr \<Rightarrow> d1\<lparr>gd_pending_finish := Some (gemini_parse_finish_reason fr)\<rparr>
              | None \<Rightarrow> d1))"

definition gemini_start :: "gemini_decoder \<Rightarrow> value \<Rightarrow> stream_event list \<times> gemini_decoder" where
  "gemini_start d parsed =
     (if \<not> gd_started d
      then ([MessageStart [] (str_or_empty parsed ''modelVersion'') None], d\<lparr>gd_started := True\<rparr>)
      else ([], d))"

definition gemini_take_usage :: "value \<Rightarrow> gemini_decoder \<Rightarrow> gemini_decoder" where
  "gemini_take_usage parsed d =
     (case value_get parsed ''usageMetadata'' of
        Some usage \<Rightarrow> d\<lparr>gd_pending_usage := Some
          \<lparr>input_tokens = unwrap_or (get_u64 usage ''promptTokenCount'') 0,
           output_tokens = unwrap_or (get_u64 usage ''candidatesTokenCount'') 0\<rparr>\<rparr>
      | None \<Rightarrow> d)"

definition gemini_stop :: "gemini_decoder \<Rightarrow> stream_event list \<times> gemini_decoder" where
  "gemini_stop d =
     (if gd_pending_finish d \<noteq> None \<and> \<not> gd_stop_emitted d
      then ([MessageStop (unwrap_or (gd_pending_finish d) Stop) (gd_pending_usage d)], d\<lparr>gd_stop_emitted := True\<rparr>)
      else ([], d))"

definition gemini_feed_value :: "serde_json \<Rightarrow> gemini_decoder \<Rightarrow> value \<Rightarrow> stream_event list \<times> gemini_decoder" where
  "gemini_feed_value J d parsed =
     (case value_get parsed ''error'' of
        Some error \<Rightarrow>
          ([Error (Api (unwrap_or (get_str error ''message'') ''upstream stream error''))], d\<lparr>gd_failed := True\<rparr>)
      | None \<Rightarrow>
          (let (start, d1) = gemini_start d parsed;
               (es, d2) = (case first_of parsed ''candidates'' of
                  Some candidate \<Rightarrow> gemini_candidate J d1 candidate
                | None \<Rightarrow> ([], d1));
               (stop, d3) = gemini_stop (gemini_take_usage parsed d2)
           in (start @ es @ stop, d3)))"

definition gemini_feed :: "serde_json \<Rightarrow> gemini_decoder \<Rightarrow> string \<Rightarrow> stream_event list \<times> gemini_decoder" where
  "gemini_feed J d data =
     (case from_str J data of Inl _ \<Rightarrow> ([], d) | Inr parsed \<Rightarrow> gemini_feed_value J d parsed)"

definition gemini_finish :: "gemini_decoder \<Rightarrow> stream_event list \<times> gemini_decoder" where
  "gemini_finish d =
     (if \<not> gd_started d \<or> gd_failed d \<or> gd_stop_emitted d then ([], d)
      else ([MessageStop (unwrap_or (gd_pending_finish d) Stop) (gd_pending_usage d)],
            d\<lparr>gd_stop_emitted := True\<rparr>))"

section \<open>The encoder\<close>

record pending_call =
  pc_id :: string
  pc_name :: string
  pc_args :: string

text \<open>The hash map of pending calls is an association list with one entry for an index.\<close>

record gemini_encoder =
  ge_started :: bool
  ge_emitted_stop :: bool
  ge_pending_calls :: "(u32 \<times> pending_call) list"

definition gemini_encoder_new :: gemini_encoder where
  "gemini_encoder_new = \<lparr>ge_started = False, ge_emitted_stop = False, ge_pending_calls = []\<rparr>"

definition gemini_parts_chunk :: "value list \<Rightarrow> u32 \<Rightarrow> value" where
  "gemini_parts_chunk parts index =
     jobj [(''candidates'', Array [jobj [
       (''content'', jobj [(''role'', String ''model''), (''parts'', Array parts)]), (''index'', jnum32 index)]])]"

definition gemini_call_part :: "pending_call \<Rightarrow> value \<Rightarrow> value" where
  "gemini_call_part c args =
     jobj [(''functionCall'', jobj ((if pc_id c \<noteq> [] then [(''id'', String (pc_id c))] else []) @
       [(''name'', String (pc_name c)), (''args'', args)]))]"

definition gemini_encode_call ::
    "serde_json \<Rightarrow> gemini_encoder \<Rightarrow> u32 \<Rightarrow> string \<Rightarrow> string \<Rightarrow> string \<Rightarrow> value list \<times> gemini_encoder" where
  "gemini_encode_call J enc index i nm arguments =
     (let calls = ge_pending_calls enc;
          entry = (case map_of calls index of Some c \<Rightarrow> c | None \<Rightarrow> \<lparr>pc_id = i, pc_name = nm, pc_args = []\<rparr>);
          entry1 = entry\<lparr>pc_args := pc_args entry @ arguments\<rparr>
      in case from_str J (pc_args entry1) of
           Inl _ \<Rightarrow> ([], enc\<lparr>ge_pending_calls := AList.update index entry1 calls\<rparr>)
         | Inr parsed_args \<Rightarrow>
             ([gemini_parts_chunk [gemini_call_part entry1 parsed_args] 0],
              enc\<lparr>ge_pending_calls := AList.delete index calls\<rparr>))"

text \<open>The calls that never completed, in the order of their indices.\<close>

definition gemini_flush_calls :: "(u32 \<times> pending_call) list \<Rightarrow> value list" where
  "gemini_flush_calls calls =
     concat (map (\<lambda>index. case map_of calls index of
         Some c \<Rightarrow> [gemini_parts_chunk [gemini_call_part c Null] index]
       | None \<Rightarrow> []) (sort (map fst calls)))"

definition gemini_stop_chunk :: "finish_reason \<Rightarrow> neutral_usage option \<Rightarrow> value" where
  "gemini_stop_chunk fr usage =
     jobj ([(''candidates'', Array [jobj [(''content'', jobj []), (''index'', jnum 0),
         (''finishReason'', String (gemini_finish_reason fr))]])] @
       (case usage of Some u \<Rightarrow> [(''usageMetadata'', gemini_usage_value u)] | None \<Rightarrow> []))"

definition gemini_stream_error_kind :: "adapter_error \<Rightarrow> u16 \<times> string" where
  "gemini_stream_error_kind e =
     (case e of
        InvalidRequest _ \<Rightarrow> (400, ''INVALID_ARGUMENT'')
      | Authentication \<Rightarrow> (401, ''UNAUTHENTICATED'')
      | PermissionDenied \<Rightarrow> (403, ''PERMISSION_DENIED'')
      | RateLimit _ \<Rightarrow> (429, ''RESOURCE_EXHAUSTED'')
      | InsufficientQuota \<Rightarrow> (429, ''RESOURCE_EXHAUSTED'')
      | Overloaded \<Rightarrow> (503, ''UNAVAILABLE'')
      | Upstream status _ \<Rightarrow> (status, ''UPSTREAM_ERROR'')
      | _ \<Rightarrow> (500, ''INTERNAL''))"

definition gemini_error_chunk :: "adapter_error \<Rightarrow> value" where
  "gemini_error_chunk e =
     (let (code, status) = gemini_stream_error_kind e in
      jobj [(''error'', jobj [(''code'', Number (PosInt (ucast code))), (''message'', String (error_to_string e)),
        (''status'', String status)])])"

fun gemini_encode_values :: "serde_json \<Rightarrow> gemini_encoder \<Rightarrow> stream_event \<Rightarrow> value list \<times> gemini_encoder" where
  "gemini_encode_values J enc (MessageStart _ _ _) = ([], enc\<lparr>ge_started := True\<rparr>)"
| "gemini_encode_values J enc (TextDelta t) = ([gemini_parts_chunk [jobj [(''text'', String t)]] 0], enc)"
| "gemini_encode_values J enc (ReasoningDelta t) =
     ([gemini_parts_chunk [jobj [(''text'', String t), (''thought'', Bool True)]] 0], enc)"
| "gemini_encode_values J enc (ToolCallDelta index i nm arguments) = gemini_encode_call J enc index i nm arguments"
| "gemini_encode_values J enc (ReasoningSignature _) = ([], enc)"
| "gemini_encode_values J enc (MessageStop finish_reason usage) =
     (if ge_emitted_stop enc then ([], enc)
      else (gemini_flush_calls (ge_pending_calls enc) @ [gemini_stop_chunk finish_reason usage],
            enc\<lparr>ge_emitted_stop := True, ge_pending_calls := []\<rparr>))"
| "gemini_encode_values J enc (Error e) = ([gemini_error_chunk e], enc)"

definition gemini_encode :: "serde_json \<Rightarrow> gemini_encoder \<Rightarrow> stream_event \<Rightarrow> string list \<times> gemini_encoder" where
  "gemini_encode J enc event =
     (let (vs, enc1) = gemini_encode_values J enc event in (map (\<lambda>v. sse_frame (to_string J v)) vs, enc1))"

definition gemini_done :: "gemini_encoder \<Rightarrow> string" where
  "gemini_done enc = []"

section \<open>The adapter\<close>

definition gemini_endpoints :: "(string \<times> endpoint_kind) list" where
  "gemini_endpoints = []"

definition gemini_resource_path :: "string \<Rightarrow> string" where
  "gemini_resource_path model =
     (if prefix ''models/'' model \<or> prefix ''tunedModels/'' model then model else ''models/'' @ model)"

definition is_model_char :: "char \<Rightarrow> bool" where
  "is_model_char c \<longleftrightarrow> is_ascii_alphanumeric c \<or> c \<in> {CHR ''-'', CHR ''.'', CHR ''_'', CHR ''~'', CHR ''/''}"

text \<open>
  The text of a rejection quotes the name in Rust's \<open>Debug\<close> form, which follows the Unicode
  tables: it is the parameter \<open>dbg\<close>.
\<close>

definition validate_model_segment :: "(string \<Rightarrow> string) \<Rightarrow> string \<Rightarrow> unit result" where
  "validate_model_segment dbg model =
     (if model = [] then Inl (InvalidRequest ''model name must not be empty'')
      else if \<not> list_all is_model_char model then
        Inl (InvalidRequest (''model name contains characters not allowed in a URL path segment: '' @ dbg model))
      else if list_ex (\<lambda>segment. segment = [] \<or> segment = ''.'' \<or> segment = ''..'') (split_char CHR ''/'' model) then
        Inl (InvalidRequest (''model name must not contain empty or '' @ [CHR 0x27] @ ''.'' @ [CHR 0x27, CHR ''/'', CHR 0x27] @
          ''..'' @ [CHR 0x27] @ '' path segments: '' @ dbg model))
      else Inr ())"

definition gemini_conversation_url :: "(string \<Rightarrow> string) \<Rightarrow> string \<Rightarrow> string \<Rightarrow> string result" where
  "gemini_conversation_url dbg base model =
     (case validate_model_segment dbg model of
        Inl e \<Rightarrow> Inl e
      | Inr _ \<Rightarrow> Inr (trim_end_char CHR ''/'' base @ ''/v1beta/'' @ gemini_resource_path model @ '':generateContent''))"

definition gemini_stream_conversation_url :: "(string \<Rightarrow> string) \<Rightarrow> string \<Rightarrow> string \<Rightarrow> string result" where
  "gemini_stream_conversation_url dbg base model =
     (case validate_model_segment dbg model of
        Inl e \<Rightarrow> Inl e
      | Inr _ \<Rightarrow> Inr (trim_end_char CHR ''/'' base @ ''/v1beta/'' @ gemini_resource_path model @
                   '':streamGenerateContent?alt=sse''))"

definition gemini_models_path :: "string option" where
  "gemini_models_path = Some ''/v1beta/models''"

definition gemini_model_info :: "value \<Rightarrow> model_info option" where
  "gemini_model_info m =
     Option.bind (get_str m ''name'') (\<lambda>nm.
       Some \<lparr>model_id = unwrap_or (strip_prefix ''models/'' nm) nm, model_owned_by = str_or_empty m ''displayName''\<rparr>)"

definition gemini_parse_models :: "serde_json \<Rightarrow> string \<Rightarrow> model_info list result" where
  "gemini_parse_models J body =
     (case from_str J body of
        Inl e \<Rightarrow> Inl (invalid_json e)
      | Inr root \<Rightarrow>
          (case get_array root ''models'' of
             None \<Rightarrow> Inl (InvalidRequest ''expected a models array'')
           | Some models \<Rightarrow> Inr (List.map_filter gemini_model_info models)))"

definition gemini_models_value :: "model_info list \<Rightarrow> value" where
  "gemini_models_value models =
     jobj [(''models'', Array (map (\<lambda>m. jobj [(''name'', String (''models/'' @ model_id m)),
        (''displayName'', String (model_owned_by m))]) models))]"

definition gemini_serialize_models :: "serde_json \<Rightarrow> model_info list \<Rightarrow> string result" where
  "gemini_serialize_models J models = Inr (to_string J (gemini_models_value models))"

definition gemini_parse_upstream_error :: "u16 \<Rightarrow> string \<Rightarrow> adapter_error" where
  "gemini_parse_upstream_error status body =
     (if status = 400 then InvalidRequest body
      else if status = 401 then Authentication
      else if status = 403 then PermissionDenied
      else if status = 429 then RateLimit None
      else if status = 503 then Overloaded
      else Upstream status body)"

section \<open>The contracts\<close>

lemma gemini_parts_no_stop: "gemini_parts_events J parts k = (es, k') \<Longrightarrow> stops es = 0"
proof (induction parts arbitrary: k es)
  case (Cons part parts)
  obtain cs k1 where c: "gemini_call_events J part k = (cs, k1)" by fastforce
  obtain fs where r: "gemini_parts_events J parts k1 = (fs, k')" "es = gemini_text_events part @ cs @ fs"
    using Cons.prems c by (auto split: prod.splits)
  have "stops (gemini_text_events part) = 0" by (simp add: gemini_text_events_def split: option.split)
  moreover have "stops cs = 0" using c by (auto simp: gemini_call_events_def Let_def split: option.splits)
  ultimately show ?case using Cons.IH [OF r(1)] r(2) by simp
qed simp

lemma gemini_candidate_stop:
  "gemini_candidate J d c = (es, d') \<Longrightarrow> stops es = 0 \<and> gd_stop_emitted d' = gd_stop_emitted d"
  by (auto simp: gemini_candidate_def Let_def dest: gemini_parts_no_stop split: option.splits prod.splits)

lemma gemini_stop_stops:
  "gemini_stop d = (es, d') \<Longrightarrow> stops es + of_bool (gd_stop_emitted d) = of_bool (gd_stop_emitted d')"
  by (auto simp: gemini_stop_def split: if_splits)

lemma gemini_feed_value_stops:
  assumes "gemini_feed_value J d v = (es, d')"
  shows "stops es + of_bool (gd_stop_emitted d) = of_bool (gd_stop_emitted d')"
proof (cases "value_get v ''error''")
  case None
  obtain st d1 where 1: "gemini_start d v = (st, d1)" by fastforce
  obtain es2 d2 where 2: "(case first_of v ''candidates'' of Some c \<Rightarrow> gemini_candidate J d1 c | None \<Rightarrow> ([], d1)) = (es2, d2)"
    by fastforce
  obtain sp d3 where 3: "gemini_stop (gemini_take_usage v d2) = (sp, d3)" by fastforce
  have e: "es = st @ es2 @ sp" "d' = d3" using assms None by (simp_all add: gemini_feed_value_def 1 2 3)
  have a: "stops st = 0" "gd_stop_emitted d1 = gd_stop_emitted d"
    using 1 by (auto simp: gemini_start_def split: if_splits)
  have b: "stops es2 = 0" "gd_stop_emitted d2 = gd_stop_emitted d1"
    using 2 gemini_candidate_stop by (fastforce split: option.splits)+
  have "gd_stop_emitted (gemini_take_usage v d2) = gd_stop_emitted d2"
    by (simp add: gemini_take_usage_def split: option.split)
  with gemini_stop_stops [OF 3] a b show ?thesis by (simp add: e)
qed (use assms in \<open>auto simp: gemini_feed_value_def\<close>)

interpretation gemini_dec: stream_decoder "gemini_feed J" gemini_finish gd_stop_emitted for J
proof unfold_locales
  show "stops es + of_bool (gd_stop_emitted d) = of_bool (gd_stop_emitted d')"
    if "gemini_feed J d s = (es, d')" for d s es d'
    using that gemini_feed_value_stops [of J d _ es d'] by (cases "from_str J s") (simp_all add: gemini_feed_def)
qed (auto simp: gemini_finish_def split: if_splits)

interpretation gemini_enc: stream_encoder gemini_encode
proof unfold_locales
  fix J enc ev fs enc'
  assume J: "prints_lines J" and e: "gemini_encode J enc ev = (fs, enc')"
  obtain vs where "fs = map (\<lambda>v. sse_frame (to_string J v)) vs"
    using e by (auto simp: gemini_encode_def split: prod.splits)
  then have "list_all2 carries fs (map (to_string J) vs)"
    using J by (simp add: list_all2_conv_all_nth prints_lines_def carries_frame)
  then show "\<exists>ps. list_all2 carries fs ps" ..
qed

section \<open>Tool calls assembled from fragments\<close>

fun gemini_encode_all :: "serde_json \<Rightarrow> gemini_encoder \<Rightarrow> stream_event list \<Rightarrow> value list \<times> gemini_encoder" where
  "gemini_encode_all J enc [] = ([], enc)"
| "gemini_encode_all J enc (ev # evs) =
     (let (vs, enc1) = gemini_encode_values J enc ev; (ws, enc2) = gemini_encode_all J enc1 evs in (vs @ ws, enc2))"

definition call_fragments :: "u32 \<Rightarrow> string \<Rightarrow> string \<Rightarrow> string list \<Rightarrow> stream_event list" where
  "call_fragments k i nm frags =
     (case frags of [] \<Rightarrow> [] | f # fs \<Rightarrow> ToolCallDelta k i nm f # map (ToolCallDelta k [] []) fs)"

lemma gemini_fragment_step:
  assumes "map_of (ge_pending_calls enc) k = Some c \<or> (map_of (ge_pending_calls enc) k = None \<and> c = \<lparr>pc_id = i, pc_name = nm, pc_args = []\<rparr>)"
  shows "from_str J (pc_args c @ a) = Inl e \<Longrightarrow> gemini_encode_call J enc k i nm a =
      ([], enc\<lparr>ge_pending_calls := AList.update k (c\<lparr>pc_args := pc_args c @ a\<rparr>) (ge_pending_calls enc)\<rparr>)"
    and "from_str J (pc_args c @ a) = Inr v \<Longrightarrow> gemini_encode_call J enc k i nm a =
      ([gemini_parts_chunk [gemini_call_part (c\<lparr>pc_args := pc_args c @ a\<rparr>) v] 0],
       enc\<lparr>ge_pending_calls := AList.delete k (ge_pending_calls enc)\<rparr>)"
  using assms by (auto simp: gemini_encode_call_def)

lemma gemini_fragments:
  assumes "map_of (ge_pending_calls enc) k = Some \<lparr>pc_id = i, pc_name = nm, pc_args = acc\<rparr>" "fs \<noteq> []"
    and "\<And>n. 0 < n \<Longrightarrow> n < length fs \<Longrightarrow> \<exists>e. from_str J (acc @ concat (take n fs)) = Inl e"
    and "from_str J (acc @ concat fs) = Inr v"
  shows "\<exists>enc'. gemini_encode_all J enc (map (ToolCallDelta k [] []) fs) =
      ([gemini_parts_chunk [gemini_call_part \<lparr>pc_id = i, pc_name = nm, pc_args = acc @ concat fs\<rparr> v] 0], enc') \<and>
      map_of (ge_pending_calls enc') = (map_of (ge_pending_calls enc))(k := None)"
  using assms
proof (induction fs arbitrary: enc acc)
  case (Cons f fs)
  let ?c = "\<lparr>pc_id = i, pc_name = nm, pc_args = acc\<rparr>"
  have c: "map_of (ge_pending_calls enc) k = Some ?c \<or>
      (map_of (ge_pending_calls enc) k = None \<and> ?c = \<lparr>pc_id = [], pc_name = [], pc_args = []\<rparr>)"
    using Cons.prems(1) by blast
  show ?case
  proof (cases "fs = []")
    case True
    then show ?thesis using Cons.prems(4) gemini_fragment_step(2) [OF c, of J f v] by (simp add: delete_conv' fun_eq_iff)
  next
    case False
    then have "\<exists>e. from_str J (acc @ concat (take 1 (f # fs))) = Inl e" by (intro Cons.prems(3)) auto
    then obtain e where e: "from_str J (acc @ f) = Inl e" by auto
    let ?enc = "enc\<lparr>ge_pending_calls := AList.update k \<lparr>pc_id = i, pc_name = nm, pc_args = acc @ f\<rparr> (ge_pending_calls enc)\<rparr>"
    have s: "gemini_encode_call J enc k [] [] f = ([], ?enc)"
      using gemini_fragment_step(1) [OF c, of J f e] e by simp
    have "map_of (ge_pending_calls ?enc) k = Some \<lparr>pc_id = i, pc_name = nm, pc_args = acc @ f\<rparr>"
      by (simp add: update_conv')
    moreover have "\<exists>e. from_str J ((acc @ f) @ concat (take n fs)) = Inl e" if "0 < n" "n < length fs" for n
      using Cons.prems(3) [of "Suc n"] that by simp
    moreover have "from_str J ((acc @ f) @ concat fs) = Inr v" using Cons.prems(4) by simp
    ultimately obtain enc' where "gemini_encode_all J ?enc (map (ToolCallDelta k [] []) fs) =
      ([gemini_parts_chunk [gemini_call_part \<lparr>pc_id = i, pc_name = nm, pc_args = (acc @ f) @ concat fs\<rparr> v] 0], enc')"
      "map_of (ge_pending_calls enc') = (map_of (ge_pending_calls ?enc))(k := None)"
      using Cons.IH [of ?enc "acc @ f"] False by blast
    then show ?thesis by (simp add: s update_conv' fun_eq_iff)
  qed
qed simp

section \<open>Finish chunks\<close>

definition is_finish_chunk :: "value \<Rightarrow> bool" where
  "is_finish_chunk v \<longleftrightarrow> (case first_of v ''candidates'' of Some c \<Rightarrow> get_str c ''finishReason'' \<noteq> None | None \<Rightarrow> False)"

lemma parts_chunk_not_finish [simp]: "\<not> is_finish_chunk (gemini_parts_chunk parts index)"
  by (simp add: is_finish_chunk_def gemini_parts_chunk_def first_of_def)

lemma stop_chunk_finish [simp]: "is_finish_chunk (gemini_stop_chunk fr us)"
  by (simp add: is_finish_chunk_def gemini_stop_chunk_def first_of_def split: option.split)

lemma error_chunk_not_finish [simp]: "\<not> is_finish_chunk (gemini_error_chunk e)"
  by (simp add: is_finish_chunk_def gemini_error_chunk_def first_of_def split: prod.split)

lemma flush_not_finish: "filter is_finish_chunk (gemini_flush_calls calls) = []"
  by (auto simp: gemini_flush_calls_def filter_empty_conv split: option.splits)

lemma gemini_encode_finish:
  "gemini_encode_values J enc ev = (vs, enc') \<Longrightarrow>
   length (filter is_finish_chunk vs) = of_bool (is_message_stop ev \<and> \<not> ge_emitted_stop enc) \<and>
   ge_emitted_stop enc' = (ge_emitted_stop enc \<or> is_message_stop ev)"
  by (cases ev) (auto simp: gemini_encode_call_def flush_not_finish Let_def split: sum.splits if_splits)

lemma gemini_encode_all_finish:
  "length (filter is_finish_chunk (fst (gemini_encode_all J enc evs)))
   = of_bool (\<not> ge_emitted_stop enc \<and> list_ex is_message_stop evs)"
proof (induction evs arbitrary: enc)
  case (Cons ev evs)
  obtain vs enc1 where 1: "gemini_encode_values J enc ev = (vs, enc1)" by fastforce
  show ?case using gemini_encode_finish [OF 1] Cons.IH [of enc1]
    by (cases "ge_emitted_stop enc"; cases "is_message_stop ev") (auto simp: 1 split: prod.split)
qed simp

section \<open>Edges of the encoder\<close>

text \<open>
  The calls that never completed are written with the index of the call as the index of the
  candidate, which is always 0 elsewhere. A streamed error carries the code and status of the
  whole-body path.
\<close>

lemma gemini_flush_candidate_index:
  "gemini_flush_calls [(3, \<lparr>pc_id = [], pc_name = ''look'', pc_args = ''{''\<rparr>)]
   = [gemini_parts_chunk [gemini_call_part \<lparr>pc_id = [], pc_name = ''look'', pc_args = ''{''\<rparr> Null] 3]"
  by (simp add: gemini_flush_calls_def)

lemma gemini_stream_error_same: "gemini_stream_error_kind e = gemini_error_kind e"
  by (cases e) (simp_all add: gemini_stream_error_kind_def gemini_error_kind_def)

section \<open>URLs\<close>

lemma resource_path_segments:
  "split_char CHR ''/'' (gemini_resource_path model) =
     (if prefix ''models/'' model \<or> prefix ''tunedModels/'' model then split_char CHR ''/'' model
      else ''models'' # split_char CHR ''/'' model)"
proof -
  have "split_char CHR ''/'' model \<noteq> []" by (cases model) (auto split: list.split)
  then show ?thesis by (cases "split_char CHR ''/'' model") (simp_all add: gemini_resource_path_def)
qed

definition confined_path :: "string \<Rightarrow> bool" where
  "confined_path path \<longleftrightarrow> list_all is_model_char path \<and> (prefix ''models/'' path \<or> prefix ''tunedModels/'' path) \<and>
     list_all (\<lambda>segment. segment \<noteq> [] \<and> segment \<noteq> ''.'' \<and> segment \<noteq> ''..'') (split_char CHR ''/'' path)"

lemma validated_path:
  assumes "validate_model_segment dbg model = Inr u"
  shows "confined_path (gemini_resource_path model)"
proof -
  have c: "list_all is_model_char ''models/''" by code_simp
  have "list_all is_model_char model"
    and "list_all (\<lambda>segment. segment \<noteq> [] \<and> segment \<noteq> ''.'' \<and> segment \<noteq> ''..'') (split_char CHR ''/'' model)"
    using assms by (auto simp: validate_model_segment_def list_all_iff list_ex_iff split: if_splits)
  then have 1: "list_all is_model_char (gemini_resource_path model)"
    and 2: "list_all (\<lambda>segment. segment \<noteq> [] \<and> segment \<noteq> ''.'' \<and> segment \<noteq> ''..'') (split_char CHR ''/'' (gemini_resource_path model))"
    using c by (simp_all add: resource_path_segments) (simp add: gemini_resource_path_def)
  have "prefix ''models/'' (gemini_resource_path model) \<or> prefix ''tunedModels/'' (gemini_resource_path model)"
    by (simp add: gemini_resource_path_def)
  with 1 2 show ?thesis by (simp only: confined_path_def)
qed

section \<open>Properties\<close>

text \<open>
  The Gemini encoder assembles tool calls. Whatever fragments the arguments of a call arrive
  in, nothing is written while they are no complete JSON; with the last one, one function call is
  written with the id and name of the first fragment and the parsed arguments, and the other
  pending calls stay as they were.
\<close>

theorem gemini_call_assembled:
  assumes "map_of (ge_pending_calls enc) k = None" "frags \<noteq> []"
    and "\<And>n. 0 < n \<Longrightarrow> n < length frags \<Longrightarrow> \<exists>e. from_str J (concat (take n frags)) = Inl e"
    and "from_str J (concat frags) = Inr v"
  shows "\<exists>enc'. gemini_encode_all J enc (call_fragments k i nm frags) =
      ([gemini_parts_chunk [gemini_call_part \<lparr>pc_id = i, pc_name = nm, pc_args = concat frags\<rparr> v] 0], enc') \<and>
      map_of (ge_pending_calls enc') = map_of (ge_pending_calls enc)"
proof -
  obtain f fs where fr: "frags = f # fs" using assms(2) by (cases frags) auto
  let ?c = "\<lparr>pc_id = i, pc_name = nm, pc_args = []\<rparr>"
  have c: "map_of (ge_pending_calls enc) k = Some ?c \<or> (map_of (ge_pending_calls enc) k = None \<and> ?c = \<lparr>pc_id = i, pc_name = nm, pc_args = []\<rparr>)"
    using assms(1) by simp
  have m: "(map_of (ge_pending_calls enc))(k := None) = map_of (ge_pending_calls enc)" using assms(1) by auto
  show ?thesis
  proof (cases "fs = []")
    case True
    then show ?thesis using assms(4) gemini_fragment_step(2) [OF c, of J f v] by (simp add: fr call_fragments_def delete_conv' m)
  next
    case False
    then obtain e where e: "from_str J f = Inl e" using assms(3) [of 1] by (auto simp: fr)
    let ?enc = "enc\<lparr>ge_pending_calls := AList.update k \<lparr>pc_id = i, pc_name = nm, pc_args = f\<rparr> (ge_pending_calls enc)\<rparr>"
    have s: "gemini_encode_call J enc k i nm f = ([], ?enc)" using gemini_fragment_step(1) [OF c, of J f e] e by simp
    have "map_of (ge_pending_calls ?enc) k = Some \<lparr>pc_id = i, pc_name = nm, pc_args = f\<rparr>" by (simp add: update_conv')
    moreover have "\<exists>e. from_str J (f @ concat (take n fs)) = Inl e" if "0 < n" "n < length fs" for n
      using assms(3) [of "Suc n"] that by (simp add: fr)
    ultimately show ?thesis using gemini_fragments [of ?enc k i nm f fs J v] False assms(4)
      by (auto simp: fr call_fragments_def s update_conv' m)
  qed
qed

theorem gemini_call_assembled_witness:
  "fst (gemini_encode_all (table_json [(''{}'', Object [])]) gemini_encoder_new (call_fragments 2 ''c1'' ''look'' [''{'', ''}'']))
   = [gemini_parts_chunk [gemini_call_part \<lparr>pc_id = ''c1'', pc_name = ''look'', pc_args = ''{}''\<rparr> (Object [])] 0]"
proof -
  let ?J = "table_json [(''{}'', Object [])]"
  have n: "n = 1" if "0 < n" "n < length [''{'', ''}'']" for n using that by simp
  have 1: "\<exists>e. from_str ?J (concat (take n [''{'', ''}''])) = Inl e" if "0 < n" "n < length [''{'', ''}'']" for n
    using n [OF that] by (simp add: table_json_def)
  have 2: "from_str ?J (concat [''{'', ''}'']) = Inr (Object [])" by (simp add: table_json_def)
  have 3: "map_of (ge_pending_calls gemini_encoder_new) 2 = None" by (simp add: gemini_encoder_new_def)
  obtain enc' where "gemini_encode_all ?J gemini_encoder_new (call_fragments 2 ''c1'' ''look'' [''{'', ''}'']) =
      ([gemini_parts_chunk [gemini_call_part \<lparr>pc_id = ''c1'', pc_name = ''look'', pc_args = concat [''{'', ''}'']\<rparr> (Object [])] 0], enc')"
    using gemini_call_assembled [of gemini_encoder_new 2 "[''{'', ''}'']" ?J "Object []" "''c1''" "''look''", OF 3 _ 1 2]
    by blast
  then show ?thesis by simp
qed

text \<open>
  A Gemini stream ends once. However many stops reach the encoder, exactly one chunk with a
  finish reason is written when there was a stop at all, and none otherwise.
\<close>

theorem gemini_one_finish_chunk:
  "length (filter is_finish_chunk (fst (gemini_encode_all J gemini_encoder_new evs))) = of_bool (list_ex is_message_stop evs)"
  by (simp add: gemini_encode_all_finish) (simp add: gemini_encoder_new_def)

text \<open>
  C33: a model name that a client chose cannot leave its place in the upstream URL. When the URLs
  are built at all, they are the base, the version, a path under \<open>models/\<close> or \<open>tunedModels/\<close> of
  unreserved characters without empty, \<open>.\<close> or \<open>..\<close> segments, and the method.
\<close>

theorem gemini_url_confined:
  assumes "gemini_conversation_url dbg base model = Inr url" "gemini_stream_conversation_url dbg base model = Inr surl"
  shows "\<exists>path. confined_path path \<and> url = trim_end_char CHR ''/'' base @ ''/v1beta/'' @ path @ '':generateContent'' \<and>
    surl = trim_end_char CHR ''/'' base @ ''/v1beta/'' @ path @ '':streamGenerateContent?alt=sse''"
  using assms validated_path
  by (auto simp: gemini_conversation_url_def gemini_stream_conversation_url_def split: sum.splits)

theorem gemini_url_confined_witness:
  "\<exists>path. confined_path path \<and>
     ''https://g/v1beta/models/gemini-2.5:generateContent'' = trim_end_char CHR ''/'' ''https://g/'' @ ''/v1beta/'' @ path @ '':generateContent'' \<and>
     ''https://g/v1beta/models/gemini-2.5:streamGenerateContent?alt=sse'' =
       trim_end_char CHR ''/'' ''https://g/'' @ ''/v1beta/'' @ path @ '':streamGenerateContent?alt=sse''"
proof -
  have 1: "gemini_conversation_url rev ''https://g/'' ''gemini-2.5'' = Inr ''https://g/v1beta/models/gemini-2.5:generateContent''"
    by code_simp
  have 2: "gemini_stream_conversation_url rev ''https://g/'' ''gemini-2.5'' =
      Inr ''https://g/v1beta/models/gemini-2.5:streamGenerateContent?alt=sse''"
    by code_simp
  show ?thesis using gemini_url_confined [OF 1 2] .
qed

end
