(* ===== verification/Registry.thy ===== *)
theory Registry
  imports OpenAI_Stream Anthropic_Stream Gemini_Stream
begin

text \<open>
  The adapter trait and the registry (\<open>src/core/registry.rs\<close>). A trait object is a record of its
  methods; a boxed decoder or encoder is a value of a sum type over the three dialects, whose
  operations dispatch. The stream contracts of the dialects are lifted to the sums once, so the
  pipeline rests on them without naming a dialect.
\<close>

section \<open>Boxed decoders and encoders\<close>

datatype boxed_decoder =
    OpenAIDecoder openai_decoder
  | AnthropicDecoder anthropic_decoder
  | GeminiDecoder gemini_decoder

datatype boxed_encoder =
    OpenAIEncoder openai_encoder
  | AnthropicEncoder anthropic_encoder
  | GeminiEncoder gemini_encoder

fun dec_feed :: "serde_json \<Rightarrow> boxed_decoder \<Rightarrow> string \<Rightarrow> stream_event list \<times> boxed_decoder" where
  "dec_feed J (OpenAIDecoder d) data = (let (es, d1) = openai_feed J d data in (es, OpenAIDecoder d1))"
| "dec_feed J (AnthropicDecoder d) data = (let (es, d1) = anthropic_feed J d data in (es, AnthropicDecoder d1))"
| "dec_feed J (GeminiDecoder d) data = (let (es, d1) = gemini_feed J d data in (es, GeminiDecoder d1))"

fun dec_finish :: "boxed_decoder \<Rightarrow> stream_event list \<times> boxed_decoder" where
  "dec_finish (OpenAIDecoder d) = (let (es, d1) = openai_finish d in (es, OpenAIDecoder d1))"
| "dec_finish (AnthropicDecoder d) = (let (es, d1) = anthropic_finish d in (es, AnthropicDecoder d1))"
| "dec_finish (GeminiDecoder d) = (let (es, d1) = gemini_finish d in (es, GeminiDecoder d1))"

fun enc_encode :: "serde_json \<Rightarrow> boxed_encoder \<Rightarrow> stream_event \<Rightarrow> string list \<times> boxed_encoder" where
  "enc_encode J (OpenAIEncoder e) ev = (let (ls, e1) = openai_encode J e ev in (ls, OpenAIEncoder e1))"
| "enc_encode J (AnthropicEncoder e) ev = (let (ls, e1) = anthropic_encode J e ev in (ls, AnthropicEncoder e1))"
| "enc_encode J (GeminiEncoder e) ev = (let (ls, e1) = gemini_encode J e ev in (ls, GeminiEncoder e1))"

fun enc_done :: "boxed_encoder \<Rightarrow> string" where
  "enc_done (OpenAIEncoder e) = openai_done e"
| "enc_done (AnthropicEncoder e) = anthropic_done e"
| "enc_done (GeminiEncoder e) = gemini_done e"

text \<open>Whether a decoder has emitted its stop.\<close>

fun dec_stopped :: "boxed_decoder \<Rightarrow> bool" where
  "dec_stopped (OpenAIDecoder d) = od_stop_emitted d"
| "dec_stopped (AnthropicDecoder d) = ad_stop_emitted d"
| "dec_stopped (GeminiDecoder d) = gd_stop_emitted d"

interpretation boxed_dec: stream_decoder "dec_feed J" dec_finish dec_stopped for J
proof unfold_locales
  show "stops es + of_bool (dec_stopped d) = of_bool (dec_stopped d')" if "dec_feed J d s = (es, d')" for d s es d'
  proof (cases d)
    case (OpenAIDecoder x)
    then show ?thesis using that openai_dec.feed_stops by (cases "openai_feed J x s") fastforce
  next
    case (AnthropicDecoder x)
    then show ?thesis using that anthropic_dec.feed_stops by (cases "anthropic_feed J x s") fastforce
  next
    case (GeminiDecoder x)
    then show ?thesis using that gemini_dec.feed_stops by (cases "gemini_feed J x s") fastforce
  qed
  show "stops es + of_bool (dec_stopped d) = of_bool (dec_stopped d')" if "dec_finish d = (es, d')" for d es d'
  proof (cases d)
    case (OpenAIDecoder x)
    then show ?thesis using that openai_dec.finish_stops by (cases "openai_finish x") fastforce
  next
    case (AnthropicDecoder x)
    then show ?thesis using that anthropic_dec.finish_stops by (cases "anthropic_finish x") fastforce
  next
    case (GeminiDecoder x)
    then show ?thesis using that gemini_dec.finish_stops by (cases "gemini_finish x") fastforce
  qed
  show "dec_finish d' = ([], d')" if "dec_finish d = (es, d')" for d es d'
  proof (cases d)
    case (OpenAIDecoder x)
    then show ?thesis using that openai_dec.finish_once by (cases "openai_finish x") fastforce
  next
    case (AnthropicDecoder x)
    then show ?thesis using that anthropic_dec.finish_once by (cases "anthropic_finish x") fastforce
  next
    case (GeminiDecoder x)
    then show ?thesis using that gemini_dec.finish_once by (cases "gemini_finish x") fastforce
  qed
qed

interpretation boxed_enc: stream_encoder enc_encode
proof unfold_locales
  show "\<exists>ps. list_all2 carries fs ps" if "prints_lines J" "enc_encode J e ev = (fs, e')" for J e ev fs e'
    using that openai_enc.frames anthropic_enc.frames gemini_enc.frames
    by (cases e) (auto split: prod.splits)
qed

section \<open>The adapter trait\<close>

record protocol_adapter =
  pa_name :: string
  pa_endpoints :: "(string \<times> endpoint_kind) list"
  pa_conversation_url :: "string \<Rightarrow> string \<Rightarrow> string result"
  pa_stream_conversation_url :: "string \<Rightarrow> string \<Rightarrow> string result"
  pa_request_headers :: "(string \<times> string) list"
  pa_models_path :: "string option"
  pa_parse_models :: "string \<Rightarrow> model_info list result"
  pa_serialize_models :: "model_info list \<Rightarrow> string result"
  pa_parse_request :: "string \<Rightarrow> neutral_request result"
  pa_serialize_request :: "neutral_request \<Rightarrow> string result"
  pa_parse_response :: "string \<Rightarrow> neutral_response result"
  pa_serialize_response :: "neutral_response \<Rightarrow> string result"
  pa_parse_upstream_error :: "u16 \<Rightarrow> string \<Rightarrow> adapter_error"
  pa_serialize_error :: "adapter_error \<Rightarrow> u16 \<times> string"
  pa_stream_decoder :: boxed_decoder
  pa_stream_encoder :: boxed_encoder

text \<open>The default methods of the trait.\<close>

definition default_request_headers :: "(string \<times> string) list" where
  "default_request_headers = []"

definition default_model_info :: "value \<Rightarrow> model_info option" where
  "default_model_info m =
     Option.bind (get_str m ''id'') (\<lambda>i. Some \<lparr>model_id = i, model_owned_by = str_or_empty m ''owned_by''\<rparr>)"

definition default_parse_models :: "serde_json \<Rightarrow> string \<Rightarrow> model_info list result" where
  "default_parse_models J body =
     (case from_str J body of
        Inl e \<Rightarrow> Inl (invalid_json e)
      | Inr root \<Rightarrow>
          (case get_array root ''data'' of
             None \<Rightarrow> Inl (InvalidRequest ''expected a data array'')
           | Some data \<Rightarrow> Inr (List.map_filter default_model_info data)))"

definition default_parse_upstream_error :: "u16 \<Rightarrow> string \<Rightarrow> adapter_error" where
  "default_parse_upstream_error status body = Upstream status body"

text \<open>
  The three adapters. \<open>now\<close> is the clock in seconds, which the OpenAI dialect writes into its
  bodies and frames, and \<open>dbg\<close> the \<open>Debug\<close> form of a string.
\<close>

definition openai_adapter :: "serde_json \<Rightarrow> u64 \<Rightarrow> protocol_adapter" where
  "openai_adapter J now =
     \<lparr>pa_name = ''openai'', pa_endpoints = openai_endpoints,
      pa_conversation_url = openai_conversation_url, pa_stream_conversation_url = openai_conversation_url,
      pa_request_headers = default_request_headers, pa_models_path = openai_models_path,
      pa_parse_models = default_parse_models J, pa_serialize_models = openai_serialize_models J now,
      pa_parse_request = openai_parse_request J, pa_serialize_request = openai_serialize_request J,
      pa_parse_response = openai_parse_response J, pa_serialize_response = openai_serialize_response J now,
      pa_parse_upstream_error = default_parse_upstream_error, pa_serialize_error = openai_serialize_error J,
      pa_stream_decoder = OpenAIDecoder openai_decoder_new,
      pa_stream_encoder = OpenAIEncoder (openai_encoder_new now)\<rparr>"

definition anthropic_adapter :: "serde_json \<Rightarrow> protocol_adapter" where
  "anthropic_adapter J =
     \<lparr>pa_name = ''anthropic'', pa_endpoints = anthropic_endpoints,
      pa_conversation_url = anthropic_conversation_url, pa_stream_conversation_url = anthropic_conversation_url,
      pa_request_headers = anthropic_request_headers, pa_models_path = anthropic_models_path,
      pa_parse_models = anthropic_parse_models J, pa_serialize_models = anthropic_serialize_models J,
      pa_parse_request = anthropic_parse_request J, pa_serialize_request = anthropic_serialize_request J,
      pa_parse_response = anthropic_parse_response J, pa_serialize_response = anthropic_serialize_response J,
      pa_parse_upstream_error = default_parse_upstream_error, pa_serialize_error = anthropic_serialize_error J,
      pa_stream_decoder = AnthropicDecoder anthropic_decoder_new,
      pa_stream_encoder = AnthropicEncoder anthropic_encoder_new\<rparr>"

definition gemini_adapter :: "serde_json \<Rightarrow> (string \<Rightarrow> string) \<Rightarrow> protocol_adapter" where
  "gemini_adapter J dbg =
     \<lparr>pa_name = ''gemini'', pa_endpoints = gemini_endpoints,
      pa_conversation_url = gemini_conversation_url dbg, pa_stream_conversation_url = gemini_stream_conversation_url dbg,
      pa_request_headers = default_request_headers, pa_models_path = gemini_models_path,
      pa_parse_models = gemini_parse_models J, pa_serialize_models = gemini_serialize_models J,
      pa_parse_request = gemini_parse_request J, pa_serialize_request = gemini_serialize_request J,
      pa_parse_response = gemini_parse_response J, pa_serialize_response = gemini_serialize_response J,
      pa_parse_upstream_error = gemini_parse_upstream_error, pa_serialize_error = gemini_serialize_error J,
      pa_stream_decoder = GeminiDecoder gemini_decoder_new,
      pa_stream_encoder = GeminiEncoder gemini_encoder_new\<rparr>"

section \<open>The registry\<close>

text \<open>The hash map by name is an association list with one entry for a name.\<close>

type_synonym protocol_registry = "(string \<times> protocol_adapter) list"

definition registry_new :: protocol_registry where
  "registry_new = []"

definition registry_register :: "protocol_registry \<Rightarrow> protocol_adapter \<Rightarrow> protocol_registry" where
  "registry_register reg a = AList.update (pa_name a) a reg"

definition registry_get :: "protocol_registry \<Rightarrow> string \<Rightarrow> protocol_adapter option" where
  "registry_get reg name = map_of reg name"

definition registry_names :: "protocol_registry \<Rightarrow> string list" where
  "registry_names reg = sort (map fst reg)"

definition client_adapters :: "protocol_registry \<Rightarrow> string list \<Rightarrow> protocol_adapter list" where
  "client_adapters reg protocols = List.map_filter (registry_get reg) protocols"

text \<open>Any sequence of registrations.\<close>

definition registered :: "protocol_adapter list \<Rightarrow> protocol_registry" where
  "registered as = foldl registry_register registry_new as"

lemma registered_snoc: "registered (as @ [a]) = registry_register (registered as) a"
  by (simp add: registered_def)

lemma registry_get_register: "registry_get (registry_register reg a) name = (if name = pa_name a then Some a else registry_get reg name)"
  by (simp add: registry_get_def registry_register_def update_conv')

lemma registered_distinct: "distinct (map fst (registered as))"
  by (induction as rule: rev_induct) (simp_all add: registered_def registry_new_def registry_register_def distinct_update)

lemma registered_get: "registry_get (registered as) name = find (\<lambda>a. pa_name a = name) (rev as)"
proof (induction as rule: rev_induct)
  case Nil
  then show ?case by (simp add: registered_def registry_new_def registry_get_def)
next
  case (snoc a as)
  then show ?case by (auto simp: registered_snoc registry_get_register)
qed

lemma registered_keys: "fst ` set (registered as) = pa_name ` set as"
  by (induction as rule: rev_induct)
    (auto simp: registered_def registry_new_def registry_register_def dom_update)

lemma find_name: "find (\<lambda>a. pa_name a = name) as = Some a \<Longrightarrow> pa_name a = name"
  by (auto simp: find_Some_iff)

lemma client_adapters_names:
  "\<forall>p \<in> set protocols. registry_get (registered as) p \<noteq> None \<Longrightarrow>
   map pa_name (client_adapters (registered as) protocols) = protocols"
  by (induction protocols) (auto simp: client_adapters_def registered_get dest: find_name)

text \<open>
  The registry finds, under a name, the adapter that was registered last with that name, and
  lists exactly the names that can be found, sorted and without duplicates.
\<close>

theorem registry_lookup:
  "registry_get (registered as) name = find (\<lambda>a. pa_name a = name) (rev as) \<and>
   sorted_wrt (<) (registry_names (registered as)) \<and>
   (name \<in> set (registry_names (registered as)) \<longleftrightarrow> registry_get (registered as) name \<noteq> None)"
proof -
  have "sorted_wrt (<) (registry_names (registered as))"
    using registered_distinct [of as] by (simp add: registry_names_def strict_sorted_iff)
  moreover have "name \<in> set (registry_names (registered as)) \<longleftrightarrow> registry_get (registered as) name \<noteq> None"
    by (simp add: registry_names_def registry_get_def map_of_eq_None_iff)
  ultimately show ?thesis by (simp add: registered_get)
qed

end
