(* ===== verification/Tokens.thy ===== *)
theory Tokens
  imports Neutral Utf8
begin

text \<open>
  Privacy Guard, the engine (\<open>src/core/privacy.rs\<close>, configuration and construction): rule
  templates and their grammar, the tokens they mint, and the checks of
  \<open>RedactionEngine::new\<close>. A compiled regular expression belongs to the \<open>regex\<close> crate: it is
  the pair of functions the code calls, and \<open>Regex::new\<close> is the parameter \<open>rx_new\<close>.
\<close>

section \<open>Configuration\<close>

record regex =
  rx_find_iter :: "string \<Rightarrow> (nat \<times> nat) list"
  rx_is_match :: "string \<Rightarrow> bool"

record rule_config =
  rc_name :: string
  rc_pattern :: string
  rc_replacement :: string

record allow_list_config =
  al_domains :: "string list"
  al_patterns :: "string list"

record privacy_config =
  pc_enabled :: bool
  pc_vault :: string
  pc_rules :: "rule_config list"
  pc_allow_list :: allow_list_config

definition default_privacy_config :: privacy_config where
  "default_privacy_config =
     \<lparr>pc_enabled = False, pc_vault = ''memory'', pc_rules = [],
      pc_allow_list = \<lparr>al_domains = [], al_patterns = []\<rparr>\<rparr>"

record compiled_rule =
  cr_name :: string
  cr_regex :: regex
  cr_template :: string

record redaction_engine =
  re_rules :: "compiled_rule list"
  re_allow_domains :: "string list"
  re_allow_patterns :: "regex list"
  re_max_token_len :: nat

text \<open>
  Why the construction fails: the code's error messages as constructors, and the panic of the
  \<open>expect\<close> on a built-in pattern.
\<close>

datatype engine_error =
    UnsupportedVault string
  | EmptyRuleName
  | BadReplacement string string
  | InvalidPattern string string
  | PatternMatchesEmpty string
  | SameTemplate string string string
  | CollidingTemplates string string string string
  | InvalidAllowPattern string
  | BuiltinRulePanic string

text \<open>The built-in rules; a pattern's backslashes are the separator of its pieces.\<close>

definition DEFAULT_RULES :: "(string \<times> string \<times> string) list" where
  "DEFAULT_RULES =
     [(''EMAIL'',
       join [CHR 0x5C] [[], ''b[A-Za-z0-9._%+-]+@[A-Za-z0-9.-]+'', ''.[A-Za-z]{2,}'', ''b''],
       ''<EMAIL_{n}>''),
      (''IPV4'',
       join [CHR 0x5C] [[], ''b(?:(?:25[0-5]|2[0-4]'', ''d|1?'', ''d?'', ''d)'', ''.){3}(?:25[0-5]|2[0-4]'', ''d|1?'', ''d?'', ''d)'', ''b''],
       ''<IP_{n}>''),
      (''PHONE'',
       join [CHR 0x5C] [[], ''b'', ''d{3}[-.)]'', ''d{3}[-.]'', ''d{4}'', ''b''],
       ''<PHONE_{n}>''),
      (''API_KEY'',
       join [CHR 0x5C] [[], ''b(?:sk|pk)-[A-Za-z0-9]{20,64}'', ''b''],
       ''<SECRET_{n}>'')]"

section \<open>Checks\<close>

definition empty_probes :: "string list" where
  "empty_probes = [''a'', ''a b'', '' a'', ''a '', ''123'', [char_of (195 :: nat), char_of (169 :: nat)], '' '']"

definition can_match_empty :: "regex \<Rightarrow> bool" where
  "can_match_empty rx \<longleftrightarrow>
     list_ex (\<lambda>probe. list_ex (\<lambda>(s, e). s = e) (rx_find_iter rx probe)) empty_probes \<or>
     rx_is_match rx []"

definition token_name_char :: "char \<Rightarrow> bool" where
  "token_name_char c \<longleftrightarrow> is_ascii_alphanumeric c \<or> c = CHR ''_''"

definition quoted :: "string \<Rightarrow> string" where
  "quoted s = [CHR 0x27] @ s @ [CHR 0x27]"

definition validate_template :: "rule_config \<Rightarrow> engine_error + unit" where
  "validate_template rule =
     (let bad = (\<lambda>what. Inl (BadReplacement (rc_name rule) what)) in
      case strip_prefix ''<'' (rc_replacement rule) of
        None \<Rightarrow> bad (''must start with a single '' @ quoted ''<'')
      | Some rest1 \<Rightarrow>
          (case strip_suffix ''>'' rest1 of
             None \<Rightarrow> bad (''must end with a single '' @ quoted ''>'')
           | Some rest \<Rightarrow>
               if count_list rest CHR ''{'' \<noteq> 1 \<or> count_list rest CHR ''}'' \<noteq> 1 \<or> \<not> suffix ''{n}'' rest
               then bad (''must contain exactly one {{n}} slot immediately before the closing '' @ quoted ''>'')
               else
                 (let name = take (length rest - 3) rest in
                  if name = [] \<or> \<not> list_all token_name_char name
                  then bad (''name must be non-empty and use only [A-Za-z0-9_] (no '' @ quoted ''<'' @ '', '' @ quoted ''>''
                            @ '', spaces, or punctuation)'')
                  else Inr ())))"

definition template_prefix :: "string \<Rightarrow> string" where
  "template_prefix template = take (length template - 4 - 1) (drop 1 template)"

definition digit_suffix_collides :: "string \<Rightarrow> string \<Rightarrow> bool" where
  "digit_suffix_collides pa pb =
     (let (long, short) = (if length pb \<le> length pa then (pa, pb) else (pb, pa)) in
      if \<not> prefix short long then False
      else
        (let sfx = drop (length short) long in
         sfx \<noteq> [] \<and> list_all is_ascii_digit sfx \<and> \<not> prefix ''0'' sfx))"

text \<open>The token a template mints for a counter: \<open>template.replace("{n}", &n.to_string())\<close>.\<close>

definition mint :: "string \<Rightarrow> nat \<Rightarrow> string" where
  "mint template n = str_replace ''{n}'' (dec n) template"

section \<open>Construction\<close>

fun compile_builtin :: "(string \<Rightarrow> string + regex) \<Rightarrow> (string \<times> string \<times> string) list
    \<Rightarrow> engine_error + compiled_rule list" where
  "compile_builtin rx_new [] = Inr []"
| "compile_builtin rx_new ((name, pattern, replacement) # rules) =
     (case rx_new pattern of
        Inl e \<Rightarrow> Inl (BuiltinRulePanic e)
      | Inr rx \<Rightarrow>
          (case compile_builtin rx_new rules of
             Inl e \<Rightarrow> Inl e
           | Inr rs \<Rightarrow> Inr (\<lparr>cr_name = name, cr_regex = rx, cr_template = replacement\<rparr> # rs)))"

definition compile_rule :: "(string \<Rightarrow> string + regex) \<Rightarrow> rule_config \<Rightarrow> engine_error + compiled_rule" where
  "compile_rule rx_new rule =
     (if trim (rc_name rule) = [] then Inl EmptyRuleName
      else
        (case validate_template rule of
           Inl e \<Rightarrow> Inl e
         | Inr _ \<Rightarrow>
             (case rx_new (rc_pattern rule) of
                Inl e \<Rightarrow> Inl (InvalidPattern (rc_name rule) e)
              | Inr rx \<Rightarrow>
                  if can_match_empty rx then Inl (PatternMatchesEmpty (rc_name rule))
                  else Inr \<lparr>cr_name = rc_name rule, cr_regex = rx, cr_template = rc_replacement rule\<rparr>)))"

fun compile_rules :: "(string \<Rightarrow> string + regex) \<Rightarrow> rule_config list
    \<Rightarrow> engine_error + compiled_rule list" where
  "compile_rules rx_new [] = Inr []"
| "compile_rules rx_new (rule # rules) =
     (case compile_rule rx_new rule of
        Inl e \<Rightarrow> Inl e
      | Inr r \<Rightarrow> (case compile_rules rx_new rules of Inl e \<Rightarrow> Inl e | Inr rs \<Rightarrow> Inr (r # rs)))"

fun check_against :: "compiled_rule \<Rightarrow> compiled_rule list \<Rightarrow> engine_error + unit" where
  "check_against a [] = Inr ()"
| "check_against a (b # bs) =
     (let pa = template_prefix (cr_template a); pb = template_prefix (cr_template b) in
      if pa = pb then Inl (SameTemplate (cr_name a) (cr_name b) (cr_template a))
      else if digit_suffix_collides pa pb
      then Inl (CollidingTemplates (cr_name a) (cr_name b) (cr_template a) (cr_template b))
      else check_against a bs)"

fun check_namespaces :: "compiled_rule list \<Rightarrow> engine_error + unit" where
  "check_namespaces [] = Inr ()"
| "check_namespaces (a # rest) =
     (case check_against a rest of Inl e \<Rightarrow> Inl e | Inr _ \<Rightarrow> check_namespaces rest)"

fun compile_patterns :: "(string \<Rightarrow> string + regex) \<Rightarrow> string list \<Rightarrow> engine_error + regex list" where
  "compile_patterns rx_new [] = Inr []"
| "compile_patterns rx_new (p # ps) =
     (case rx_new p of
        Inl e \<Rightarrow> Inl (InvalidAllowPattern e)
      | Inr rx \<Rightarrow> (case compile_patterns rx_new ps of Inl e \<Rightarrow> Inl e | Inr rs \<Rightarrow> Inr (rx # rs)))"

definition longest_token :: "compiled_rule list \<Rightarrow> nat" where
  "longest_token rules =
     max (case map (\<lambda>r. length (cr_template r) - 3 + 12) rules of
            [] \<Rightarrow> 16
          | x # xs \<Rightarrow> fold max xs x) 16"

definition new_engine :: "(string \<Rightarrow> string + regex) \<Rightarrow> privacy_config \<Rightarrow> engine_error + redaction_engine" where
  "new_engine rx_new config =
     (if pc_vault config \<noteq> ''memory'' then Inl (UnsupportedVault (pc_vault config))
      else
        (case (if pc_rules config = [] then compile_builtin rx_new DEFAULT_RULES
               else compile_rules rx_new (pc_rules config)) of
           Inl e \<Rightarrow> Inl e
         | Inr rules \<Rightarrow>
             (case check_namespaces rules of
                Inl e \<Rightarrow> Inl e
              | Inr _ \<Rightarrow>
                  (case compile_patterns rx_new (al_patterns (pc_allow_list config)) of
                     Inl e \<Rightarrow> Inl e
                   | Inr pats \<Rightarrow>
                       Inr \<lparr>re_rules = rules, re_allow_domains = al_domains (pc_allow_list config),
                            re_allow_patterns = pats, re_max_token_len = longest_token rules\<rparr>))))"

section \<open>The token grammar\<close>

definition valid_name :: "string \<Rightarrow> bool" where
  "valid_name nm \<longleftrightarrow> nm \<noteq> [] \<and> list_all token_name_char nm"

definition template_of :: "string \<Rightarrow> string" where
  "template_of nm = ''<'' @ nm @ ''{n}>''"

definition valid_template :: "string \<Rightarrow> bool" where
  "valid_template t \<longleftrightarrow> valid_name (template_prefix t) \<and> t = template_of (template_prefix t)"

lemma template_prefix_of [simp]: "template_prefix (template_of nm) = nm"
  by (simp add: template_prefix_def template_of_def)

lemma valid_templateI: "valid_name nm \<Longrightarrow> valid_template (template_of nm)"
  by (simp add: valid_template_def)

lemma valid_templateE:
  assumes "valid_template t"
  obtains nm where "valid_name nm" "t = template_of nm" "template_prefix t = nm"
  using assms by (auto simp: valid_template_def)

lemma token_name_char_simps [simp]:
  "\<not> token_name_char CHR ''<''" "\<not> token_name_char CHR ''>''"
  "\<not> token_name_char CHR ''{''" "\<not> token_name_char CHR ''}''"
  by (simp_all add: token_name_char_def is_ascii_alphanumeric_def)

lemma digit_token_name_char: "is_ascii_digit c \<Longrightarrow> token_name_char c"
  by (simp add: is_ascii_digit_def token_name_char_def is_ascii_alphanumeric_def Let_def)

lemma valid_name_not_in:
  "valid_name nm \<Longrightarrow> \<not> token_name_char c \<Longrightarrow> c \<notin> set nm"
  by (auto simp: valid_name_def list_all_iff)

text \<open>\<open>validate_template\<close> accepts exactly the grammar.\<close>

lemma count_zero_notin: "count_list xs c = 0 \<longleftrightarrow> c \<notin> set xs"
  by (simp add: count_list_0_iff)

lemma validate_template_sound:
  assumes "validate_template rule = Inr u"
  shows "valid_template (rc_replacement rule)"
proof -
  obtain rest1 where r1: "strip_prefix ''<'' (rc_replacement rule) = Some rest1"
    using assms by (auto simp: validate_template_def split: option.splits)
  obtain rest where r2: "strip_suffix ''>'' rest1 = Some rest"
    using assms r1 by (auto simp: validate_template_def split: option.splits)
  have sfx: "suffix ''{n}'' rest"
    and nm: "take (length rest - 3) rest \<noteq> []" "list_all token_name_char (take (length rest - 3) rest)"
    using assms r1 r2 by (auto simp: validate_template_def Let_def split: if_splits)
  from sfx obtain nm' where rest: "rest = nm' @ ''{n}''" by (auto simp: suffix_def)
  have "rc_replacement rule = template_of nm'"
    using r1 r2 rest by (simp add: strip_prefix_Some strip_suffix_Some template_of_def)
  moreover have "valid_name nm'" using nm rest by (simp add: valid_name_def)
  ultimately show ?thesis by (simp add: valid_templateI)
qed

lemma validate_template_complete:
  assumes "valid_template (rc_replacement rule)"
  shows "validate_template rule = Inr ()"
proof -
  from assms obtain nm where nm: "valid_name nm" and t: "rc_replacement rule = template_of nm"
    by (rule valid_templateE)
  have c: "count_list nm CHR ''{'' = 0" "count_list nm CHR ''}'' = 0"
    using nm valid_name_not_in by (simp_all add: count_zero_notin)
  have r1: "strip_prefix ''<'' (rc_replacement rule) = Some (nm @ ''{n}>'')"
    by (simp add: t template_of_def strip_prefix_def)
  have r2: "strip_suffix ''>'' (nm @ ''{n}>'') = Some (nm @ ''{n}'')"
    by (simp add: strip_suffix_Some)
  show ?thesis
    using nm c by (simp add: validate_template_def r1 r2 Let_def valid_name_def suffix_def)
qed

section \<open>Minted tokens\<close>

lemma mint_template_of:
  assumes "valid_name nm"
  shows "mint (template_of nm) n = ''<'' @ nm @ dec n @ ''>''"
proof -
  have "CHR ''{'' \<notin> set (''<'' @ nm)" using assms valid_name_not_in by simp
  then have "replace_aux ''{n}'' (dec n) 0 ((''<'' @ nm) @ ''{n}>'')
      = (''<'' @ nm) @ replace_aux ''{n}'' (dec n) 0 ''{n}>''"
    by (intro replace_aux_no_head) simp_all
  then show ?thesis
    by (simp add: mint_def str_replace_def template_of_def numeral_2_eq_2)
qed

text \<open>
  The shape of a token: \<open><\<close>, then a non-empty body of name characters, then \<open>>\<close>. It is all
  the matcher needs to know of tokens.
\<close>

definition token_shape :: "string \<Rightarrow> bool" where
  "token_shape tok \<longleftrightarrow> (\<exists>body. tok = ''<'' @ body @ ''>'' \<and> list_all token_name_char body)"

lemma mint_shape: "valid_template t \<Longrightarrow> token_shape (mint t n)"
proof (erule valid_templateE)
  fix nm assume nm: "valid_name nm" "t = template_of nm"
  have "list_all token_name_char (nm @ dec n)"
    using nm(1) dec_digits [of n] by (auto simp: valid_name_def list_all_iff digit_token_name_char)
  with nm show ?thesis unfolding token_shape_def
    by (intro exI [of _ "nm @ dec n"]) (simp add: mint_template_of)
qed

lemma mint_length:
  assumes "valid_template t" "n < 10 ^ 12"
  shows "length (mint t n) \<le> length t - 3 + 12"
proof -
  from assms(1) obtain nm where nm: "valid_name nm" "t = template_of nm" by (rule valid_templateE)
  have "length (dec n) \<le> 12" using dec_length [of n 11] assms(2) by simp
  with nm show ?thesis by (simp add: mint_template_of) (simp add: template_of_def)
qed

lemma mint_ge2: "valid_template t \<Longrightarrow> 2 \<le> length (mint t n)"
  using mint_shape [of t n] by (auto simp: token_shape_def)

text \<open>Two templates whose names neither agree nor differ by a digit suffix never mint one token.\<close>

lemma digit_suffix_collides_sym: "pa \<noteq> pb \<Longrightarrow> digit_suffix_collides pa pb = digit_suffix_collides pb pa"
proof (cases "length pa = length pb")
  case True
  moreover assume "pa \<noteq> pb"
  ultimately have "\<not> prefix pa pb" "\<not> prefix pb pa" by (auto simp: prefix_def)
  with True show ?thesis by (simp add: digit_suffix_collides_def)
qed (auto simp: digit_suffix_collides_def)

lemma overlap_collides:
  assumes eq: "pa @ dec n = pb @ dec m" and ne: "pa \<noteq> pb" and "0 < m" and len: "length pb \<le> length pa"
  shows "digit_suffix_collides pa pb"
proof -
  obtain sfx where pa: "pa = pb @ sfx"
  proof -
    have "prefix pb (pa @ dec n)" using eq by simp
    with len have "prefix pb pa" by (meson prefix_length_prefix prefixI)
    then show thesis using that by (auto simp: prefix_def)
  qed
  with eq have d: "sfx @ dec n = dec m" by simp
  with ne pa have "sfx \<noteq> []" by auto
  moreover have "list_all is_ascii_digit sfx"
    using dec_digits [of m] d by (metis list_all_append)
  moreover have "\<not> prefix ''0'' sfx"
  proof
    assume "prefix ''0'' sfx"
    then have "hd (dec m) = CHR ''0''" using d by (cases sfx) (auto simp: Cons_eq_append_conv dest: sym)
    with dec_no_leading_zero [OF \<open>0 < m\<close>] show False by simp
  qed
  ultimately show ?thesis by (simp add: digit_suffix_collides_def pa)
qed

lemma mint_inj:
  assumes t: "valid_template t" "valid_template u"
    and ns: "\<not> digit_suffix_collides (template_prefix t) (template_prefix u)"
    and eq: "mint t n = mint u m" and pos: "0 < n" "0 < m"
  shows "t = u \<and> n = m"
proof -
  from t obtain a b where ab: "valid_name a" "t = template_of a" "valid_name b" "u = template_of b"
    by (metis valid_templateE)
  have e: "a @ dec n = b @ dec m" using eq ab by (simp add: mint_template_of)
  have "a = b"
  proof (rule ccontr)
    assume "a \<noteq> b"
    have "digit_suffix_collides a b"
    proof (cases "length b \<le> length a")
      case True
      with overlap_collides [OF e \<open>a \<noteq> b\<close> pos(2)] show ?thesis by simp
    next
      case False
      with overlap_collides [OF e [symmetric] \<open>a \<noteq> b\<close> [symmetric] pos(1)] \<open>a \<noteq> b\<close>
      show ?thesis by (simp add: digit_suffix_collides_sym)
    qed
    with ns ab show False by simp
  qed
  with e ab show ?thesis by (simp add: dec_inj)
qed

section \<open>What construction guarantees\<close>

definition namespaces_ok :: "compiled_rule list \<Rightarrow> bool" where
  "namespaces_ok rules \<longleftrightarrow>
     sorted_wrt (\<lambda>a b. template_prefix (cr_template a) \<noteq> template_prefix (cr_template b) \<and>
       \<not> digit_suffix_collides (template_prefix (cr_template a)) (template_prefix (cr_template b))) rules"

definition engine_ok :: "redaction_engine \<Rightarrow> bool" where
  "engine_ok E \<longleftrightarrow>
     (\<forall>r \<in> set (re_rules E). valid_template (cr_template r) \<and>
        length (cr_template r) - 3 + 12 \<le> re_max_token_len E) \<and>
     namespaces_ok (re_rules E) \<and> 16 \<le> re_max_token_len E"

lemma check_against_ok:
  "check_against a bs = Inr u \<longleftrightarrow>
     (\<forall>b \<in> set bs. template_prefix (cr_template a) \<noteq> template_prefix (cr_template b) \<and>
       \<not> digit_suffix_collides (template_prefix (cr_template a)) (template_prefix (cr_template b)))"
  by (induction bs) (auto simp: Let_def)

lemma check_namespaces_ok: "check_namespaces rules = Inr u \<longleftrightarrow> namespaces_ok rules"
proof (induction rules)
  case (Cons a rest)
  then show ?case
    using check_against_ok [of a rest "()"]
    by (cases "check_against a rest") (auto simp: namespaces_ok_def)
qed (simp add: namespaces_ok_def)

lemma compile_rule_template:
  "compile_rule rx_new rule = Inr r \<Longrightarrow> valid_template (cr_template r) \<and> cr_template r = rc_replacement rule"
  by (auto simp: compile_rule_def dest: validate_template_sound split: if_splits sum.splits)

lemma compile_rules_templates:
  "compile_rules rx_new cs = Inr rs \<Longrightarrow> \<forall>r \<in> set rs. valid_template (cr_template r)"
  by (induction cs arbitrary: rs) (auto dest: compile_rule_template split: sum.splits)

lemma compile_builtin_templates:
  "compile_builtin rx_new ts = Inr rs \<Longrightarrow> map cr_template rs = map (\<lambda>(n, p, t). t) ts"
  by (induction ts arbitrary: rs) (auto split: sum.splits)

lemma default_templates_valid: "(n, p, t) \<in> set DEFAULT_RULES \<Longrightarrow> valid_template t"
  by (auto simp: DEFAULT_RULES_def valid_template_def template_prefix_def template_of_def
      valid_name_def token_name_char_def is_ascii_alphanumeric_def)

lemma fold_max_bounds: "fold max xs m = (n :: nat) \<Longrightarrow> m \<le> n \<and> (\<forall>x \<in> set xs. x \<le> n)"
proof (induction xs arbitrary: m)
  case (Cons x xs)
  then show ?case by fastforce
qed simp

lemma longest_token_bound: "r \<in> set rules \<Longrightarrow> length (cr_template r) - 3 + 12 \<le> longest_token rules"
proof -
  assume r: "r \<in> set rules"
  then obtain x xs where m: "map (\<lambda>r. length (cr_template r) - 3 + 12) rules = x # xs"
    by (cases rules) auto
  have "length (cr_template r) - 3 + 12 \<in> set (x # xs)"
    unfolding m [symmetric] using r by (auto intro: rev_image_eqI)
  then have "length (cr_template r) - 3 + 12 \<le> fold max xs x"
    using fold_max_bounds [of xs x] by auto
  then show ?thesis by (simp add: longest_token_def m)
qed

lemma longest_token_ge: "16 \<le> longest_token rules"
  by (simp add: longest_token_def)

lemma new_engine_ok:
  assumes "new_engine rx_new config = Inr E"
  shows "engine_ok E"
proof -
  from assms obtain rules where
    rules: "(if pc_rules config = [] then compile_builtin rx_new DEFAULT_RULES
             else compile_rules rx_new (pc_rules config)) = Inr rules"
    and E: "re_rules E = rules" "re_max_token_len E = longest_token rules"
    and ns: "check_namespaces rules = Inr ()"
    by (auto simp: new_engine_def split: if_splits sum.splits)
  have "\<forall>r \<in> set rules. valid_template (cr_template r)"
  proof (cases "pc_rules config = []")
    case True
    with rules have "map cr_template rules = map (\<lambda>(n, p, t). t) DEFAULT_RULES"
      by (auto dest: compile_builtin_templates)
    then have "cr_template ` set rules = (\<lambda>(n, p, t). t) ` set DEFAULT_RULES"
      by (metis set_map)
    then show ?thesis using default_templates_valid by fastforce
  next
    case False
    with rules show ?thesis by (auto dest: compile_rules_templates)
  qed
  then show ?thesis
    using ns longest_token_bound longest_token_ge by (simp add: engine_ok_def E check_namespaces_ok)
qed

text \<open>In a valid engine a token determines its template and its counter.\<close>

lemma namespaces_ok_collide:
  assumes "namespaces_ok rules" "r \<in> set rules" "r' \<in> set rules"
  shows "r = r' \<or> (template_prefix (cr_template r) \<noteq> template_prefix (cr_template r') \<and>
    \<not> digit_suffix_collides (template_prefix (cr_template r)) (template_prefix (cr_template r')))"
proof -
  obtain i j where ij: "i < length rules" "rules ! i = r" "j < length rules" "rules ! j = r'"
    using assms(2,3) by (metis in_set_conv_nth)
  consider "i < j" | "j < i" | "i = j" by linarith
  then show ?thesis
  proof cases
    case 1
    with assms(1) ij show ?thesis unfolding namespaces_ok_def sorted_wrt_iff_nth_less by blast
  next
    case 2
    with assms(1) ij have "template_prefix (cr_template r') \<noteq> template_prefix (cr_template r) \<and>
      \<not> digit_suffix_collides (template_prefix (cr_template r')) (template_prefix (cr_template r))"
      unfolding namespaces_ok_def sorted_wrt_iff_nth_less by blast
    then show ?thesis by (metis digit_suffix_collides_sym)
  qed (use ij in auto)
qed

lemma digit_suffix_collides_self [simp]: "\<not> digit_suffix_collides p p"
  by (simp add: digit_suffix_collides_def)

lemma engine_mint_inj:
  assumes "engine_ok E" "r \<in> set (re_rules E)" "r' \<in> set (re_rules E)"
    and "mint (cr_template r) n = mint (cr_template r') m" "0 < n" "0 < m"
  shows "r = r' \<and> n = m"
proof -
  have nc: "\<not> digit_suffix_collides (template_prefix (cr_template r)) (template_prefix (cr_template r'))"
    using assms(1-3) namespaces_ok_collide [of "re_rules E" r r'] by (auto simp: engine_ok_def)
  then have "cr_template r = cr_template r' \<and> n = m"
    using assms by (intro mint_inj) (auto simp: engine_ok_def)
  with assms(1-3) namespaces_ok_collide [of "re_rules E" r r'] show ?thesis
    by (auto simp: engine_ok_def)
qed

lemma token_no_prefix:
  assumes "token_shape a" "token_shape b" "prefix a b"
  shows "a = b"
proof -
  obtain x y where x: "a = ''<'' @ x @ ''>''" and y: "b = ''<'' @ y @ ''>''"
    and ys: "list_all token_name_char y"
    using assms(1,2) by (auto simp: token_shape_def)
  from assms(3) x y have p: "prefix (x @ ''>'') (y @ ''>'')" by simp
  show ?thesis
  proof (cases "prefix (x @ ''>'') y")
    case True
    then have "CHR ''>'' \<in> set y" by (auto simp: prefix_def)
    with ys show ?thesis by (auto simp: list_all_iff)
  next
    case False
    with p have "x @ ''>'' = y @ ''>''" by (simp only: prefix_snoc) blast
    with x y show ?thesis by simp
  qed
qed

section \<open>An example engine\<close>

text \<open>
  A compiled pattern that is a literal string: the instance of \<open>regex\<close> the examples run on.
\<close>

fun occurrences :: "string \<Rightarrow> nat \<Rightarrow> nat \<Rightarrow> string \<Rightarrow> (nat \<times> nat) list" where
  "occurrences w i k [] = []"
| "occurrences w i (Suc k) (x # xs) = occurrences w (Suc i) k xs"
| "occurrences w i 0 (x # xs) =
     (if prefix w (x # xs) then (i, i + length w) # occurrences w (Suc i) (length w - 1) xs
      else occurrences w (Suc i) 0 xs)"

definition literal_regex :: "string \<Rightarrow> regex" where
  "literal_regex w = \<lparr>rx_find_iter = occurrences w 0 0, rx_is_match = (\<lambda>s. occurrences w 0 0 s \<noteq> [])\<rparr>"

definition example_config :: privacy_config where
  "example_config = default_privacy_config \<lparr>pc_enabled := True,
     pc_rules := [\<lparr>rc_name = ''CRED'', rc_pattern = ''bob'', rc_replacement = ''<CRED_{n}>''\<rparr>]\<rparr>"

definition example_engine :: redaction_engine where
  "example_engine =
     \<lparr>re_rules = [\<lparr>cr_name = ''CRED'', cr_regex = literal_regex ''bob'', cr_template = ''<CRED_{n}>''\<rparr>],
      re_allow_domains = [], re_allow_patterns = [], re_max_token_len = 19\<rparr>"

lemma example_rule_valid:
  "validate_template \<lparr>rc_name = nm, rc_pattern = pat, rc_replacement = ''<CRED_{n}>''\<rparr> = Inr ()"
  by (rule validate_template_complete)
    (simp add: valid_template_def template_prefix_def template_of_def valid_name_def
      token_name_char_def is_ascii_alphanumeric_def)

lemma example_trim: "trim ''CRED'' \<noteq> []"
  by code_simp

lemma example_not_empty: "\<not> can_match_empty (literal_regex ''bob'')"
  by code_simp

lemma example_engine_new: "new_engine (\<lambda>p. Inr (literal_regex p)) example_config = Inr example_engine"
  by (simp add: new_engine_def example_config_def default_privacy_config_def compile_rule_def
      example_rule_valid example_trim example_not_empty example_engine_def longest_token_def)

section \<open>Properties\<close>

text \<open>
  A replacement template is accepted exactly when it is \<open><NAME{n}>\<close> with a non-empty name
  of letters, digits and underscores.
\<close>

theorem validate_template_grammar:
  "validate_template rule = Inr () \<longleftrightarrow>
   (\<exists>nm. nm \<noteq> [] \<and> list_all (\<lambda>c. is_ascii_alphanumeric c \<or> c = CHR ''_'') nm \<and>
      rc_replacement rule = ''<'' @ nm @ ''{n}>'')"
proof
  assume "validate_template rule = Inr ()"
  then have "valid_template (rc_replacement rule)" by (rule validate_template_sound)
  then obtain nm where "valid_name nm" "rc_replacement rule = template_of nm" by (rule valid_templateE)
  then show "\<exists>nm. nm \<noteq> [] \<and> list_all (\<lambda>c. is_ascii_alphanumeric c \<or> c = CHR ''_'') nm \<and>
      rc_replacement rule = ''<'' @ nm @ ''{n}>''"
    by (auto simp: valid_name_def template_of_def token_name_char_def [abs_def])
next
  assume "\<exists>nm. nm \<noteq> [] \<and> list_all (\<lambda>c. is_ascii_alphanumeric c \<or> c = CHR ''_'') nm \<and>
      rc_replacement rule = ''<'' @ nm @ ''{n}>''"
  then obtain nm where "valid_name nm" "rc_replacement rule = template_of nm"
    by (auto simp: valid_name_def template_of_def token_name_char_def [abs_def])
  then have "valid_template (rc_replacement rule)" by (simp add: valid_templateI)
  then show "validate_template rule = Inr ()" by (rule validate_template_complete)
qed

text \<open>
  C31: an engine that was constructed never mints one token for two things: two rules, or two
  counters of one rule, always yield different tokens, and no token is a proper prefix of
  another.
\<close>

theorem engine_tokens_unambiguous:
  assumes "new_engine rx_new config = Inr E"
    and "r \<in> set (re_rules E)" "r' \<in> set (re_rules E)" "0 < n" "0 < m"
    and "(r, n) \<noteq> (r', m)"
  shows "\<not> prefix (mint (cr_template r) n) (mint (cr_template r') m)"
proof
  assume p: "prefix (mint (cr_template r) n) (mint (cr_template r') m)"
  have ok: "engine_ok E" using assms(1) by (rule new_engine_ok)
  then have "token_shape (mint (cr_template r) n)" "token_shape (mint (cr_template r') m)"
    using assms(2,3) by (auto simp: engine_ok_def intro: mint_shape)
  then have "mint (cr_template r) n = mint (cr_template r') m"
    using p by (rule token_no_prefix)
  with ok assms(2-5) have "r = r' \<and> n = m" by (intro engine_mint_inj)
  with assms(6) show False by simp
qed

theorem engine_tokens_unambiguous_witness:
  "\<not> prefix (mint ''<CRED_{n}>'' 1) (mint ''<CRED_{n}>'' 10)"
  using engine_tokens_unambiguous [OF example_engine_new, of "hd (re_rules example_engine)"
      "hd (re_rules example_engine)" 1 10]
  by (simp add: example_engine_def)

text \<open>
  The engine's \<open>max_token_len\<close> bounds every token it can mint with a counter of up to
  twelve digits, which covers every counter the session cap allows.
\<close>

theorem max_token_len_bounds_tokens:
  assumes "new_engine rx_new config = Inr E" "r \<in> set (re_rules E)" "n < 10 ^ 12"
  shows "length (mint (cr_template r) n) \<le> re_max_token_len E"
proof -
  have ok: "valid_template (cr_template r)" "length (cr_template r) - 3 + 12 \<le> re_max_token_len E"
    using new_engine_ok [OF assms(1)] assms(2) by (auto simp: engine_ok_def)
  show ?thesis using mint_length [OF ok(1) assms(3)] ok(2) by linarith
qed

theorem max_token_len_bounds_tokens_witness: "length (mint ''<CRED_{n}>'' 4096) \<le> 19"
  using max_token_len_bounds_tokens [OF example_engine_new, of "hd (re_rules example_engine)" 4096]
  by (simp add: example_engine_def)

end
