(* ===== verification/Matching.thy ===== *)
theory Matching
  imports Tokens
begin

text \<open>
  The multi-pattern matcher. The automaton is the \<open>aho_corasick\<close> crate's: it is a parameter
  whose documented leftmost-first semantics is written here as a reference. The rest of the
  theory is what the privacy guard needs to know of that semantics on tokens: the order of the
  patterns does not matter, occurrences never overlap, and a scan may be cut wherever no
  occurrence is cut.
\<close>

section \<open>The crate's interface\<close>

text \<open>
  \<open>ac_find\<close> and \<open>ac_find_iter\<close> search with an automaton built from a pattern list;
  \<open>hash_keys\<close> is the order in which a \<open>HashMap\<close> yields its keys.
\<close>

record matcher =
  ac_find :: "string list \<Rightarrow> string \<Rightarrow> (nat \<times> nat) option"
  ac_find_iter :: "string list \<Rightarrow> string \<Rightarrow> (nat \<times> nat) list"
  hash_keys :: "string list \<Rightarrow> string list"

text \<open>The first pattern of the list that starts here.\<close>

definition tok_at :: "string list \<Rightarrow> string \<Rightarrow> string option" where
  "tok_at ps s = List.find (\<lambda>p. prefix p s) ps"

fun lm_find :: "string list \<Rightarrow> nat \<Rightarrow> string \<Rightarrow> (nat \<times> nat) option" where
  "lm_find ps i [] = None"
| "lm_find ps i (x # xs) =
     (case tok_at ps (x # xs) of
        Some p \<Rightarrow> Some (i, i + length p)
      | None \<Rightarrow> lm_find ps (Suc i) xs)"

fun lm_iter :: "string list \<Rightarrow> nat \<Rightarrow> nat \<Rightarrow> string \<Rightarrow> (nat \<times> nat) list" where
  "lm_iter ps i k [] = []"
| "lm_iter ps i (Suc k) (x # xs) = lm_iter ps (Suc i) k xs"
| "lm_iter ps i 0 (x # xs) =
     (case tok_at ps (x # xs) of
        Some p \<Rightarrow> (i, i + length p) # lm_iter ps (Suc i) (length p - 1) xs
      | None \<Rightarrow> lm_iter ps (Suc i) 0 xs)"

definition matcher_ok :: "matcher \<Rightarrow> bool" where
  "matcher_ok A \<longleftrightarrow>
     (\<forall>ps t. [] \<notin> set ps \<longrightarrow> ac_find A ps t = lm_find ps 0 t \<and> ac_find_iter A ps t = lm_iter ps 0 0 t) \<and>
     (\<forall>ks. distinct ks \<longrightarrow> set (hash_keys A ks) = set ks \<and> distinct (hash_keys A ks))"

text \<open>An instance: the reference itself.\<close>

definition reference_matcher :: matcher where
  "reference_matcher =
     \<lparr>ac_find = (\<lambda>ps. lm_find ps 0), ac_find_iter = (\<lambda>ps. lm_iter ps 0 0), hash_keys = rev\<rparr>"

lemma reference_matcher_ok: "matcher_ok reference_matcher"
  by (simp add: matcher_ok_def reference_matcher_def)

section \<open>Tokens as patterns\<close>

definition tokens :: "string list \<Rightarrow> bool" where
  "tokens ps \<longleftrightarrow> list_all token_shape ps"

lemma token_shapeE:
  assumes "token_shape p"
  obtains body where "p = ''<'' @ body @ ''>''" "list_all token_name_char body"
  using assms by (auto simp: token_shape_def)

lemma token_nonempty: "token_shape p \<Longrightarrow> p \<noteq> []"
  by (auto simp: token_shape_def)

lemma token_hd: "token_shape p \<Longrightarrow> hd p = CHR ''<''"
  by (auto simp: token_shape_def)

lemma token_length: "token_shape p \<Longrightarrow> 2 \<le> length p"
  by (auto simp: token_shape_def)

lemma tokens_no_empty: "tokens ps \<Longrightarrow> [] \<notin> set ps"
  by (auto simp: tokens_def list_all_iff dest: token_nonempty)

lemma matcher_find: "matcher_ok A \<Longrightarrow> tokens ps \<Longrightarrow> ac_find A ps t = lm_find ps 0 t"
  and matcher_find_iter: "matcher_ok A \<Longrightarrow> tokens ps \<Longrightarrow> ac_find_iter A ps t = lm_iter ps 0 0 t"
  by (simp_all add: matcher_ok_def tokens_no_empty)

text \<open>The opening bracket is only at the head and the closing one only at the end.\<close>

lemma token_lt_only_head: "token_shape p \<Longrightarrow> i < length p \<Longrightarrow> p ! i = CHR ''<'' \<longleftrightarrow> i = 0"
  by (erule token_shapeE) (auto simp: nth_Cons nth_append list_all_length split: nat.splits)

lemma token_gt_only_last: "token_shape p \<Longrightarrow> i < length p \<Longrightarrow> p ! i = CHR ''>'' \<longleftrightarrow> Suc i = length p"
  by (erule token_shapeE) (auto simp: nth_Cons nth_append list_all_length split: nat.splits)

lemma tok_at_SomeD: "tok_at ps s = Some p \<Longrightarrow> p \<in> set ps \<and> prefix p s"
  by (auto simp: tok_at_def find_Some_iff)

lemma tok_at_None: "tok_at ps s = None \<longleftrightarrow> (\<forall>p \<in> set ps. \<not> prefix p s)"
  by (auto simp: tok_at_def find_None_iff)

lemma tok_at_Some:
  assumes "tokens ps"
  shows "tok_at ps s = Some p \<longleftrightarrow> p \<in> set ps \<and> prefix p s"
proof
  assume p: "p \<in> set ps \<and> prefix p s"
  then obtain q where q: "tok_at ps s = Some q" using tok_at_None by fastforce
  then have "q \<in> set ps" "prefix q s" using tok_at_SomeD by blast+
  with p have "prefix p q \<or> prefix q p" using prefix_same_cases by blast
  moreover have "token_shape p" "token_shape q"
    using assms p \<open>q \<in> set ps\<close> by (auto simp: tokens_def list_all_iff)
  ultimately have "p = q" using token_no_prefix by blast
  with q show "tok_at ps s = Some p" by simp
qed (rule tok_at_SomeD)

lemma tok_at_order: "tokens ps \<Longrightarrow> set ps = set qs \<Longrightarrow> tok_at ps s = tok_at qs s"
proof -
  assume "tokens ps" "set ps = set qs"
  moreover from this have "tokens qs" by (simp add: tokens_def list_all_iff)
  ultimately have "\<And>p. tok_at ps s = Some p \<longleftrightarrow> tok_at qs s = Some p" by (simp add: tok_at_Some)
  then show ?thesis by (metis option.exhaust)
qed

lemma lm_find_order: "tokens ps \<Longrightarrow> set ps = set qs \<Longrightarrow> lm_find ps i t = lm_find qs i t"
  by (induction ps i t rule: lm_find.induct) (simp_all add: tok_at_order split: option.split)

lemma lm_iter_order: "tokens ps \<Longrightarrow> set ps = set qs \<Longrightarrow> lm_iter ps i k t = lm_iter qs i k t"
  by (induction ps i k t rule: lm_iter.induct) (simp_all add: tok_at_order split: option.split)

text \<open>What a search returns.\<close>

lemma lm_find_shift: "lm_find ps i t = map_option (\<lambda>(s, e). (i + s, i + e)) (lm_find ps 0 t)"
proof (induction t arbitrary: i)
  case (Cons x xs)
  show ?case
    by (simp add: Cons [of "Suc i"] Cons [of "Suc 0"] option.map_comp comp_def case_prod_beta split: option.split)
qed simp

lemma lm_find_None: "lm_find ps i t = None \<longleftrightarrow> (\<forall>j < length t. tok_at ps (drop j t) = None)"
proof (induction t arbitrary: i)
  case (Cons x xs)
  show ?case by (auto simp: Cons All_less_Suc2 split: option.split)
qed simp

lemma lm_find_Some:
  "lm_find ps 0 t = Some (s, e) \<Longrightarrow>
   (\<exists>p. tok_at ps (drop s t) = Some p \<and> e = s + length p) \<and> s < length t \<and>
   (\<forall>j < s. tok_at ps (drop j t) = None)"
proof (induction t arbitrary: s e)
  case (Cons x xs)
  show ?case
  proof (cases "tok_at ps (x # xs)")
    case None
    with Cons.prems obtain s' e' where "lm_find ps 0 xs = Some (s', e')" "s = Suc s'" "e = Suc e'"
      by (auto simp: lm_find_shift [of ps "Suc 0"])
    with Cons.IH None show ?thesis by (auto simp: less_Suc_eq_0_disj)
  next
    case (Some p)
    with Cons.prems show ?thesis by auto
  qed
qed simp

section \<open>Replacing the tokens of a text\<close>

fun subst :: "string list \<Rightarrow> (string \<Rightarrow> string) \<Rightarrow> nat \<Rightarrow> string \<Rightarrow> string" where
  "subst ps g k [] = []"
| "subst ps g (Suc k) (x # xs) = subst ps g k xs"
| "subst ps g 0 (x # xs) =
     (case tok_at ps (x # xs) of
        Some p \<Rightarrow> g p @ subst ps g (length p - 1) xs
      | None \<Rightarrow> x # subst ps g 0 xs)"

abbreviation restored :: "string list \<Rightarrow> (string \<Rightarrow> string) \<Rightarrow> string \<Rightarrow> string" where
  "restored ps g t \<equiv> subst ps g 0 t"

lemma subst_skip: "subst ps g k t = subst ps g 0 (drop k t)"
proof (induction t arbitrary: k)
  case (Cons x xs)
  show ?case by (cases k) (simp_all add: Cons)
qed simp

lemma subst_order: "tokens ps \<Longrightarrow> set ps = set qs \<Longrightarrow> subst ps g k t = subst qs g k t"
  by (induction ps g k t rule: subst.induct) (simp_all add: tok_at_order split: option.split)

lemma subst_cong: "(\<And>p. p \<in> set ps \<Longrightarrow> g p = h p) \<Longrightarrow> subst ps g k t = subst ps h k t"
  by (induction ps g k t rule: subst.induct) (auto dest: tok_at_SomeD split: option.split)

lemma subst_none: "tok_at ps t = None \<Longrightarrow> t = x # xs \<Longrightarrow> restored ps g t = x # restored ps g xs"
  by simp

lemma subst_tok:
  assumes "tokens ps" "p \<in> set ps"
  shows "restored ps g (p @ y) = g p @ restored ps g y"
proof -
  have "token_shape p" using assms by (simp add: tokens_def list_all_iff)
  then obtain x xs where p: "p = x # xs" using token_nonempty by (cases p) auto
  have "tok_at ps (p @ y) = Some p" using assms by (simp add: tok_at_Some)
  then show ?thesis by (simp add: p subst_skip [of ps g "length xs"])
qed

text \<open>A scan may be cut at a position that no occurrence straddles.\<close>

definition straddles :: "string list \<Rightarrow> string \<Rightarrow> string \<Rightarrow> bool" where
  "straddles ps a y \<longleftrightarrow>
     (\<exists>i < length a. \<exists>p. tok_at ps (drop i a @ y) = Some p \<and> length a - i < length p)"

lemma straddles_drop: "\<not> straddles ps a y \<Longrightarrow> \<not> straddles ps (drop n a) y"
  unfolding straddles_def by (fastforce simp: add.commute)

lemma subst_cut:
  assumes "tokens ps" "\<not> straddles ps a y"
  shows "restored ps g (a @ y) = restored ps g a @ restored ps g y"
  using assms(2)
proof (induction "length a" arbitrary: a rule: less_induct)
  case less
  show ?case
  proof (cases a)
    case (Cons x xs)
    show ?thesis
    proof (cases "tok_at ps (a @ y)")
      case None
      then have "tok_at ps a = None" by (auto simp: tok_at_None)
      moreover have "restored ps g (xs @ y) = restored ps g xs @ restored ps g y"
        using less.hyps [of xs] straddles_drop [OF less.prems, of 1] by (simp add: Cons)
      ultimately show ?thesis using None by (simp add: Cons)
    next
      case (Some p)
      with less.prems have "length p \<le> length a"
        unfolding straddles_def by (force simp: Cons)
      moreover have pm: "p \<in> set ps" "prefix p (a @ y)" using Some tok_at_SomeD by blast+
      ultimately obtain b where a: "a = p @ b" by (auto simp: prefix_def append_eq_append_conv2)
      have "p \<noteq> []" using assms(1) pm(1) tokens_no_empty by metis
      then have "restored ps g (b @ y) = restored ps g b @ restored ps g y"
        using less.hyps [of b] straddles_drop [OF less.prems, of "length p"] by (simp add: a)
      then show ?thesis using subst_tok [OF assms(1) pm(1)] by (simp add: a)
    qed
  qed simp
qed

lemma subst_literal:
  "(\<And>i. i < length a \<Longrightarrow> tok_at ps (drop i a @ y) = None) \<Longrightarrow>
   restored ps g (a @ y) = a @ restored ps g y"
proof (induction a)
  case (Cons x xs)
  have "tok_at ps (x # xs @ y) = None" using Cons.prems [of 0] by simp
  moreover have "restored ps g (xs @ y) = xs @ restored ps g y"
    using Cons.prems [of "Suc i" for i] by (intro Cons.IH) simp
  ultimately show ?case by simp
qed simp

lemma subst_id: "(\<And>i. i < length t \<Longrightarrow> tok_at ps (drop i t) = None) \<Longrightarrow> restored ps g t = t"
  using subst_literal [of t ps "[]" g] by simp

lemma straddles_not_lt:
  assumes "tokens ps" "y = [] \<or> hd y = CHR ''<''"
  shows "\<not> straddles ps a y"
proof
  assume "straddles ps a y"
  then obtain i p where i: "i < length a" and p: "tok_at ps (drop i a @ y) = Some p"
    and l: "length a - i < length p" by (auto simp: straddles_def)
  from p have pm: "p \<in> set ps" and pre: "prefix p (drop i a @ y)" using tok_at_SomeD by blast+
  then have sh: "token_shape p" using assms(1) by (auto simp: tokens_def list_all_iff)
  from pre have "length p \<le> length (drop i a @ y)" by (rule prefix_length_le)
  with l have "y \<noteq> []" by auto
  from pre obtain zs where "drop i a @ y = p @ zs" by (auto simp: prefix_def)
  with l have "p ! (length a - i) = (drop i a @ y) ! (length a - i)" by (simp add: nth_append)
  also have "\<dots> = hd y" using \<open>y \<noteq> []\<close> by (simp add: nth_append hd_conv_nth)
  finally have "length a - i = 0"
    using assms(2) \<open>y \<noteq> []\<close> token_lt_only_head [OF sh l] by simp
  with i show False by simp
qed

lemma subst_around_token:
  assumes "tokens ps" "p \<in> set ps"
  shows "restored ps g (a @ p @ y) = restored ps g a @ g p @ restored ps g y"
proof -
  have "token_shape p" using assms by (simp add: tokens_def list_all_iff)
  then have "hd (p @ y) = CHR ''<''" using token_hd token_nonempty by (metis hd_append2)
  with assms show ?thesis by (simp add: subst_cut [OF assms(1) straddles_not_lt [OF assms(1)]] subst_tok)
qed

section \<open>Occurrences do not overlap\<close>

lemma nth_of_drop: "drop i t = q @ z \<Longrightarrow> j < length q \<Longrightarrow> q ! j = t ! (i + j)"
proof -
  assume d: "drop i t = q @ z" and j: "j < length q"
  have "q ! j = drop i t ! j" using j by (simp add: d nth_append)
  moreover have "i \<le> length t" using d j by (metis append_is_Nil_conv drop_all linorder_le_cases list.size(3) not_less_zero)
  ultimately show ?thesis by simp
qed

lemma tok_at_inside:
  assumes "tokens ps" "tok_at ps t = Some p" "0 < j" "j < length p"
  shows "tok_at ps (drop j t) = None"
proof (rule ccontr)
  assume "tok_at ps (drop j t) \<noteq> None"
  then obtain q where q: "q \<in> set ps" "prefix q (drop j t)" using tok_at_SomeD by blast
  have p: "token_shape p" "prefix p t"
    using assms(1,2) tok_at_SomeD by (auto simp: tokens_def list_all_iff)
  have qs: "token_shape q" using assms(1) q(1) by (simp add: tokens_def list_all_iff)
  obtain y z where yz: "t = p @ y" "drop j t = q @ z" using p(2) q(2) by (auto simp: prefix_def)
  have "p ! j = t ! j" using nth_of_drop [of 0 t p y j] assms(4) yz(1) by simp
  also have "\<dots> = q ! 0" using nth_of_drop [OF yz(2), of 0] token_nonempty [OF qs] by simp
  also have "\<dots> = CHR ''<''" using token_hd [OF qs] token_nonempty [OF qs] by (simp add: hd_conv_nth)
  finally show False using token_lt_only_head [OF p(1) assms(4)] assms(3) by simp
qed

lemma lm_iter_covers:
  "tokens ps \<Longrightarrow> k \<le> j \<Longrightarrow> j < length t \<Longrightarrow> tok_at ps (drop j t) = Some p \<Longrightarrow>
   (i + j, i + j + length p) \<in> set (lm_iter ps i k t)"
proof (induction ps i k t arbitrary: j rule: lm_iter.induct)
  case (2 ps i k x xs)
  then obtain j' where "j = Suc j'" by (cases j) auto
  with 2 show ?case by fastforce
next
  case (3 ps i x xs)
  show ?case
  proof (cases j)
    case 0
    with "3.prems" show ?thesis by simp
  next
    case (Suc j')
    show ?thesis
    proof (cases "tok_at ps (x # xs)")
      case None
      with "3.IH"(1) [of j'] "3.prems" Suc show ?thesis by simp
    next
      case (Some q)
      then have "\<not> j < length q"
        using tok_at_inside [OF "3.prems"(1) Some, of j] "3.prems"(4) Suc by auto
      with "3.IH"(2) [OF Some, of j'] "3.prems" Suc Some show ?thesis by simp
    qed
  qed
qed simp

section \<open>Replacing one clean region by a token\<close>

text \<open>No occurrence of a pattern overlaps the region from \<open>a\<close> to \<open>b\<close> (the code's test).\<close>

definition clean :: "string list \<Rightarrow> string \<Rightarrow> nat \<Rightarrow> nat \<Rightarrow> bool" where
  "clean ps t a b \<longleftrightarrow>
     (\<forall>i < length t. \<forall>p. tok_at ps (drop i t) = Some p \<longrightarrow> \<not> (a < i + length p \<and> i < b))"

lemma cleanD:
  "clean ps t a b \<Longrightarrow> i < length t \<Longrightarrow> tok_at ps (drop i t) = Some p \<Longrightarrow> i + length p \<le> a \<or> b \<le> i"
  unfolding clean_def by (meson not_less)

lemma clean_spans:
  assumes "tokens ps" "\<not> list_ex (\<lambda>(s, e). a < e \<and> s < b) (lm_iter ps 0 0 t)"
  shows "clean ps t a b"
  unfolding clean_def
proof (intro allI impI notI)
  fix i p
  assume "i < length t" "tok_at ps (drop i t) = Some p" "a < i + length p \<and> i < b"
  with lm_iter_covers [OF assms(1), of 0 i t p 0] assms(2)
  show False by (fastforce simp: list_ex_iff)
qed

lemma subst_clean:
  assumes "tokens ps" "clean ps (l @ m @ r) (length l) (length l + length m)"
  shows "restored ps g (l @ m @ r) = restored ps g l @ m @ restored ps g r"
proof -
  have nostr: "\<not> straddles ps l (m @ r)"
  proof
    assume "straddles ps l (m @ r)"
    then obtain i p where "i < length l" "tok_at ps (drop i l @ m @ r) = Some p" "length l - i < length p"
      by (auto simp: straddles_def)
    with cleanD [OF assms(2), of i p] show False by simp
  qed
  have "tok_at ps (drop i m @ r) = None" if i: "i < length m" for i
  proof (rule ccontr)
    assume "tok_at ps (drop i m @ r) \<noteq> None"
    then obtain p where p: "tok_at ps (drop i m @ r) = Some p" by blast
    then have "0 < length p"
      using assms(1) tok_at_SomeD tokens_no_empty by (metis length_greater_0_conv)
    moreover have "tok_at ps (drop (length l + i) (l @ m @ r)) = Some p" using p i by simp
    ultimately show False using cleanD [OF assms(2), of "length l + i" p] i by simp
  qed
  then have "restored ps g (m @ r) = m @ restored ps g r" by (intro subst_literal)
  with subst_cut [OF assms(1) nostr] show ?thesis by simp
qed

lemma occurrence_around_token:
  assumes "token_shape q" "token_shape tok" "prefix q (drop i (l @ tok @ r))"
  obtains (left) "i + length q \<le> length l" "prefix q (drop i l)"
  | (here) "i = length l" "q = tok"
  | (right) j where "i = length l + length tok + j" "prefix q (drop j r)"
proof -
  obtain z where z: "drop i (l @ tok @ r) = q @ z" using assms(3) by (auto simp: prefix_def)
  have ne: "tok \<noteq> []" "q \<noteq> []" using assms token_nonempty by blast+
  consider "i < length l" | "i = length l" | "length l < i" "i < length l + length tok"
    | "length l + length tok \<le> i" by linarith
  then show thesis
  proof cases
    case 1
    have "i + length q \<le> length l"
    proof (rule ccontr)
      assume a: "\<not> i + length q \<le> length l"
      then have "q ! (length l - i) = (l @ tok @ r) ! length l"
        using nth_of_drop [OF z, of "length l - i"] 1 by simp
      also have "\<dots> = hd tok" using ne by (simp add: nth_append hd_conv_nth)
      finally show False using token_hd [OF assms(2)] token_lt_only_head [OF assms(1), of "length l - i"] a 1
        by simp
    qed
    moreover from this have "prefix q (drop i l)"
      using assms(3) 1 by (simp add: prefix_append) (auto simp: prefix_def)
    ultimately show thesis by (rule left)
  next
    case 2
    then have "prefix q (tok @ r)" using assms(3) by simp
    then have "prefix q tok \<or> prefix tok q" by (meson prefixI prefix_same_cases)
    then have "q = tok" using token_no_prefix assms(1,2) by metis
    with 2 show thesis by (rule here)
  next
    case 3
    from 3 have b: "i - length l < length tok" by linarith
    then have "hd q = tok ! (i - length l)"
      using 3 nth_of_drop [OF z, of 0] ne by (simp add: hd_conv_nth nth_append)
    then show thesis using token_hd [OF assms(1)] token_lt_only_head [OF assms(2) b] 3 by simp
  next
    case 4
    then show thesis using assms(3) by (intro right [of "i - length l - length tok"]) simp_all
  qed
qed

lemma subst_replace:
  assumes "tokens ps" "tok \<in> set ps" "g tok = m"
    and "clean ps (l @ m @ r) (length l) (length l + length m)"
  shows "restored ps g (l @ tok @ r) = restored ps g (l @ m @ r)"
  using subst_clean [OF assms(1,4)] subst_around_token [OF assms(1,2)] assms(3) by simp

lemma clean_replace:
  assumes "tokens ps" "tok \<in> set ps" "clean ps (l @ m @ r) (length l + length m + a) (length l + length m + b)"
  shows "clean ps (l @ tok @ r) (length l + length tok + a) (length l + length tok + b)"
  unfolding clean_def
proof (intro allI impI notI)
  fix i p
  assume i: "i < length (l @ tok @ r)" and p: "tok_at ps (drop i (l @ tok @ r)) = Some p"
    and ov: "length l + length tok + a < i + length p \<and> i < length l + length tok + b"
  have sh: "token_shape p" "token_shape tok" and pm: "p \<in> set ps" "prefix p (drop i (l @ tok @ r))"
    using assms(1,2) tok_at_SomeD [OF p] by (auto simp: tokens_def list_all_iff)
  from sh pm(2) show False
  proof (cases rule: occurrence_around_token)
    case left
    with ov show False using token_length [OF sh(2)] by linarith
  next
    case here
    with ov show False by simp
  next
    case (right j)
    then have "j < length r" using i by simp
    moreover have "tok_at ps (drop (length l + length m + j) (l @ m @ r)) = Some p"
      using right(2) pm(1) assms(1) by (simp add: tok_at_Some)
    ultimately show False
      using cleanD [OF assms(3), of "length l + length m + j" p] right(1) ov by simp
  qed
qed

end
