(* ===== verification/Redaction.thy ===== *)
theory Redaction
  imports Matching Neutral
begin

text \<open>
  Privacy Guard, the session (\<open>src/core/privacy.rs\<close>): the vault, the automaton cache,
  redaction of a request and restoration of a response. The locks are modelled by passing the
  session along; a failed operation returns the session too, because the counter and the vault
  keep what was done before the error.
\<close>

section \<open>The session\<close>

definition MAX_SESSION_TOKENS :: nat where
  "MAX_SESSION_TOKENS = 4096"

record vault =
  token_to_original :: "(string \<times> string) list"
  value_to_token :: "string \<times> string \<rightharpoonup> string"
  counters :: "string \<rightharpoonup> u64"
  version :: u64

record redaction_session =
  ses_engine :: redaction_engine
  ses_vault :: vault
  ses_automaton :: "(u64 \<times> string list) option"

definition new_session :: "redaction_engine \<Rightarrow> redaction_session" where
  "new_session engine =
     \<lparr>ses_engine = engine,
      ses_vault = \<lparr>token_to_original = [], value_to_token = Map.empty, counters = Map.empty, version = 0\<rparr>,
      ses_automaton = None\<rparr>"

definition token_count :: "redaction_session \<Rightarrow> nat" where
  "token_count S = length (token_to_original (ses_vault S))"

definition lookup :: "redaction_session \<Rightarrow> string \<Rightarrow> string option" where
  "lookup S tok = map_of (token_to_original (ses_vault S)) tok"

text \<open>
  \<open>with_automaton\<close>: the cached automaton when its version is the vault's, otherwise one built
  from the vault's tokens, which becomes the cache. (The second look at the cache, under the
  write lock, reads what the first one read.)
\<close>

definition with_automaton ::
  "matcher \<Rightarrow> redaction_session \<Rightarrow> (string list \<Rightarrow> 'a) \<Rightarrow> 'a option \<times> redaction_session" where
  "with_automaton A S f =
     (let v = version (ses_vault S);
          rebuild =
            (let patterns = hash_keys A (map fst (token_to_original (ses_vault S))) in
             if patterns = [] then (None, S)
             else (Some (f patterns), S\<lparr>ses_automaton := Some (v, patterns)\<rparr>))
      in case ses_automaton S of
           Some (v', ac) \<Rightarrow> if v' = v then (Some (f ac), S) else rebuild
         | None \<Rightarrow> rebuild)"

section \<open>Redaction\<close>

definition email_or_host :: "string \<Rightarrow> string" where
  "email_or_host matched =
     (if CHR ''@'' \<in> set matched then rev (takeWhile (\<lambda>c. c \<noteq> CHR ''@'') (rev matched))
      else
        (case split_once_str ''://'' matched of
           Some (_, rest) \<Rightarrow> takeWhile (\<lambda>c. c \<notin> {CHR ''/'', CHR ''?'', CHR ''#''}) rest
         | None \<Rightarrow> matched))"

definition is_allowed :: "redaction_engine \<Rightarrow> string \<Rightarrow> bool" where
  "is_allowed E matched =
     (if list_ex (\<lambda>re. rx_is_match re matched) (re_allow_patterns E) then True
      else if re_allow_domains E = [] then False
      else
        (let candidate = trim (email_or_host matched) in
         list_ex (\<lambda>d. let d' = trim d in
             d' \<noteq> [] \<and> (candidate = d' \<or> suffix (CHR ''.'' # d') candidate))
           (re_allow_domains E)))"

definition cap_error :: adapter_error where
  "cap_error = Internal (''privacy guard: session token cap ('' @ dec MAX_SESSION_TOKENS
     @ '') reached; refusing to forward unredacted data'')"

definition collision_error :: "string \<Rightarrow> adapter_error" where
  "collision_error token = Internal (''privacy guard: token '' @ token
     @ '' already maps to a different original (colliding rule templates?); refusing to forward unredacted data'')"

definition token_for ::
  "redaction_session \<Rightarrow> compiled_rule \<Rightarrow> string \<Rightarrow> string result \<times> redaction_session" where
  "token_for S rule original =
     (let V = ses_vault S; key = (cr_name rule, original) in
      case value_to_token V key of
        Some token \<Rightarrow> (Inr token, S)
      | None \<Rightarrow>
          if MAX_SESSION_TOKENS \<le> length (token_to_original V) then (Inl cap_error, S)
          else
            (let n = unwrap_or (counters V (cr_name rule)) 0 + 1;
                 V1 = V\<lparr>counters := (counters V)(cr_name rule \<mapsto> n)\<rparr>;
                 token = mint (cr_template rule) (unat n);
                 V2 = V1\<lparr>token_to_original := AList.update token original (token_to_original V1),
                         value_to_token := (value_to_token V1)(key \<mapsto> token),
                         version := version V1 + 1\<rparr>
             in case map_of (token_to_original V1) token of
                  Some existing \<Rightarrow>
                    if existing \<noteq> original then (Inl (collision_error token), S\<lparr>ses_vault := V1\<rparr>)
                    else (Inr token, S\<lparr>ses_vault := V2\<rparr>)
                | None \<Rightarrow> (Inr token, S\<lparr>ses_vault := V2\<rparr>)))"

definition substr :: "string \<Rightarrow> nat \<Rightarrow> nat \<Rightarrow> string" where
  "substr s a b = take (b - a) (drop a s)"

definition overlaps :: "(nat \<times> nat) list \<Rightarrow> nat \<Rightarrow> nat \<Rightarrow> bool" where
  "overlaps spans a b \<longleftrightarrow> list_ex (\<lambda>(s, e). a < e \<and> s < b) spans"

text \<open>The loop over the matches of one rule, with its locals \<open>result\<close>, \<open>last\<close> and \<open>changed\<close>.\<close>

fun redact_loop :: "redaction_session \<Rightarrow> compiled_rule \<Rightarrow> (nat \<times> nat) list \<Rightarrow> string \<Rightarrow> (nat \<times> nat) list
    \<Rightarrow> string \<Rightarrow> nat \<Rightarrow> bool \<Rightarrow> (string \<times> nat \<times> bool) result \<times> redaction_session" where
  "redact_loop S rule spans out [] result last_end changed = (Inr (result, last_end, changed), S)"
| "redact_loop S rule spans out ((s, e) # ms) result last_end changed =
     (if overlaps spans s e then redact_loop S rule spans out ms result last_end changed
      else
        (let result1 = result @ substr out last_end s; m = substr out s e in
         if is_allowed (ses_engine S) m
         then redact_loop S rule spans out ms (result1 @ m) e True
         else
           (case token_for S rule m of
              (Inl err, S1) \<Rightarrow> (Inl err, S1)
            | (Inr tok, S1) \<Rightarrow> redact_loop S1 rule spans out ms (result1 @ tok) e True)))"

definition redact_rule ::
  "matcher \<Rightarrow> redaction_session \<Rightarrow> compiled_rule \<Rightarrow> string \<Rightarrow> string result \<times> redaction_session" where
  "redact_rule A S rule out =
     (let (found, S1) = with_automaton A S (\<lambda>ac. ac_find_iter A ac out);
          token_spans = unwrap_or found []
      in case redact_loop S1 rule token_spans out (rx_find_iter (cr_regex rule) out) [] 0 False of
           (Inl err, S2) \<Rightarrow> (Inl err, S2)
         | (Inr (result, last_end, changed), S2) \<Rightarrow>
             (Inr (if changed then result @ drop last_end out else out), S2))"

fun redact_rules :: "matcher \<Rightarrow> redaction_session \<Rightarrow> compiled_rule list \<Rightarrow> string
    \<Rightarrow> string result \<times> redaction_session" where
  "redact_rules A S [] out = (Inr out, S)"
| "redact_rules A S (rule # rules) out =
     (case redact_rule A S rule out of
        (Inl err, S1) \<Rightarrow> (Inl err, S1)
      | (Inr out1, S1) \<Rightarrow> redact_rules A S1 rules out1)"

definition redact_text :: "matcher \<Rightarrow> redaction_session \<Rightarrow> string \<Rightarrow> string result \<times> redaction_session" where
  "redact_text A S text = redact_rules A S (re_rules (ses_engine S)) text"

fun redact_json :: "matcher \<Rightarrow> redaction_session \<Rightarrow> value \<Rightarrow> value result \<times> redaction_session"
  and redact_items :: "matcher \<Rightarrow> redaction_session \<Rightarrow> value list \<Rightarrow> value list result \<times> redaction_session"
  and redact_entries :: "matcher \<Rightarrow> redaction_session \<Rightarrow> object \<Rightarrow> object result \<times> redaction_session" where
  "redact_json A S (String s) =
     (case redact_text A S s of (Inl err, S1) \<Rightarrow> (Inl err, S1) | (Inr s', S1) \<Rightarrow> (Inr (String s'), S1))"
| "redact_json A S (Array items) =
     (case redact_items A S items of (Inl err, S1) \<Rightarrow> (Inl err, S1) | (Inr xs, S1) \<Rightarrow> (Inr (Array xs), S1))"
| "redact_json A S (Object m) =
     (case redact_entries A S m of (Inl err, S1) \<Rightarrow> (Inl err, S1) | (Inr m', S1) \<Rightarrow> (Inr (Object m'), S1))"
| "redact_json A S v = (Inr v, S)"
| "redact_items A S [] = (Inr [], S)"
| "redact_items A S (v # vs) =
     (case redact_json A S v of
        (Inl err, S1) \<Rightarrow> (Inl err, S1)
      | (Inr v', S1) \<Rightarrow>
          (case redact_items A S1 vs of (Inl err, S2) \<Rightarrow> (Inl err, S2) | (Inr vs', S2) \<Rightarrow> (Inr (v' # vs'), S2)))"
| "redact_entries A S [] = (Inr [], S)"
| "redact_entries A S ((k, v) # m) =
     (case redact_json A S v of
        (Inl err, S1) \<Rightarrow> (Inl err, S1)
      | (Inr v', S1) \<Rightarrow>
          (case redact_entries A S1 m of (Inl err, S2) \<Rightarrow> (Inl err, S2) | (Inr m', S2) \<Rightarrow> (Inr ((k, v') # m'), S2)))"

text \<open>\<open>for x in &mut xs { *x = f(x)? }\<close>, the loop of the callers above \<open>redact_json\<close>.\<close>

fun redact_each :: "(redaction_session \<Rightarrow> 'a \<Rightarrow> 'a result \<times> redaction_session) \<Rightarrow> redaction_session
    \<Rightarrow> 'a list \<Rightarrow> 'a list result \<times> redaction_session" where
  "redact_each f S [] = (Inr [], S)"
| "redact_each f S (x # xs) =
     (case f S x of
        (Inl err, S1) \<Rightarrow> (Inl err, S1)
      | (Inr y, S1) \<Rightarrow>
          (case redact_each f S1 xs of (Inl err, S2) \<Rightarrow> (Inl err, S2) | (Inr ys, S2) \<Rightarrow> (Inr (y # ys), S2)))"

fun redact_block :: "matcher \<Rightarrow> redaction_session \<Rightarrow> content_block \<Rightarrow> content_block result \<times> redaction_session" where
  "redact_block A S (Text t) =
     (case redact_text A S t of (Inl err, S1) \<Rightarrow> (Inl err, S1) | (Inr t', S1) \<Rightarrow> (Inr (Text t'), S1))"
| "redact_block A S (Thinking t sig) =
     (case redact_text A S t of (Inl err, S1) \<Rightarrow> (Inl err, S1) | (Inr t', S1) \<Rightarrow> (Inr (Thinking t' sig), S1))"
| "redact_block A S (ToolResult i c e) =
     (case redact_text A S c of (Inl err, S1) \<Rightarrow> (Inl err, S1) | (Inr c', S1) \<Rightarrow> (Inr (ToolResult i c' e), S1))"
| "redact_block A S (ToolUse i nm input) =
     (case redact_json A S input of (Inl err, S1) \<Rightarrow> (Inl err, S1) | (Inr v, S1) \<Rightarrow> (Inr (ToolUse i nm v), S1))"
| "redact_block A S b = (Inr b, S)"

definition redact_message ::
  "matcher \<Rightarrow> redaction_session \<Rightarrow> neutral_message \<Rightarrow> neutral_message result \<times> redaction_session" where
  "redact_message A S message =
     (case redact_each (redact_block A) S (msg_content message) of
        (Inl err, S1) \<Rightarrow> (Inl err, S1)
      | (Inr bs, S1) \<Rightarrow> (Inr (message\<lparr>msg_content := bs\<rparr>), S1))"

text \<open>\<open>redact_request\<close> works on a clone: on an error the caller's request is what it was.\<close>

definition redact_request :: "matcher \<Rightarrow> redaction_session \<Rightarrow> neutral_request
    \<Rightarrow> unit result \<times> neutral_request \<times> redaction_session" where
  "redact_request A S req =
     (case redact_each (redact_message A) S (req_messages req) of
        (Inl err, S1) \<Rightarrow> (Inl err, req, S1)
      | (Inr ms, S1) \<Rightarrow> (Inr (), req\<lparr>req_messages := ms\<rparr>, S1))"

section \<open>Restoration\<close>

fun restore_loop :: "redaction_session \<Rightarrow> string \<Rightarrow> (nat \<times> nat) list \<Rightarrow> string \<Rightarrow> nat \<Rightarrow> string" where
  "restore_loop S text [] out last_end = out @ drop last_end text"
| "restore_loop S text ((s, e) # ms) out last_end =
     (let token = substr text s e in
      restore_loop S text ms (out @ substr text last_end s @ unwrap_or (lookup S token) token) e)"

definition restore_text :: "matcher \<Rightarrow> redaction_session \<Rightarrow> string \<Rightarrow> string \<times> redaction_session" where
  "restore_text A S text =
     (let (r, S1) = with_automaton A S (\<lambda>ac. restore_loop S text (ac_find_iter A ac text) [] 0)
      in (unwrap_or r text, S1))"

fun restore_json :: "matcher \<Rightarrow> redaction_session \<Rightarrow> value \<Rightarrow> value \<times> redaction_session"
  and restore_items :: "matcher \<Rightarrow> redaction_session \<Rightarrow> value list \<Rightarrow> value list \<times> redaction_session"
  and restore_entries :: "matcher \<Rightarrow> redaction_session \<Rightarrow> object \<Rightarrow> object \<times> redaction_session" where
  "restore_json A S (String s) = (let (s', S1) = restore_text A S s in (String s', S1))"
| "restore_json A S (Array items) = (let (xs, S1) = restore_items A S items in (Array xs, S1))"
| "restore_json A S (Object m) = (let (m', S1) = restore_entries A S m in (Object m', S1))"
| "restore_json A S v = (v, S)"
| "restore_items A S [] = ([], S)"
| "restore_items A S (v # vs) =
     (let (v', S1) = restore_json A S v; (vs', S2) = restore_items A S1 vs in (v' # vs', S2))"
| "restore_entries A S [] = ([], S)"
| "restore_entries A S ((k, v) # m) =
     (let (v', S1) = restore_json A S v; (m', S2) = restore_entries A S1 m in ((k, v') # m', S2))"

fun restore_each :: "(redaction_session \<Rightarrow> 'a \<Rightarrow> 'a \<times> redaction_session) \<Rightarrow> redaction_session
    \<Rightarrow> 'a list \<Rightarrow> 'a list \<times> redaction_session" where
  "restore_each f S [] = ([], S)"
| "restore_each f S (x # xs) = (let (y, S1) = f S x; (ys, S2) = restore_each f S1 xs in (y # ys, S2))"

fun restore_block :: "matcher \<Rightarrow> redaction_session \<Rightarrow> content_block \<Rightarrow> content_block \<times> redaction_session" where
  "restore_block A S (Text t) = (let (t', S1) = restore_text A S t in (Text t', S1))"
| "restore_block A S (Thinking t sig) = (let (t', S1) = restore_text A S t in (Thinking t' sig, S1))"
| "restore_block A S (ToolUse i nm input) = (let (v, S1) = restore_json A S input in (ToolUse i nm v, S1))"
| "restore_block A S (ToolResult i c e) = (let (c', S1) = restore_text A S c in (ToolResult i c' e, S1))"
| "restore_block A S b = (b, S)"

definition restore_response ::
  "matcher \<Rightarrow> redaction_session \<Rightarrow> neutral_response \<Rightarrow> neutral_response \<times> redaction_session" where
  "restore_response A S resp =
     (let (bs, S1) = restore_each (restore_block A) S (resp_content resp) in (resp\<lparr>resp_content := bs\<rparr>, S1))"

section \<open>The session invariant\<close>

abbreviation keys :: "redaction_session \<Rightarrow> string list" where
  "keys S \<equiv> map fst (token_to_original (ses_vault S))"

definition original :: "redaction_session \<Rightarrow> string \<Rightarrow> string" where
  "original S tok = unwrap_or (lookup S tok) tok"

text \<open>
  Every token was minted by a rule with a counter that was reached, no token occurs twice, the
  reverse map agrees with the vault, and the version counts the tokens, whose number is capped.
\<close>

definition minted :: "redaction_engine \<Rightarrow> vault \<Rightarrow> string \<Rightarrow> bool" where
  "minted E V tok \<longleftrightarrow>
     (\<exists>r \<in> set (re_rules E). \<exists>n. tok = mint (cr_template r) n \<and> 0 < n \<and>
        n \<le> unat (unwrap_or (counters V (cr_name r)) 0))"

definition vault_ok :: "redaction_engine \<Rightarrow> vault \<Rightarrow> bool" where
  "vault_ok E V \<longleftrightarrow>
     distinct (map fst (token_to_original V)) \<and>
     (\<forall>tok \<in> set (map fst (token_to_original V)). minted E V tok) \<and>
     (\<forall>nm. unat (unwrap_or (counters V nm) 0) \<le> length (token_to_original V)) \<and>
     unat (version V) = length (token_to_original V) \<and>
     length (token_to_original V) \<le> MAX_SESSION_TOKENS \<and>
     (\<forall>nm v tok. value_to_token V (nm, v) = Some tok \<longrightarrow> map_of (token_to_original V) tok = Some v)"

definition cache_ok :: "redaction_session \<Rightarrow> bool" where
  "cache_ok S \<longleftrightarrow>
     (\<forall>v ps. ses_automaton S = Some (v, ps) \<longrightarrow>
        v \<noteq> 0 \<and> unat v \<le> length (keys S) \<and> set ps = set (take (unat v) (keys S)))"

definition session_ok :: "redaction_session \<Rightarrow> bool" where
  "session_ok S \<longleftrightarrow> engine_ok (ses_engine S) \<and> vault_ok (ses_engine S) (ses_vault S) \<and> cache_ok S"

text \<open>\<open>S'\<close> is a later state of the session: the vault only grows.\<close>

definition extends :: "redaction_session \<Rightarrow> redaction_session \<Rightarrow> bool" where
  "extends S S' \<longleftrightarrow> ses_engine S' = ses_engine S \<and>
     (\<exists>xs. token_to_original (ses_vault S') = token_to_original (ses_vault S) @ xs)"

lemma extends_refl [simp, intro]: "extends S S"
  by (simp add: extends_def)

lemma extends_trans [trans]: "extends S S' \<Longrightarrow> extends S' S'' \<Longrightarrow> extends S S''"
  by (auto simp: extends_def)

lemma extends_keys: "extends S S' \<Longrightarrow> set (keys S) \<subseteq> set (keys S')"
  by (auto simp: extends_def)

lemma extends_lookup: "extends S S' \<Longrightarrow> lookup S tok = Some v \<Longrightarrow> lookup S' tok = Some v"
  by (auto simp: extends_def lookup_def map_add_Some_iff)

lemma new_session_ok: "engine_ok E \<Longrightarrow> session_ok (new_session E)"
  by (simp add: session_ok_def new_session_def vault_ok_def cache_ok_def)

lemma minted_shape: "engine_ok E \<Longrightarrow> minted E V tok \<Longrightarrow> token_shape tok"
  by (auto simp: minted_def engine_ok_def intro: mint_shape)

lemma keys_tokens: "session_ok S \<Longrightarrow> tokens (keys S)"
  by (auto simp: session_ok_def vault_ok_def tokens_def list_all_iff intro: minted_shape)

lemma lookup_key: "lookup S tok = Some v \<Longrightarrow> tok \<in> set (keys S)"
  by (auto simp: lookup_def dest: map_of_SomeD intro: rev_image_eqI)

section \<open>The automaton cache is coherent\<close>

lemma with_automaton_ok:
  assumes "session_ok S" "matcher_ok A" "with_automaton A S f = (r, S')"
  shows "session_ok S'" "ses_vault S' = ses_vault S" "ses_engine S' = ses_engine S"
    "(keys S = [] \<and> r = None) \<or> (keys S \<noteq> [] \<and> (\<exists>ps. set ps = set (keys S) \<and> r = Some (f ps)))"
proof -
  let ?V = "ses_vault S"
  let ?ps = "hash_keys A (keys S)"
  have d: "distinct (keys S)" and v: "unat (version ?V) = length (keys S)"
    using assms(1) by (simp_all add: session_ok_def vault_ok_def)
  from d assms(2) have ps: "set ?ps = set (keys S)" by (simp add: matcher_ok_def)
  have built: "session_ok S' \<and> ses_vault S' = ?V \<and> ses_engine S' = ses_engine S \<and>
      ((keys S = [] \<and> r = None) \<or> (keys S \<noteq> [] \<and> (\<exists>ps. set ps = set (keys S) \<and> r = Some (f ps))))"
    if b: "(r, S') = (if ?ps = [] then (None, S) else (Some (f ?ps), S\<lparr>ses_automaton := Some (version ?V, ?ps)\<rparr>))"
  proof (cases "?ps = []")
    case True
    with b ps assms(1) show ?thesis by simp
  next
    case False
    then have "version ?V \<noteq> 0" using v ps by (metis length_0_conv set_empty unsigned_0)
    then have "cache_ok (S\<lparr>ses_automaton := Some (version ?V, ?ps)\<rparr>)" using v ps by (simp add: cache_ok_def)
    with b False ps assms(1) show ?thesis by (auto simp: session_ok_def)
  qed
  have "session_ok S' \<and> ses_vault S' = ?V \<and> ses_engine S' = ses_engine S \<and>
      ((keys S = [] \<and> r = None) \<or> (keys S \<noteq> [] \<and> (\<exists>ps. set ps = set (keys S) \<and> r = Some (f ps))))"
  proof (cases "ses_automaton S")
    case None
    with assms(3) show ?thesis by (intro built) (simp add: with_automaton_def Let_def)
  next
    case (Some c)
    obtain v' ac where c: "c = (v', ac)" by (cases c)
    show ?thesis
    proof (cases "v' = version ?V")
      case True
      with Some c assms(1) v have "set ac = set (keys S)" "version ?V \<noteq> 0"
        by (simp_all add: session_ok_def cache_ok_def)
      moreover from this v have "keys S \<noteq> []" by (metis length_0_conv unsigned_0 word_unat_eq_iff)
      ultimately show ?thesis using Some c True assms(1,3) by (auto simp: with_automaton_def Let_def)
    next
      case False
      with Some c assms(3) show ?thesis by (intro built) (simp add: with_automaton_def Let_def)
    qed
  qed
  then show "session_ok S'" "ses_vault S' = ses_vault S" "ses_engine S' = ses_engine S"
    "(keys S = [] \<and> r = None) \<or> (keys S \<noteq> [] \<and> (\<exists>ps. set ps = set (keys S) \<and> r = Some (f ps)))" by auto
qed

lemma with_automaton_extends:
  "session_ok S \<Longrightarrow> matcher_ok A \<Longrightarrow> with_automaton A S f = (r, S') \<Longrightarrow> extends S S' \<and> keys S' = keys S"
  using with_automaton_ok(2,3) [of S A f r S'] by (simp add: extends_def)

section \<open>Minting\<close>

lemma update_fresh: "k \<notin> set (map fst m) \<Longrightarrow> AList.update k v m = m @ [(k, v)]"
  by (induction m) auto

lemma minted_mono:
  "minted E V tok \<Longrightarrow> (\<And>nm. unwrap_or (counters V nm) 0 \<le> unwrap_or (counters V' nm) 0) \<Longrightarrow> minted E V' tok"
  unfolding minted_def by (meson order_trans word_le_nat_alt)

text \<open>The three outcomes of \<open>token_for\<close>; its collision error is not one of them.\<close>

lemma token_for_cases:
  assumes "session_ok S" "rule \<in> set (re_rules (ses_engine S))"
  obtains (reuse) tok where "token_for S rule m = (Inr tok, S)"
      "value_to_token (ses_vault S) (cr_name rule, m) = Some tok" "lookup S tok = Some m"
  | (cap) "token_for S rule m = (Inl cap_error, S)" "token_count S = MAX_SESSION_TOKENS"
      "value_to_token (ses_vault S) (cr_name rule, m) = None"
  | (fresh) tok S' where "token_for S rule m = (Inr tok, S')" "session_ok S'" "extends S S'"
      "tok \<notin> set (keys S)" "keys S' = keys S @ [tok]" "lookup S' tok = Some m"
      "value_to_token (ses_vault S') = (value_to_token (ses_vault S))((cr_name rule, m) \<mapsto> tok)"
      "value_to_token (ses_vault S) (cr_name rule, m) = None"
      "tok = mint (cr_template rule) (unat (unwrap_or (counters (ses_vault S) (cr_name rule)) 0) + 1)"
proof -
  let ?V = "ses_vault S" let ?E = "ses_engine S" let ?nm = "cr_name rule"
  let ?TO = "token_to_original ?V"
  let ?n = "unwrap_or (counters ?V ?nm) 0"
  have ok: "engine_ok ?E" "vault_ok ?E ?V" "cache_ok S" using assms(1) by (simp_all add: session_ok_def)
  show thesis
  proof (cases "value_to_token ?V (?nm, m)")
    case (Some tok)
    then have "lookup S tok = Some m" using ok(2) by (simp add: vault_ok_def lookup_def)
    with Some show thesis by (intro reuse) (simp_all add: token_for_def Let_def)
  next
    case None
    show thesis
    proof (cases "MAX_SESSION_TOKENS \<le> length ?TO")
      case True
      then have "token_count S = MAX_SESSION_TOKENS" using ok(2) by (simp add: vault_ok_def token_count_def)
      with True None show thesis by (intro cap) (simp_all add: token_for_def Let_def)
    next
      case False
      have cnt: "unat ?n \<le> length ?TO" "unat (version ?V) = length ?TO" "length ?TO < 4096"
        using ok(2) False by (auto simp: vault_ok_def MAX_SESSION_TOKENS_def)
      then have n1: "unat (?n + 1) = unat ?n + 1" and v1: "unat (version ?V + 1) = unat (version ?V) + 1"
        by (simp_all add: unat_add_lem [THEN iffD1])
      define tok where "tok = mint (cr_template rule) (unat (?n + 1))"
      define V' where "V' = ?V\<lparr>counters := (counters ?V)(?nm \<mapsto> ?n + 1), token_to_original := ?TO @ [(tok, m)],
          value_to_token := (value_to_token ?V)((?nm, m) \<mapsto> tok), version := version ?V + 1\<rparr>"
      have new: "tok \<notin> set (keys S)"
      proof
        assume "tok \<in> set (keys S)"
        then have "minted ?E ?V tok" using ok(2) by (auto simp: vault_ok_def)
        then obtain r k where r: "r \<in> set (re_rules ?E)" "tok = mint (cr_template r) k" "0 < k"
          "k \<le> unat (unwrap_or (counters ?V (cr_name r)) 0)" by (auto simp: minted_def)
        have "0 < unat (?n + 1)" using n1 by linarith
        then have "rule = r \<and> unat (?n + 1) = k"
          using engine_mint_inj [OF ok(1) assms(2) r(1)] r(2,3) unfolding tok_def by blast
        with r(4) n1 show False by auto
      qed
      have upd: "AList.update tok m ?TO = ?TO @ [(tok, m)]"
        using new by (simp add: update_fresh)
      have "map_of ?TO tok = None" using new by (simp add: map_of_eq_None_iff)
      then have tf: "token_for S rule m = (Inr tok, S\<lparr>ses_vault := V'\<rparr>)"
        using None False by (simp add: token_for_def Let_def tok_def [symmetric] V'_def upd)
      have "minted ?E V' tok" unfolding minted_def using assms(2) n1
        by (intro bexI [of _ rule] exI [of _ "unat (?n + 1)"]) (simp_all add: tok_def V'_def)
      moreover have "minted ?E V' t" if t: "t \<in> set (keys S)" for t
      proof (rule minted_mono)
        show "minted ?E ?V t" using ok(2) t unfolding vault_ok_def by blast
        have "?n \<le> ?n + 1" using n1 by (simp add: word_le_nat_alt)
        then show "unwrap_or (counters ?V nm) 0 \<le> unwrap_or (counters V' nm) 0" for nm
          by (simp add: V'_def)
      qed
      moreover have "set (map fst (token_to_original V')) = insert tok (set (keys S))" by (simp add: V'_def)
      ultimately have m: "\<forall>t \<in> set (map fst (token_to_original V')). minted ?E V' t" by simp
      have c: "unat (unwrap_or (counters V' nm) 0) \<le> length (token_to_original V')" for nm
        using ok(2) n1 cnt(1) by (simp add: V'_def vault_ok_def le_SucI)
      have r: "map_of (token_to_original V') t = Some v" if "value_to_token V' (nm, v) = Some t" for nm v t
        using that ok(2) \<open>map_of ?TO tok = None\<close>
        by (auto simp: V'_def vault_ok_def map_add_Some_iff split: if_splits)
      have "vault_ok ?E V'" unfolding vault_ok_def
        using m c r ok(2) new cnt v1 by (simp add: V'_def vault_ok_def MAX_SESSION_TOKENS_def)
      moreover have "cache_ok (S\<lparr>ses_vault := V'\<rparr>)" using ok(3) by (simp add: cache_ok_def V'_def le_SucI)
      ultimately have "session_ok (S\<lparr>ses_vault := V'\<rparr>)" using ok(1) by (simp add: session_ok_def)
      moreover have "lookup (S\<lparr>ses_vault := V'\<rparr>) tok = Some m"
        using new by (simp add: lookup_def V'_def map_add_Some_iff map_of_eq_None_iff)
      ultimately show thesis using tf new None n1
        by (intro fresh [of tok "S\<lparr>ses_vault := V'\<rparr>"]) (simp_all add: extends_def V'_def tok_def)
    qed
  qed
qed

lemma token_for_Inr:
  assumes "session_ok S" "rule \<in> set (re_rules (ses_engine S))" "token_for S rule m = (Inr tok, S')"
  shows "session_ok S' \<and> extends S S' \<and> lookup S' tok = Some m \<and>
    set (keys S') = insert tok (set (keys S)) \<and> value_to_token (ses_vault S') (cr_name rule, m) = Some tok"
  using assms(1,2)
proof (cases rule: token_for_cases [of S rule m])
  case (reuse tok')
  with assms(1,3) lookup_key [of S tok'] show ?thesis by (simp add: insert_absorb)
next
  case cap
  with assms(3) show ?thesis by simp
next
  case (fresh tok' S1)
  then have "tok' = tok" "S1 = S'" using assms(3) by simp_all
  then have "set (keys S') = insert tok (set (keys S))" using fresh(5) by (metis list.simps(15) rotate1.simps(2) set_rotate1)
  with fresh \<open>tok' = tok\<close> \<open>S1 = S'\<close> show ?thesis by simp
qed

section \<open>One rule's pass\<close>

text \<open>The documented contract of a compiled pattern: its matches lie in the text, in order.\<close>

fun matches_ok :: "nat \<Rightarrow> nat \<Rightarrow> (nat \<times> nat) list \<Rightarrow> bool" where
  "matches_ok n lo [] \<longleftrightarrow> True"
| "matches_ok n lo ((s, e) # ms) \<longleftrightarrow> lo \<le> s \<and> s \<le> e \<and> e \<le> n \<and> matches_ok n e ms"

definition regex_ok :: "regex \<Rightarrow> bool" where
  "regex_ok rx \<longleftrightarrow> (\<forall>t. matches_ok (length t) 0 (rx_find_iter rx t))"

definition regexes_ok :: "redaction_engine \<Rightarrow> bool" where
  "regexes_ok E \<longleftrightarrow> (\<forall>r \<in> set (re_rules E). regex_ok (cr_regex r))"

lemma matches_ok_mono: "matches_ok n lo ms \<Longrightarrow> lo' \<le> lo \<Longrightarrow> matches_ok n lo' ms"
  by (cases ms) auto

lemma matches_ok_mem: "matches_ok n lo ms \<Longrightarrow> (s, e) \<in> set ms \<Longrightarrow> lo \<le> s \<and> s \<le> e \<and> e \<le> n"
proof (induction n lo ms rule: matches_ok.induct)
  case (2 n lo s' e' ms)
  then show ?case by (auto dest: order_trans)
qed simp

text \<open>An operation that fails has met the cap, and nothing else.\<close>

definition fails_closed :: "'a result \<Rightarrow> redaction_session \<Rightarrow> bool" where
  "fails_closed r S \<longleftrightarrow> (\<forall>err. r = Inl err \<longrightarrow> err = cap_error \<and> token_count S = MAX_SESSION_TOKENS)"

lemma fails_closed_Inr [simp]: "fails_closed (Inr x) S"
  by (simp add: fails_closed_def)

lemma extends_rules: "extends S S' \<Longrightarrow> ses_engine S' = ses_engine S"
  by (simp add: extends_def)

lemma redact_loop_ok:
  "redact_loop S rule spans out ms result l c = (r, S') \<Longrightarrow> session_ok S \<Longrightarrow>
   rule \<in> set (re_rules (ses_engine S)) \<Longrightarrow> session_ok S' \<and> extends S S' \<and> fails_closed r S'"
proof (induction S rule spans out ms result l c rule: redact_loop.induct)
  case (2 S rule spans out s e ms result l c)
  let ?m = "substr out s e"
  show ?case
  proof (cases "overlaps spans s e \<or> is_allowed (ses_engine S) ?m")
    case True
    then show ?thesis
      using "2.IH"(1,2) "2.prems" by (auto simp: Let_def split: if_splits)
  next
    case False
    from "2.prems"(2,3) show ?thesis
    proof (cases rule: token_for_cases [of S rule ?m])
      case (reuse tok)
      then show ?thesis using False "2.prems" "2.IH"(3) [OF _ refl refl _ reuse(1) [symmetric] refl]
        by (auto simp: Let_def)
    next
      case cap
      then show ?thesis using False "2.prems" by (auto simp: Let_def fails_closed_def)
    next
      case (fresh tok S1)
      then have "session_ok S' \<and> extends S1 S' \<and> fails_closed r S'"
        using False "2.prems" "2.IH"(3) [OF _ refl refl _ fresh(1) [symmetric] refl]
        by (auto simp: Let_def extends_rules)
      with fresh(3) show ?thesis using extends_trans by blast
    qed
  qed
qed auto

lemma redact_rule_ok:
  assumes "redact_rule A S rule out = (r, S')" "matcher_ok A" "session_ok S"
    "rule \<in> set (re_rules (ses_engine S))"
  shows "session_ok S' \<and> extends S S' \<and> fails_closed r S'"
proof -
  obtain f S1 where w: "with_automaton A S (\<lambda>ac. ac_find_iter A ac out) = (f, S1)" by fastforce
  note w1 = with_automaton_ok(1,3) [OF assms(3,2) w] with_automaton_extends [OF assms(3,2) w]
  obtain q S2 where l: "redact_loop S1 rule (unwrap_or f []) out (rx_find_iter (cr_regex rule) out) [] 0 False = (q, S2)"
    by fastforce
  from redact_loop_ok [OF l] w1 assms(4) have "session_ok S2 \<and> extends S S2 \<and> fails_closed q S2"
    using extends_trans by auto
  with assms(1) w l show ?thesis
    by (auto simp: redact_rule_def fails_closed_def split: sum.splits prod.splits)
qed

lemma redact_rules_ok:
  "redact_rules A S rules out = (r, S') \<Longrightarrow> matcher_ok A \<Longrightarrow> session_ok S \<Longrightarrow>
   set rules \<subseteq> set (re_rules (ses_engine S)) \<Longrightarrow> session_ok S' \<and> extends S S' \<and> fails_closed r S'"
proof (induction A S rules out rule: redact_rules.induct)
  case (2 A S rule rules out)
  obtain q S1 where q: "redact_rule A S rule out = (q, S1)" by fastforce
  then have ok: "session_ok S1 \<and> extends S S1 \<and> fails_closed q S1"
    using "2.prems" by (intro redact_rule_ok) auto
  show ?case
  proof (cases q)
    case (Inl err)
    then show ?thesis using "2.prems"(1) q ok by (simp add: fails_closed_def)
  next
    case (Inr out1)
    then have "session_ok S' \<and> extends S1 S' \<and> fails_closed r S'"
      using "2.IH" [OF q [symmetric]] "2.prems" q ok by (simp add: extends_rules [of S S1])
    with ok show ?thesis using extends_trans by blast
  qed
qed auto

section \<open>Redaction can be undone\<close>

text \<open>In \<open>t\<close>, the tokens of the (later) session \<open>F\<close> that occur all belong to \<open>K\<close>.\<close>

definition occurs_only :: "redaction_session \<Rightarrow> string \<Rightarrow> string set \<Rightarrow> bool" where
  "occurs_only F t K \<longleftrightarrow> (\<forall>i < length t. \<forall>p. tok_at (keys F) (drop i t) = Some p \<longrightarrow> p \<in> K)"

definition absent :: "redaction_session \<Rightarrow> string \<Rightarrow> bool" where
  "absent F t \<longleftrightarrow> occurs_only F t {}"

definition undone :: "redaction_session \<Rightarrow> string \<Rightarrow> string" where
  "undone F t = restored (keys F) (original F) t"

lemma occurs_onlyD: "occurs_only F t K \<Longrightarrow> i < length t \<Longrightarrow> tok_at (keys F) (drop i t) = Some p \<Longrightarrow> p \<in> K"
  by (auto simp: occurs_only_def)

lemma occurs_only_mono: "occurs_only F t K \<Longrightarrow> K \<subseteq> K' \<Longrightarrow> occurs_only F t K'"
  by (auto simp: occurs_only_def)

lemma absent_undone: "absent F t \<Longrightarrow> undone F t = t"
proof -
  assume a: "absent F t"
  show ?thesis unfolding undone_def
  proof (rule subst_id)
    fix i assume "i < length t"
    with a show "tok_at (keys F) (drop i t) = None"
      by (cases "tok_at (keys F) (drop i t)") (auto simp: absent_def occurs_only_def)
  qed
qed

lemma substr_drop: "l \<le> s \<Longrightarrow> substr t l s @ drop s t = drop l t"
proof -
  assume "l \<le> s"
  then have "drop s t = drop (s - l) (drop l t)" by simp
  then show ?thesis by (simp only: substr_def append_take_drop_id)
qed

lemma substr_join: "l \<le> s \<Longrightarrow> s \<le> e \<Longrightarrow> substr t l s @ substr t s e @ drop e t = drop l t"
  by (simp only: substr_drop)

lemma length_substr [simp]: "e \<le> length t \<Longrightarrow> length (substr t s e) = e - s"
  unfolding substr_def by simp

lemma occurs_only_token:
  assumes "session_ok F" "tok \<in> set (keys F)" "occurs_only F (l @ m @ r) K"
  shows "occurs_only F (l @ tok @ r) (insert tok K)"
  unfolding occurs_only_def
proof (intro allI impI)
  fix i p
  assume i: "i < length (l @ tok @ r)" and p: "tok_at (keys F) (drop i (l @ tok @ r)) = Some p"
  note tk = keys_tokens [OF assms(1)]
  have pm: "p \<in> set (keys F)" "prefix p (drop i (l @ tok @ r))" using tok_at_SomeD [OF p] by blast+
  have sh: "token_shape p" "token_shape tok"
    using tk pm(1) assms(2) unfolding tokens_def list_all_iff by blast+
  from sh pm(2) show "p \<in> insert tok K"
  proof (cases rule: occurrence_around_token)
    case left
    then have "tok_at (keys F) (drop i (l @ m @ r)) = Some p" "i < length (l @ m @ r)"
      using pm(1) tk token_length [OF sh(1)] by (auto simp: tok_at_Some)
    with occurs_onlyD [OF assms(3)] show ?thesis by simp
  next
    case (right j)
    then have "tok_at (keys F) (drop (length l + length m + j) (l @ m @ r)) = Some p" "j < length r"
      using pm(1) tk i by (simp_all add: tok_at_Some)
    with occurs_onlyD [OF assms(3), of "length l + length m + j"] show ?thesis by simp
  qed simp
qed

lemma redact_loop_unchanged:
  "redact_loop S rule spans out ms result l c = (Inr (result', l', c'), S') \<Longrightarrow> \<not> c' \<Longrightarrow>
   \<not> c \<and> result' = result \<and> l' = l"
proof (induction S rule spans out ms result l c rule: redact_loop.induct)
  case (2 S rule spans out s e ms result l c)
  show ?case
  proof (cases "overlaps spans s e")
    case True
    with "2.IH"(1) "2.prems" show ?thesis by simp
  next
    case no: False
    show ?thesis
    proof (cases "is_allowed (ses_engine S) (substr out s e)")
      case True
      with "2.IH"(2) [OF no refl refl True] "2.prems" no show ?thesis by (simp add: Let_def)
    next
      case al: False
      then obtain tok S1 where tf: "token_for S rule (substr out s e) = (Inr tok, S1)"
        using "2.prems"(1) no by (simp add: Let_def split: prod.splits sum.splits)
      from "2.IH"(3) [OF no refl refl al tf [symmetric] refl] "2.prems" no al tf
      show ?thesis by (simp add: Let_def)
    qed
  qed
qed simp

text \<open>
  The matches still to come lie clear of every token in the text that is being rewritten: this
  and the two facts on its tokens are the loop's invariant.
\<close>

definition pending :: "redaction_session \<Rightarrow> (nat \<times> nat) list \<Rightarrow> string \<Rightarrow> nat \<Rightarrow> nat \<Rightarrow> (nat \<times> nat) list \<Rightarrow> bool" where
  "pending F spans t k l ms \<longleftrightarrow>
     (\<forall>(s, e) \<in> set ms. overlaps spans s e \<or> clean (keys F) t (k + (s - l)) (k + (e - l)))"

lemma pendingD:
  "pending F spans t k l ms \<Longrightarrow> (s, e) \<in> set ms \<Longrightarrow>
   overlaps spans s e \<or> clean (keys F) t (k + (s - l)) (k + (e - l))"
  by (auto simp: pending_def)

lemma pending_token:
  assumes "session_ok F" "tok \<in> set (keys F)" "matches_ok n e ms" "k \<le> e" "k + (e - k) = e"
    and "pending F spans (a @ m @ r) k' l ms" "k' + (e - l) = length a + length m" "l \<le> e"
  shows "pending F spans (a @ tok @ r) (length a + length tok) e ms"
  unfolding pending_def
proof (intro ballI, clarify)
  fix s' e'
  assume mem: "(s', e') \<in> set ms" and no: "\<not> clean (keys F) (a @ tok @ r) (length a + length tok + (s' - e)) (length a + length tok + (e' - e))"
  from matches_ok_mem [OF assms(3) mem] have o: "e \<le> s'" "s' \<le> e'" by auto
  have "\<not> clean (keys F) (a @ m @ r) (length a + length m + (s' - e)) (length a + length m + (e' - e))"
    using no clean_replace [OF keys_tokens [OF assms(1)] assms(2)] by blast
  moreover have "k' + (s' - l) = length a + length m + (s' - e)" "k' + (e' - l) = length a + length m + (e' - e)"
    using assms(7,8) o by linarith+
  ultimately show "overlaps spans s' e'" using pendingD [OF assms(6) mem] by simp
qed

lemma redact_loop_inv:
  "redact_loop S rule spans out ms result l c = (Inr (result', l', c'), S') \<Longrightarrow>
   session_ok S \<Longrightarrow> rule \<in> set (re_rules (ses_engine S)) \<Longrightarrow> session_ok F \<Longrightarrow> extends S' F \<Longrightarrow>
   matches_ok (length out) l ms \<Longrightarrow> l \<le> length out \<Longrightarrow>
   undone F (result @ drop l out) = t \<Longrightarrow> occurs_only F (result @ drop l out) (set (keys S)) \<Longrightarrow>
   pending F spans (result @ drop l out) (length result) l ms \<Longrightarrow>
   undone F (result' @ drop l' out) = t \<and> occurs_only F (result' @ drop l' out) (set (keys S'))"
proof (induction S rule spans out ms result l c rule: redact_loop.induct)
  case (2 S rule spans out s e ms result l c)
  note prems = "2.prems"
  let ?m = "substr out s e" let ?a = "result @ substr out l s" let ?r = "drop e out"
  have mo: "l \<le> s" "s \<le> e" "e \<le> length out" "matches_ok (length out) e ms" using prems(6) by auto
  have T: "result @ drop l out = ?a @ ?m @ ?r" using substr_join [of l s e out] mo by simp
  have pd: "pending F spans (?a @ ?m @ ?r) (length result) l ms"
    using prems(10) by (simp add: pending_def T)
  show ?case
  proof (cases "overlaps spans s e")
    case True
    have "matches_ok (length out) l ms" using mo matches_ok_mono by (meson order_trans)
    with True prems pd show ?thesis by (intro "2.IH"(1)) (simp_all add: T)
  next
    case no: False
    have cl: "clean (keys F) (?a @ ?m @ ?r) (length ?a) (length ?a + length ?m)"
      using prems(10) no mo by (simp add: pending_def T)
    show ?thesis
    proof (cases "is_allowed (ses_engine S) ?m")
      case True
      have "pending F spans ((?a @ ?m) @ ?r) (length (?a @ ?m)) e ms"
        unfolding pending_def
      proof (intro ballI, clarify)
        fix s' e' assume mem: "(s', e') \<in> set ms"
          and nc: "\<not> clean (keys F) ((?a @ ?m) @ ?r) (length (?a @ ?m) + (s' - e)) (length (?a @ ?m) + (e' - e))"
        have "length (?a @ ?m) + (s' - e) = length result + (s' - l)" "length (?a @ ?m) + (e' - e) = length result + (e' - l)"
          using matches_ok_mem [OF mo(4) mem] mo by simp_all
        then have "\<not> clean (keys F) (?a @ ?m @ ?r) (length result + (s' - l)) (length result + (e' - l))"
          using nc by (simp only: append_assoc not_False_eq_True)
        then show "overlaps spans s' e'" using pendingD [OF pd mem] by blast
      qed
      with True no prems mo show ?thesis
        by (intro "2.IH"(2) [OF no refl refl True]) (simp_all add: T Let_def)
    next
      case al: False
      obtain tok S1 where tf: "token_for S rule ?m = (Inr tok, S1)"
        using prems(1) no al by (auto simp: Let_def split: prod.splits sum.splits)
      have s1: "session_ok S1" "extends S S1" "lookup S1 tok = Some ?m" "set (keys S1) = insert tok (set (keys S))"
        using token_for_Inr [OF prems(2,3) tf] by simp_all
      have run: "redact_loop S1 rule spans out ms (?a @ tok) e True = (Inr (result', l', c'), S')"
        using prems(1) no al tf by (simp add: Let_def)
      have "extends S1 S'" using redact_loop_ok [OF run s1(1)] prems(3) s1(2) extends_rules by fastforce
      then have lf: "lookup F tok = Some ?m" using prems(5) s1(3) extends_lookup by blast
      then have tk: "tok \<in> set (keys F)" by (rule lookup_key)
      have u: "undone F ((?a @ tok) @ ?r) = t"
        using subst_replace [OF keys_tokens [OF prems(4)] tk _ cl, of "original F"] lf prems(8)
        by (simp add: undone_def original_def T)
      have oc: "occurs_only F ((?a @ tok) @ ?r) (set (keys S1))"
        using occurs_only_token [OF prems(4) tk, of ?a ?m ?r "set (keys S)"] prems(9) s1(4) by (simp add: T)
      have "pending F spans (?a @ tok @ ?r) (length ?a + length tok) e ms"
        using mo by (intro pending_token [OF prems(4) tk mo(4) _ _ pd]) auto
      then have pd': "pending F spans ((?a @ tok) @ ?r) (length (?a @ tok)) e ms"
        by (simp only: append_assoc length_append add.assoc)
      have ru: "rule \<in> set (re_rules (ses_engine S1))" using prems(3) extends_rules [OF s1(2)] by simp
      show ?thesis
        by (rule "2.IH"(3) [OF no refl refl al tf [symmetric] refl run s1(1) ru prems(4,5) mo(4,3) u oc pd'])
    qed
  qed
qed auto

text \<open>The spans the code asks the automaton for are the vault's tokens, cached or not.\<close>

lemma with_automaton_spans:
  assumes "session_ok S" "matcher_ok A" "with_automaton A S (\<lambda>ac. ac_find_iter A ac out) = (f, S')"
  shows "unwrap_or f [] = lm_iter (keys S) 0 0 out"
proof -
  note w = with_automaton_ok(4) [OF assms] and tk = keys_tokens [OF assms(1)]
  show ?thesis
  proof (cases "keys S = []")
    case True
    then have "lm_iter (keys S) i k out = []" for i k
      by (induction "keys S" i k out rule: lm_iter.induct) (auto simp: tok_at_None split: option.split)
    with True w show ?thesis by auto
  next
    case False
    with w obtain ps where ps: "set ps = set (keys S)" "f = Some (ac_find_iter A ps out)" by auto
    then have "tokens ps" using tk by (simp add: tokens_def list_all_iff)
    with ps show ?thesis using lm_iter_order [of ps "keys S"] by (simp add: matcher_find_iter [OF assms(2)])
  qed
qed

lemma redact_rule_inv:
  assumes "redact_rule A S rule out = (Inr out', S')" "matcher_ok A" "session_ok S"
    and "rule \<in> set (re_rules (ses_engine S))" "regex_ok (cr_regex rule)"
    and "session_ok F" "extends S' F" "undone F out = t" "occurs_only F out (set (keys S))"
  shows "undone F out' = t \<and> occurs_only F out' (set (keys S'))"
proof -
  obtain f S1 where w: "with_automaton A S (\<lambda>ac. ac_find_iter A ac out) = (f, S1)" by fastforce
  note w1 = with_automaton_ok [OF assms(3,2) w] and w2 = with_automaton_extends [OF assms(3,2) w]
  let ?spans = "unwrap_or f []" and ?ms = "rx_find_iter (cr_regex rule) out"
  obtain result l c where
    loop: "redact_loop S1 rule ?spans out ?ms [] 0 False = (Inr (result, l, c), S')"
    and out': "out' = (if c then result @ drop l out else out)"
    using assms(1) w by (auto simp: redact_rule_def split: sum.splits prod.splits)
  have out'2: "out' = result @ drop l out" using out' redact_loop_unchanged [OF loop] by auto
  have ru: "rule \<in> set (re_rules (ses_engine S1))" using assms(4) w1(3) by simp
  have le: "extends S F" using w2 redact_loop_ok [OF loop w1(1) ru] assms(7) extends_trans by blast
  note tk = keys_tokens [OF assms(3)] and tkF = keys_tokens [OF assms(6)]
  note spans = with_automaton_spans [OF assms(3,2) w]
  have "clean (keys F) out s e" if "\<not> overlaps ?spans s e" for s e
  proof -
    have "clean (keys S) out s e"
      using that tk by (intro clean_spans) (simp_all add: spans overlaps_def)
    moreover have "tok_at (keys S) (drop i out) = Some p"
      if "i < length out" "tok_at (keys F) (drop i out) = Some p" for i p
      using occurs_onlyD [OF assms(9) that] tok_at_SomeD [OF that(2)] tk by (simp add: tok_at_Some)
    ultimately show ?thesis unfolding clean_def by blast
  qed
  then have pd: "pending F ?spans ([] @ drop 0 out) (length []) 0 ?ms" by (auto simp: pending_def)
  have mo: "matches_ok (length out) 0 ?ms" using assms(5) by (simp add: regex_ok_def)
  have "undone F ([] @ drop 0 out) = t" "occurs_only F ([] @ drop 0 out) (set (keys S1))"
    using assms(8,9) w2 by simp_all
  from redact_loop_inv [OF loop w1(1) ru assms(6,7) mo _ this pd]
  show ?thesis by (simp add: out'2)
qed

lemma redact_rules_inv:
  "redact_rules A S rules out = (Inr out', S') \<Longrightarrow> matcher_ok A \<Longrightarrow> session_ok S \<Longrightarrow>
   set rules \<subseteq> set (re_rules (ses_engine S)) \<Longrightarrow> regexes_ok (ses_engine S) \<Longrightarrow>
   session_ok F \<Longrightarrow> extends S' F \<Longrightarrow> undone F out = t \<Longrightarrow> occurs_only F out (set (keys S)) \<Longrightarrow>
   undone F out' = t"
proof (induction A S rules out rule: redact_rules.induct)
  case (2 A S rule rules out)
  obtain out1 S1 where q: "redact_rule A S rule out = (Inr out1, S1)"
    and run: "redact_rules A S1 rules out1 = (Inr out', S')"
    using "2.prems"(1) by (auto split: sum.splits prod.splits)
  have ok: "session_ok S1" "extends S S1" using redact_rule_ok [OF q] "2.prems" by auto
  then have eng: "ses_engine S1 = ses_engine S" by (simp add: extends_rules)
  have "extends S1 S'" using redact_rules_ok [OF run] "2.prems" ok eng by simp
  then have le: "extends S1 F" using "2.prems"(7) extends_trans by blast
  have "undone F out1 = t \<and> occurs_only F out1 (set (keys S1))"
    using "2.prems" le by (intro redact_rule_inv [OF q]) (auto simp: regexes_ok_def)
  then show ?case using "2.IH" [OF q [symmetric] refl run] "2.prems" ok eng by simp
qed simp

lemma redact_text_ok:
  "matcher_ok A \<Longrightarrow> session_ok S \<Longrightarrow> redact_text A S t = (r, S') \<Longrightarrow>
   session_ok S' \<and> extends S S' \<and> fails_closed r S'"
  unfolding redact_text_def by (rule redact_rules_ok) auto

lemma redact_text_inv:
  assumes "matcher_ok A" "session_ok S" "regexes_ok (ses_engine S)" "redact_text A S t = (Inr t', S')"
    and "session_ok F" "extends S' F" "absent F t"
  shows "undone F t' = t"
  using assms(4) unfolding redact_text_def
  by (rule redact_rules_inv [OF _ assms(1,2) _ assms(3,5,6) absent_undone [OF assms(7)]])
    (use assms(7) occurs_only_mono in \<open>auto simp: absent_def\<close>)

section \<open>What restoration computes\<close>

lemma substr_snoc: "l \<le> i \<Longrightarrow> i < length t \<Longrightarrow> substr t l (Suc i) = substr t l i @ [t ! i]"
  by (simp add: substr_def Suc_diff_le take_Suc_conv_app_nth)

lemma restore_loop_subst:
  "u = drop i text \<Longrightarrow> i \<le> length text \<Longrightarrow> tokens ps \<Longrightarrow> (k = 0 \<and> l \<le> i) \<or> (l = i + k \<and> k \<le> length u) \<Longrightarrow>
   restore_loop S text (lm_iter ps i k u) out l
   = out @ substr text l i @ subst ps (original S) k u"
proof (induction ps i k u arbitrary: out l rule: lm_iter.induct)
  case (1 ps i k)
  then show ?case by (auto simp: substr_def)
next
  case (2 ps i k x xs)
  then have xs: "xs = drop (Suc i) text" by (metis drop_Suc list.sel(3) tl_drop)
  have "length (x # xs) = length text - i" using "2.prems"(1) by simp
  then have l: "l = Suc i + k" "k \<le> length xs" "Suc i \<le> length text" using "2.prems"(4) by auto
  then have "substr text l i = []" "substr text l (Suc i) = []" by (simp_all add: substr_def)
  with "2.IH" [OF xs l(3) "2.prems"(3), of l out] l show ?case by simp
next
  case (3 ps i x xs)
  have xs: "xs = drop (Suc i) text" using "3.prems"(1) by (metis drop_Suc list.sel(3) tl_drop)
  have i: "i < length text" using "3.prems"(1) by (metis drop_all linorder_not_less list.discI)
  have l: "l \<le> i" using "3.prems"(4) by auto
  show ?case
  proof (cases "tok_at ps (x # xs)")
    case None
    have "text ! i = x" using "3.prems"(1) i by (metis hd_drop_conv_nth list.sel(1))
    then have "substr text l (Suc i) = substr text l i @ [x]" using substr_snoc [OF l i] by simp
    with None "3.IH"(1) [OF None xs _ "3.prems"(3), of l out] i l show ?thesis by simp
  next
    case (Some p)
    then have p: "p \<in> set ps" "prefix p (drop i text)" using tok_at_SomeD "3.prems"(1) by metis+
    then have ne: "p \<noteq> []" and len: "i + length p \<le> length text"
      using tokens_no_empty [OF "3.prems"(3)] prefix_length_le [of p "drop i text"] i by auto
    have "substr text i (i + length p) = p" using p(2) by (auto simp: substr_def prefix_def)
    moreover have "i + length p = Suc i + (length p - 1) \<and> length p - 1 \<le> length xs"
      using ne len by (cases p) (simp_all add: xs)
    then have "length p - 1 = 0 \<and> i + length p \<le> Suc i \<or> i + length p = Suc i + (length p - 1) \<and> length p - 1 \<le> length xs"
      by (rule disjI2)
    ultimately show ?thesis
      using ne Some i "3.IH"(2) [OF Some xs _ "3.prems"(3), of "i + length p" "out @ substr text l i @ unwrap_or (lookup S p) p"]
      by (simp add: original_def) (simp add: substr_def Suc_le_eq)
  qed
qed

lemma restore_text_spec:
  assumes "matcher_ok A" "session_ok S" "restore_text A S t = (t', S')"
  shows "t' = undone S t" "session_ok S'" "ses_vault S' = ses_vault S" "ses_engine S' = ses_engine S"
proof -
  obtain r where w: "with_automaton A S (\<lambda>ac. restore_loop S t (ac_find_iter A ac t) [] 0) = (r, S')"
    and t': "t' = unwrap_or r t"
    using assms(3) by (auto simp: restore_text_def split: prod.splits)
  note w1 = with_automaton_ok [OF assms(2,1) w]
  from w1 show "session_ok S'" "ses_vault S' = ses_vault S" "ses_engine S' = ses_engine S" by simp_all
  note tk = keys_tokens [OF assms(2)]
  show "t' = undone S t"
  proof (cases "keys S = []")
    case True
    then have "undone S t = t" by (intro absent_undone) (auto simp: absent_def occurs_only_def tok_at_def)
    with True w1(4) t' show ?thesis by auto
  next
    case False
    with w1(4) obtain ps where ps: "set ps = set (keys S)" "r = Some (restore_loop S t (ac_find_iter A ps t) [] 0)"
      by auto
    then have tp: "tokens ps" using tk by (simp add: tokens_def list_all_iff)
    then have "restore_loop S t (lm_iter ps 0 0 t) [] 0 = restored ps (original S) t"
      using restore_loop_subst [of t 0 t ps 0 0 S "[]"] by (simp add: substr_def)
    with ps t' tp subst_order [OF tp ps(1)] show ?thesis
      by (simp add: matcher_find_iter [OF assms(1)] undone_def)
  qed
qed

end
