(* ===== verification/Roundtrip.thy ===== *)
theory Roundtrip
  imports Redaction
begin

text \<open>
  What the privacy guard promises. Every operation of a session keeps one contract, stated as
  a locale: it keeps the session's invariant, only adds to the vault, and fails only at the
  token cap; a reversible operation is moreover undone by its restoration in any later state
  of the session. The contract is proved for texts, for JSON values and for content blocks, and
  lifted once to the loops over them.
\<close>

section \<open>The contracts\<close>

locale session_op =
  fixes redact :: "matcher \<Rightarrow> redaction_session \<Rightarrow> 'a \<Rightarrow> 'a result \<times> redaction_session"
  assumes redact_ok: "\<lbrakk>matcher_ok A; session_ok S; redact A S x = (r, S')\<rbrakk>
      \<Longrightarrow> session_ok S' \<and> extends S S' \<and> fails_closed r S'"
begin

lemma each_ok:
  "\<lbrakk>matcher_ok A; session_ok S; redact_each (redact A) S xs = (r, S')\<rbrakk>
   \<Longrightarrow> session_ok S' \<and> extends S S' \<and> fails_closed r S'"
proof (induction xs arbitrary: S r S')
  case (Cons x xs)
  obtain q S1 where q: "redact A S x = (q, S1)" by fastforce
  note ok1 = redact_ok [OF Cons.prems(1,2) q]
  show ?case
  proof (cases q)
    case (Inl err)
    with q ok1 Cons.prems(3) show ?thesis by (auto simp: fails_closed_def)
  next
    case (Inr y)
    obtain q2 S2 where q2: "redact_each (redact A) S1 xs = (q2, S2)" by fastforce
    with Cons.IH [OF Cons.prems(1) _ q2] ok1 have "session_ok S2 \<and> extends S S2 \<and> fails_closed q2 S2"
      using extends_trans by blast
    with q q2 Inr Cons.prems(3) show ?thesis by (auto simp: fails_closed_def split: sum.splits)
  qed
qed auto

lemma op_each: "session_op (\<lambda>A. redact_each (redact A))"
  by unfold_locales (rule each_ok)

text \<open>Each element was redacted in a state of the session on the way.\<close>

lemma each_elements:
  "\<lbrakk>redact_each (redact A) S xs = (Inr ys, S'); matcher_ok A; session_ok S\<rbrakk>
   \<Longrightarrow> list_all2 (\<lambda>x y. \<exists>S1 S2. session_ok S1 \<and> extends S S1 \<and> redact A S1 x = (Inr y, S2) \<and> extends S2 S') xs ys"
proof (induction xs arbitrary: S ys)
  case (Cons x xs)
  obtain y S1 zs where q: "redact A S x = (Inr y, S1)"
    and q2: "redact_each (redact A) S1 xs = (Inr zs, S')" and ys: "ys = y # zs"
    using Cons.prems(1) by (auto split: sum.splits prod.splits)
  note ok1 = redact_ok [OF Cons.prems(2,3) q]
  have le: "extends S1 S'" using each_ok [OF Cons.prems(2) _ q2] ok1 by blast
  have "list_all2 (\<lambda>x y. \<exists>S1' S2. session_ok S1' \<and> extends S1 S1' \<and> redact A S1' x = (Inr y, S2) \<and> extends S2 S') xs zs"
    using Cons.IH [OF q2 Cons.prems(2)] ok1 by blast
  then have "list_all2 (\<lambda>x y. \<exists>S1 S2. session_ok S1 \<and> extends S S1 \<and> redact A S1 x = (Inr y, S2) \<and> extends S2 S') xs zs"
    by (rule list_all2_mono) (use ok1 extends_trans in blast)
  with q le Cons.prems(3) show ?case unfolding ys by auto
qed simp

end

locale reversible = session_op redact
  for redact :: "matcher \<Rightarrow> redaction_session \<Rightarrow> 'a \<Rightarrow> 'a result \<times> redaction_session" +
  fixes restore :: "matcher \<Rightarrow> redaction_session \<Rightarrow> 'a \<Rightarrow> 'a \<times> redaction_session"
    and free :: "redaction_session \<Rightarrow> 'a \<Rightarrow> bool"
  assumes restore_ok: "\<lbrakk>matcher_ok A; session_ok S; restore A S x = (y, S')\<rbrakk>
      \<Longrightarrow> session_ok S' \<and> ses_vault S' = ses_vault S \<and> ses_engine S' = ses_engine S"
    and free_vault: "ses_vault F' = ses_vault F \<Longrightarrow> free F' x = free F x"
    and undo: "\<lbrakk>matcher_ok A; session_ok S; regexes_ok (ses_engine S); redact A S x = (Inr y, S');
       session_ok F; extends S' F; free F x\<rbrakk> \<Longrightarrow> fst (restore A F y) = x"
begin

lemma restore_each_ok:
  "\<lbrakk>matcher_ok A; session_ok S; restore_each (restore A) S xs = (ys, S')\<rbrakk>
   \<Longrightarrow> session_ok S' \<and> ses_vault S' = ses_vault S \<and> ses_engine S' = ses_engine S"
proof (induction xs arbitrary: S ys)
  case (Cons x xs)
  obtain y S1 where q: "restore A S x = (y, S1)" by fastforce
  note ok1 = restore_ok [OF Cons.prems(1,2) q]
  obtain zs where q2: "restore_each (restore A) S1 xs = (zs, S')"
    using Cons.prems(3) q by (auto split: prod.splits)
  from Cons.IH [OF Cons.prems(1) _ q2] ok1 show ?case by simp
qed simp

lemma each_undo:
  "\<lbrakk>matcher_ok A; session_ok S; regexes_ok (ses_engine S); redact_each (redact A) S xs = (Inr ys, S');
    session_ok F; extends S' F; list_all (free F) xs\<rbrakk> \<Longrightarrow> fst (restore_each (restore A) F ys) = xs"
proof (induction xs arbitrary: S ys F)
  case (Cons x xs)
  obtain y S1 zs where q: "redact A S x = (Inr y, S1)"
    and q2: "redact_each (redact A) S1 xs = (Inr zs, S')" and ys: "ys = y # zs"
    using Cons.prems(4) by (auto split: sum.splits prod.splits)
  note ok1 = redact_ok [OF Cons.prems(1,2) q]
  have "extends S1 S'" using each_ok [OF Cons.prems(1) _ q2] ok1 by blast
  then have "extends S1 F" using Cons.prems(6) extends_trans by blast
  then have x: "fst (restore A F y) = x"
    using undo [OF Cons.prems(1-3) q Cons.prems(5)] Cons.prems(7) by simp
  obtain F1 where r: "restore A F y = (x, F1)" using x by (metis prod.collapse)
  note rok = restore_ok [OF Cons.prems(1,5) r]
  then have "extends S' F1" using Cons.prems(6) by (simp add: extends_def)
  moreover have "list_all (free F1) xs"
    using Cons.prems(7) free_vault [of F1 F] rok by (simp add: list_all_iff)
  ultimately have "fst (restore_each (restore A) F1 zs) = xs"
    using Cons.IH [OF Cons.prems(1) _ _ q2] ok1 rok Cons.prems(3) by (simp add: extends_def)
  with r show ?case by (cases "restore_each (restore A) F1 zs") (simp add: ys)
qed simp

lemma free_each: "ses_vault F' = ses_vault F \<Longrightarrow> list_all (free F') xs = list_all (free F) xs"
  using free_vault [of F' F] by (simp add: list_all_iff)

lemma reversible_each:
  "reversible (\<lambda>A. redact_each (redact A)) (\<lambda>A. restore_each (restore A)) (\<lambda>F. list_all (free F))"
  by (intro reversible.intro reversible_axioms.intro op_each)
    (erule (2) restore_each_ok, erule free_each, erule (6) each_undo)

end

section \<open>Texts and JSON values\<close>

interpretation texts: reversible redact_text restore_text absent
proof unfold_locales
  fix A :: matcher and S F S' :: redaction_session and x y r
  assume A: "matcher_ok A"
  show "session_ok S' \<and> extends S S' \<and> fails_closed r S'"
    if "session_ok S" "redact_text A S x = (r, S')" using redact_text_ok [OF A that] .
  show "session_ok S' \<and> ses_vault S' = ses_vault S \<and> ses_engine S' = ses_engine S"
    if "session_ok S" "restore_text A S x = (y, S')" using restore_text_spec [OF A that] by simp
  show "fst (restore_text A F y) = x"
    if "session_ok S" "regexes_ok (ses_engine S)" "redact_text A S x = (Inr y, S')"
      "session_ok F" "extends S' F" "absent F x"
    using restore_text_spec(1) [OF A that(4)] redact_text_inv [OF A that] by (metis prod.collapse)
qed (simp add: absent_def occurs_only_def)

fun absent_json :: "redaction_session \<Rightarrow> value \<Rightarrow> bool"
  and absent_items :: "redaction_session \<Rightarrow> value list \<Rightarrow> bool"
  and absent_entries :: "redaction_session \<Rightarrow> object \<Rightarrow> bool" where
  "absent_json F (String s) = absent F s"
| "absent_json F (Array xs) = absent_items F xs"
| "absent_json F (Object m) = absent_entries F m"
| "absent_json F v = True"
| "absent_items F [] = True"
| "absent_items F (v # vs) = (absent_json F v \<and> absent_items F vs)"
| "absent_entries F [] = True"
| "absent_entries F ((k, v) # m) = (absent_json F v \<and> absent_entries F m)"

lemma redact_json_ok:
  "matcher_ok A \<Longrightarrow> session_ok S \<Longrightarrow> redact_json A S v = (r, S') \<Longrightarrow> session_ok S' \<and> extends S S' \<and> fails_closed r S'"
  "matcher_ok A \<Longrightarrow> session_ok S \<Longrightarrow> redact_items A S vs = (rs, S') \<Longrightarrow> session_ok S' \<and> extends S S' \<and> fails_closed rs S'"
  "matcher_ok A \<Longrightarrow> session_ok S \<Longrightarrow> redact_entries A S m = (rm, S') \<Longrightarrow> session_ok S' \<and> extends S S' \<and> fails_closed rm S'"
proof (induction A S v and A S vs and A S m arbitrary: r S' and rs S' and rm S'
    rule: redact_json_redact_items_redact_entries.induct)
  case (1 A S s)
  obtain q S1 where q: "redact_text A S s = (q, S1)" by fastforce
  with texts.redact_ok [OF 1(1,2) q] 1(3) show ?case by (cases q) (auto simp: fails_closed_def)
next
  case (2 A S items)
  obtain q S1 where q: "redact_items A S items = (q, S1)" by fastforce
  with 2(1) [OF 2(2,3) q] 2(4) show ?case by (cases q) (auto simp: fails_closed_def)
next
  case (3 A S m)
  obtain q S1 where q: "redact_entries A S m = (q, S1)" by fastforce
  with 3(1) [OF 3(2,3) q] 3(4) show ?case by (cases q) (auto simp: fails_closed_def)
next
  case (6 A S v vs)
  obtain q S1 where q: "redact_json A S v = (q, S1)" by fastforce
  note ok = "6.IH"(1) [OF "6.prems"(1,2) q]
  show ?case
  proof (cases q)
    case (Inl e)
    with q ok "6.prems"(3) show ?thesis by (auto simp: fails_closed_def)
  next
    case (Inr y)
    obtain q2 S2 where q2: "redact_items A S1 vs = (q2, S2)" by fastforce
    then have "session_ok S2 \<and> extends S S2 \<and> fails_closed q2 S2"
      using "6.IH"(2) [OF q [symmetric] Inr "6.prems"(1) _ q2] ok extends_trans by blast
    with q q2 Inr "6.prems"(3) show ?thesis by (cases q2) (auto simp: fails_closed_def)
  qed
next
  case (8 A S k v m)
  obtain q S1 where q: "redact_json A S v = (q, S1)" by fastforce
  note ok = "8.IH"(1) [OF "8.prems"(1,2) q]
  show ?case
  proof (cases q)
    case (Inl e)
    with q ok "8.prems"(3) show ?thesis by (auto simp: fails_closed_def)
  next
    case (Inr y)
    obtain q2 S2 where q2: "redact_entries A S1 m = (q2, S2)" by fastforce
    then have "session_ok S2 \<and> extends S S2 \<and> fails_closed q2 S2"
      using "8.IH"(2) [OF q [symmetric] Inr "8.prems"(1) _ q2] ok extends_trans by blast
    with q q2 Inr "8.prems"(3) show ?thesis by (cases q2) (auto simp: fails_closed_def)
  qed
qed (auto simp: fails_closed_def)

lemma restore_json_ok:
  "matcher_ok A \<Longrightarrow> session_ok S \<Longrightarrow> restore_json A S v = (v', S') \<Longrightarrow>
    session_ok S' \<and> ses_vault S' = ses_vault S \<and> ses_engine S' = ses_engine S"
  "matcher_ok A \<Longrightarrow> session_ok S \<Longrightarrow> restore_items A S vs = (vs', S') \<Longrightarrow>
    session_ok S' \<and> ses_vault S' = ses_vault S \<and> ses_engine S' = ses_engine S"
  "matcher_ok A \<Longrightarrow> session_ok S \<Longrightarrow> restore_entries A S m = (m', S') \<Longrightarrow>
    session_ok S' \<and> ses_vault S' = ses_vault S \<and> ses_engine S' = ses_engine S"
proof (induction A S v and A S vs and A S m arbitrary: v' S' and vs' S' and m' S'
    rule: restore_json_restore_items_restore_entries.induct)
  case (1 A S s)
  then show ?case using texts.restore_ok [OF 1(1,2)] by (auto split: prod.splits)
next
  case (6 A S v vs)
  obtain y S1 where q: "restore_json A S v = (y, S1)" by fastforce
  with "6.IH"(1) [OF "6.prems"(1,2) q] "6.IH"(2) [OF q [symmetric] refl "6.prems"(1)] "6.prems"(3)
  show ?case by (auto split: prod.splits)
next
  case (8 A S k v m)
  obtain y S1 where q: "restore_json A S v = (y, S1)" by fastforce
  with "8.IH"(1) [OF "8.prems"(1,2) q] "8.IH"(2) [OF q [symmetric] refl "8.prems"(1)] "8.prems"(3)
  show ?case by (auto split: prod.splits)
qed (auto split: prod.splits)

lemma absent_vault: "ses_vault F' = ses_vault F \<Longrightarrow> absent F' x = absent F x"
  by (simp add: absent_def occurs_only_def)

lemma absent_json_vault:
  "ses_vault F' = ses_vault F \<Longrightarrow> absent_json F' v = absent_json F v"
  "ses_vault F' = ses_vault F \<Longrightarrow> absent_items F' vs = absent_items F vs"
  "ses_vault F' = ses_vault F \<Longrightarrow> absent_entries F' m = absent_entries F m"
  by (induction F v and F vs and F m rule: absent_json_absent_items_absent_entries.induct)
    (simp_all add: absent_vault [of F'])

lemma redact_json_undo:
  "\<lbrakk>matcher_ok A; session_ok S; regexes_ok (ses_engine S); redact_json A S v = (Inr v', S');
    session_ok F; extends S' F; absent_json F v\<rbrakk> \<Longrightarrow> fst (restore_json A F v') = v"
  "\<lbrakk>matcher_ok A; session_ok S; regexes_ok (ses_engine S); redact_items A S vs = (Inr vs', S');
    session_ok F; extends S' F; absent_items F vs\<rbrakk> \<Longrightarrow> fst (restore_items A F vs') = vs"
  "\<lbrakk>matcher_ok A; session_ok S; regexes_ok (ses_engine S); redact_entries A S m = (Inr m', S');
    session_ok F; extends S' F; absent_entries F m\<rbrakk> \<Longrightarrow> fst (restore_entries A F m') = m"
proof (induction A S v and A S vs and A S m arbitrary: v' S' F and vs' S' F and m' S' F
    rule: redact_json_redact_items_redact_entries.induct)
  case (1 A S s)
  then obtain s' where q: "redact_text A S s = (Inr s', S')" and v': "v' = String s'"
    by (auto split: sum.splits prod.splits)
  have "fst (restore_text A F s') = s" using texts.undo [OF 1(1-3) q 1(5,6)] 1(7) by simp
  then show ?case by (cases "restore_text A F s'") (simp add: v')
next
  case (2 A S items)
  then obtain xs where q: "redact_items A S items = (Inr xs, S')" and v': "v' = Array xs"
    by (auto split: sum.splits prod.splits)
  have "fst (restore_items A F xs) = items" using 2(1) [OF 2(2-4) q 2(6,7)] 2(8) by simp
  then show ?case by (cases "restore_items A F xs") (simp add: v')
next
  case (3 A S m)
  then obtain xs where q: "redact_entries A S m = (Inr xs, S')" and v': "v' = Object xs"
    by (auto split: sum.splits prod.splits)
  have "fst (restore_entries A F xs) = m" using 3(1) [OF 3(2-4) q 3(6,7)] 3(8) by simp
  then show ?case by (cases "restore_entries A F xs") (simp add: v')
next
  case (6 A S v vs)
  then obtain y S1 zs where q: "redact_json A S v = (Inr y, S1)" and q2: "redact_items A S1 vs = (Inr zs, S')"
    and vs': "vs' = y # zs" by (auto split: sum.splits prod.splits)
  note ok = redact_json_ok(1) [OF "6.prems"(1,2) q]
  then have "extends S1 F" using redact_json_ok(2) [OF "6.prems"(1) _ q2] "6.prems"(6) extends_trans by blast
  then have "fst (restore_json A F y) = v" using "6.IH"(1) [OF "6.prems"(1-3) q "6.prems"(5)] "6.prems"(7) by simp
  then obtain F1 where r: "restore_json A F y = (v, F1)" by (metis prod.collapse)
  note rok = restore_json_ok(1) [OF "6.prems"(1,5) r]
  then have "extends S' F1" "absent_items F1 vs"
    using "6.prems"(6,7) absent_json_vault(2) [of F1 F] by (simp_all add: extends_def)
  then have "fst (restore_items A F1 zs) = vs"
    using "6.IH"(2) [OF q [symmetric] refl "6.prems"(1) _ _ q2] ok rok "6.prems"(3) by (simp add: extends_def)
  with r show ?case by (cases "restore_items A F1 zs") (simp add: vs')
next
  case (8 A S k v m)
  then obtain y S1 zs where q: "redact_json A S v = (Inr y, S1)" and q2: "redact_entries A S1 m = (Inr zs, S')"
    and m': "m' = (k, y) # zs" by (auto split: sum.splits prod.splits)
  note ok = redact_json_ok(1) [OF "8.prems"(1,2) q]
  then have "extends S1 F" using redact_json_ok(3) [OF "8.prems"(1) _ q2] "8.prems"(6) extends_trans by blast
  then have "fst (restore_json A F y) = v" using "8.IH"(1) [OF "8.prems"(1-3) q "8.prems"(5)] "8.prems"(7) by simp
  then obtain F1 where r: "restore_json A F y = (v, F1)" by (metis prod.collapse)
  note rok = restore_json_ok(1) [OF "8.prems"(1,5) r]
  then have "extends S' F1" "absent_entries F1 m"
    using "8.prems"(6,7) absent_json_vault(3) [of F1 F] by (simp_all add: extends_def)
  then have "fst (restore_entries A F1 zs) = m"
    using "8.IH"(2) [OF q [symmetric] refl "8.prems"(1) _ _ q2] ok rok "8.prems"(3) by (simp add: extends_def)
  with r show ?case by (cases "restore_entries A F1 zs") (simp add: m')
qed auto

interpretation json: reversible redact_json restore_json absent_json
proof unfold_locales
  fix A :: matcher and S F S' :: redaction_session and x y r
  assume A: "matcher_ok A"
  show "session_ok S' \<and> extends S S' \<and> fails_closed r S'"
    if "session_ok S" "redact_json A S x = (r, S')" using redact_json_ok(1) [OF A that] .
  show "session_ok S' \<and> ses_vault S' = ses_vault S \<and> ses_engine S' = ses_engine S"
    if "session_ok S" "restore_json A S x = (y, S')" using restore_json_ok(1) [OF A that] .
  show "fst (restore_json A F y) = x"
    if "session_ok S" "regexes_ok (ses_engine S)" "redact_json A S x = (Inr y, S')"
      "session_ok F" "extends S' F" "absent_json F x"
    using redact_json_undo(1) [OF A that] .
qed (rule absent_json_vault(1))

section \<open>Blocks, messages, requests and responses\<close>

fun absent_block :: "redaction_session \<Rightarrow> content_block \<Rightarrow> bool" where
  "absent_block F (Text t) = absent F t"
| "absent_block F (Thinking t sig) = absent F t"
| "absent_block F (ToolResult i c e) = absent F c"
| "absent_block F (ToolUse i nm input) = absent_json F input"
| "absent_block F b = True"

lemma absent_block_vault: "ses_vault F' = ses_vault F \<Longrightarrow> absent_block F' b = absent_block F b"
  using texts.free_vault [of F' F] json.free_vault [of F' F] by (cases b) auto

interpretation blocks: reversible redact_block restore_block absent_block
proof unfold_locales
  fix A :: matcher and S F S' :: redaction_session and x y :: content_block and r
  assume A: "matcher_ok A"
  show "session_ok S' \<and> extends S S' \<and> fails_closed r S'"
    if "session_ok S" "redact_block A S x = (r, S')"
  proof (cases x)
    case (ToolUse i nm v)
    with that json.redact_ok [OF A that(1), of v] show ?thesis
      by (auto simp: fails_closed_def split: sum.splits prod.splits)
  qed (use that texts.redact_ok [OF A that(1)] in \<open>auto simp: fails_closed_def split: sum.splits prod.splits\<close>)
  show "session_ok S' \<and> ses_vault S' = ses_vault S \<and> ses_engine S' = ses_engine S"
    if "session_ok S" "restore_block A S x = (y, S')"
    using that texts.restore_ok [OF A that(1)] json.restore_ok [OF A that(1)]
    by (cases x) (auto split: prod.splits)
  assume S: "session_ok S" "regexes_ok (ses_engine S)" and F: "session_ok F" "extends S' F"
    and x: "redact_block A S x = (Inr y, S')" "absent_block F x"
  note undo_t = texts.undo [OF A S _ F] and undo_j = json.undo [OF A S _ F]
  show "fst (restore_block A F y) = x"
  proof (cases x)
    case (Text t)
    with x undo_t [of t] show ?thesis by (auto split: sum.splits prod.splits)
  next
    case (Thinking t sg)
    with x undo_t [of t] show ?thesis by (auto split: sum.splits prod.splits)
  next
    case (ToolUse i nm v)
    with x undo_j [of v] show ?thesis by (auto split: sum.splits prod.splits)
  next
    case (ToolResult i c e)
    with x undo_t [of c] show ?thesis by (auto split: sum.splits prod.splits)
  qed (use x in auto)
qed (rule absent_block_vault)

interpretation block_list: reversible "\<lambda>A. redact_each (redact_block A)"
  "\<lambda>A. restore_each (restore_block A)" "\<lambda>F. list_all (absent_block F)"
  by (rule blocks.reversible_each)

interpretation messages: session_op redact_message
proof unfold_locales
  fix A :: matcher and S S' :: redaction_session and x :: neutral_message and r
  assume "matcher_ok A" "session_ok S" "redact_message A S x = (r, S')"
  with block_list.redact_ok [of A S "msg_content x"] show "session_ok S' \<and> extends S S' \<and> fails_closed r S'"
    by (auto simp: redact_message_def fails_closed_def split: sum.splits prod.splits)
qed

lemma redact_request_ok:
  assumes "matcher_ok A" "session_ok S" "redact_request A S req = (r, req', S')"
  shows "session_ok S' \<and> extends S S' \<and> fails_closed r S'"
  using assms messages.each_ok [OF assms(1,2), of "req_messages req"]
  by (auto simp: redact_request_def fails_closed_def split: sum.splits prod.splits)

lemma redact_request_elements:
  assumes "matcher_ok A" "session_ok S" "redact_request A S req = (Inr (), req', S')"
  shows "list_all2 (\<lambda>x y. \<exists>S1 S2. session_ok S1 \<and> extends S S1 \<and>
    redact_each (redact_block A) S1 (msg_content x) = (Inr (msg_content y), S2) \<and> extends S2 S')
    (req_messages req) (req_messages req')"
proof -
  have e: "redact_each (redact_message A) S (req_messages req) = (Inr (req_messages req'), S')"
    using assms(3) by (auto simp: redact_request_def split: sum.splits prod.splits)
  have "redact_message A S1 x = (Inr y, S2) \<Longrightarrow>
      redact_each (redact_block A) S1 (msg_content x) = (Inr (msg_content y), S2)" for S1 S2 x y
    by (auto simp: redact_message_def split: sum.splits prod.splits)
  then show ?thesis
    by (intro list_all2_mono [OF messages.each_elements [OF e assms(1,2)]]) blast
qed

section \<open>Every match is replaced\<close>

text \<open>A text with some of its regions rewritten by \<open>f\<close>.\<close>

fun weave :: "(string \<Rightarrow> string) \<Rightarrow> string \<Rightarrow> (nat \<times> nat) list \<Rightarrow> nat \<Rightarrow> string" where
  "weave f t [] l = drop l t"
| "weave f t ((s, e) # ms) l = substr t l s @ f (substr t s e) @ weave f t ms e"

text \<open>What a rule puts in place of a match once its session has reached the vault \<open>V\<close>.\<close>

definition pseudonym :: "redaction_engine \<Rightarrow> vault \<Rightarrow> compiled_rule \<Rightarrow> string \<Rightarrow> string" where
  "pseudonym E V rule m =
     (if is_allowed E m then m else unwrap_or (value_to_token V (cr_name rule, m)) m)"

lemma token_for_values:
  assumes "session_ok S" "rule \<in> set (re_rules (ses_engine S))" "token_for S rule m = (r, S')"
  shows "value_to_token (ses_vault S) \<subseteq>\<^sub>m value_to_token (ses_vault S')"
  using assms(1,2) by (cases rule: token_for_cases [of S rule m]) (use assms(3) in \<open>auto simp: map_le_def\<close>)

lemma redact_loop_weave:
  "redact_loop S rule spans out ms result l c = (Inr (result', l', c'), S') \<Longrightarrow> session_ok S \<Longrightarrow>
   rule \<in> set (re_rules (ses_engine S)) \<Longrightarrow>
   value_to_token (ses_vault S) \<subseteq>\<^sub>m value_to_token (ses_vault S') \<and>
   result' @ drop l' out = result @ weave (pseudonym (ses_engine S) (ses_vault S') rule) out
     (filter (\<lambda>(s, e). \<not> overlaps spans s e) ms) l \<and>
   (\<forall>(s, e) \<in> set ms. \<not> overlaps spans s e \<and> \<not> is_allowed (ses_engine S) (substr out s e) \<longrightarrow>
      value_to_token (ses_vault S') (cr_name rule, substr out s e) \<noteq> None)"
proof (induction S rule spans out ms result l c rule: redact_loop.induct)
  case (2 S rule spans out s e ms result l c)
  show ?case
  proof (cases "overlaps spans s e")
    case True
    with "2.IH"(1) [OF True] "2.prems" show ?thesis by simp
  next
    case no: False
    show ?thesis
    proof (cases "is_allowed (ses_engine S) (substr out s e)")
      case True
      with "2.IH"(2) [OF no refl refl True] "2.prems" no show ?thesis
        by (simp add: Let_def pseudonym_def)
    next
      case al: False
      then obtain tok S1 where tf: "token_for S rule (substr out s e) = (Inr tok, S1)"
        using "2.prems"(1) no by (simp add: Let_def split: prod.splits sum.splits)
      note t1 = token_for_Inr [OF "2.prems"(2,3) tf] and t2 = token_for_values [OF "2.prems"(2,3) tf]
      have run: "redact_loop S1 rule spans out ms ((result @ substr out l s) @ tok) e True = (Inr (result', l', c'), S')"
        using "2.prems"(1) no al tf by (simp add: Let_def)
      from t1 have eng: "ses_engine S1 = ses_engine S" by (simp add: extends_def)
      note IH = "2.IH"(3) [OF no refl refl al tf [symmetric] refl run]
      from IH t1 eng "2.prems"(3)
      have v: "value_to_token (ses_vault S') (cr_name rule, substr out s e) = Some tok"
        by (auto simp: map_le_def dom_def)
      from t2 IH t1 eng "2.prems"(3) have "value_to_token (ses_vault S) \<subseteq>\<^sub>m value_to_token (ses_vault S')"
        using map_le_trans by auto
      with IH t1 eng "2.prems"(3) no al v show ?thesis by (simp add: pseudonym_def)
    qed
  qed
qed auto

section \<open>An example session\<close>

lemma occurrences_ok:
  "w \<noteq> [] \<Longrightarrow> n = i + length t \<Longrightarrow> lo \<le> i + k \<Longrightarrow> matches_ok n lo (occurrences w i k t)"
proof (induction w i k t arbitrary: lo rule: occurrences.induct)
  case (3 w i x xs)
  show ?case
  proof (cases "prefix w (x # xs)")
    case True
    then have "length w \<le> Suc (length xs)" using prefix_length_le [OF True] by simp
    moreover have "i + length w \<le> Suc i + (length w - 1)" using "3.prems"(1) by (cases w) auto
    ultimately show ?thesis using True "3.IH"(1) [OF True, of "i + length w"] "3.prems" by simp
  next
    case False
    with "3.IH"(2) [OF False, of lo] "3.prems" show ?thesis by simp
  qed
qed simp_all

lemma literal_regex_ok: "w \<noteq> [] \<Longrightarrow> regex_ok (literal_regex w)"
  by (simp add: regex_ok_def literal_regex_def occurrences_ok)

lemma example_regexes_ok: "regexes_ok example_engine"
  by (simp add: regexes_ok_def example_engine_def literal_regex_ok)

lemma absent_code [code]: "absent F t \<longleftrightarrow> lm_find (keys F) 0 t = None"
  by (simp add: absent_def occurs_only_def lm_find_None)

definition example_session :: redaction_session where
  "example_session = new_session example_engine"

definition example_rule :: compiled_rule where
  "example_rule = hd (re_rules example_engine)"

definition example_request :: neutral_request where
  "example_request = new_request ''m''
     [\<lparr>msg_role = User, msg_content = [Text ''hi bob'', ToolUse ''t'' ''f'' (Array [String ''bob!''])]\<rparr>]"

definition example_after :: redaction_session where
  "example_after = snd (snd (redact_request reference_matcher example_session example_request))"

lemma example_session_ok: "session_ok example_session"
  using new_engine_ok [OF example_engine_new] by (simp add: example_session_def new_session_ok)

lemma example_redacted:
  "fst (redact_request reference_matcher example_session example_request) = Inr ()"
  "map msg_content (req_messages (fst (snd (redact_request reference_matcher example_session example_request))))
   = [[Text ''hi <CRED_1>'', ToolUse ''t'' ''f'' (Array [String ''<CRED_1>!''])]]"
  by code_simp+

lemma example_after_ok: "session_ok example_after"
  using redact_request_ok [OF reference_matcher_ok example_session_ok, of example_request]
  by (cases "redact_request reference_matcher example_session example_request") (simp add: example_after_def)

lemma example_rule_in: "example_rule \<in> set (re_rules (ses_engine example_session))"
  by (simp add: example_rule_def example_session_def new_session_def example_engine_def)

text \<open>A response that echoes a redacted message is restored to the message.\<close>

lemma echo_restored:
  assumes "matcher_ok A" "new_engine rx_new config = Inr E" "regexes_ok E"
    and "redact_request A (new_session E) req = (Inr (), req', S')"
    and "session_ok F" "extends S' F"
    and "i < length (req_messages req)"
    and "list_all (absent_block F) (msg_content (req_messages req ! i))"
    and "resp_content resp = msg_content (req_messages req' ! i)"
  shows "resp_content (fst (restore_response A F resp)) = msg_content (req_messages req ! i)"
proof -
  have ok: "session_ok (new_session E)" using assms(2) new_engine_ok new_session_ok by blast
  from list_all2_nthD [OF redact_request_elements [OF assms(1) ok assms(4)] assms(7)]
  obtain S1 S2 where s: "session_ok S1" "extends (new_session E) S1" "extends S2 S'"
    "redact_each (redact_block A) S1 (msg_content (req_messages req ! i)) = (Inr (resp_content resp), S2)"
    unfolding assms(9) by blast
  then have "regexes_ok (ses_engine S1)" using assms(3) by (simp add: extends_def new_session_def)
  then have "fst (restore_each (restore_block A) F (resp_content resp)) = msg_content (req_messages req ! i)"
    using block_list.undo [OF assms(1) s(1) _ s(4) assms(5)] extends_trans [OF s(3) assms(6)] assms(8) by simp
  then show ?thesis
    by (cases "restore_each (restore_block A) F (resp_content resp)") (simp add: restore_response_def)
qed

section \<open>Properties\<close>

text \<open>
  C6: redaction is reversible. Every message of a redacted request, echoed by the model as a
  response, is restored to what the client sent, whatever later state the session is in: its
  texts, thinking, tool results and the strings inside tool-call JSON, provided that the client's
  own text does not contain one of the session's tokens.
\<close>

theorem redact_request_restore_response:
  assumes "matcher_ok A" "new_engine rx_new config = Inr E" "regexes_ok E"
    and "redact_request A (new_session E) req = (Inr (), req', S')"
    and "session_ok F" "extends S' F"
    and "i < length (req_messages req)"
    and "list_all (absent_block F) (msg_content (req_messages req ! i))"
    and "resp_content resp = msg_content (req_messages req' ! i)"
  shows "resp_content (fst (restore_response A F resp)) = msg_content (req_messages req ! i)"
  using echo_restored [OF assms] .

theorem redact_request_restore_response_witness:
  "resp_content (fst (restore_response reference_matcher example_after
     \<lparr>resp_id = [], resp_model = [], resp_content =
        [Text ''hi <CRED_1>'', ToolUse ''t'' ''f'' (Array [String ''<CRED_1>!''])],
      resp_finish_reason = Stop, resp_usage = None\<rparr>))
   = [Text ''hi bob'', ToolUse ''t'' ''f'' (Array [String ''bob!''])]"
proof -
  obtain u req' where r: "redact_request reference_matcher (new_session example_engine) example_request
      = (Inr (), req', example_after)" and m: "map msg_content (req_messages req')
      = [[Text ''hi <CRED_1>'', ToolUse ''t'' ''f'' (Array [String ''<CRED_1>!''])]]"
    using example_redacted unfolding example_after_def example_session_def by (metis prod.collapse)
  have c: "msg_content (req_messages req' ! 0)
      = [Text ''hi <CRED_1>'', ToolUse ''t'' ''f'' (Array [String ''<CRED_1>!''])]"
    using m by (cases "req_messages req'") auto
  have a: "list_all (absent_block example_after) (msg_content (req_messages example_request ! 0))"
    by code_simp
  show ?thesis
    using redact_request_restore_response [OF reference_matcher_ok example_engine_new example_regexes_ok r
        example_after_ok extends_refl _ a] c
    by (simp add: example_request_def new_request_def)
qed

text \<open>
  C10: the guard fails closed and fails for one reason only: when \<open>redact_request\<close> returns an
  error, the error is the session cap's, the vault holds exactly \<open>MAX_SESSION_TOKENS\<close> tokens,
  and the caller's request is untouched; otherwise only the messages changed and the vault is
  within the cap. A constructed engine never meets the token collision that \<open>token_for\<close> guards
  against.
\<close>

theorem redact_request_fails_closed:
  assumes "matcher_ok A" "new_engine rx_new config = Inr E"
  shows "case redact_request A (new_session E) req of
      (Inl err, req', S') \<Rightarrow> err = cap_error \<and> token_count S' = MAX_SESSION_TOKENS \<and> req' = req
    | (Inr _, req', S') \<Rightarrow> token_count S' \<le> MAX_SESSION_TOKENS \<and>
        req' = req\<lparr>req_messages := req_messages req'\<rparr> \<and>
        length (req_messages req') = length (req_messages req)"
proof -
  have ok: "session_ok (new_session E)" using assms(2) new_engine_ok new_session_ok by blast
  obtain r req' S' where r: "redact_request A (new_session E) req = (r, req', S')"
    by (metis prod.collapse)
  note rok = redact_request_ok [OF assms(1) ok r]
  show ?thesis
  proof (cases r)
    case (Inl err)
    then have "req' = req" using r by (auto simp: redact_request_def split: sum.splits prod.splits)
    with rok show ?thesis by (simp add: r Inl fails_closed_def)
  next
    case (Inr u)
    then have "req' = req\<lparr>req_messages := req_messages req'\<rparr>"
      using r by (auto simp: redact_request_def split: sum.splits prod.splits)
    moreover have "length (req_messages req') = length (req_messages req)"
      using redact_request_elements [OF assms(1) ok, of req req' S'] r Inr list_all2_lengthD by fastforce
    moreover have "token_count S' \<le> MAX_SESSION_TOKENS"
      using rok by (simp add: session_ok_def vault_ok_def token_count_def)
    ultimately show ?thesis by (simp add: r Inr)
  qed
qed

theorem redact_request_fails_closed_witness:
  "token_count (snd (snd (redact_request reference_matcher (new_session example_engine) example_request)))
   \<le> MAX_SESSION_TOKENS"
  using redact_request_fails_closed [OF reference_matcher_ok example_engine_new, of example_request]
    example_redacted(1)
  by (auto simp: example_session_def split: prod.splits sum.splits)

text \<open>
  C23: one rule's pass replaces every match. The result is the text with each match that is clear
  of an earlier token rewritten: an allowed match stays, and any other becomes the token that the
  vault holds for it.
\<close>

theorem redact_rule_replaces_matches:
  assumes "matcher_ok A" "session_ok S" "rule \<in> set (re_rules (ses_engine S))"
    and "redact_rule A S rule out = (Inr out', S')"
  shows "let ms = filter (\<lambda>(s, e). \<not> overlaps (lm_iter (keys S) 0 0 out) s e) (rx_find_iter (cr_regex rule) out)
    in out' = weave (pseudonym (ses_engine S) (ses_vault S') rule) out ms 0 \<and>
       (\<forall>(s, e) \<in> set ms. is_allowed (ses_engine S) (substr out s e) \<or>
          (\<exists>tok. value_to_token (ses_vault S') (cr_name rule, substr out s e) = Some tok \<and>
             lookup S' tok = Some (substr out s e)))"
proof -
  obtain f S1 where w: "with_automaton A S (\<lambda>ac. ac_find_iter A ac out) = (f, S1)" by fastforce
  note w1 = with_automaton_ok(1-3) [OF assms(2,1) w] and sp = with_automaton_spans [OF assms(2,1) w]
  obtain result l c where
    loop: "redact_loop S1 rule (lm_iter (keys S) 0 0 out) out (rx_find_iter (cr_regex rule) out) [] 0 False
      = (Inr (result, l, c), S')" and "out' = (if c then result @ drop l out else out)"
    using assms(4) w by (auto simp: redact_rule_def sp split: sum.splits prod.splits)
  then have out': "out' = result @ drop l out" using redact_loop_unchanged [OF loop] by auto
  have ru: "rule \<in> set (re_rules (ses_engine S1))" using assms(3) w1(3) by simp
  note wv = redact_loop_weave [OF loop w1(1) ru]
  have ok: "session_ok S'" using redact_loop_ok [OF loop w1(1) ru] by simp
  have "lookup S' tok = Some v" if "value_to_token (ses_vault S') (nm, v) = Some tok" for nm v tok
    using that ok by (auto simp: session_ok_def vault_ok_def lookup_def)
  with wv out' w1(3) show ?thesis by (fastforce simp: Let_def)
qed

theorem redact_rule_replaces_matches_witness:
  "\<exists>S'. redact_rule reference_matcher example_session example_rule ''bob+bob'' = (Inr ''<CRED_1>+<CRED_1>'', S') \<and>
     lookup S' ''<CRED_1>'' = Some ''bob'' \<and>
     ''<CRED_1>+<CRED_1>'' = weave (pseudonym example_engine (ses_vault S') example_rule) ''bob+bob'' [(0, 3), (4, 7)] 0"
proof -
  define S' where "S' = snd (redact_rule reference_matcher example_session example_rule ''bob+bob'')"
  have "fst (redact_rule reference_matcher example_session example_rule ''bob+bob'') = Inr ''<CRED_1>+<CRED_1>''"
    by code_simp
  then have r: "redact_rule reference_matcher example_session example_rule ''bob+bob'' = (Inr ''<CRED_1>+<CRED_1>'', S')"
    by (simp add: S'_def prod_eq_iff)
  have ms: "filter (\<lambda>(s, e). \<not> overlaps (lm_iter (keys example_session) 0 0 ''bob+bob'') s e)
      (rx_find_iter (cr_regex example_rule) ''bob+bob'') = [(0, 3), (4, 7)]"
    by code_simp
  have "ses_engine example_session = example_engine" by (simp add: example_session_def new_session_def)
  moreover have "lookup S' ''<CRED_1>'' = Some ''bob''" unfolding S'_def by code_simp
  ultimately show ?thesis
    using redact_rule_replaces_matches [OF reference_matcher_ok example_session_ok example_rule_in r] r
    unfolding ms Let_def by auto
qed

text \<open>
  Minting is consistent. The token a value gets is restored to it, the value keeps the token
  when it is met again, no earlier mapping is lost, and the only failure is the full vault.
\<close>

theorem token_for_consistent:
  assumes "session_ok S" "rule \<in> set (re_rules (ses_engine S))"
  shows "case token_for S rule m of
      (Inr tok, S') \<Rightarrow> lookup S' tok = Some m \<and> token_for S' rule m = (Inr tok, S') \<and>
        map_of (token_to_original (ses_vault S)) \<subseteq>\<^sub>m map_of (token_to_original (ses_vault S'))
    | (Inl err, S') \<Rightarrow> err = cap_error \<and> S' = S \<and> token_count S = MAX_SESSION_TOKENS"
  using assms
proof (cases rule: token_for_cases [of S rule m])
  case (reuse tok)
  then show ?thesis by (simp add: map_le_def)
next
  case cap
  then show ?thesis by simp
next
  case (fresh tok S')
  then have "map_of (token_to_original (ses_vault S)) \<subseteq>\<^sub>m map_of (token_to_original (ses_vault S'))"
    using extends_lookup [OF fresh(3)] by (auto simp: map_le_def lookup_def)
  with fresh show ?thesis by (simp add: token_for_def Let_def)
qed

theorem token_for_consistent_witness:
  "lookup (snd (token_for example_session example_rule ''bob'')) ''<CRED_1>'' = Some ''bob''"
proof -
  have "fst (token_for example_session example_rule ''bob'') = Inr ''<CRED_1>''" by code_simp
  then show ?thesis
    using token_for_consistent [OF example_session_ok example_rule_in, of "''bob''"]
    by (auto split: prod.splits)
qed

text \<open>
  Restoring a text replaces exactly the vault's tokens, from the left: the answer depends on
  the vault alone, never on the cached automaton or on the order of its patterns.
\<close>

theorem restore_text_replaces_tokens:
  assumes "matcher_ok A" "session_ok S"
  shows "fst (restore_text A S t) = subst (keys S) (original S) 0 t"
  using restore_text_spec(1) [OF assms, of t] by (metis prod.collapse undone_def)

theorem restore_text_replaces_tokens_witness:
  "fst (restore_text reference_matcher example_after ''<<CRED_1> and <CRED_10>'') = ''<bob and <CRED_10>''"
proof -
  have "subst (keys example_after) (original example_after) 0 ''<<CRED_1> and <CRED_10>''
      = ''<bob and <CRED_10>''" by code_simp
  then show ?thesis using restore_text_replaces_tokens [OF reference_matcher_ok example_after_ok] by simp
qed

text \<open>
  The proviso of the round trip is needed: a client who writes a token literally gets another
  value back in its place.
\<close>

lemma literal_token_is_rewritten:
  "case redact_text reference_matcher example_session ''bob wrote <CRED_1>'' of
     (r, S') \<Rightarrow> r = Inr ''<CRED_1> wrote <CRED_1>'' \<and>
       fst (restore_text reference_matcher S' ''<CRED_1> wrote <CRED_1>'') = ''bob wrote bob''"
  by code_simp

end
