(* ===== verification/RestoreStreams.thy ===== *)
theory RestoreStreams
  imports Roundtrip Utf8
begin

text \<open>
  Privacy Guard on a stream (\<open>RestoreStream\<close> and \<open>StreamRestorer\<close> of
  \<open>src/core/privacy.rs\<close>). The main result: however the upstream cuts a text into fragments,
  what the restorer emits in total is the restoration of the whole text.
\<close>

section \<open>One channel\<close>

record restore_stream =
  rs_buffer :: string
  rs_max_token_len :: nat
  rs_json_escape :: bool

definition rs_with_mode :: "redaction_session \<Rightarrow> bool \<Rightarrow> restore_stream" where
  "rs_with_mode S json_escape =
     \<lparr>rs_buffer = [], rs_max_token_len = re_max_token_len (ses_engine S), rs_json_escape = json_escape\<rparr>"

definition rs_new :: "redaction_session \<Rightarrow> restore_stream" where
  "rs_new S = rs_with_mode S False"

definition rs_new_json :: "redaction_session \<Rightarrow> restore_stream" where
  "rs_new_json S = rs_with_mode S True"

text \<open>The original as it is spliced in: on the JSON channel, escaped and without its quotes.\<close>

definition splice_original :: "serde_json \<Rightarrow> bool \<Rightarrow> string \<Rightarrow> string" where
  "splice_original J json_escape orig =
     (if json_escape then let quoted = to_string J (String orig) in substr quoted 1 (length quoted - 1)
      else orig)"

partial_function (option) feed_loop ::
  "matcher \<Rightarrow> (string \<Rightarrow> string) \<Rightarrow> redaction_session \<Rightarrow> string \<Rightarrow> string
   \<Rightarrow> (string \<times> string \<times> redaction_session) option" where
  "feed_loop A sp S buffer out =
     (let (matched, S1) = with_automaton A S (\<lambda>ac. ac_find A ac buffer) in
      case Option.bind matched (\<lambda>m. m) of
        None \<Rightarrow> Some (out, buffer, S1)
      | Some (s, e) \<Rightarrow>
          let token = substr buffer s e;
              orig = unwrap_or (lookup S1 token) token
          in feed_loop A sp S1 (drop e buffer) (out @ take s buffer @ sp orig))"

declare feed_loop.simps [code]

fun boundary_below :: "string \<Rightarrow> nat \<Rightarrow> nat" where
  "boundary_below b 0 = 0"
| "boundary_below b (Suc n) = (if \<not> is_char_boundary b (Suc n) then boundary_below b n else Suc n)"

fun find_char :: "char \<Rightarrow> string \<Rightarrow> nat option" where
  "find_char c [] = None"
| "find_char c (x # xs) = (if x = c then Some 0 else map_option Suc (find_char c xs))"

definition keep_from :: "nat \<Rightarrow> string \<Rightarrow> nat" where
  "keep_from max_len buffer =
     (let window_start = boundary_below buffer (length buffer - (max_len - 1)) in
      case find_char CHR ''<'' (drop window_start buffer) of
        Some i \<Rightarrow> window_start + i
      | None \<Rightarrow> length buffer)"

definition rs_feed :: "matcher \<Rightarrow> serde_json \<Rightarrow> redaction_session \<Rightarrow> restore_stream \<Rightarrow> string
    \<Rightarrow> (string \<times> restore_stream \<times> redaction_session) option" where
  "rs_feed A J S st fragment =
     (case feed_loop A (splice_original J (rs_json_escape st)) S (rs_buffer st @ fragment) [] of
        None \<Rightarrow> None
      | Some (out, buffer, S1) \<Rightarrow>
          let keep = keep_from (rs_max_token_len st) buffer in
          if keep > 0 then Some (out @ take keep buffer, st\<lparr>rs_buffer := drop keep buffer\<rparr>, S1)
          else Some (out, st\<lparr>rs_buffer := buffer\<rparr>, S1))"

definition rs_finish :: "restore_stream \<Rightarrow> string \<times> restore_stream" where
  "rs_finish st = (rs_buffer st, st\<lparr>rs_buffer := []\<rparr>)"

section \<open>All channels of a stream\<close>

record stream_restorer =
  sr_text :: restore_stream
  sr_reasoning :: restore_stream
  sr_tool_args :: "(u32 \<times> restore_stream) list"

definition sr_new :: "redaction_session \<Rightarrow> stream_restorer" where
  "sr_new S = \<lparr>sr_text = rs_new S, sr_reasoning = rs_new S, sr_tool_args = []\<rparr>"

fun restore_event :: "matcher \<Rightarrow> serde_json \<Rightarrow> redaction_session \<Rightarrow> stream_restorer \<Rightarrow> stream_event
    \<Rightarrow> (stream_event option \<times> stream_restorer \<times> redaction_session) option" where
  "restore_event A J S R (TextDelta t) =
     (case rs_feed A J S (sr_text R) t of
        None \<Rightarrow> None
      | Some (emitted, st, S1) \<Rightarrow>
          Some (if emitted = [] then None else Some (TextDelta emitted), R\<lparr>sr_text := st\<rparr>, S1))"
| "restore_event A J S R (ReasoningDelta t) =
     (case rs_feed A J S (sr_reasoning R) t of
        None \<Rightarrow> None
      | Some (emitted, st, S1) \<Rightarrow>
          Some (if emitted = [] then None else Some (ReasoningDelta emitted), R\<lparr>sr_reasoning := st\<rparr>, S1))"
| "restore_event A J S R (ToolCallDelta index i nm arguments) =
     (case rs_feed A J S (unwrap_or (map_of (sr_tool_args R) index) (rs_new_json S)) arguments of
        None \<Rightarrow> None
      | Some (emitted, st, S1) \<Rightarrow>
          Some (if emitted = [] \<and> i = [] \<and> nm = [] then None
                else Some (ToolCallDelta index i nm emitted),
                R\<lparr>sr_tool_args := AList.update index st (sr_tool_args R)\<rparr>, S1))"
| "restore_event A J S R (Error e) =
     (let (emitted, S1) = restore_text A S (error_to_string e) in Some (Some (Error (Api emitted)), R, S1))"
| "restore_event A J S R other = Some (Some other, R, S)"

definition sr_finish :: "stream_restorer \<Rightarrow> stream_event list \<times> stream_restorer" where
  "sr_finish R =
     (let (t, text_st) = rs_finish (sr_text R);
          (r, reasoning_st) = rs_finish (sr_reasoning R);
          args = sort_key fst (filter (\<lambda>(_, s). s \<noteq> []) (map (\<lambda>(index, st). (index, fst (rs_finish st))) (sr_tool_args R)))
      in ((if t \<noteq> [] then [TextDelta t] else []) @
          (if r \<noteq> [] then [ReasoningDelta r] else []) @
          map (\<lambda>(index, arguments). ToolCallDelta index [] [] arguments) args,
          \<lparr>sr_text = text_st, sr_reasoning = reasoning_st, sr_tool_args = []\<rparr>))"

section \<open>What one feed does\<close>

text \<open>What the channel makes of a token: the vault's original, spliced.\<close>

definition spliced :: "serde_json \<Rightarrow> bool \<Rightarrow> redaction_session \<Rightarrow> string \<Rightarrow> string" where
  "spliced J esc S tok = splice_original J esc (original S tok)"

lemma spliced_vault: "ses_vault S' = ses_vault S \<Longrightarrow> spliced J esc S' = spliced J esc S"
  by (rule ext) (simp add: spliced_def original_def lookup_def)

lemma with_automaton_find:
  assumes "session_ok S" "matcher_ok A" "with_automaton A S (\<lambda>ac. ac_find A ac t) = (f, S')"
  shows "Option.bind f (\<lambda>m. m) = lm_find (keys S) 0 t"
proof -
  note w = with_automaton_ok(4) [OF assms] and tk = keys_tokens [OF assms(1)]
  show ?thesis
  proof (cases "keys S = []")
    case True
    then have "lm_find (keys S) 0 t = None" by (simp add: lm_find_None tok_at_None)
    with True w show ?thesis by auto
  next
    case False
    with w obtain ps where ps: "set ps = set (keys S)" "f = Some (ac_find A ps t)" by auto
    then have "tokens ps" using tk by (simp add: tokens_def list_all_iff)
    with ps show ?thesis using lm_find_order [of ps "keys S"] by (simp add: matcher_find [OF assms(2)])
  qed
qed

lemma subst_first_match:
  assumes "tokens ps" "lm_find ps 0 b = Some (s, e)"
  shows "s < e" "e \<le> length b" "substr b s e \<in> set ps"
    "subst ps g 0 (b @ y) = take s b @ g (substr b s e) @ subst ps g 0 (drop e b @ y)"
proof -
  from lm_find_Some [OF assms(2)] obtain p where p: "tok_at ps (drop s b) = Some p" "e = s + length p"
    and s: "s < length b" and before: "\<forall>j < s. tok_at ps (drop j b) = None" by blast
  have pm: "p \<in> set ps" "prefix p (drop s b)" using tok_at_SomeD [OF p(1)] by blast+
  then have "p \<noteq> []" using tokens_no_empty [OF assms(1)] by metis
  then show "s < e" using p(2) by simp
  show "e \<le> length b" using prefix_length_le [OF pm(2)] p(2) s by simp
  have sub: "substr b s e = p" using pm(2) by (auto simp: p(2) substr_def prefix_def)
  with pm(1) show "substr b s e \<in> set ps" by simp
  have split: "b = take s b @ p @ drop e b"
    using pm(2) by (metis append_take_drop_id drop_drop p(2) prefixE add.commute append_eq_conv_conj)
  have "tok_at ps (drop i (take s b)) = None" if "i < length (take s b)" for i
  proof -
    have "drop i b = drop i (take s b) @ drop s b"
      using that by (metis append_take_drop_id drop_append length_take min_def
        diff_is_0_eq drop_0 less_imp_le)
    then have "prefix p (drop i (take s b)) \<Longrightarrow> prefix p (drop i b)" for p
      by (metis prefix_order.trans prefixI)
    with before that show ?thesis by (auto simp: tok_at_None)
  qed
  then have "subst ps g 0 (take s b) = take s b" by (rule subst_id)
  then show "subst ps g 0 (b @ y) = take s b @ g (substr b s e) @ subst ps g 0 (drop e b @ y)"
    using subst_around_token [OF assms(1) pm(1), of g "take s b" "drop e b @ y"] split sub
    by (metis append_assoc)
qed

definition same_vault :: "redaction_session \<Rightarrow> redaction_session \<Rightarrow> bool" where
  "same_vault S S' \<longleftrightarrow> session_ok S' \<and> ses_vault S' = ses_vault S \<and> ses_engine S' = ses_engine S"

lemma feed_loop_spec:
  assumes "matcher_ok A" "session_ok S"
  shows "\<exists>out' buffer' S'. feed_loop A sp S buffer out = Some (out @ out', buffer', S') \<and> same_vault S S' \<and>
    (\<exists>n. buffer' = drop n buffer) \<and> lm_find (keys S) 0 buffer' = None \<and>
    (\<forall>y. subst (keys S) (sp \<circ> original S) 0 (buffer @ y) = out' @ subst (keys S) (sp \<circ> original S) 0 (buffer' @ y))"
  using assms(2)
proof (induction "length buffer" arbitrary: S buffer out rule: less_induct)
  case less
  obtain f S1 where w: "with_automaton A S (\<lambda>ac. ac_find A ac buffer) = (f, S1)" by fastforce
  note w1 = with_automaton_ok(1-3) [OF less.prems assms(1) w] and fnd = with_automaton_find [OF less.prems assms(1) w]
  note tk = keys_tokens [OF less.prems]
  show ?case
  proof (cases "lm_find (keys S) 0 buffer")
    case None
    then have "feed_loop A sp S buffer out = Some (out, buffer, S1)"
      by (subst feed_loop.simps) (simp add: w fnd)
    with None w1 show ?thesis by (auto simp: same_vault_def intro: exI [of _ "0 :: nat"])
  next
    case (Some m)
    obtain s e where m: "m = (s, e)" by (cases m)
    note fm = subst_first_match [OF tk Some [unfolded m]]
    let ?o = "take s buffer @ sp (unwrap_or (lookup S1 (substr buffer s e)) (substr buffer s e))"
    have step: "feed_loop A sp S buffer out = feed_loop A sp S1 (drop e buffer) (out @ ?o)"
      by (subst feed_loop.simps) (simp add: w fnd Some m Let_def)
    have lk: "lookup S1 = lookup S" "original S1 = original S" "keys S1 = keys S"
      using w1(2) by (auto simp: lookup_def original_def)
    have "length (drop e buffer) < length buffer" using fm(1,2) by simp
    from less.hyps [OF this w1(1), of "out @ ?o"] obtain out' buffer' S' where
      r: "feed_loop A sp S1 (drop e buffer) (out @ ?o) = Some ((out @ ?o) @ out', buffer', S')"
      "same_vault S1 S'" "\<exists>n. buffer' = drop n (drop e buffer)" "lm_find (keys S) 0 buffer' = None"
      "\<forall>y. subst (keys S) (sp \<circ> original S) 0 (drop e buffer @ y) = out' @ subst (keys S) (sp \<circ> original S) 0 (buffer' @ y)"
      unfolding lk by blast
    have "\<exists>n. buffer' = drop n buffer" using r(3) by auto
    moreover have "same_vault S S'" using r(2) w1 by (simp add: same_vault_def)
    moreover have "subst (keys S) (sp \<circ> original S) 0 (buffer @ y)
        = (?o @ out') @ subst (keys S) (sp \<circ> original S) 0 (buffer' @ y)" for y
      using fm(4) [of "sp \<circ> original S" y] r(5) lk by (simp add: original_def)
    ultimately show ?thesis using step r(1,4) by (intro exI [of _ "?o @ out'"] exI [of _ buffer'] exI [of _ S']) simp
  qed
qed

section \<open>What is held back\<close>

lemma find_char_None: "find_char c s = None \<longleftrightarrow> c \<notin> set s"
  by (induction s) auto

lemma find_char_Some: "find_char c s = Some i \<longleftrightarrow> i < length s \<and> s ! i = c \<and> (\<forall>j < i. s ! j \<noteq> c)"
proof (induction s arbitrary: i)
  case (Cons x xs)
  show ?case by (cases i) (auto simp: Cons All_less_Suc2)
qed simp

lemma boundary_below_le: "boundary_below b n \<le> n"
  by (induction b n rule: boundary_below.induct) auto

lemma boundary_below_cont:
  "boundary_below b n < i \<Longrightarrow> i \<le> n \<Longrightarrow> \<not> is_char_boundary b i"
  by (induction b n rule: boundary_below.induct) (auto simp: le_Suc_eq split: if_splits)

text \<open>Before \<open>keep\<close>, an opening bracket is further from the end than any token is long.\<close>

lemma keep_from_le: "keep_from m b \<le> length b"
proof -
  have "boundary_below b (length b - (m - 1)) \<le> length b"
    using boundary_below_le [of b "length b - (m - 1)"] by linarith
  then show ?thesis unfolding keep_from_def Let_def
    by (auto simp: find_char_Some split: option.split)
qed

lemma keep_from_lt:
  assumes "i < keep_from m b" "b ! i = CHR ''<''"
  shows "i < length b - (m - 1)"
proof (rule ccontr)
  define ws where "ws = boundary_below b (length b - (m - 1))"
  assume "\<not> i < length b - (m - 1)"
  then have ws: "ws \<le> i" using boundary_below_le [of b "length b - (m - 1)"] by (simp add: ws_def)
  have i: "i < length b" using assms(1) keep_from_le [of m b] by simp
  show False
  proof (cases "find_char CHR ''<'' (drop ws b)")
    case None
    then have "CHR ''<'' \<notin> set (drop ws b)" by (simp add: find_char_None)
    moreover have "drop ws b ! (i - ws) \<in> set (drop ws b)" using ws i by (intro nth_mem) simp
    ultimately show False using ws i assms(2) by simp
  next
    case (Some j)
    then have "keep_from m b = ws + j" by (simp only: keep_from_def Let_def ws_def [symmetric] option.case)
    then have "i < ws + j" using assms(1) by simp
    then have "i - ws < j" using ws by simp
    then have "drop ws b ! (i - ws) \<noteq> CHR ''<''" using Some by (simp add: find_char_Some)
    with ws i assms(2) show False by simp
  qed
qed

lemma key_length: "session_ok S \<Longrightarrow> p \<in> set (keys S) \<Longrightarrow> length p \<le> re_max_token_len (ses_engine S)"
proof -
  assume ok: "session_ok S" and "p \<in> set (keys S)"
  then obtain r n where r: "r \<in> set (re_rules (ses_engine S))" "p = mint (cr_template r) n"
    "n \<le> unat (unwrap_or (counters (ses_vault S) (cr_name r)) 0)"
    by (auto simp: session_ok_def vault_ok_def minted_def)
  moreover have "unat (unwrap_or (counters (ses_vault S) (cr_name r)) 0) \<le> 4096"
    using ok unfolding session_ok_def vault_ok_def MAX_SESSION_TOKENS_def by (meson order_trans)
  ultimately have "n < 10 ^ 12" by simp
  moreover have "valid_template (cr_template r)" "length (cr_template r) - 3 + 12 \<le> re_max_token_len (ses_engine S)"
    using ok r(1) by (auto simp: session_ok_def engine_ok_def)
  ultimately show ?thesis using mint_length r(2) order_trans by blast
qed

lemma emit_prefix:
  assumes "session_ok S" "lm_find (keys S) 0 b = None" "k = keep_from (re_max_token_len (ses_engine S)) b"
  shows "subst (keys S) g 0 (b @ y) = take k b @ subst (keys S) g 0 (drop k b @ y)"
proof -
  let ?m = "re_max_token_len (ses_engine S)"
  have "tok_at (keys S) (drop i (take k b) @ drop k b @ y) = None" if "i < length (take k b)" for i
  proof (rule ccontr)
    assume "tok_at (keys S) (drop i (take k b) @ drop k b @ y) \<noteq> None"
    moreover have i: "i < k" "i < length b" using that by auto
    moreover have "drop i (take k b) @ drop k b = drop i b"
      using that by (metis append_take_drop_id drop_append length_take less_imp_le drop_0 diff_is_0_eq)
    ultimately obtain p where p: "p \<in> set (keys S)" "prefix p (drop i b @ y)"
      using tok_at_SomeD by (metis append_assoc option.exhaust)
    have sh: "token_shape p" using keys_tokens [OF assms(1)] p(1) unfolding tokens_def list_all_iff by blast
    then have "b ! i = CHR ''<''"
      using p(2) i(2) token_hd [OF sh] token_nonempty [OF sh]
      by (metis append_is_Nil_conv drop_eq_Nil hd_append2 hd_drop_conv_nth linorder_not_less prefixE)
    then have "i < length b - (?m - 1)" using keep_from_lt i(1) assms(3) by blast
    then have "length p \<le> length (drop i b)" using key_length [OF assms(1) p(1)] by simp
    then have "prefix p (drop i b)" using p(2) by (auto simp: prefix_append)
    then have "tok_at (keys S) (drop i b) \<noteq> None" using p(1) by (auto simp: tok_at_None)
    with assms(2) i(2) show False by (simp add: lm_find_None)
  qed
  then have "subst (keys S) g 0 (take k b @ drop k b @ y) = take k b @ subst (keys S) g 0 (drop k b @ y)"
    by (rule subst_literal)
  then show ?thesis by (metis append_assoc append_take_drop_id)
qed

text \<open>
  The state of a channel that has been fed \<open>x\<close> and has emitted \<open>o\<close>: whatever follows, what it
  emits and holds accounts for the whole text.
\<close>

definition channel_ok :: "redaction_session \<Rightarrow> restore_stream \<Rightarrow> bool" where
  "channel_ok S st \<longleftrightarrow> rs_max_token_len st = re_max_token_len (ses_engine S) \<and>
     lm_find (keys S) 0 (rs_buffer st) = None"

lemma lm_find_drop: "lm_find ps 0 b = None \<Longrightarrow> lm_find ps 0 (drop n b) = None"
  by (auto simp: lm_find_None)

lemma rs_feed_spec:
  assumes "matcher_ok A" "session_ok S" "channel_ok S st"
  shows "\<exists>out st' S'. rs_feed A J S st fragment = Some (out, st', S') \<and> same_vault S S' \<and>
    channel_ok S st' \<and> rs_json_escape st' = rs_json_escape st \<and>
    (\<exists>n. rs_buffer st' = drop n (rs_buffer st @ fragment) \<and>
       (\<exists>b. (\<exists>m. b = drop m (rs_buffer st @ fragment)) \<and>
          rs_buffer st' = drop (keep_from (rs_max_token_len st) b) b)) \<and>
    (\<forall>y. subst (keys S) (spliced J (rs_json_escape st) S) 0 (rs_buffer st @ fragment @ y)
       = out @ subst (keys S) (spliced J (rs_json_escape st) S) 0 (rs_buffer st' @ y))"
proof -
  let ?sp = "splice_original J (rs_json_escape st)" and ?B = "rs_buffer st @ fragment"
  have sp: "?sp \<circ> original S = spliced J (rs_json_escape st) S" by (simp add: fun_eq_iff spliced_def)
  from feed_loop_spec [OF assms(1,2), of ?sp ?B "[]"] obtain o1 b S' where
    l: "feed_loop A ?sp S ?B [] = Some (o1, b, S')" "same_vault S S'" "\<exists>n. b = drop n ?B"
      "lm_find (keys S) 0 b = None" and
    eq: "\<forall>y. subst (keys S) (spliced J (rs_json_escape st) S) 0 (?B @ y)
       = o1 @ subst (keys S) (spliced J (rs_json_escape st) S) 0 (b @ y)"
    unfolding sp by auto
  define k where "k = keep_from (rs_max_token_len st) b"
  have m: "rs_max_token_len st = re_max_token_len (ses_engine S)" using assms(3) by (simp add: channel_ok_def)
  have feed: "rs_feed A J S st fragment = Some (o1 @ take k b, st\<lparr>rs_buffer := drop k b\<rparr>, S')"
    using l(1) by (simp add: rs_feed_def k_def Let_def)
  have "channel_ok S (st\<lparr>rs_buffer := drop k b\<rparr>)" using m l(4) by (simp add: channel_ok_def lm_find_drop)
  moreover have "subst (keys S) (spliced J (rs_json_escape st) S) 0 (rs_buffer st @ fragment @ y)
      = (o1 @ take k b) @ subst (keys S) (spliced J (rs_json_escape st) S) 0 (drop k b @ y)" for y
    using eq emit_prefix [OF assms(2) l(4), of k _ y] by (simp add: k_def m)
  moreover have "\<exists>n. drop k b = drop n ?B" using l(3) by (metis drop_drop)
  ultimately show ?thesis using feed l(2,3) k_def by (intro exI [of _ "o1 @ take k b"] exI [of _ "st\<lparr>rs_buffer := drop k b\<rparr>"] exI [of _ S']) auto
qed

section \<open>The tail is short\<close>

text \<open>In UTF-8 an ASCII character is never followed by a continuation byte.\<close>

definition lt_ok :: "string \<Rightarrow> bool" where
  "lt_ok t \<longleftrightarrow> (\<forall>i. Suc i < length t \<and> t ! i = CHR ''<'' \<longrightarrow> \<not> is_cont (byte (t ! Suc i)))"

lemma lt_ok_drop: "lt_ok t \<Longrightarrow> lt_ok (drop n t)"
  by (auto simp: lt_ok_def add.commute)

lemma lt_ok_app:
  assumes "lt_ok a" "lt_ok b" "b = [] \<or> \<not> is_cont (byte (hd b))"
  shows "lt_ok (a @ b)"
  unfolding lt_ok_def
proof (intro allI impI, elim conjE)
  fix i assume i: "Suc i < length (a @ b)" and lt: "(a @ b) ! i = CHR ''<''"
  consider "Suc i < length a" | "Suc i = length a" | "length a \<le> i" by linarith
  then show "\<not> is_cont (byte ((a @ b) ! Suc i))"
  proof cases
    case 1
    with assms(1) lt show ?thesis by (simp add: lt_ok_def nth_append)
  next
    case 2
    with assms(3) i show ?thesis by (auto simp: nth_append hd_conv_nth)
  next
    case 3
    with assms(2) lt i show ?thesis
      by (simp add: lt_ok_def nth_append Suc_diff_le)
  qed
qed

lemma utf8_valid_hd: "utf8_valid s \<Longrightarrow> s \<noteq> [] \<Longrightarrow> \<not> is_cont (byte (hd s))"
proof -
  assume v: "utf8_valid s" and ne: "s \<noteq> []"
  obtain n ok where st: "utf8_step s = (n, ok)" by (cases "utf8_step s")
  with v ne have "utf8_step s = (n, True)" by (simp add: utf8_valid_def utf8_chunks.simps [of s])
  moreover have "byte_at s 0 = byte (hd s)" using ne by (simp add: byte_at_def hd_conv_nth)
  ultimately show ?thesis by (cases rule: utf8_step_cases) (auto simp: is_cont_def)
qed

lemma utf8_step_multi:
  assumes "utf8_step s = (n, True)" "n \<noteq> 1" "i < n"
  shows "128 \<le> byte_at s i"
  using assms(1)
proof (cases rule: utf8_step_cases)
  case one
  with assms(2) show ?thesis by simp
next
  case two
  then show ?thesis using assms(3) by (auto simp: less_Suc_eq numeral_2_eq_2 utf8_two_def is_cont_def split: if_splits)
next
  case three
  then have "is_cont (byte_at s 1)" "is_cont (byte_at s 2)"
    by (auto simp: utf8_three_def split: if_splits)
  moreover have "i = 0 \<or> i = 1 \<or> i = 2" using assms(3) three by linarith
  ultimately show ?thesis using three by (auto simp: is_cont_def)
next
  case four
  then have "is_cont (byte_at s 1)" "is_cont (byte_at s 2)" "is_cont (byte_at s 3)"
    by (auto simp: utf8_four_def split: if_splits)
  moreover have "i = 0 \<or> i = 1 \<or> i = 2 \<or> i = 3" using assms(3) four by linarith
  ultimately show ?thesis using four by (auto simp: is_cont_def)
qed

lemma utf8_valid_lt_ok: "utf8_valid s \<Longrightarrow> lt_ok s"
proof (induction s rule: utf8_chunks.induct)
  case (1 s)
  show ?case
  proof (cases "s = []")
    case False
    obtain n ok where st: "utf8_step s = (n, ok)" by (cases "utf8_step s")
    with "1.prems" False have ok: "ok" "utf8_valid (drop n s)"
      by (simp_all add: utf8_valid_def utf8_chunks.simps [of s])
    then have st1: "utf8_step s = (n, True)" using st by simp
    then have IH: "lt_ok (drop n s)" using "1.IH" [OF False] ok by simp
    have "lt_ok (take n s)" unfolding lt_ok_def
    proof (intro allI impI, elim conjE)
      fix i assume i: "Suc i < length (take n s)" and lt: "take n s ! i = CHR ''<''"
      then have "n \<noteq> 1" "i < n" by auto
      then have "128 \<le> byte_at s i" using utf8_step_multi [OF st1] by blast
      moreover have "byte_at s i = 60" using i lt by (simp add: byte_at_def byte_def)
      ultimately show "\<not> is_cont (byte (take n s ! Suc i))" by simp
    qed
    then show ?thesis using lt_ok_app [OF _ IH, of "take n s"] utf8_valid_hd [OF ok(2)] by fastforce
  qed (simp add: lt_ok_def)
qed

lemma kept_short:
  assumes "lt_ok b" "0 < m"
  shows "length (drop (keep_from m b) b) < m \<or> keep_from m b = length b"
proof (cases "keep_from m b = length b")
  case False
  define n where "n = length b - (m - 1)"
  define ws where "ws = boundary_below b n"
  have kf: "keep_from m b = (case find_char CHR ''<'' (drop ws b) of Some i \<Rightarrow> ws + i | None \<Rightarrow> length b)"
    by (simp only: keep_from_def Let_def ws_def n_def)
  then obtain j where j: "find_char CHR ''<'' (drop ws b) = Some j" and k: "keep_from m b = ws + j"
    using False by (auto split: option.splits)
  have jb: "ws + j < length b" "b ! (ws + j) = CHR ''<''" using j by (auto simp: find_char_Some)
  have "n \<le> ws + j"
  proof (rule ccontr)
    assume lt: "\<not> n \<le> ws + j"
    then have "\<not> is_char_boundary b (Suc (ws + j))"
      using boundary_below_cont [of b n "Suc (ws + j)"] by (simp add: ws_def)
    moreover have "Suc (ws + j) < length b"
      using calculation jb by (auto simp: is_char_boundary_def)
    ultimately show False using assms(1) jb by (auto simp: lt_ok_def is_char_boundary_def)
  qed
  then show ?thesis using jb(1) assms(2) by (simp add: k n_def)
qed simp

section \<open>Sequences of fragments\<close>

text \<open>
  From state \<open>st\<close> the channel is fed \<open>x\<close>, emits \<open>out\<close> and is left in \<open>st'\<close>: whatever follows,
  what it emitted and what it holds account for the whole text.
\<close>

definition emits :: "serde_json \<Rightarrow> redaction_session \<Rightarrow> restore_stream \<Rightarrow> string \<Rightarrow> string \<Rightarrow> restore_stream \<Rightarrow> bool" where
  "emits J S st x out st' \<longleftrightarrow> channel_ok S st' \<and> rs_json_escape st' = rs_json_escape st \<and>
     (\<forall>y. subst (keys S) (spliced J (rs_json_escape st) S) 0 (rs_buffer st @ x @ y)
        = out @ subst (keys S) (spliced J (rs_json_escape st) S) 0 (rs_buffer st' @ y))"

lemma emits_refl: "channel_ok S st \<Longrightarrow> emits J S st [] [] st"
  by (simp add: emits_def)

lemma emits_trans: "emits J S st x o1 st1 \<Longrightarrow> emits J S st1 y o2 st2 \<Longrightarrow> emits J S st (x @ y) (o1 @ o2) st2"
  by (simp add: emits_def)

lemma channel_ok_vault:
  "ses_vault S' = ses_vault S \<Longrightarrow> ses_engine S' = ses_engine S \<Longrightarrow> channel_ok S' st = channel_ok S st"
  by (simp add: channel_ok_def)

lemma emits_vault:
  "ses_vault S' = ses_vault S \<Longrightarrow> ses_engine S' = ses_engine S \<Longrightarrow> emits J S' st x out st' = emits J S st x out st'"
  using spliced_vault [of S' S] by (simp add: emits_def channel_ok_def)

lemma rs_feed_emits:
  assumes "matcher_ok A" "session_ok S" "channel_ok S st"
  obtains out st' S' where "rs_feed A J S st fragment = Some (out, st', S')" "same_vault S S'"
    "emits J S st fragment out st'"
  using rs_feed_spec [OF assms, of J fragment] unfolding emits_def by blast

lemma same_vault_trans: "same_vault S S' \<Longrightarrow> same_vault S' S'' \<Longrightarrow> same_vault S S''"
  by (simp add: same_vault_def)

lemma rs_new_ok: "channel_ok S (rs_with_mode S esc)"
  by (simp add: channel_ok_def rs_with_mode_def)

fun rs_feed_all :: "matcher \<Rightarrow> serde_json \<Rightarrow> redaction_session \<Rightarrow> restore_stream \<Rightarrow> string list
    \<Rightarrow> (string list \<times> restore_stream \<times> redaction_session) option" where
  "rs_feed_all A J S st [] = Some ([], st, S)"
| "rs_feed_all A J S st (f # fs) =
     (case rs_feed A J S st f of
        None \<Rightarrow> None
      | Some (out, st1, S1) \<Rightarrow>
          (case rs_feed_all A J S1 st1 fs of
             None \<Rightarrow> None
           | Some (outs, st2, S2) \<Rightarrow> Some (out # outs, st2, S2)))"

lemma rs_feed_all_emits:
  "matcher_ok A \<Longrightarrow> session_ok S \<Longrightarrow> channel_ok S st \<Longrightarrow>
   \<exists>outs st' S'. rs_feed_all A J S st fs = Some (outs, st', S') \<and> same_vault S S' \<and>
     emits J S st (concat fs) (concat outs) st'"
proof (induction fs arbitrary: S st)
  case Nil
  then show ?case by (simp add: emits_refl same_vault_def)
next
  case (Cons f fs)
  obtain out st1 S1 where f: "rs_feed A J S st f = Some (out, st1, S1)" "same_vault S S1" "emits J S st f out st1"
    using rs_feed_emits [OF Cons.prems] .
  then have v: "ses_vault S1 = ses_vault S" "ses_engine S1 = ses_engine S" "session_ok S1"
    by (simp_all add: same_vault_def)
  moreover have "channel_ok S1 st1" using f(3) channel_ok_vault [OF v(1,2)] by (simp add: emits_def)
  ultimately obtain outs st2 S2 where r: "rs_feed_all A J S1 st1 fs = Some (outs, st2, S2)" "same_vault S1 S2"
    "emits J S1 st1 (concat fs) (concat outs) st2" using Cons.IH [OF Cons.prems(1)] by blast
  then have "emits J S st (f @ concat fs) (out @ concat outs) st2"
    using emits_trans [OF f(3)] emits_vault [OF v(1,2)] by simp
  with f r show ?case using same_vault_trans by fastforce
qed

lemma rs_feed_all_tail:
  "matcher_ok A \<Longrightarrow> session_ok S \<Longrightarrow> channel_ok S st \<Longrightarrow> list_all utf8_valid fs \<Longrightarrow>
   lt_ok (rs_buffer st) \<Longrightarrow> length (rs_buffer st) < re_max_token_len (ses_engine S) \<Longrightarrow>
   rs_feed_all A J S st fs = Some (outs, st', S') \<Longrightarrow> length (rs_buffer st') < re_max_token_len (ses_engine S)"
proof (induction fs arbitrary: S st outs)
  case (Cons f fs)
  obtain out st1 S1 b where f: "rs_feed A J S st f = Some (out, st1, S1)" "same_vault S S1" "channel_ok S st1"
    and b: "\<exists>m. b = drop m (rs_buffer st @ f)" "rs_buffer st1 = drop (keep_from (rs_max_token_len st) b) b"
    using rs_feed_spec [OF Cons.prems(1-3), of J f] by blast
  have v: "ses_vault S1 = ses_vault S" "ses_engine S1 = ses_engine S" "session_ok S1"
    using f(2) by (simp_all add: same_vault_def)
  have "utf8_valid f" using Cons.prems(4) by simp
  then have "lt_ok (rs_buffer st @ f)"
    using lt_ok_app [OF Cons.prems(5) utf8_valid_lt_ok] utf8_valid_hd by blast
  then have lb: "lt_ok b" using b(1) lt_ok_drop by blast
  then have l1: "lt_ok (rs_buffer st1)" using b(2) lt_ok_drop by simp
  have m: "rs_max_token_len st = re_max_token_len (ses_engine S)" using Cons.prems(3) by (simp add: channel_ok_def)
  have "0 < re_max_token_len (ses_engine S)" using Cons.prems(6) by simp
  then have s1: "length (rs_buffer st1) < re_max_token_len (ses_engine S)"
    using kept_short [OF lb, of "re_max_token_len (ses_engine S)"] unfolding b(2) m by auto
  obtain outs' where "rs_feed_all A J S1 st1 fs = Some (outs', st', S')"
    using Cons.prems(7) f(1) by (auto split: option.splits prod.splits)
  with Cons.IH [OF Cons.prems(1) v(3) _ _ l1] s1 v f(3) Cons.prems(4) channel_ok_vault [OF v(1,2)]
  show ?case by simp
qed simp

lemma emits_total:
  assumes "emits J S (rs_with_mode S esc) x out st'"
  shows "out @ fst (rs_finish st') = subst (keys S) (spliced J esc S) 0 x"
proof -
  have "\<forall>y. subst (keys S) (spliced J esc S) 0 (x @ y) = out @ subst (keys S) (spliced J esc S) 0 (rs_buffer st' @ y)"
    using assms by (simp add: emits_def rs_with_mode_def)
  from spec [OF this, of "[]"]
  have "subst (keys S) (spliced J esc S) 0 x = out @ subst (keys S) (spliced J esc S) 0 (rs_buffer st')" by simp
  moreover have "subst (keys S) (spliced J esc S) 0 (rs_buffer st') = rs_buffer st'"
    using assms by (intro subst_id) (simp add: emits_def channel_ok_def lm_find_None)
  ultimately show ?thesis by (simp add: rs_finish_def)
qed

section \<open>The three kinds of channel do not mix\<close>

fun text_part :: "stream_event \<Rightarrow> string" where
  "text_part (TextDelta t) = t"
| "text_part _ = []"

fun reasoning_part :: "stream_event \<Rightarrow> string" where
  "reasoning_part (ReasoningDelta t) = t"
| "reasoning_part _ = []"

fun args_part :: "u32 \<Rightarrow> stream_event \<Rightarrow> string" where
  "args_part k (ToolCallDelta index _ _ a) = (if index = k then a else [])"
| "args_part k _ = []"

fun is_delta :: "stream_event \<Rightarrow> bool" where
  "is_delta (TextDelta _) = True"
| "is_delta (ReasoningDelta _) = True"
| "is_delta (ToolCallDelta _ _ _ _) = True"
| "is_delta _ = False"

fun restore_events :: "matcher \<Rightarrow> serde_json \<Rightarrow> redaction_session \<Rightarrow> stream_restorer \<Rightarrow> stream_event list
    \<Rightarrow> (stream_event list \<times> stream_restorer \<times> redaction_session) option" where
  "restore_events A J S R [] = Some ([], R, S)"
| "restore_events A J S R (e # es) =
     (case restore_event A J S R e of
        None \<Rightarrow> None
      | Some (out, R1, S1) \<Rightarrow>
          (case restore_events A J S1 R1 es of
             None \<Rightarrow> None
           | Some (outs, R2, S2) \<Rightarrow> Some ((case out of None \<Rightarrow> [] | Some o' \<Rightarrow> [o']) @ outs, R2, S2)))"

definition tool_channel :: "redaction_session \<Rightarrow> stream_restorer \<Rightarrow> u32 \<Rightarrow> restore_stream" where
  "tool_channel S R k = unwrap_or (map_of (sr_tool_args R) k) (rs_new_json S)"

definition restorer_ok :: "redaction_session \<Rightarrow> stream_restorer \<Rightarrow> bool" where
  "restorer_ok S R \<longleftrightarrow> channel_ok S (sr_text R) \<and> channel_ok S (sr_reasoning R) \<and>
     distinct (map fst (sr_tool_args R)) \<and> (\<forall>k. channel_ok S (tool_channel S R k))"

text \<open>One step of the restorer on all its channels at once.\<close>

definition restorer_emits :: "serde_json \<Rightarrow> redaction_session \<Rightarrow> stream_restorer \<Rightarrow> stream_event list
    \<Rightarrow> stream_event list \<Rightarrow> stream_restorer \<Rightarrow> bool" where
  "restorer_emits J S R ins outs R' \<longleftrightarrow> restorer_ok S R' \<and>
     emits J S (sr_text R) (concat (map text_part ins)) (concat (map text_part outs)) (sr_text R') \<and>
     emits J S (sr_reasoning R) (concat (map reasoning_part ins)) (concat (map reasoning_part outs)) (sr_reasoning R') \<and>
     (\<forall>k. emits J S (tool_channel S R k) (concat (map (args_part k) ins)) (concat (map (args_part k) outs))
        (tool_channel S R' k)) \<and>
     length (filter (\<lambda>e. \<not> is_delta e) outs) = length (filter (\<lambda>e. \<not> is_delta e) ins) \<and>
     filter (\<lambda>e. \<not> is_delta e \<and> \<not> is_error_event e) outs = filter (\<lambda>e. \<not> is_delta e \<and> \<not> is_error_event e) ins"

lemma tool_channel_vault: "ses_engine S' = ses_engine S \<Longrightarrow> tool_channel S' R = tool_channel S R"
  by (rule ext) (simp add: tool_channel_def rs_new_json_def rs_with_mode_def)

lemma restorer_ok_vault:
  "ses_vault S' = ses_vault S \<Longrightarrow> ses_engine S' = ses_engine S \<Longrightarrow> restorer_ok S' R = restorer_ok S R"
  using channel_ok_vault [of S' S] tool_channel_vault [of S' S] by (simp add: restorer_ok_def)

lemma restorer_emits_vault:
  "ses_vault S' = ses_vault S \<Longrightarrow> ses_engine S' = ses_engine S \<Longrightarrow>
   restorer_emits J S' R ins outs R' = restorer_emits J S R ins outs R'"
  using restorer_ok_vault [of S' S] emits_vault [of S' S] tool_channel_vault [of S' S]
  by (simp add: restorer_emits_def)

lemma restorer_emits_refl: "restorer_ok S R \<Longrightarrow> restorer_emits J S R [] [] R"
  by (simp add: restorer_emits_def restorer_ok_def emits_refl)

lemma restorer_emits_trans:
  "restorer_emits J S R i1 o1 R1 \<Longrightarrow> restorer_emits J S R1 i2 o2 R2 \<Longrightarrow> restorer_emits J S R (i1 @ i2) (o1 @ o2) R2"
  unfolding restorer_emits_def by (auto intro: emits_trans)

lemma tool_channel_update:
  "tool_channel S (R\<lparr>sr_tool_args := AList.update i st (sr_tool_args R)\<rparr>) k = (if k = i then st else tool_channel S R k)"
  by (simp add: tool_channel_def update_conv')

lemma restore_event_emits:
  assumes "matcher_ok A" "session_ok S" "restorer_ok S R"
  shows "\<exists>out R' S'. restore_event A J S R e = Some (out, R', S') \<and> same_vault S S' \<and>
    restorer_emits J S R [e] (case out of None \<Rightarrow> [] | Some o' \<Rightarrow> [o']) R'"
proof -
  have ch: "channel_ok S (sr_text R)" "channel_ok S (sr_reasoning R)" "\<And>k. channel_ok S (tool_channel S R k)"
    and d: "distinct (map fst (sr_tool_args R))"
    using assms(3) by (auto simp: restorer_ok_def)
  have sv: "same_vault S S" using assms(2) by (simp add: same_vault_def)
  note refl = emits_refl [OF ch(1)] emits_refl [OF ch(2)] emits_refl [OF ch(3)]
  show ?thesis
  proof (cases e)
    case (TextDelta t)
    obtain out st S' where f: "rs_feed A J S (sr_text R) t = Some (out, st, S')" "same_vault S S'"
      "emits J S (sr_text R) t out st" using rs_feed_emits [OF assms(1,2) ch(1)] .
    then have "restorer_emits J S R [e] (case (if out = [] then None else Some (TextDelta out)) of None \<Rightarrow> [] | Some o' \<Rightarrow> [o'])
        (R\<lparr>sr_text := st\<rparr>)"
      using refl d ch by (auto simp: restorer_emits_def restorer_ok_def TextDelta tool_channel_def emits_def)
    with f(1,2) show ?thesis unfolding TextDelta by auto
  next
    case (ReasoningDelta t)
    obtain out st S' where f: "rs_feed A J S (sr_reasoning R) t = Some (out, st, S')" "same_vault S S'"
      "emits J S (sr_reasoning R) t out st" using rs_feed_emits [OF assms(1,2) ch(2)] .
    then have "restorer_emits J S R [e] (case (if out = [] then None else Some (ReasoningDelta out)) of None \<Rightarrow> [] | Some o' \<Rightarrow> [o'])
        (R\<lparr>sr_reasoning := st\<rparr>)"
      using refl d ch by (auto simp: restorer_emits_def restorer_ok_def ReasoningDelta tool_channel_def emits_def)
    with f(1,2) show ?thesis unfolding ReasoningDelta by auto
  next
    case (ToolCallDelta k i nm a)
    obtain out st S' where f: "rs_feed A J S (tool_channel S R k) a = Some (out, st, S')" "same_vault S S'"
      "emits J S (tool_channel S R k) a out st" using rs_feed_emits [OF assms(1,2) ch(3)] .
    let ?R = "R\<lparr>sr_tool_args := AList.update k st (sr_tool_args R)\<rparr>"
    have "restorer_ok S ?R" using ch d f(3)
      by (auto simp: restorer_ok_def tool_channel_update distinct_update emits_def)
    then have "restorer_emits J S R [e]
        (case (if out = [] \<and> i = [] \<and> nm = [] then None else Some (ToolCallDelta k i nm out)) of None \<Rightarrow> [] | Some o' \<Rightarrow> [o']) ?R"
      using refl f(3) by (auto simp: restorer_emits_def tool_channel_update ToolCallDelta)
    with f(1,2) show ?thesis unfolding ToolCallDelta tool_channel_def by auto
  next
    case (Error err)
    obtain t S' where t: "restore_text A S (error_to_string err) = (t, S')" by fastforce
    then have "same_vault S S'" using restore_text_spec [OF assms(1,2)] by (simp add: same_vault_def)
    then show ?thesis using refl assms(3) t by (auto simp: restorer_emits_def Error)
  qed (use refl assms(3) sv in \<open>auto simp: restorer_emits_def\<close>)
qed

lemma restore_events_emits:
  "matcher_ok A \<Longrightarrow> session_ok S \<Longrightarrow> restorer_ok S R \<Longrightarrow>
   \<exists>outs R' S'. restore_events A J S R es = Some (outs, R', S') \<and> same_vault S S' \<and> restorer_emits J S R es outs R'"
proof (induction es arbitrary: S R)
  case Nil
  then show ?case by (simp add: restorer_emits_refl same_vault_def)
next
  case (Cons e es)
  obtain out R1 S1 where e: "restore_event A J S R e = Some (out, R1, S1)" "same_vault S S1"
    "restorer_emits J S R [e] (case out of None \<Rightarrow> [] | Some o' \<Rightarrow> [o']) R1"
    using restore_event_emits [OF Cons.prems] by blast
  then have v: "ses_vault S1 = ses_vault S" "ses_engine S1 = ses_engine S" "session_ok S1"
    by (simp_all add: same_vault_def)
  moreover have "restorer_ok S1 R1" using e(3) restorer_ok_vault [OF v(1,2)] by (simp add: restorer_emits_def)
  ultimately obtain outs R2 S2 where r: "restore_events A J S1 R1 es = Some (outs, R2, S2)" "same_vault S1 S2"
    "restorer_emits J S1 R1 es outs R2" using Cons.IH [OF Cons.prems(1)] by blast
  then have "restorer_emits J S R ([e] @ es) ((case out of None \<Rightarrow> [] | Some o' \<Rightarrow> [o']) @ outs) R2"
    using restorer_emits_trans [OF e(3)] restorer_emits_vault [OF v(1,2)] by simp
  with e r show ?case using same_vault_trans by fastforce
qed

lemma sr_new_ok: "restorer_ok S (sr_new S)"
  using rs_new_ok [of S] by (simp add: restorer_ok_def sr_new_def rs_new_def tool_channel_def rs_new_json_def)

text \<open>What the final flush emits on each channel is what the channel holds.\<close>

lemma concat_by_key:
  "distinct (map fst xs) \<Longrightarrow>
   concat (map (\<lambda>(i, a). if i = k then a else []) xs) = (case map_of xs k of None \<Rightarrow> [] | Some a \<Rightarrow> a)"
proof (induction xs)
  case (Cons x xs)
  then have IH: "concat (map (\<lambda>(i, a). if i = k then a else []) xs) = (case map_of xs k of None \<Rightarrow> [] | Some a \<Rightarrow> a)" by simp
  obtain i a where x: "x = (i, a)" by (cases x)
  show ?case
  proof (cases "i = k")
    case True
    then have "map_of xs k = None" using Cons.prems x by (simp add: map_of_eq_None_iff)
    with True IH show ?thesis by (simp add: x)
  qed (use IH x in simp)
qed simp

lemma map_of_sort_key: "distinct (map fst xs) \<Longrightarrow> map_of (sort_key fst xs) = map_of xs"
  by (intro map_of_eqI) (auto simp: distinct_map inj_on_def map_of_eq_Some_iff)

definition held :: "(u32 \<times> restore_stream) list \<Rightarrow> (u32 \<times> string) list" where
  "held xs = filter (\<lambda>(_, s). s \<noteq> []) (map (\<lambda>(index, st). (index, fst (rs_finish st))) xs)"

lemma held_keys: "set (map fst (held xs)) \<subseteq> set (map fst xs)"
  by (auto simp: held_def) (metis fst_conv imageI)

lemma held_distinct: "distinct (map fst xs) \<Longrightarrow> distinct (map fst (held xs))"
proof (induction xs)
  case (Cons x xs)
  then show ?case using held_keys [of xs] by (cases x) (auto simp: held_def)
qed (simp add: held_def)

lemma held_map_of:
  "distinct (map fst xs) \<Longrightarrow> map_of (held xs) j = (case map_of xs j of None \<Rightarrow> None
     | Some st \<Rightarrow> if rs_buffer st = [] then None else Some (rs_buffer st))"
proof (induction xs)
  case (Cons x xs)
  obtain i st where x: "x = (i, st)" by (cases x)
  have h: "map_of (held (x # xs)) j = (if rs_buffer st \<noteq> [] \<and> i = j then Some (rs_buffer st) else map_of (held xs) j)"
    by (auto simp: x held_def rs_finish_def)
  have m: "map_of (x # xs) j = (if i = j then Some st else map_of xs j)" by (simp add: x)
  have n: "map_of xs j = None" if "i = j" using that Cons.prems x by (simp add: map_of_eq_None_iff)
  have "distinct (map fst xs)" using Cons.prems by simp
  from Cons.IH [OF this] n show ?case unfolding h m by (cases "i = j") simp_all
qed (simp add: held_def)

lemma sr_finish_parts:
  assumes "distinct (map fst (sr_tool_args R))"
  shows "concat (map text_part (fst (sr_finish R))) = rs_buffer (sr_text R)"
    "concat (map reasoning_part (fst (sr_finish R))) = rs_buffer (sr_reasoning R)"
    "concat (map (args_part k) (fst (sr_finish R))) = rs_buffer (tool_channel S R k)"
proof -
  have fin: "fst (sr_finish R) =
      (if rs_buffer (sr_text R) \<noteq> [] then [TextDelta (rs_buffer (sr_text R))] else []) @
      (if rs_buffer (sr_reasoning R) \<noteq> [] then [ReasoningDelta (rs_buffer (sr_reasoning R))] else []) @
      map (\<lambda>(index, arguments). ToolCallDelta index [] [] arguments) (sort_key fst (held (sr_tool_args R)))"
    by (simp add: sr_finish_def rs_finish_def held_def Let_def)
  show "concat (map text_part (fst (sr_finish R))) = rs_buffer (sr_text R)"
    "concat (map reasoning_part (fst (sr_finish R))) = rs_buffer (sr_reasoning R)"
    by (auto simp: fin case_prod_beta comp_def)
  note d = held_distinct [OF assms]
  then have "distinct (map fst (sort_key fst (held (sr_tool_args R))))" by (simp add: distinct_map)
  then have "concat (map (\<lambda>(i, a). if i = k then a else []) (sort_key fst (held (sr_tool_args R))))
      = (case map_of (held (sr_tool_args R)) k of None \<Rightarrow> [] | Some a \<Rightarrow> a)"
    using map_of_sort_key [OF d] by (simp add: concat_by_key)
  also have "\<dots> = rs_buffer (tool_channel S R k)"
    using held_map_of [OF assms, of k]
    by (simp add: tool_channel_def rs_new_json_def rs_with_mode_def split: option.split)
  finally have "concat (map (\<lambda>(i, a). if i = k then a else []) (sort_key fst (held (sr_tool_args R))))
      = rs_buffer (tool_channel S R k)" .
  moreover have "concat (map (args_part k) (fst (sr_finish R)))
      = concat (map (\<lambda>(i, a). if i = k then a else []) (sort_key fst (held (sr_tool_args R))))"
    by (simp add: fin comp_def case_prod_unfold)
  ultimately show "concat (map (args_part k) (fst (sr_finish R))) = rs_buffer (tool_channel S R k)" by simp
qed

text \<open>What a whole stream carries on each channel.\<close>

lemma restored_channels:
  assumes "matcher_ok A" "session_ok S"
  shows "\<exists>outs R S'. restore_events A J S (sr_new S) es = Some (outs, R, S') \<and>
    (let all = outs @ fst (sr_finish R) in
      concat (map text_part all) = subst (keys S) (original S) 0 (concat (map text_part es)) \<and>
      concat (map reasoning_part all) = subst (keys S) (original S) 0 (concat (map reasoning_part es)) \<and>
      (\<forall>k. concat (map (args_part k) all)
         = subst (keys S) (spliced J True S) 0 (concat (map (args_part k) es))) \<and>
      filter (\<lambda>e. \<not> is_delta e \<and> \<not> is_error_event e) outs = filter (\<lambda>e. \<not> is_delta e \<and> \<not> is_error_event e) es)"
proof -
  obtain outs R S' where r: "restore_events A J S (sr_new S) es = Some (outs, R, S')"
    and e: "restorer_emits J S (sr_new S) es outs R"
    using restore_events_emits [OF assms sr_new_ok] by blast
  have d: "distinct (map fst (sr_tool_args R))" using e by (simp add: restorer_emits_def restorer_ok_def)
  note fin = sr_finish_parts [OF d]
  have o: "spliced J False S = original S" by (simp add: fun_eq_iff spliced_def splice_original_def)
  have n: "sr_text (sr_new S) = rs_with_mode S False" "sr_reasoning (sr_new S) = rs_with_mode S False"
    "tool_channel S (sr_new S) k = rs_with_mode S True" for k
    by (simp_all add: sr_new_def rs_new_def tool_channel_def rs_new_json_def)
  have t: "concat (map text_part outs) @ rs_buffer (sr_text R) = subst (keys S) (original S) 0 (concat (map text_part es))"
    and rr: "concat (map reasoning_part outs) @ rs_buffer (sr_reasoning R) = subst (keys S) (original S) 0 (concat (map reasoning_part es))"
    and aa: "\<And>k. concat (map (args_part k) outs) @ rs_buffer (tool_channel S R k)
       = subst (keys S) (spliced J True S) 0 (concat (map (args_part k) es))"
    using e emits_total unfolding restorer_emits_def n o [symmetric] by (auto simp: rs_finish_def)
  show ?thesis
    using r t rr aa e by (auto simp: Let_def fin(1,2) fin(3) [of _ S] restorer_emits_def)
qed

section \<open>An example printer\<close>

text \<open>A printer of JSON strings that escapes quotes and backslashes, for the examples.\<close>

definition example_serde :: serde_json where
  "example_serde = \<lparr>from_str = (\<lambda>_. Inl []),
     to_string = (\<lambda>v. case v of
        String s \<Rightarrow> [CHR 0x22] @ concat (map (\<lambda>c. if c = CHR 0x22 \<or> c = CHR 0x5C then [CHR 0x5C, c] else [c]) s) @ [CHR 0x22]
      | _ \<Rightarrow> [])\<rparr>"

section \<open>Properties\<close>

text \<open>
  C5: streaming equals one pass. However a text is cut into fragments, feeding them terminates
  and what the restorer emits, flushed at the end, is \<open>restore_text\<close> of the whole text.
\<close>

theorem rs_feed_any_chunking:
  assumes "matcher_ok A" "session_ok S"
  shows "\<exists>outs st S'. rs_feed_all A J S (rs_new S) fragments = Some (outs, st, S') \<and>
    concat outs @ fst (rs_finish st) = fst (restore_text A S (concat fragments))"
proof -
  obtain outs st S' where r: "rs_feed_all A J S (rs_new S) fragments = Some (outs, st, S')"
    "emits J S (rs_new S) (concat fragments) (concat outs) st"
    using rs_feed_all_emits [OF assms, of "rs_new S" J fragments] rs_new_ok [of S False] by (auto simp: rs_new_def)
  have "spliced J False S = original S" by (simp add: fun_eq_iff spliced_def splice_original_def)
  moreover have "fst (restore_text A S t) = undone S t" for t
    using restore_text_spec(1) [OF assms, of t] by (metis prod.collapse)
  ultimately show ?thesis
    using r emits_total [OF r(2) [unfolded rs_new_def]] by (auto simp: undone_def)
qed

theorem rs_feed_any_chunking_witness:
  "\<exists>outs st S'. rs_feed_all reference_matcher example_serde example_after (rs_new example_after)
       [''hi <CR'', ''ED_1> and <'', ''<CRED_1''] = Some (outs, st, S') \<and>
     concat outs @ fst (rs_finish st) = ''hi bob and <<CRED_1''"
proof -
  have "fst (restore_text reference_matcher example_after (concat [''hi <CR'', ''ED_1> and <'', ''<CRED_1'']))
      = ''hi bob and <<CRED_1''" by code_simp
  then show ?thesis
    using rs_feed_any_chunking [OF reference_matcher_ok example_after_ok, of example_serde
        "[''hi <CR'', ''ED_1> and <'', ''<CRED_1'']"] by simp
qed

text \<open>
  The hold-back is bounded. On UTF-8 fragments, after each feed the channel holds back fewer
  bytes than the longest token of the engine.
\<close>

theorem rs_feed_bounded_tail:
  assumes "matcher_ok A" "session_ok S" "list_all utf8_valid fragments"
    and "rs_feed_all A J S (rs_with_mode S esc) fragments = Some (outs, st, S')"
  shows "length (rs_buffer st) < re_max_token_len (ses_engine S)"
proof (rule rs_feed_all_tail [OF assms(1,2) rs_new_ok assms(3) _ _ assms(4)])
  show "lt_ok (rs_buffer (rs_with_mode S esc))" by (simp add: rs_with_mode_def lt_ok_def)
  show "length (rs_buffer (rs_with_mode S esc)) < re_max_token_len (ses_engine S)"
    using assms(2) by (simp add: rs_with_mode_def session_ok_def engine_ok_def)
qed

theorem rs_feed_bounded_tail_witness:
  "\<exists>outs st S'. rs_feed_all reference_matcher example_serde example_after (rs_with_mode example_after False)
       [''a <CRED_'', ''1234''] = Some (outs, st, S') \<and> rs_buffer st = ''<CRED_1234'' \<and> length (rs_buffer st) < 19"
proof -
  let ?r = "rs_feed_all reference_matcher example_serde example_after (rs_with_mode example_after False) [''a <CRED_'', ''1234'']"
  have b: "map_option (\<lambda>r. rs_buffer (fst (snd r))) ?r = Some ''<CRED_1234''" by code_simp
  then obtain outs st S' where r: "?r = Some (outs, st, S')" by (cases ?r) auto
  have "list_all utf8_valid [''a <CRED_'', ''1234'']" by code_simp
  moreover have "re_max_token_len (ses_engine example_after) = 19" by code_simp
  ultimately have "length (rs_buffer st) < 19"
    using rs_feed_bounded_tail [OF reference_matcher_ok example_after_ok _ r] by simp
  with b r show ?thesis by auto
qed



end
