(* ===== verification/Relay.thy ===== *)
theory Relay
  imports Registry RestoreStreams
begin

text \<open>
  The streaming half of the pipeline (\<open>handle_streaming_response\<close>, \<open>process_payload\<close>,
  \<open>send_lines\<close>, \<open>handle_json_as_stream\<close>, \<open>response_to_events\<close> and \<open>keepalive_stream\<close> of
  \<open>src/core/pipeline.rs\<close>): upstream bytes to payloads, to neutral events, restored, encoded for
  the client. What the task's \<open>select!\<close> delivers is the list of events that drives the loop; the
  channel to the client says how many more sends it takes.
\<close>

section \<open>The channel to the client\<close>

text \<open>\<open>ln_left\<close> is the number of sends before the receiver is dropped; nothing, when it is not.\<close>

record link =
  ln_sent :: "bytes list"
  ln_left :: "nat option"

definition link_new :: "nat option \<Rightarrow> link" where
  "link_new left = \<lparr>ln_sent = [], ln_left = left\<rparr>"

definition link_closed :: "link \<Rightarrow> bool" where
  "link_closed l \<longleftrightarrow> ln_left l = Some 0"

definition link_send :: "bytes \<Rightarrow> link \<Rightarrow> bool \<times> link" where
  "link_send chunk l =
     (if link_closed l then (False, l)
      else (True, l\<lparr>ln_sent := ln_sent l @ [chunk], ln_left := map_option (\<lambda>n. n - 1) (ln_left l)\<rparr>))"

definition send_lines :: "string list \<Rightarrow> link \<Rightarrow> bool \<times> link" where
  "send_lines lines l = (if lines = [] then (True, l) else link_send (concat lines) l)"

section \<open>The task's state\<close>

type_synonym restorer = "(stream_restorer \<times> redaction_session) option"

definition restore_opt :: "matcher \<Rightarrow> serde_json \<Rightarrow> restorer \<Rightarrow> stream_event
    \<Rightarrow> (stream_event option \<times> restorer) option" where
  "restore_opt A J rst event =
     (case rst of
        None \<Rightarrow> Some (Some event, None)
      | Some (R, S) \<Rightarrow>
          (case restore_event A J S R event of
             None \<Rightarrow> None
           | Some (e, R1, S1) \<Rightarrow> Some (e, Some (R1, S1))))"

definition restore_flush :: "restorer \<Rightarrow> stream_event list \<times> restorer" where
  "restore_flush rst =
     (case rst of None \<Rightarrow> ([], None) | Some (R, S) \<Rightarrow> (let (es, R1) = sr_finish R in (es, Some (R1, S))))"

definition restorer_new :: "redaction_session option \<Rightarrow> restorer" where
  "restorer_new privacy = map_option (\<lambda>S. (sr_new S, S)) privacy"

record relay =
  rl_framing :: sse_framing
  rl_decoder :: boxed_decoder
  rl_encoder :: boxed_encoder
  rl_restorer :: restorer
  rl_link :: link
  rl_running :: bool
  rl_terminal :: "stream_event list"
  rl_upstream_failed :: bool
  rl_saw_error :: bool
  rl_client_gone :: bool

definition relay_new :: "boxed_decoder \<Rightarrow> boxed_encoder \<Rightarrow> redaction_session option \<Rightarrow> nat option \<Rightarrow> relay" where
  "relay_new decoder encoder privacy left =
     \<lparr>rl_framing = sse_new, rl_decoder = decoder, rl_encoder = encoder, rl_restorer = restorer_new privacy,
      rl_link = link_new left, rl_running = True, rl_terminal = [], rl_upstream_failed = False,
      rl_saw_error = False, rl_client_gone = False\<rparr>"

section \<open>One payload\<close>

text \<open>Encode, flag a delivered error, send.\<close>

definition deliver :: "serde_json \<Rightarrow> relay \<Rightarrow> stream_event \<Rightarrow> bool \<times> relay" where
  "deliver J r event =
     (let (lines, enc) = enc_encode J (rl_encoder r) event;
          saw = (if is_error_event event \<and> lines \<noteq> [] then True else rl_saw_error r);
          (ok, l) = send_lines lines (rl_link r)
      in (ok, r\<lparr>rl_encoder := enc, rl_saw_error := saw, rl_link := l\<rparr>))"

fun relay_events :: "matcher \<Rightarrow> serde_json \<Rightarrow> relay \<Rightarrow> stream_event list \<Rightarrow> (bool \<times> relay) option" where
  "relay_events A J r [] = Some (True, r)"
| "relay_events A J r (event # events) =
     (case restore_opt A J (rl_restorer r) event of
        None \<Rightarrow> None
      | Some (None, rst) \<Rightarrow> relay_events A J (r\<lparr>rl_restorer := rst\<rparr>) events
      | Some (Some e, rst) \<Rightarrow>
          let r1 = r\<lparr>rl_restorer := rst\<rparr> in
          if is_message_stop e then relay_events A J (r1\<lparr>rl_terminal := rl_terminal r1 @ [e]\<rparr>) events
          else
            (case deliver J r1 e of
               (False, r2) \<Rightarrow> Some (False, r2)
             | (True, r2) \<Rightarrow> relay_events A J r2 events))"

definition process_payload :: "matcher \<Rightarrow> serde_json \<Rightarrow> relay \<Rightarrow> string \<Rightarrow> (bool \<times> relay) option" where
  "process_payload A J r payload =
     (let (events, decoder) = dec_feed J (rl_decoder r) payload
      in relay_events A J (r\<lparr>rl_decoder := decoder\<rparr>) events)"

definition DONE :: string where
  "DONE = ''[DONE]''"

text \<open>The loop over the payloads of one push; it stops at the end marker and when the client is gone.\<close>

fun relay_payloads :: "matcher \<Rightarrow> serde_json \<Rightarrow> relay \<Rightarrow> string list \<Rightarrow> (bool \<times> relay) option" where
  "relay_payloads A J r [] = Some (True, r)"
| "relay_payloads A J r (payload # payloads) =
     (if payload = DONE then Some (False, r)
      else
        (case process_payload A J r payload of
           None \<Rightarrow> None
         | Some (False, r1) \<Rightarrow> Some (False, r1)
         | Some (True, r1) \<Rightarrow> relay_payloads A J r1 payloads))"

section \<open>The loop\<close>

datatype upstream_event = Chunk bytes | TransportError | StreamEnd | IdleTimeout | ClientClosed

fun relay_step :: "matcher \<Rightarrow> serde_json \<Rightarrow> relay \<Rightarrow> upstream_event \<Rightarrow> relay option" where
  "relay_step A J r (Chunk bytes) =
     (let (framing, payloads) = sse_push (rl_framing r) bytes in
      case relay_payloads A J (r\<lparr>rl_framing := framing\<rparr>) payloads of
        None \<Rightarrow> None
      | Some (go_on, r1) \<Rightarrow> Some (if go_on then r1 else r1\<lparr>rl_running := False\<rparr>))"
| "relay_step A J r TransportError = Some (r\<lparr>rl_upstream_failed := True, rl_running := False\<rparr>)"
| "relay_step A J r StreamEnd = Some (r\<lparr>rl_running := False\<rparr>)"
| "relay_step A J r IdleTimeout = Some (r\<lparr>rl_upstream_failed := True, rl_running := False\<rparr>)"
| "relay_step A J r ClientClosed =
     Some (r\<lparr>rl_running := False, rl_client_gone := True, rl_link := (rl_link r)\<lparr>ln_left := Some 0\<rparr>\<rparr>)"

fun relay_loop :: "matcher \<Rightarrow> serde_json \<Rightarrow> relay \<Rightarrow> upstream_event list \<Rightarrow> relay option" where
  "relay_loop A J r [] = Some r"
| "relay_loop A J r (ev # evs) =
     (if rl_running r then
        (case relay_step A J r ev of None \<Rightarrow> None | Some r1 \<Rightarrow> relay_loop A J r1 evs)
      else Some r)"

section \<open>The end of the stream\<close>

text \<open>The loop over \<open>decoder.finish()\<close>: as for a payload, but an error is not flagged.\<close>

fun finish_events :: "matcher \<Rightarrow> serde_json \<Rightarrow> relay \<Rightarrow> stream_event list \<Rightarrow> relay option" where
  "finish_events A J r [] = Some r"
| "finish_events A J r (event # events) =
     (case restore_opt A J (rl_restorer r) event of
        None \<Rightarrow> None
      | Some (None, rst) \<Rightarrow> finish_events A J (r\<lparr>rl_restorer := rst\<rparr>) events
      | Some (Some e, rst) \<Rightarrow>
          let r1 = r\<lparr>rl_restorer := rst\<rparr> in
          if is_message_stop e then finish_events A J (r1\<lparr>rl_terminal := rl_terminal r1 @ [e]\<rparr>) events
          else
            (let (lines, enc) = enc_encode J (rl_encoder r1) e;
                 (ok, l) = send_lines lines (rl_link r1);
                 r2 = r1\<lparr>rl_encoder := enc, rl_link := l\<rparr>
             in if ok then finish_events A J r2 events else Some r2))"

text \<open>The loops that encode and send a list of events until the client is gone.\<close>

fun send_events :: "serde_json \<Rightarrow> relay \<Rightarrow> stream_event list \<Rightarrow> relay" where
  "send_events J r [] = r"
| "send_events J r (event # events) =
     (let (lines, enc) = enc_encode J (rl_encoder r) event;
          (ok, l) = send_lines lines (rl_link r);
          r1 = r\<lparr>rl_encoder := enc, rl_link := l\<rparr>
      in if ok then send_events J r1 events else r1)"

definition relay_outcome :: "relay \<Rightarrow> string" where
  "relay_outcome r = (if rl_upstream_failed r \<or> rl_saw_error r \<or> rl_client_gone r then ''error'' else ''ok'')"

text \<open>
  Everything after the loop, under the code's \<open>if !tx.is_closed()\<close>, with the status of the record
  that it makes.
\<close>

definition relay_end :: "matcher \<Rightarrow> serde_json \<Rightarrow> relay \<Rightarrow> (relay \<times> string option) option" where
  "relay_end A J r =
     (if link_closed (rl_link r) then Some (r, None)
      else
        (let (framing, payloads) = sse_finish (rl_framing r) in
         case relay_payloads A J (r\<lparr>rl_framing := framing\<rparr>) payloads of
           None \<Rightarrow> None
         | Some (_, r1) \<Rightarrow>
             (case (if rl_upstream_failed r1 then Some r1
                    else (let (events, decoder) = dec_finish (rl_decoder r1)
                          in finish_events A J (r1\<lparr>rl_decoder := decoder\<rparr>) events)) of
                None \<Rightarrow> None
              | Some r2 \<Rightarrow>
                  (let (tail, rst) = restore_flush (rl_restorer r2);
                       r3 = send_events J (r2\<lparr>rl_restorer := rst\<rparr>) tail;
                       r4 = (if rl_upstream_failed r3 then r3
                             else
                               (let r5 = send_events J r3 (rl_terminal r3) in
                                if rl_saw_error r5 then r5
                                else r5\<lparr>rl_link := snd (link_send (enc_done (rl_encoder r5)) (rl_link r5))\<rparr>))
                   in Some (r4, Some (relay_outcome r4))))))"

text \<open>The task: the loop, then the end. A trace that does not end the loop gives nothing.\<close>

definition relay_stream :: "matcher \<Rightarrow> serde_json \<Rightarrow> relay \<Rightarrow> upstream_event list \<Rightarrow> (relay \<times> string option) option" where
  "relay_stream A J r evs =
     (case relay_loop A J r evs of
        None \<Rightarrow> None
      | Some r1 \<Rightarrow> if rl_running r1 then None else relay_end A J r1)"

section \<open>A whole body as a stream\<close>

fun block_event :: "serde_json \<Rightarrow> content_block \<Rightarrow> u32 \<Rightarrow> stream_event list \<times> u32" where
  "block_event J (Text t) k = ([TextDelta t], k)"
| "block_event J (Thinking t _) k = ([ReasoningDelta t], k)"
| "block_event J (ToolUse i nm input) k = ([ToolCallDelta k i nm (to_string J input)], k + 1)"
| "block_event J (Image _ _) k = ([], k)"
| "block_event J (RedactedThinking _) k = ([], k)"
| "block_event J (ToolResult _ _ _) k = ([], k)"

fun block_events :: "serde_json \<Rightarrow> content_block list \<Rightarrow> u32 \<Rightarrow> stream_event list" where
  "block_events J [] k = []"
| "block_events J (b # bs) k = (let (es, k1) = block_event J b k in es @ block_events J bs k1)"

definition response_to_events :: "serde_json \<Rightarrow> neutral_response \<Rightarrow> stream_event list" where
  "response_to_events J resp =
     [MessageStart (resp_id resp) (resp_model resp) None] @ block_events J (resp_content resp) 0 @
     [MessageStop (resp_finish_reason resp) (resp_usage resp)]"

record json_stream =
  js_encoder :: boxed_encoder
  js_restorer :: restorer
  js_lines :: "string list"
  js_saw_error :: bool
  js_terminal :: "stream_event list"

fun json_events :: "matcher \<Rightarrow> serde_json \<Rightarrow> json_stream \<Rightarrow> stream_event list \<Rightarrow> json_stream option" where
  "json_events A J s [] = Some s"
| "json_events A J s (event # events) =
     (case restore_opt A J (js_restorer s) event of
        None \<Rightarrow> None
      | Some (None, rst) \<Rightarrow> json_events A J (s\<lparr>js_restorer := rst\<rparr>) events
      | Some (Some e, rst) \<Rightarrow>
          let s1 = s\<lparr>js_restorer := rst\<rparr> in
          if is_message_stop e then json_events A J (s1\<lparr>js_terminal := js_terminal s1 @ [e]\<rparr>) events
          else
            (let (encoded, enc) = enc_encode J (js_encoder s1) e;
                 saw = (if is_error_event e \<and> encoded \<noteq> [] then True else js_saw_error s1)
             in json_events A J (s1\<lparr>js_encoder := enc, js_saw_error := saw, js_lines := js_lines s1 @ encoded\<rparr>) events))"

text \<open>The loops that encode a list of events.\<close>

definition json_encode :: "serde_json \<Rightarrow> json_stream \<Rightarrow> stream_event list \<Rightarrow> json_stream" where
  "json_encode J s events =
     (let (lines, enc) = encoder_run (enc_encode J) (js_encoder s) events
      in s\<lparr>js_encoder := enc, js_lines := js_lines s @ lines\<rparr>)"

definition json_end :: "serde_json \<Rightarrow> json_stream \<Rightarrow> bytes" where
  "json_end J s =
     (let (tail, rst) = restore_flush (js_restorer s);
          s1 = json_encode J (s\<lparr>js_restorer := rst\<rparr>) tail;
          s2 = json_encode J s1 (js_terminal s1);
          lines = (if js_saw_error s2 then js_lines s2
                   else
                     (let done = enc_done (js_encoder s2) in
                      if done \<noteq> [] then js_lines s2 @ [done] else js_lines s2))
      in concat lines)"

text \<open>The body, or the error of a body that is neither chunk-shaped nor a response.\<close>

definition handle_json_as_stream :: "matcher \<Rightarrow> serde_json \<Rightarrow> protocol_adapter \<Rightarrow> protocol_adapter \<Rightarrow> string
    \<Rightarrow> redaction_session option \<Rightarrow> (adapter_error + bytes) option" where
  "handle_json_as_stream A J client upstream body privacy =
     (let (es, d) = dec_feed J (pa_stream_decoder upstream) body;
          (fs, _) = dec_finish d;
          events = es @ fs;
          chosen = (if list_ex is_content_event events then Inr events
                    else (case pa_parse_response upstream body of
                            Inl e \<Rightarrow> Inl e
                          | Inr resp \<Rightarrow> Inr (response_to_events J resp)))
      in case chosen of
           Inl e \<Rightarrow> Some (Inl e)
         | Inr evs \<Rightarrow>
             (case json_events A J \<lparr>js_encoder = pa_stream_encoder client, js_restorer = restorer_new privacy,
                      js_lines = [], js_saw_error = False, js_terminal = []\<rparr> evs of
                None \<Rightarrow> None
              | Some s \<Rightarrow> Some (Inr (json_end J s))))"

section \<open>Keep-alive comments\<close>

definition keepalive :: bytes where
  "keepalive = '': keepalive'' @ [nl, nl]"

datatype poll = Item bytes | Tick

definition keepalive_item :: "poll \<Rightarrow> bytes" where
  "keepalive_item p = (case p of Item b \<Rightarrow> b | Tick \<Rightarrow> keepalive)"

definition keepalive_stream :: "poll list \<Rightarrow> bytes list" where
  "keepalive_stream polls = map keepalive_item polls"

section \<open>The stream as one function of its events\<close>

text \<open>
  The abstract stream: the events restored one after the other; then, encoded in this order, all
  that are no stop, the restorer's held tail, and the stops; then the end marker. A failed
  upstream leaves the stops and the marker out, a delivered error leaves the marker out.
\<close>

definition restore_list :: "matcher \<Rightarrow> serde_json \<Rightarrow> restorer \<Rightarrow> stream_event list
    \<Rightarrow> (stream_event list \<times> restorer) option" where
  "restore_list A J rst events =
     (case rst of
        None \<Rightarrow> Some (events, None)
      | Some (R, S) \<Rightarrow>
          (case restore_events A J S R events of
             None \<Rightarrow> None
           | Some (outs, R1, S1) \<Rightarrow> Some (outs, Some (R1, S1))))"

abbreviation content :: "stream_event list \<Rightarrow> stream_event list" where
  "content es \<equiv> filter (\<lambda>e. \<not> is_message_stop e) es"

definition stream_spec :: "serde_json \<Rightarrow> boxed_encoder \<Rightarrow> stream_event list \<Rightarrow> stream_event list \<Rightarrow> bool \<Rightarrow> bytes" where
  "stream_spec J encoder outs tail failed =
     (let (frames, encoder1) = encoder_run (enc_encode J) encoder
        (content outs @ tail @ (if failed then [] else filter is_message_stop outs))
      in concat frames @ (if failed \<or> list_ex is_error_event outs then [] else enc_done encoder1))"

lemma restore_list_Nil: "restore_list A J rst [] = Some ([], rst)"
  by (cases rst) (auto simp: restore_list_def)

lemma restore_list_Cons:
  "restore_list A J rst (e # es) =
     (case restore_opt A J rst e of
        None \<Rightarrow> None
      | Some (out, rst1) \<Rightarrow>
          (case restore_list A J rst1 es of
             None \<Rightarrow> None
           | Some (outs, rst2) \<Rightarrow> Some ((case out of None \<Rightarrow> [] | Some o' \<Rightarrow> [o']) @ outs, rst2)))"
proof (cases rst)
  case (Some RS)
  obtain R S where "RS = (R, S)" by fastforce
  then show ?thesis
    by (cases "restore_event A J S R e") (auto simp: Some restore_list_def restore_opt_def split: option.splits prod.splits)
qed (auto simp: restore_list_def restore_opt_def)

lemma restore_list_append:
  "restore_list A J rst (es @ fs) =
     (case restore_list A J rst es of
        None \<Rightarrow> None
      | Some (outs, rst1) \<Rightarrow>
          (case restore_list A J rst1 fs of None \<Rightarrow> None | Some (outs2, rst2) \<Rightarrow> Some (outs @ outs2, rst2)))"
proof (induction es arbitrary: rst)
  case (Cons e es)
  then show ?case by (auto simp: restore_list_Cons split: option.split prod.split)
qed (auto simp: restore_list_Nil split: option.split prod.split)

text \<open>The restorer keeps stops as they are and errors as errors.\<close>

lemma restore_event_kind:
  assumes "restore_event A J S R e = Some (out, R1, S1)"
  shows "case out of None \<Rightarrow> \<not> is_message_stop e \<and> \<not> is_error_event e
    | Some e' \<Rightarrow> (is_message_stop e' \<longleftrightarrow> is_message_stop e) \<and> (is_error_event e' \<longleftrightarrow> is_error_event e) \<and> (is_message_stop e \<longrightarrow> e' = e)"
  using assms by (cases e) (auto simp: split: option.splits prod.splits if_splits)

lemma restore_opt_kind:
  assumes "restore_opt A J rst e = Some (out, rst1)"
  shows "case out of None \<Rightarrow> \<not> is_message_stop e \<and> \<not> is_error_event e
    | Some e' \<Rightarrow> (is_message_stop e' \<longleftrightarrow> is_message_stop e) \<and> (is_error_event e' \<longleftrightarrow> is_error_event e) \<and> (is_message_stop e \<longrightarrow> e' = e)"
proof (cases rst)
  case (Some RS)
  obtain R S where RS: "RS = (R, S)" by fastforce
  from assms obtain R1 S1 where "restore_event A J S R e = Some (out, R1, S1)"
    by (auto simp: restore_opt_def Some RS split: option.splits)
  then show ?thesis by (rule restore_event_kind)
qed (use assms in \<open>auto simp: restore_opt_def\<close>)

lemma restore_list_kinds:
  "restore_list A J rst es = Some (outs, rst1) \<Longrightarrow>
   filter is_message_stop outs = filter is_message_stop es \<and> (list_ex is_error_event outs \<longleftrightarrow> list_ex is_error_event es)"
proof (induction es arbitrary: rst outs)
  case (Cons e es)
  obtain out rst2 outs2 where e: "restore_opt A J rst e = Some (out, rst2)" "restore_list A J rst2 es = Some (outs2, rst1)"
    "outs = (case out of None \<Rightarrow> [] | Some o' \<Rightarrow> [o']) @ outs2"
    using Cons.prems by (auto simp: restore_list_Cons split: option.splits)
  from Cons.IH [OF e(2)] restore_opt_kind [OF e(1)] show ?case by (cases out) (auto simp: e(3))
qed (simp add: restore_list_Nil)

lemma restore_list_total:
  assumes "matcher_ok A" "\<And>S. privacy = Some S \<Longrightarrow> session_ok S"
  shows "\<exists>outs rst. restore_list A J (restorer_new privacy) es = Some (outs, rst)"
proof (cases privacy)
  case (Some S)
  then obtain outs R' S' where "restore_events A J S (sr_new S) es = Some (outs, R', S')"
    using restore_events_emits [OF assms(1) assms(2) [OF Some] sr_new_ok] by blast
  then show ?thesis by (simp add: restorer_new_def Some restore_list_def)
qed (simp add: restorer_new_def restore_list_def)

section \<open>The loops refine the abstract stream\<close>

lemma error_frames: "enc_encode J enc (Error e) = (lines, enc') \<Longrightarrow> lines \<noteq> []"
  by (cases enc) (auto simp: openai_encode_def anthropic_encode_def gemini_encode_def split: prod.splits)

lemma is_error_eventE: "is_error_event e \<Longrightarrow> \<exists>x. e = Error x"
  by (cases e) auto

lemma encoder_run_append:
  "encoder_run f e (xs @ ys) =
     (let (ls, e1) = encoder_run f e xs; (ms, e2) = encoder_run f e1 ys in (ls @ ms, e2))"
  by (induction xs arbitrary: e) (auto split: prod.splits)

text \<open>What a part of the run has done: a state with the output of the restored events appended.\<close>

definition relayed :: "serde_json \<Rightarrow> relay \<Rightarrow> stream_event list \<Rightarrow> sse_framing \<Rightarrow> boxed_decoder \<Rightarrow> restorer \<Rightarrow> relay \<Rightarrow> bool" where
  "relayed J r outs f d rst r' \<longleftrightarrow>
     (\<exists>ls enc chunks. encoder_run (enc_encode J) (rl_encoder r) (content outs) = (ls, enc) \<and> concat chunks = concat ls \<and>
        r' = r\<lparr>rl_framing := f, rl_decoder := d, rl_restorer := rst, rl_encoder := enc,
          rl_terminal := rl_terminal r @ filter is_message_stop outs,
          rl_saw_error := rl_saw_error r \<or> list_ex is_error_event outs,
          rl_link := (rl_link r)\<lparr>ln_sent := ln_sent (rl_link r) @ chunks\<rparr>\<rparr>)"

lemma relayed_refl: "relayed J r [] f d rst (r\<lparr>rl_framing := f, rl_decoder := d, rl_restorer := rst\<rparr>)"
  by (simp add: relayed_def exI [of _ "[]"])

lemma relayed_trans:
  assumes "relayed J r outs f d rst r1" "relayed J r1 outs2 f2 d2 rst2 r2"
  shows "relayed J r (outs @ outs2) f2 d2 rst2 r2"
proof -
  from assms(1) obtain ls enc cs where 1: "encoder_run (enc_encode J) (rl_encoder r) (content outs) = (ls, enc)"
    "concat cs = concat ls" and r1: "r1 = r\<lparr>rl_framing := f, rl_decoder := d, rl_restorer := rst, rl_encoder := enc,
          rl_terminal := rl_terminal r @ filter is_message_stop outs,
          rl_saw_error := rl_saw_error r \<or> list_ex is_error_event outs,
          rl_link := (rl_link r)\<lparr>ln_sent := ln_sent (rl_link r) @ cs\<rparr>\<rparr>"
    unfolding relayed_def by blast
  from assms(2) obtain ms enc2 ds where 2: "encoder_run (enc_encode J) enc (content outs2) = (ms, enc2)"
    "concat ds = concat ms" and r2: "r2 = r1\<lparr>rl_framing := f2, rl_decoder := d2, rl_restorer := rst2, rl_encoder := enc2,
          rl_terminal := rl_terminal r1 @ filter is_message_stop outs2,
          rl_saw_error := rl_saw_error r1 \<or> list_ex is_error_event outs2,
          rl_link := (rl_link r1)\<lparr>ln_sent := ln_sent (rl_link r1) @ ds\<rparr>\<rparr>"
    unfolding relayed_def r1 by auto
  have "encoder_run (enc_encode J) (rl_encoder r) (content (outs @ outs2)) = (ls @ ms, enc2)"
    using 1(1) 2(1) by (simp add: encoder_run_append)
  moreover have "concat (cs @ ds) = concat (ls @ ms)" using 1(2) 2(2) by simp
  ultimately show ?thesis unfolding relayed_def r2 r1
    by (intro exI [of _ "ls @ ms"] exI [of _ enc2] exI [of _ "cs @ ds"]) simp
qed

abbreviation connected :: "relay \<Rightarrow> bool" where
  "connected r \<equiv> ln_left (rl_link r) = None"

lemma relayed_connected: "relayed J r outs f d rst r' \<Longrightarrow> connected r' \<longleftrightarrow> connected r"
  by (auto simp: relayed_def)

lemma send_lines_connected:
  "ln_left l = None \<Longrightarrow> \<exists>cs. send_lines lines l = (True, l\<lparr>ln_sent := ln_sent l @ cs\<rparr>) \<and> concat cs = concat lines"
  by (auto simp: send_lines_def link_send_def link_closed_def intro: exI [of _ "[]"] exI [of _ "[concat lines]"])

lemma deliver_relayed:
  assumes "connected r" "\<not> is_message_stop e"
  shows "\<exists>r'. deliver J r e = (True, r') \<and> relayed J r [e] (rl_framing r) (rl_decoder r) (rl_restorer r) r'"
proof -
  obtain ls enc where e: "enc_encode J (rl_encoder r) e = (ls, enc)" by fastforce
  obtain cs where cs: "send_lines ls (rl_link r) = (True, (rl_link r)\<lparr>ln_sent := ln_sent (rl_link r) @ cs\<rparr>)" "concat cs = concat ls"
    using send_lines_connected [OF assms(1)] by blast
  have saw: "(if is_error_event e \<and> ls \<noteq> [] then True else rl_saw_error r) = (rl_saw_error r \<or> is_error_event e)"
    using error_frames [of J "rl_encoder r"] e by (auto dest!: is_error_eventE)
  show ?thesis
    using assms(2) e cs saw unfolding deliver_def relayed_def by (auto simp: Let_def)
qed

lemma relay_events_relayed:
  "connected r \<Longrightarrow> restore_list A J (rl_restorer r) es = Some (outs, rst) \<Longrightarrow>
   \<exists>r'. relay_events A J r es = Some (True, r') \<and> relayed J r outs (rl_framing r) (rl_decoder r) rst r'"
proof (induction es arbitrary: r outs)
  case Nil
  have "r\<lparr>rl_framing := rl_framing r, rl_decoder := rl_decoder r, rl_restorer := rl_restorer r\<rparr> = r" by simp
  with relayed_refl [of J r "rl_framing r" "rl_decoder r" "rl_restorer r"] Nil show ?case by (simp add: restore_list_Nil)
next
  case (Cons e es)
  obtain out rst1 outs2 where e: "restore_opt A J (rl_restorer r) e = Some (out, rst1)"
    "restore_list A J rst1 es = Some (outs2, rst)" "outs = (case out of None \<Rightarrow> [] | Some o' \<Rightarrow> [o']) @ outs2"
    using Cons.prems(2) by (auto simp: restore_list_Cons split: option.splits)
  let ?r1 = "r\<lparr>rl_restorer := rst1\<rparr>"
  have r1: "relayed J r [] (rl_framing r) (rl_decoder r) rst1 ?r1"
    using relayed_refl [of J r "rl_framing r" "rl_decoder r" rst1] by simp
  show ?case
  proof (cases out)
    case None
    from Cons.IH [of ?r1 outs2] obtain r' where r': "relay_events A J ?r1 es = Some (True, r')"
      "relayed J ?r1 outs2 (rl_framing r) (rl_decoder r) rst r'" using Cons.prems(1) e(2) by auto
    with relayed_trans [OF r1 r'(2)] show ?thesis using e None by simp
  next
    case (Some e')
    show ?thesis
    proof (cases "is_message_stop e'")
      case True
      let ?r2 = "?r1\<lparr>rl_terminal := rl_terminal ?r1 @ [e']\<rparr>"
      have "\<not> is_error_event e'" using True by (cases e') auto
      then have r2: "relayed J r [e'] (rl_framing r) (rl_decoder r) rst1 ?r2" using True by (simp add: relayed_def exI [of _ "[]"])
      from Cons.IH [of ?r2 outs2] obtain r' where r': "relay_events A J ?r2 es = Some (True, r')"
        "relayed J ?r2 outs2 (rl_framing r) (rl_decoder r) rst r'" using Cons.prems(1) e(2) by auto
      from relayed_trans [OF r2 r'(2)] have "relayed J r ([e'] @ outs2) (rl_framing r) (rl_decoder r) rst r'" .
      with r'(1) show ?thesis using e Some True by (simp add: Let_def)
    next
      case False
      from deliver_relayed [of ?r1 e' J] False Cons.prems(1) obtain r2 where r2: "deliver J ?r1 e' = (True, r2)"
        "relayed J ?r1 [e'] (rl_framing r) (rl_decoder r) rst1 r2" by auto
      from relayed_connected [OF r2(2)] Cons.prems(1) have c: "connected r2" by simp
      have st: "rl_restorer r2 = rst1" "rl_framing r2 = rl_framing r" "rl_decoder r2 = rl_decoder r"
        using r2(2) by (auto simp: relayed_def)
      from Cons.IH [OF c, of outs2] obtain r' where r': "relay_events A J r2 es = Some (True, r')"
        "relayed J r2 outs2 (rl_framing r) (rl_decoder r) rst r'" using e(2) by (auto simp: st)
      from relayed_trans [OF r1 relayed_trans [OF r2(2) r'(2)]]
      have "relayed J r ([e'] @ outs2) (rl_framing r) (rl_decoder r) rst r'" by simp
      with r'(1) r2(1) show ?thesis using e Some False by (simp add: Let_def)
    qed
  qed
qed

section \<open>The payloads of a trace\<close>

text \<open>
  What the loop feeds to the decoder, the parser's state after it, and whether the upstream
  failed. Nothing, when the trace does not end the loop or the client goes first.
\<close>

fun trace_payloads :: "sse_framing \<Rightarrow> upstream_event list \<Rightarrow> (string list \<times> sse_framing \<times> bool) option" where
  "trace_payloads f [] = None"
| "trace_payloads f (Chunk bytes # evs) =
     (let (f1, ps) = sse_push f bytes in
      if DONE \<in> set ps then Some (takeWhile (\<lambda>p. p \<noteq> DONE) ps, f1, False)
      else map_option (\<lambda>(qs, f2, failed). (ps @ qs, f2, failed)) (trace_payloads f1 evs))"
| "trace_payloads f (StreamEnd # evs) = Some ([], f, False)"
| "trace_payloads f (TransportError # evs) = Some ([], f, True)"
| "trace_payloads f (IdleTimeout # evs) = Some ([], f, True)"
| "trace_payloads f (ClientClosed # evs) = None"

abbreviation fed :: "string list \<Rightarrow> string list" where
  "fed ps \<equiv> takeWhile (\<lambda>p. p \<noteq> DONE) ps"

definition feed_all :: "serde_json \<Rightarrow> boxed_decoder \<Rightarrow> string list \<Rightarrow> stream_event list \<times> boxed_decoder" where
  "feed_all J d ps = decoder_run (dec_feed J) dec_finish d (map Feed ps)"

lemma feed_all_simps:
  "feed_all J d [] = ([], d)"
  "feed_all J d (p # ps) = (let (es, d1) = dec_feed J d p; (fs, d2) = feed_all J d1 ps in (es @ fs, d2))"
  by (simp_all add: feed_all_def)

lemma feed_all_append:
  "feed_all J d (ps @ qs) = (let (es, d1) = feed_all J d ps; (fs, d2) = feed_all J d1 qs in (es @ fs, d2))"
  by (induction ps arbitrary: d) (auto simp: feed_all_simps split: prod.splits)

lemma relay_payloads_relayed:
  "connected r \<Longrightarrow> feed_all J (rl_decoder r) (fed ps) = (es, d) \<Longrightarrow>
   restore_list A J (rl_restorer r) es = Some (outs, rst) \<Longrightarrow>
   \<exists>r'. relay_payloads A J r ps = Some (DONE \<notin> set ps, r') \<and> relayed J r outs (rl_framing r) d rst r'"
proof (induction ps arbitrary: r es outs)
  case Nil
  have "r\<lparr>rl_framing := rl_framing r, rl_decoder := rl_decoder r, rl_restorer := rl_restorer r\<rparr> = r" by simp
  with relayed_refl [of J r "rl_framing r" "rl_decoder r" "rl_restorer r"] Nil show ?case
    by (auto simp: restore_list_Nil feed_all_simps)
next
  case (Cons p ps)
  show ?case
  proof (cases "p = DONE")
    case True
    have "r\<lparr>rl_framing := rl_framing r, rl_decoder := rl_decoder r, rl_restorer := rl_restorer r\<rparr> = r" by simp
    with relayed_refl [of J r "rl_framing r" "rl_decoder r" "rl_restorer r"] Cons.prems True show ?thesis
      by (auto simp: restore_list_Nil feed_all_simps)
  next
    case False
    obtain es1 d1 where f: "dec_feed J (rl_decoder r) p = (es1, d1)" by fastforce
    obtain es2 where g: "feed_all J d1 (fed ps) = (es2, d)" "es = es1 @ es2"
      using Cons.prems(2) False f by (auto simp: feed_all_simps split: prod.splits)
    obtain outs1 rst1 outs2 where o: "restore_list A J (rl_restorer r) es1 = Some (outs1, rst1)"
      "restore_list A J rst1 es2 = Some (outs2, rst)" "outs = outs1 @ outs2"
      using Cons.prems(3) by (auto simp: g(2) restore_list_append split: option.splits)
    let ?r1 = "r\<lparr>rl_decoder := d1\<rparr>"
    have "r\<lparr>rl_framing := rl_framing r, rl_decoder := d1, rl_restorer := rl_restorer r\<rparr> = ?r1" by simp
    with relayed_refl [of J r "rl_framing r" d1 "rl_restorer r"]
    have r1: "relayed J r [] (rl_framing r) d1 (rl_restorer r) ?r1" by simp
    obtain r2 where r2: "relay_events A J ?r1 es1 = Some (True, r2)" "relayed J ?r1 outs1 (rl_framing r) d1 rst1 r2"
      using relay_events_relayed [of ?r1 A J es1 outs1 rst1] Cons.prems(1) o(1) by auto
    have st: "connected r2" "rl_restorer r2 = rst1" "rl_framing r2 = rl_framing r" "rl_decoder r2 = d1"
      using r2(2) Cons.prems(1) by (auto simp: relayed_def)
    from Cons.IH [of r2 es2 outs2] g(1) o(2) obtain r' where
      r': "relay_payloads A J r2 ps = Some (DONE \<notin> set ps, r')" "relayed J r2 outs2 (rl_framing r) d rst r'"
      by (auto simp: st)
    have "process_payload A J r p = Some (True, r2)" using r2(1) f by (simp add: process_payload_def)
    with relayed_trans [OF r1 relayed_trans [OF r2(2) r'(2)]] r'(1) False show ?thesis
      by (auto simp: o(3))
  qed
qed

text \<open>The loop: it has fed the trace's payloads, and has stopped.\<close>

definition loop_result :: "serde_json \<Rightarrow> relay \<Rightarrow> stream_event list \<Rightarrow> sse_framing \<Rightarrow> boxed_decoder \<Rightarrow> restorer \<Rightarrow> bool \<Rightarrow> relay \<Rightarrow> bool" where
  "loop_result J r outs f d rst failed r' \<longleftrightarrow>
     (\<exists>r1. relayed J r outs f d rst r1 \<and> r' = r1\<lparr>rl_running := False, rl_upstream_failed := failed\<rparr>)"

lemma relayed_running: "relayed J r outs f d rst r' \<Longrightarrow> rl_running r' = rl_running r \<and> rl_upstream_failed r' = rl_upstream_failed r"
  by (auto simp: relayed_def)

lemma relay_loop_result:
  "connected r \<Longrightarrow> rl_running r \<Longrightarrow> \<not> rl_upstream_failed r \<Longrightarrow>
   trace_payloads (rl_framing r) evs = Some (ps, f, failed) \<Longrightarrow>
   feed_all J (rl_decoder r) ps = (es, d) \<Longrightarrow> restore_list A J (rl_restorer r) es = Some (outs, rst) \<Longrightarrow>
   \<exists>r'. relay_loop A J r evs = Some r' \<and> loop_result J r outs f d rst failed r'"
proof (induction evs arbitrary: r ps es outs)
  case (Cons ev evs)
  have stop: "\<exists>r'. relay_loop A J r (ev # evs) = Some r' \<and> loop_result J r outs f d rst failed r'"
    if "relay_step A J r ev = Some (r\<lparr>rl_running := False, rl_upstream_failed := failed\<rparr>)"
      "ps = []" "f = rl_framing r"
  proof -
    have "r\<lparr>rl_framing := rl_framing r, rl_decoder := rl_decoder r, rl_restorer := rl_restorer r\<rparr> = r" by simp
    with relayed_refl [of J r "rl_framing r" "rl_decoder r" "rl_restorer r"]
    have "relayed J r [] (rl_framing r) (rl_decoder r) (rl_restorer r) r" by simp
    moreover have "relay_loop A J (r\<lparr>rl_running := False, rl_upstream_failed := failed\<rparr>) evs
      = Some (r\<lparr>rl_running := False, rl_upstream_failed := failed\<rparr>)" by (cases evs) auto
    ultimately show ?thesis using that Cons.prems
      by (auto simp: feed_all_simps restore_list_Nil loop_result_def)
  qed
  show ?case
  proof (cases ev)
    case (Chunk bytes)
    obtain f1 qs where p: "sse_push (rl_framing r) bytes = (f1, qs)" by fastforce
    let ?r0 = "r\<lparr>rl_framing := f1\<rparr>"
    have "r\<lparr>rl_framing := f1, rl_decoder := rl_decoder r, rl_restorer := rl_restorer r\<rparr> = ?r0" by simp
    with relayed_refl [of J r f1 "rl_decoder r" "rl_restorer r"]
    have r0: "relayed J r [] f1 (rl_decoder r) (rl_restorer r) ?r0" by simp
    show ?thesis
    proof (cases "DONE \<in> set qs")
      case True
      then have ps: "ps = fed qs" "f = f1" "\<not> failed" using Cons.prems(4) p by (auto simp: Chunk)
      obtain r1 where r1: "relay_payloads A J ?r0 qs = Some (False, r1)" "relayed J ?r0 outs f1 d rst r1"
        using relay_payloads_relayed [of ?r0 J qs es d A outs rst] Cons.prems True by (auto simp: ps)
      have "relay_loop A J (r1\<lparr>rl_running := False\<rparr>) evs = Some (r1\<lparr>rl_running := False\<rparr>)" by (cases evs) auto
      moreover have "r1\<lparr>rl_running := False\<rparr> = r1\<lparr>rl_running := False, rl_upstream_failed := failed\<rparr>"
        using conjunct2 [OF relayed_running [OF r1(2)]] Cons.prems(3) ps(3) by simp
      ultimately show ?thesis using r1(1) p Cons.prems(2) relayed_trans [OF r0 r1(2)]
        by (auto simp: Chunk ps(2) loop_result_def)
    next
      case False
      have t: "fed qs = qs" using False by (auto simp: takeWhile_eq_all_conv)
      obtain qs2 where q: "trace_payloads f1 evs = Some (qs2, f, failed)" "ps = qs @ qs2"
        using Cons.prems(4) p False by (auto simp: Chunk)
      obtain es1 d1 es2 where e: "feed_all J (rl_decoder r) qs = (es1, d1)" "feed_all J d1 qs2 = (es2, d)" "es = es1 @ es2"
        using Cons.prems(5) by (auto simp: q(2) feed_all_append split: prod.splits)
      obtain outs1 rst1 outs2 where o: "restore_list A J (rl_restorer r) es1 = Some (outs1, rst1)"
        "restore_list A J rst1 es2 = Some (outs2, rst)" "outs = outs1 @ outs2"
        using Cons.prems(6) by (auto simp: e(3) restore_list_append split: option.splits)
      obtain r1 where r1: "relay_payloads A J ?r0 qs = Some (True, r1)" "relayed J ?r0 outs1 f1 d1 rst1 r1"
        using relay_payloads_relayed [of ?r0 J qs es1 d1 A outs1 rst1] Cons.prems(1) e(1) o(1) False by (auto simp: t)
      have st: "connected r1" "rl_running r1" "\<not> rl_upstream_failed r1" "rl_framing r1 = f1" "rl_decoder r1 = d1" "rl_restorer r1 = rst1"
        using r1(2) Cons.prems(1-3) by (auto simp: relayed_def)
      obtain r' where r': "relay_loop A J r1 evs = Some r'" "loop_result J r1 outs2 f d rst failed r'"
        using Cons.IH [OF st(1,2,3), of qs2 es2 outs2] q(1) e(2) o(2) by (auto simp: st)
      have "relay_loop A J r (ev # evs) = Some r'" using r1(1) p Cons.prems(2) r'(1) by (simp add: Chunk)
      moreover have "loop_result J r outs f d rst failed r'"
        using r'(2) relayed_trans [OF r0 relayed_trans [OF r1(2)]] unfolding loop_result_def o(3) append_Nil by blast
      ultimately show ?thesis by blast
    qed
  next
    case TransportError
    then show ?thesis by (intro stop) (use Cons.prems(4) in simp_all)
  next
    case StreamEnd
    then have "\<not> failed" using Cons.prems(4) by auto
    with Cons.prems(3) have "r\<lparr>rl_running := False, rl_upstream_failed := failed\<rparr> = r\<lparr>rl_running := False\<rparr>" by simp
    then show ?thesis by (intro stop) (use Cons.prems(4) StreamEnd in simp_all)
  next
    case IdleTimeout
    then show ?thesis by (intro stop) (use Cons.prems(4) in simp_all)
  next
    case ClientClosed
    then show ?thesis using Cons.prems(4) by simp
  qed
qed simp

section \<open>The end\<close>

lemma dec_finish_stops: "dec_finish d = (es, d') \<Longrightarrow> list_all is_message_stop es"
  by (cases d) (auto simp: openai_finish_def anthropic_finish_def anthropic_stop_def gemini_finish_def split: prod.splits if_splits)

lemma restore_opt_stop: "is_message_stop e \<Longrightarrow> restore_opt A J rst e = Some (Some e, rst)"
  by (cases e) (auto simp: restore_opt_def split: option.split)

lemma restore_list_stops: "list_all is_message_stop es \<Longrightarrow> restore_list A J rst es = Some (es, rst)"
  by (induction es) (simp_all add: restore_list_Nil restore_list_Cons restore_opt_stop)

lemma finish_events_stops:
  "list_all is_message_stop es \<Longrightarrow> finish_events A J r es = Some (r\<lparr>rl_terminal := rl_terminal r @ es\<rparr>)"
  by (induction es arbitrary: r) (simp_all add: restore_opt_stop Let_def)

lemma send_events_connected:
  "connected r \<Longrightarrow> encoder_run (enc_encode J) (rl_encoder r) es = (ls, enc) \<Longrightarrow>
   \<exists>cs. concat cs = concat ls \<and>
     send_events J r es = r\<lparr>rl_encoder := enc, rl_link := (rl_link r)\<lparr>ln_sent := ln_sent (rl_link r) @ cs\<rparr>\<rparr>"
proof (induction es arbitrary: r ls)
  case (Cons e es)
  obtain l1 enc1 where e: "enc_encode J (rl_encoder r) e = (l1, enc1)" by fastforce
  obtain l2 where l2: "encoder_run (enc_encode J) enc1 es = (l2, enc)" "ls = l1 @ l2"
    using Cons.prems(2) e by (auto split: prod.splits)
  obtain cs where cs: "send_lines l1 (rl_link r) = (True, (rl_link r)\<lparr>ln_sent := ln_sent (rl_link r) @ cs\<rparr>)" "concat cs = concat l1"
    using send_lines_connected [OF Cons.prems(1)] by blast
  let ?r1 = "r\<lparr>rl_encoder := enc1, rl_link := (rl_link r)\<lparr>ln_sent := ln_sent (rl_link r) @ cs\<rparr>\<rparr>"
  obtain ds where "concat ds = concat l2" "send_events J ?r1 es = ?r1\<lparr>rl_encoder := enc, rl_link := (rl_link ?r1)\<lparr>ln_sent := ln_sent (rl_link ?r1) @ ds\<rparr>\<rparr>"
    using Cons.IH [of ?r1 l2] Cons.prems(1) l2(1) by auto
  then show ?case using e cs l2(2) by (intro exI [of _ "cs @ ds"]) (simp add: Let_def)
qed (auto intro: exI [of _ "[]"])

lemma send_done_connected: "ln_left l = None \<Longrightarrow> concat (ln_sent (snd (link_send c l))) = concat (ln_sent l) @ c"
  by (simp add: link_send_def link_closed_def)

text \<open>The neutral events of a run: those of the payloads, and those of \<open>finish\<close> unless the upstream failed.\<close>

definition upstream_events :: "serde_json \<Rightarrow> boxed_decoder \<Rightarrow> string list \<Rightarrow> bool \<Rightarrow> stream_event list" where
  "upstream_events J decoder ps failed =
     (let (es, d) = feed_all J decoder ps in es @ (if failed then [] else fst (dec_finish d)))"

lemma relay_end_connected:
  assumes c: "connected r" and f: "sse_finish (rl_framing r) = (f, ps)"
    and d: "feed_all J (rl_decoder r) (fed ps) = (es, d)"
    and o: "restore_list A J (rl_restorer r) es = Some (outs, rst)"
    and n: "fs = (if rl_upstream_failed r then [] else fst (dec_finish d))"
    and run: "encoder_run (enc_encode J) (rl_encoder r) (content outs @ fst (restore_flush rst) @
      (if rl_upstream_failed r then [] else rl_terminal r @ filter is_message_stop outs @ fs)) = (ls, enc)"
  shows "\<exists>r'. relay_end A J r = Some (r', Some (relay_outcome r')) \<and>
    concat (ln_sent (rl_link r')) = concat (ln_sent (rl_link r)) @ concat ls @
      (if rl_upstream_failed r \<or> rl_saw_error r \<or> list_ex is_error_event outs then [] else enc_done enc) \<and>
    rl_upstream_failed r' = rl_upstream_failed r \<and> rl_client_gone r' = rl_client_gone r \<and>
    rl_saw_error r' = (rl_saw_error r \<or> list_ex is_error_event outs)"
proof -
  obtain r1 where r1: "relay_payloads A J (r\<lparr>rl_framing := f\<rparr>) ps = Some (DONE \<notin> set ps, r1)"
    "relayed J (r\<lparr>rl_framing := f\<rparr>) outs f d rst r1"
    using relay_payloads_relayed [of "r\<lparr>rl_framing := f\<rparr>" J ps es d A outs rst] c d o by auto
  from r1(2) obtain l1 enc1 cs where l1: "encoder_run (enc_encode J) (rl_encoder r) (content outs) = (l1, enc1)"
    "concat cs = concat l1" and r1eq: "r1 = r\<lparr>rl_framing := f, rl_decoder := d, rl_restorer := rst, rl_encoder := enc1,
          rl_terminal := rl_terminal r @ filter is_message_stop outs,
          rl_saw_error := rl_saw_error r \<or> list_ex is_error_event outs,
          rl_link := (rl_link r)\<lparr>ln_sent := ln_sent (rl_link r) @ cs\<rparr>\<rparr>"
    unfolding relayed_def by auto
  obtain fs' d' where fin: "dec_finish d = (fs', d')" by fastforce
  let ?failed = "rl_upstream_failed r"
  define r2 where "r2 = (if ?failed then r1 else r1\<lparr>rl_decoder := d', rl_terminal := rl_terminal r1 @ fs\<rparr>)"
  have r2: "(if rl_upstream_failed r1 then Some r1 else (let (events, decoder) = dec_finish (rl_decoder r1)
      in finish_events A J (r1\<lparr>rl_decoder := decoder\<rparr>) events)) = Some r2"
    using finish_events_stops [OF dec_finish_stops [OF fin]] fin n by (simp add: r1eq r2_def)
  have st: "rl_restorer r2 = rst" "rl_encoder r2 = enc1" "connected r2" "rl_upstream_failed r2 = ?failed"
    "\<not> ?failed \<Longrightarrow> rl_terminal r2 = rl_terminal r @ filter is_message_stop outs @ fs"
    "rl_saw_error r2 = (rl_saw_error r \<or> list_ex is_error_event outs)" "rl_client_gone r2 = rl_client_gone r"
    "concat (ln_sent (rl_link r2)) = concat (ln_sent (rl_link r)) @ concat l1"
    using c l1(2) by (simp_all add: r2_def r1eq)
  obtain tl rst2 where flush: "restore_flush rst = (tl, rst2)" by fastforce
  obtain l2 enc2 where l2: "encoder_run (enc_encode J) enc1 tl = (l2, enc2)" by fastforce
  let ?r2 = "r2\<lparr>rl_restorer := rst2\<rparr>"
  obtain ds where ds: "concat ds = concat l2"
    "send_events J ?r2 tl = ?r2\<lparr>rl_encoder := enc2, rl_link := (rl_link ?r2)\<lparr>ln_sent := ln_sent (rl_link ?r2) @ ds\<rparr>\<rparr>"
    using send_events_connected [of ?r2 J tl l2 enc2] st l2 by auto
  define r3 where "r3 = send_events J ?r2 tl"
  note r3 = r3_def [unfolded ds(2)]
  show ?thesis
  proof (cases ?failed)
    case True
    have "relay_end A J r = Some (r3, Some (relay_outcome r3))"
      using c f r1(1) r2 st flush True by (simp add: relay_end_def link_closed_def Let_def r3_def [symmetric]) (simp add: r3 st)
    then show ?thesis using run l1 l2 ds(1) True st by (auto simp: r3 flush encoder_run_append)
  next
    case False
    let ?stopping = "rl_terminal r @ filter is_message_stop outs @ fs"
    obtain l3 where l3: "encoder_run (enc_encode J) enc2 ?stopping = (l3, enc)" "ls = l1 @ l2 @ l3"
      using run l1 l2 False by (auto simp: encoder_run_append flush split: prod.splits)
    obtain gs where gs: "concat gs = concat l3"
      "send_events J r3 ?stopping = r3\<lparr>rl_encoder := enc, rl_link := (rl_link r3)\<lparr>ln_sent := ln_sent (rl_link r3) @ gs\<rparr>\<rparr>"
      using send_events_connected [of r3 J ?stopping l3 enc] l3(1) st by (auto simp: r3)
    define r5 where "r5 = send_events J r3 ?stopping"
    note r5 = r5_def [unfolded gs(2)]
    define r6 where "r6 = (if rl_saw_error r5 then r5
      else r5\<lparr>rl_link := snd (link_send (enc_done (rl_encoder r5)) (rl_link r5))\<rparr>)"
    have t3: "rl_terminal r3 = ?stopping" "\<not> rl_upstream_failed r3" using st(4,5) False by (simp_all add: r3)
    have "relay_end A J r = Some (r6, Some (relay_outcome r6))"
      using c f r1(1) r2 st(1) flush t3
      by (simp add: relay_end_def link_closed_def Let_def r3_def [symmetric] r5_def [symmetric] r6_def)
    moreover have s5: "connected r5" "rl_encoder r5 = enc" "rl_saw_error r5 = (rl_saw_error r \<or> list_ex is_error_event outs)"
      "\<not> rl_upstream_failed r5" "rl_client_gone r5 = rl_client_gone r"
      "concat (ln_sent (rl_link r5)) = concat (ln_sent (rl_link r)) @ concat ls"
      using False st(3,4,6,7,8) by (simp_all add: r5 r3 l3(2) gs(1) ds(1))
    moreover have "concat (ln_sent (rl_link r6)) = concat (ln_sent (rl_link r5)) @ (if rl_saw_error r5 then [] else enc_done enc)"
      by (simp add: r6_def send_done_connected s5(1,2))
    moreover have "rl_saw_error r6 = rl_saw_error r5" "rl_upstream_failed r6 = rl_upstream_failed r5" "rl_client_gone r6 = rl_client_gone r5"
      by (simp_all add: r6_def)
    ultimately show ?thesis using False by simp
  qed
qed

text \<open>The task on a trace that the upstream ends: what the client was sent, and the record.\<close>

lemma relay_stream_refines:
  assumes "matcher_ok A" "\<And>S. privacy = Some S \<Longrightarrow> session_ok S"
    and t: "trace_payloads sse_new evs = Some (ps, f, failed)"
  shows "\<exists>r outs rst. relay_stream A J (relay_new decoder encoder privacy None) evs
        = Some (r, Some (if failed \<or> list_ex is_error_event outs then ''error'' else ''ok'')) \<and>
      restore_list A J (restorer_new privacy) (upstream_events J decoder (ps @ fed (snd (sse_finish f))) failed) = Some (outs, rst) \<and>
      concat (ln_sent (rl_link r)) = stream_spec J encoder outs (fst (restore_flush rst)) failed"
proof -
  let ?r = "relay_new decoder encoder privacy None"
  obtain es1 d1 where e1: "feed_all J decoder ps = (es1, d1)" by fastforce
  obtain g qs where g: "sse_finish f = (g, qs)" by fastforce
  obtain es2 d2 where e2: "feed_all J d1 (fed qs) = (es2, d2)" by fastforce
  define fs where "fs = (if failed then [] else fst (dec_finish d2))"
  have fs: "list_all is_message_stop fs"
    using dec_finish_stops [OF prod.collapse [symmetric], of d2] by (simp add: fs_def)
  have ev: "upstream_events J decoder (ps @ fed (snd (sse_finish f))) failed = es1 @ es2 @ fs"
    using e1 e2 by (simp add: upstream_events_def feed_all_append g fs_def)
  obtain all rst where "restore_list A J (restorer_new privacy) (es1 @ es2 @ fs) = Some (all, rst)"
    using restore_list_total [OF assms(1,2)] by blast
  then obtain outs1 rst1 outs2 where o: "restore_list A J (restorer_new privacy) es1 = Some (outs1, rst1)"
    "restore_list A J rst1 es2 = Some (outs2, rst)" "all = outs1 @ outs2 @ fs"
    by (auto simp: restore_list_append restore_list_stops [OF fs] split: option.splits)
  have new: "connected ?r" "rl_running ?r" "\<not> rl_upstream_failed ?r" "rl_framing ?r = sse_new" "rl_decoder ?r = decoder"
    "rl_restorer ?r = restorer_new privacy" "rl_encoder ?r = encoder" "rl_terminal ?r = []" "\<not> rl_saw_error ?r"
    "\<not> rl_client_gone ?r" "ln_sent (rl_link ?r) = []"
    by (simp_all add: relay_new_def link_new_def)
  obtain r1 where r1: "relay_loop A J ?r evs = Some r1" "loop_result J ?r outs1 f d1 rst1 failed r1"
    using relay_loop_result [OF new(1,2,3), of evs ps f failed J es1 d1 A outs1 rst1] t e1 o(1) by (auto simp: new)
  then obtain l1 enc1 where l1: "encoder_run (enc_encode J) encoder (content outs1) = (l1, enc1)"
    and st: "connected r1" "\<not> rl_running r1" "rl_framing r1 = f" "rl_decoder r1 = d1" "rl_restorer r1 = rst1"
    "rl_encoder r1 = enc1" "rl_terminal r1 = filter is_message_stop outs1" "rl_saw_error r1 = list_ex is_error_event outs1"
    "rl_upstream_failed r1 = failed" "\<not> rl_client_gone r1" "concat (ln_sent (rl_link r1)) = concat l1"
    using new by (auto simp: loop_result_def relayed_def)
  obtain l2 enc2 where l2: "encoder_run (enc_encode J) enc1 (content outs2 @ fst (restore_flush rst) @
      (if failed then [] else filter is_message_stop outs1 @ filter is_message_stop outs2 @ fs)) = (l2, enc2)" by fastforce
  obtain r' where r': "relay_end A J r1 = Some (r', Some (relay_outcome r'))"
    "concat (ln_sent (rl_link r')) = concat l1 @ concat l2 @
      (if failed \<or> list_ex is_error_event outs1 \<or> list_ex is_error_event outs2 then [] else enc_done enc2)"
    "rl_upstream_failed r' = failed" "\<not> rl_client_gone r'"
    "rl_saw_error r' = (list_ex is_error_event outs1 \<or> list_ex is_error_event outs2)"
    using relay_end_connected [OF st(1), of g qs J es2 d2 A outs2 rst fs l2 enc2] g e2 o(2) l2 st
    by (auto simp: fs_def)
  have no: "content fs = []" "filter is_message_stop fs = fs" "\<not> list_ex is_error_event fs"
    using fs by (auto simp: filter_empty_conv list_all_iff list_ex_iff filter_id_conv elim!: is_message_stop.elims)
  have er: "list_ex is_error_event all = (list_ex is_error_event outs1 \<or> list_ex is_error_event outs2)"
    using no(3) by (simp add: o(3))
  have "content all @ fst (restore_flush rst) @ (if failed then [] else filter is_message_stop all)
    = content outs1 @ (content outs2 @ fst (restore_flush rst) @
        (if failed then [] else filter is_message_stop outs1 @ filter is_message_stop outs2 @ fs))"
    by (simp add: o(3) no)
  then have "encoder_run (enc_encode J) encoder (content all @ fst (restore_flush rst) @
      (if failed then [] else filter is_message_stop all)) = (l1 @ l2, enc2)"
    using l1 l2 encoder_run_append [of "enc_encode J" encoder "content outs1"] by simp
  then have "concat (ln_sent (rl_link r')) = stream_spec J encoder all (fst (restore_flush rst)) failed"
    using r'(2) er by (simp add: stream_spec_def)
  moreover have "relay_stream A J ?r evs = Some (r', Some (if failed \<or> list_ex is_error_event all then ''error'' else ''ok''))"
    using r1(1) st(2) r'(1,3,4,5) no(3) by (simp add: relay_stream_def relay_outcome_def o(3))
  moreover have "restore_list A J (restorer_new privacy) (es1 @ es2 @ fs) = Some (all, rst)"
    using o restore_list_stops [OF fs] by (simp add: restore_list_append)
  ultimately show ?thesis unfolding ev by blast
qed

section \<open>A whole body refines the same stream\<close>

lemma json_events_spec:
  "restore_list A J (js_restorer s) es = Some (outs, rst) \<Longrightarrow>
   encoder_run (enc_encode J) (js_encoder s) (content outs) = (ls, enc) \<Longrightarrow>
   json_events A J s es = Some (s\<lparr>js_encoder := enc, js_restorer := rst, js_lines := js_lines s @ ls,
     js_saw_error := js_saw_error s \<or> list_ex is_error_event outs,
     js_terminal := js_terminal s @ filter is_message_stop outs\<rparr>)"
proof (induction es arbitrary: s outs ls)
  case Nil
  then show ?case by (auto simp: restore_list_Nil)
next
  case (Cons e es)
  obtain out rst1 outs2 where e: "restore_opt A J (js_restorer s) e = Some (out, rst1)"
    "restore_list A J rst1 es = Some (outs2, rst)" "outs = (case out of None \<Rightarrow> [] | Some o' \<Rightarrow> [o']) @ outs2"
    using Cons.prems(1) by (auto simp: restore_list_Cons split: option.splits)
  show ?case
  proof (cases out)
    case None
    then show ?thesis using Cons.IH [of "s\<lparr>js_restorer := rst1\<rparr>" outs2 ls] Cons.prems(2) e by simp
  next
    case (Some e')
    show ?thesis
    proof (cases "is_message_stop e'")
      case True
      then have "\<not> is_error_event e'" by (cases e') auto
      then show ?thesis using Cons.IH [of "s\<lparr>js_restorer := rst1, js_terminal := js_terminal s @ [e']\<rparr>" outs2 ls]
          Cons.prems(2) e True by (simp add: Some Let_def)
    next
      case False
      obtain l1 enc1 where l1: "enc_encode J (js_encoder s) e' = (l1, enc1)" by fastforce
      obtain l2 where l2: "encoder_run (enc_encode J) enc1 (content outs2) = (l2, enc)" "ls = l1 @ l2"
        using Cons.prems(2) False l1 by (auto simp: e(3) Some split: prod.splits)
      have saw: "is_error_event e' \<Longrightarrow> l1 \<noteq> []"
        using error_frames [of J "js_encoder s"] l1 by (auto dest!: is_error_eventE)
      let ?s = "s\<lparr>js_restorer := rst1, js_encoder := enc1, js_saw_error := js_saw_error s \<or> is_error_event e',
        js_lines := js_lines s @ l1\<rparr>"
      have "json_events A J s (e # es) = json_events A J ?s es"
        using e(1) False l1 saw by (cases "is_error_event e'") (simp_all add: Some Let_def)
      also have "\<dots> = Some (?s\<lparr>js_encoder := enc, js_restorer := rst, js_lines := js_lines ?s @ l2,
          js_saw_error := js_saw_error ?s \<or> list_ex is_error_event outs2, js_terminal := js_terminal ?s @ filter is_message_stop outs2\<rparr>)"
        using Cons.IH [of ?s outs2 l2] e(2) l2(1) by simp
      finally show ?thesis using False by (simp add: e(3) Some l2(2))
    qed
  qed
qed

lemma json_run_spec:
  assumes "restore_list A J (restorer_new privacy) es = Some (outs, rst)"
  shows "map_option (json_end J) (json_events A J \<lparr>js_encoder = encoder, js_restorer = restorer_new privacy,
      js_lines = [], js_saw_error = False, js_terminal = []\<rparr> es)
    = Some (stream_spec J encoder outs (fst (restore_flush rst)) False)"
proof -
  obtain ls enc where l: "encoder_run (enc_encode J) encoder (content outs) = (ls, enc)" by fastforce
  obtain tl rst1 where f: "restore_flush rst = (tl, rst1)" by fastforce
  obtain l2 enc2 where l2: "encoder_run (enc_encode J) enc tl = (l2, enc2)" by fastforce
  obtain l3 enc3 where l3: "encoder_run (enc_encode J) enc2 (filter is_message_stop outs) = (l3, enc3)" by fastforce
  from json_events_spec [of A J "\<lparr>js_encoder = encoder, js_restorer = restorer_new privacy,
      js_lines = [], js_saw_error = False, js_terminal = []\<rparr>" es outs rst ls enc] assms l
  show ?thesis
    by (simp add: json_end_def json_encode_def f l2 l3 stream_spec_def encoder_run_append Let_def)
qed

section \<open>Every send is whole frames\<close>

definition whole_frames :: "bytes \<Rightarrow> bool" where
  "whole_frames b \<longleftrightarrow> (\<exists>fs ps. b = concat fs \<and> list_all2 carries fs ps)"

lemma whole_frames_Nil: "whole_frames []"
  unfolding whole_frames_def by (intro exI [of _ "[]"]) simp

lemma whole_frames_encode: "prints_lines J \<Longrightarrow> enc_encode J e ev = (ls, e') \<Longrightarrow> whole_frames (concat ls)"
  using boxed_enc.frames unfolding whole_frames_def by blast

lemma framable_DONE: "framable DONE"
  by (simp add: DONE_def framable_def utf8_valid_def utf8_chunks.simps utf8_step_def byte_at_def byte_def)

lemma whole_frames_done: "whole_frames (enc_done e)"
proof (cases e)
  case (OpenAIEncoder x)
  then show ?thesis using carries_frame [OF framable_DONE] unfolding whole_frames_def
    by (intro exI [of _ "[sse_frame DONE]"] exI [of _ "[DONE]"]) (simp add: openai_done_def DONE_def)
qed (auto simp: anthropic_done_def gemini_done_def whole_frames_Nil)

text \<open>What every part of the task keeps: the frames stay whole, and only the loop notices a disconnect.\<close>

definition steady :: "serde_json \<Rightarrow> relay \<Rightarrow> relay \<Rightarrow> bool" where
  "steady J r r' \<longleftrightarrow> rl_client_gone r' = rl_client_gone r \<and>
     (prints_lines J \<and> list_all whole_frames (ln_sent (rl_link r)) \<longrightarrow> list_all whole_frames (ln_sent (rl_link r')))"

lemma steady_refl: "rl_client_gone r' = rl_client_gone r \<Longrightarrow> rl_link r' = rl_link r \<Longrightarrow> steady J r r'"
  by (simp add: steady_def)

lemma steady_trans: "steady J r r1 \<Longrightarrow> steady J r1 r2 \<Longrightarrow> steady J r r2"
  by (simp add: steady_def)

lemma steady_send:
  assumes "enc_encode J (rl_encoder r) e = (ls, enc)" "send_lines ls (rl_link r) = (ok, l)"
    "rl_client_gone r' = rl_client_gone r" "rl_link r' = l"
  shows "steady J r r'"
proof -
  have "list_all whole_frames (ln_sent l)" if "prints_lines J" "list_all whole_frames (ln_sent (rl_link r))"
    using assms(2) whole_frames_encode [OF that(1) assms(1)] that(2)
    by (auto simp: send_lines_def link_send_def split: if_splits)
  then show ?thesis by (simp add: steady_def assms(3,4))
qed

lemma deliver_steady: "deliver J r e = (ok, r') \<Longrightarrow> steady J r r'"
  by (auto simp: deliver_def Let_def intro: steady_send split: prod.splits)

lemma steady_update:
  "steady J (r\<lparr>rl_restorer := x\<rparr>) r' = steady J r r'" "steady J (r\<lparr>rl_terminal := t\<rparr>) r' = steady J r r'"
  "steady J (r\<lparr>rl_decoder := d\<rparr>) r' = steady J r r'" "steady J (r\<lparr>rl_framing := f\<rparr>) r' = steady J r r'"
  by (simp_all add: steady_def)

lemma relay_events_steady: "relay_events A J r es = Some (ok, r') \<Longrightarrow> steady J r r'"
proof (induction A J r es rule: relay_events.induct)
  case (2 A J r event events)
  show ?case
  proof (cases "restore_opt A J (rl_restorer r) event")
    case (Some x)
    obtain out rst where x: "x = (out, rst)" by fastforce
    show ?thesis
    proof (cases out)
      case None
      then show ?thesis using 2 Some x by (simp add: steady_update)
    next
      case (Some e)
      obtain ok1 r1 where d: "deliver J (r\<lparr>rl_restorer := rst\<rparr>) e = (ok1, r1)" by fastforce
      have s: "steady J r r1" using deliver_steady [OF d] by (simp add: steady_update)
      show ?thesis
        using 2 \<open>restore_opt A J (rl_restorer r) event = Some x\<close> x Some d s
        by (cases ok1) (auto simp: Let_def steady_update split: if_splits intro: steady_trans)
    qed
  qed (use 2 in auto)
qed (simp add: steady_refl)

lemma relay_payloads_steady: "relay_payloads A J r ps = Some (ok, r') \<Longrightarrow> steady J r r'"
proof (induction ps arbitrary: r)
  case (Cons p ps)
  show ?case
  proof (cases "p = DONE")
    case False
    then obtain ok1 r1 where r1: "process_payload A J r p = Some (ok1, r1)"
      using Cons.prems by (auto split: option.splits)
    then have "steady J r r1"
      by (auto simp: process_payload_def steady_update dest!: relay_events_steady split: prod.splits)
    with Cons r1 False show ?thesis by (cases ok1) (auto intro: steady_trans)
  qed (use Cons.prems in \<open>auto intro: steady_refl\<close>)
qed (auto intro: steady_refl)

lemma finish_events_steady: "finish_events A J r es = Some r' \<Longrightarrow> steady J r r'"
proof (induction A J r es rule: finish_events.induct)
  case (2 A J r event events)
  show ?case
  proof (cases "restore_opt A J (rl_restorer r) event")
    case (Some x)
    obtain out rst where x: "x = (out, rst)" by fastforce
    show ?thesis
    proof (cases out)
      case None
      then show ?thesis using 2 Some x by (simp add: steady_update)
    next
      case (Some e)
      obtain ls enc where e: "enc_encode J (rl_encoder r) e = (ls, enc)" by fastforce
      obtain ok l where l: "send_lines ls (rl_link r) = (ok, l)" by fastforce
      have s: "steady J r (r\<lparr>rl_restorer := rst, rl_encoder := enc, rl_link := l\<rparr>)"
        by (rule steady_send [OF e l]) simp_all
      show ?thesis
        using 2 \<open>restore_opt A J (rl_restorer r) event = Some x\<close> x Some e l s
        by (auto simp: Let_def steady_update split: if_splits intro: steady_trans)
    qed
  qed (use 2 in auto)
qed (simp add: steady_refl)

lemma send_events_steady: "steady J r (send_events J r es)"
proof (induction es arbitrary: r)
  case (Cons e es)
  obtain ls enc where e: "enc_encode J (rl_encoder r) e = (ls, enc)" by fastforce
  obtain ok l where l: "send_lines ls (rl_link r) = (ok, l)" by fastforce
  have s: "steady J r (r\<lparr>rl_encoder := enc, rl_link := l\<rparr>)" by (rule steady_send [OF e l]) simp_all
  show ?case using e l s Cons.IH steady_trans [OF s Cons.IH] by (simp add: Let_def)
qed (simp add: steady_refl)

text \<open>The loop: a disconnect closes the channel and ends the loop.\<close>

definition task_ok :: "serde_json \<Rightarrow> relay \<Rightarrow> bool" where
  "task_ok J r \<longleftrightarrow> (rl_client_gone r \<longrightarrow> link_closed (rl_link r) \<and> \<not> rl_running r) \<and>
     (prints_lines J \<longrightarrow> list_all whole_frames (ln_sent (rl_link r)))"

lemma task_ok_steady: "task_ok J r \<Longrightarrow> steady J r r' \<Longrightarrow> \<not> rl_client_gone r \<Longrightarrow> task_ok J r'"
  by (auto simp: task_ok_def steady_def)

lemma relay_step_ok:
  assumes "task_ok J r" "rl_running r" "relay_step A J r ev = Some r'"
  shows "task_ok J r'"
proof -
  have n: "\<not> rl_client_gone r" using assms(1,2) by (auto simp: task_ok_def)
  show ?thesis
  proof (cases ev)
    case (Chunk bytes)
    obtain f ps where p: "sse_push (rl_framing r) bytes = (f, ps)" by fastforce
    obtain ok r1 where r1: "relay_payloads A J (r\<lparr>rl_framing := f\<rparr>) ps = Some (ok, r1)"
      "r' = (if ok then r1 else r1\<lparr>rl_running := False\<rparr>)"
      using assms(3) p by (auto simp: Chunk split: option.splits)
    have s: "steady J r r1" using relay_payloads_steady [OF r1(1)] by (simp add: steady_update)
    from task_ok_steady [OF assms(1) s n] show ?thesis by (auto simp: r1(2) task_ok_def)
  qed (use assms n in \<open>auto simp: task_ok_def link_closed_def\<close>)
qed

lemma relay_loop_ok: "task_ok J r \<Longrightarrow> relay_loop A J r evs = Some r' \<Longrightarrow> task_ok J r'"
proof (induction evs arbitrary: r)
  case (Cons ev evs)
  show ?case
  proof (cases "rl_running r")
    case True
    then obtain r1 where r1: "relay_step A J r ev = Some r1" "relay_loop A J r1 evs = Some r'"
      using Cons.prems(2) by (auto split: option.splits)
    from Cons.IH [OF relay_step_ok [OF Cons.prems(1) True r1(1)] r1(2)] show ?thesis .
  qed (use Cons.prems in auto)
qed simp

lemma relay_end_recorded:
  assumes "relay_end A J r = Some (r', status)" "task_ok J r"
  shows "(prints_lines J \<longrightarrow> list_all whole_frames (ln_sent (rl_link r'))) \<and>
    (status = None \<longleftrightarrow> link_closed (rl_link r)) \<and> (status = None \<longrightarrow> r' = r) \<and>
    (\<forall>st. status = Some st \<longrightarrow> \<not> rl_client_gone r' \<and> st = relay_outcome r')"
proof (cases "link_closed (rl_link r)")
  case True
  then show ?thesis using assms by (auto simp: relay_end_def task_ok_def)
next
  case False
  have n: "\<not> rl_client_gone r" using assms(2) False by (auto simp: task_ok_def)
  obtain f ps where f: "sse_finish (rl_framing r) = (f, ps)" by fastforce
  obtain ok r1 where r1: "relay_payloads A J (r\<lparr>rl_framing := f\<rparr>) ps = Some (ok, r1)"
    using assms(1) False f by (auto simp: relay_end_def split: option.splits)
  obtain fs d where fin: "dec_finish (rl_decoder r1) = (fs, d)" by fastforce
  obtain r2 where r2: "(if rl_upstream_failed r1 then Some r1 else finish_events A J (r1\<lparr>rl_decoder := d\<rparr>) fs) = Some r2"
    using assms(1) False f r1 fin
    by (cases "rl_upstream_failed r1") (auto simp: relay_end_def split: option.splits)
  then have m: "(if rl_upstream_failed r1 then Some r1 else (let (events, decoder) = dec_finish (rl_decoder r1)
      in finish_events A J (r1\<lparr>rl_decoder := decoder\<rparr>) events)) = Some r2"
    using fin by (cases "rl_upstream_failed r1") simp_all
  obtain tl rst where flush: "restore_flush (rl_restorer r2) = (tl, rst)" by fastforce
  define r3 where "r3 = send_events J (r2\<lparr>rl_restorer := rst\<rparr>) tl"
  define r5 where "r5 = send_events J r3 (rl_terminal r3)"
  define r6 where "r6 = r5\<lparr>rl_link := snd (link_send (enc_done (rl_encoder r5)) (rl_link r5))\<rparr>"
  have r': "r' = (if rl_upstream_failed r3 then r3 else if rl_saw_error r5 then r5 else r6)" "status = Some (relay_outcome r')"
    using assms(1) False f r1 m flush
    by (auto simp: relay_end_def Let_def r3_def [symmetric] r5_def [symmetric] r6_def [symmetric])
  have "steady J r r1" using relay_payloads_steady [OF r1] by (simp add: steady_update)
  moreover have "steady J r1 r2"
    using r2 finish_events_steady [of A J "r1\<lparr>rl_decoder := d\<rparr>" fs r2] by (auto simp: steady_update steady_refl split: if_splits)
  moreover have "steady J r2 r3"
    using send_events_steady [of J "r2\<lparr>rl_restorer := rst\<rparr>" tl] by (simp add: r3_def steady_update)
  ultimately have s3: "steady J r r3" by (blast intro: steady_trans)
  then have s5: "steady J r r5" using send_events_steady [of J r3] unfolding r5_def by (blast intro: steady_trans)
  moreover have "steady J r5 r6" using whole_frames_done by (auto simp: steady_def r6_def link_send_def)
  ultimately have "steady J r r6" by (rule steady_trans)
  with s3 s5 have "steady J r r'" by (auto simp: r'(1))
  then show ?thesis using r'(2) n assms(2) False by (auto simp: steady_def task_ok_def)
qed

lemma relay_new_ok: "task_ok J (relay_new decoder encoder privacy left)"
  by (simp add: task_ok_def relay_new_def link_new_def)

lemma relay_stream_recorded:
  assumes "relay_stream A J (relay_new decoder encoder privacy left) evs = Some (r, status)"
  shows "(prints_lines J \<longrightarrow> list_all whole_frames (ln_sent (rl_link r))) \<and>
    (rl_client_gone r \<longrightarrow> status = None) \<and> (\<forall>st. status = Some st \<longrightarrow> st = relay_outcome r)"
proof -
  obtain r1 where r1: "relay_loop A J (relay_new decoder encoder privacy left) evs = Some r1" "relay_end A J r1 = Some (r, status)"
    using assms by (auto simp: relay_stream_def split: option.splits if_splits)
  from relay_end_recorded [OF r1(2) relay_loop_ok [OF relay_new_ok r1(1)]] show ?thesis
    by (cases status) auto
qed

section \<open>What the client reads\<close>

text \<open>The payloads an SSE client gets from bytes, as the framing parser of Sse specifies them.\<close>

definition client_reads :: "bytes \<Rightarrow> string list" where
  "client_reads b = snd (spec_run (complete_lines b) [])"

lemma list_all_whole: "list_all whole_frames bs \<Longrightarrow> whole_frames (concat bs)"
proof (induction bs)
  case (Cons b bs)
  obtain fs ps gs qs where "b = concat fs" "list_all2 carries fs ps" "concat bs = concat gs" "list_all2 carries gs qs"
    using Cons by (auto simp: whole_frames_def)
  then show ?case unfolding whole_frames_def
    by (intro exI [of _ "fs @ gs"] exI [of _ "ps @ qs"]) (simp add: list_all2_appendI)
qed (simp add: whole_frames_Nil)

lemma frames_then:
  "list_all2 carries fs ps \<Longrightarrow>
   spec_run (complete_lines (concat fs @ rest)) [] = (let (d, qs) = spec_run (complete_lines rest) [] in (d, ps @ qs))"
proof (induction arbitrary: rest rule: list_all2_induct)
  case (Cons f fs p ps)
  then show ?case by (simp add: carries_def split: prod.split)
qed simp

lemma whole_frames_then: "whole_frames b \<Longrightarrow> client_reads (b @ rest) = client_reads b @ client_reads rest"
  using frames_then [of _ _ rest] frames_then [of _ _ "[]"]
  by (auto simp: whole_frames_def client_reads_def complete_lines_def split: prod.splits)

lemma keepalive_then: "client_reads (keepalive @ rest) = client_reads rest"
proof -
  have n: "nl \<notin> set '': keepalive''" by simp
  have "keepalive @ rest = '': keepalive'' @ nl # [] @ nl # rest" by (simp add: keepalive_def)
  then have "complete_lines (keepalive @ rest) = '': keepalive'' # [] # complete_lines rest"
    by (simp only: complete_lines_simps(2) [OF n] complete_lines_simps(2) [of "[]" rest, simplified] append_Nil)
  moreover have "spec_line '': keepalive'' [] = ([], [])" "spec_line [] [] = ([], [])" by code_simp+
  ultimately show ?thesis by (simp add: client_reads_def split: prod.split)
qed

fun items :: "poll list \<Rightarrow> bytes list" where
  "items [] = []"
| "items (Item b # ps) = b # items ps"
| "items (Tick # ps) = items ps"

lemma keepalive_reads:
  "list_all whole_frames (items polls) \<Longrightarrow> client_reads (concat (keepalive_stream polls)) = client_reads (concat (items polls))"
proof (induction polls rule: items.induct)
  case (2 b ps)
  then show ?case using whole_frames_then [of b] by (simp add: keepalive_stream_def keepalive_item_def)
next
  case (3 ps)
  then show ?case by (simp add: keepalive_stream_def keepalive_item_def keepalive_then)
qed (simp add: keepalive_stream_def)

text \<open>The OpenAI encoder prints objects, whatever the events.\<close>

definition prints_objects :: "serde_json \<Rightarrow> bool" where
  "prints_objects J \<longleftrightarrow> (\<forall>kvs. to_string J (Object kvs) \<noteq> DONE)"

lemma openai_run_objects:
  "encoder_run (enc_encode J) (OpenAIEncoder e) evs = (fs, enc) \<Longrightarrow>
   \<exists>kvs e'. enc = OpenAIEncoder e' \<and> fs = map (\<lambda>m. sse_frame (to_string J (Object m))) kvs"
proof (induction evs arbitrary: e fs)
  case (Cons ev evs)
  obtain vs e1 where v: "openai_encode_values e ev = (vs, e1)" by fastforce
  then have "\<forall>v \<in> set vs. \<exists>m. v = Object m" by (cases ev) (auto simp: openai_chunk_def Let_def)
  then obtain ms where ms: "vs = map Object ms" unfolding ex_map_conv [symmetric] by blast
  obtain gs where g: "encoder_run (enc_encode J) (OpenAIEncoder e1) evs = (gs, enc)"
    "fs = map (\<lambda>m. sse_frame (to_string J (Object m))) ms @ gs"
    using Cons.prems v by (auto simp: openai_encode_def ms split: prod.splits)
  from Cons.IH [OF g(1)] obtain kvs e' where "enc = OpenAIEncoder e'" "gs = map (\<lambda>m. sse_frame (to_string J (Object m))) kvs"
    by blast
  then show ?case unfolding g(2) by (intro exI [of _ "ms @ kvs"] exI [of _ e']) simp
qed (auto intro: exI [of _ "[]"])

lemma openai_frames_read:
  assumes "prints_lines J"
  shows "client_reads (concat (map (\<lambda>m. sse_frame (to_string J (Object m))) kvs) @ rest)
    = map (\<lambda>m. to_string J (Object m)) kvs @ client_reads rest"
proof -
  have "list_all2 carries (map (\<lambda>m. sse_frame (to_string J (Object m))) kvs) (map (\<lambda>m. to_string J (Object m)) kvs)"
    using assms by (simp add: list_all2_conv_all_nth prints_lines_def carries_frame)
  from frames_then [OF this, of rest] show ?thesis by (auto simp: client_reads_def split: prod.splits)
qed

lemma client_reads_Nil: "client_reads [] = []"
  by (simp add: client_reads_def complete_lines_def)

lemma client_reads_done: "client_reads (sse_frame DONE) = [DONE]"
  using whole_frames_then spec_run_frames [of "[DONE]"] framable_DONE by (simp add: client_reads_def)

text \<open>The indices of the tool calls of a body.\<close>

fun call_index :: "stream_event \<Rightarrow> u32 list" where
  "call_index (ToolCallDelta k _ _ _) = [k]"
| "call_index _ = []"

fun block_pieces :: "serde_json \<Rightarrow> content_block \<Rightarrow> piece list" where
  "block_pieces J (Text t) = [TextPiece t]"
| "block_pieces J (Thinking t _) = [ReasoningPiece t]"
| "block_pieces J (ToolUse i nm input) =
     event_pieces (ToolCallDelta 0 i nm (to_string J input))"
| "block_pieces J _ = []"

lemma block_events_pieces: "pieces (block_events J bs k) = concat (map (block_pieces J) bs)"
proof (induction bs arbitrary: k)
  case (Cons b bs)
  then show ?case by (cases b) (simp_all add: Let_def)
qed simp

lemma block_events_indices:
  "concat (map call_index (block_events J bs k)) = map (\<lambda>n. k + of_nat n) [0..<length (concat (map call_index (block_events J bs 0)))]"
proof (induction bs arbitrary: k)
  case (Cons b bs)
  have s: "[0..<Suc n] = 0 # map Suc [0..<n]" for n by (simp add: map_Suc_upt upt_conv_Cons del: upt_Suc)
  have l: "length (concat (map call_index (block_events J bs 1))) = length (concat (map call_index (block_events J bs 0)))"
    using arg_cong [OF Cons.IH [of 1], of length] by simp
  let ?calls = "\<lambda>bs k. concat (map call_index (block_events J bs k))"
  have "(\<forall>k. ?calls (b # bs) k = k # ?calls bs (k + 1)) \<or> (\<forall>k. ?calls (b # bs) k = ?calls bs k)"
    by (cases b) (simp_all add: Let_def)
  then show ?case
  proof
    assume call: "\<forall>k. ?calls (b # bs) k = k # ?calls bs (k + 1)"
    have "?calls (b # bs) k = k # map (\<lambda>n. k + 1 + of_nat n) [0..<length (?calls bs 0)]"
      unfolding spec [OF call, of k] by (subst Cons.IH [of "k + 1"]) (rule refl)
    moreover have "length (?calls (b # bs) 0) = Suc (length (?calls bs 0))"
      using spec [OF call, of 0] l by simp
    ultimately show ?thesis by (simp only: s) (simp add: add.assoc)
  next
    assume other: "\<forall>k. ?calls (b # bs) k = ?calls bs k"
    show ?thesis unfolding spec [OF other, of k] spec [OF other, of 0] by (rule Cons.IH)
  qed
qed simp

text \<open>One whole frame in one chunk.\<close>

lemma sse_push_frame:
  assumes "framable p" "length p + 8 \<le> MAX_BUFFER_BYTES"
  shows "sse_push sse_new (sse_frame p) = (sse_new, [p])"
proof -
  let ?f = "sse_new\<lparr>sf_data_lines := p @ [nl], sf_data_lines_bytes := length p + 1\<rparr>"
  have n: "nl \<notin> set (''data: '' @ p)" and p: "utf8_valid p" using assms(1) by (simp_all add: framable_def)
  have "strip_suffix [cr] (''data: '' @ p) = None"
    using assms(1) by (cases p rule: rev_cases) (auto simp: strip_suffix_def suffix_def framable_def)
  then have "strip_cr (''data: '' @ p) = ''data: '' @ p" by (simp add: strip_cr_def)
  moreover have "data_field (''data: '' @ p) = Some p" by (simp add: data_field_def strip_prefix_def)
  ultimately have 1: "sse_line (''data: '' @ p) sse_new = (?f, [])"
    using assms(2) p by (simp add: sse_line_def sse_new_def Let_def)
  have 2: "sse_line [] ?f = (sse_new, [p])"
    using lossy_pending [of "[p]"] p by (simp add: sse_line_def strip_cr_def strip_suffix_def sse_new_def)
  have "sse_lines ([] @ nl # []) ?f = ([], sse_new, [p] @ [])"
    by (rule sse_lines_nl [OF _ 2]) (simp_all add: sse_lines_no_nl)
  from sse_lines_nl [OF n 1 this] have "sse_lines (sse_frame p) sse_new = ([], sse_new, [p])"
    by (simp add: sse_frame_def)
  moreover have "length (sse_frame p) \<le> MAX_BUFFER_BYTES" using assms(2) by (simp add: sse_frame_def)
  ultimately show ?thesis using sse_push_small [of sse_new "sse_frame p" "[]" sse_new "[p]"] by (simp add: sse_new_def)
qed

lemma sse_finish_new: "sse_finish sse_new = (sse_new, [])"
  by (simp add: sse_finish_def sse_new_def)

text \<open>The text and the reasoning of what is encoded for the client, over the whole run.\<close>

lemma relay_restores_channels:
  fixes J decoder encoder
  assumes "matcher_ok A" "session_ok S" and "trace_payloads sse_new evs = Some (ps, f, failed)"
  defines "up \<equiv> upstream_events J decoder (ps @ fed (snd (sse_finish f))) failed"
  shows "\<exists>r status all. relay_stream A J (relay_new decoder encoder (Some S) None) evs = Some (r, Some status) \<and>
    concat (ln_sent (rl_link r)) = (let (frames, encoder1) = encoder_run (enc_encode J) encoder all
       in concat frames @ (if failed \<or> list_ex is_error_event all then [] else enc_done encoder1)) \<and>
    concat (map text_part all) = fst (restore_text A S (concat (map text_part up))) \<and>
    concat (map reasoning_part all) = fst (restore_text A S (concat (map reasoning_part up)))"
proof -
  obtain r outs rst where r: "relay_stream A J (relay_new decoder encoder (Some S) None) evs
        = Some (r, Some (if failed \<or> list_ex is_error_event outs then ''error'' else ''ok''))"
    "restore_list A J (restorer_new (Some S)) up = Some (outs, rst)"
    "concat (ln_sent (rl_link r)) = stream_spec J encoder outs (fst (restore_flush rst)) failed"
    using relay_stream_refines [OF assms(1) _ assms(3), of "Some S" J decoder encoder] assms(2) unfolding up_def by auto
  obtain R S' where R: "restore_events A J S (sr_new S) up = Some (outs, R, S')" "rst = Some (R, S')"
    using r(2) by (auto simp: restorer_new_def restore_list_def split: option.splits)
  let ?tl = "fst (sr_finish R)" and ?st = "if failed then [] else filter is_message_stop outs"
  let ?all = "content outs @ ?tl @ ?st"
  have flush: "fst (restore_flush rst) = ?tl" by (auto simp: restore_flush_def R(2) split: prod.splits)
  have "fst (restore_text A S t) = subst (keys S) (original S) 0 t" for t
    using restore_text_spec(1) [OF assms(1,2), of t] by (metis prod.collapse undone_def)
  then have parts: "concat (map text_part (outs @ ?tl)) = fst (restore_text A S (concat (map text_part up)))"
    "concat (map reasoning_part (outs @ ?tl)) = fst (restore_text A S (concat (map reasoning_part up)))"
    using restored_channels [OF assms(1,2), of J up] R(1) by (auto simp: Let_def)
  have stop: "concat (map text_part es) = concat (map text_part (content es))"
    "concat (map reasoning_part es) = concat (map reasoning_part (content es))"
    "concat (map text_part (filter is_message_stop es)) = []" "concat (map reasoning_part (filter is_message_stop es)) = []"
    "\<not> list_ex is_error_event (filter is_message_stop es)" "list_ex is_error_event (content es) = list_ex is_error_event es" for es
    by (induction es) (auto elim: is_message_stop.elims is_error_event.elims)
  have tl: "\<not> list_ex is_error_event ?tl" by (auto simp: sr_finish_def list_ex_iff split: prod.splits)
  have "concat (ln_sent (rl_link r)) = (let (frames, encoder1) = encoder_run (enc_encode J) encoder ?all
       in concat frames @ (if failed \<or> list_ex is_error_event ?all then [] else enc_done encoder1))"
    using r(3) tl stop(5,6) [of outs] by (simp add: stream_spec_def flush)
  moreover have "concat (map text_part ?all) = fst (restore_text A S (concat (map text_part up)))"
    "concat (map reasoning_part ?all) = fst (restore_text A S (concat (map reasoning_part up)))"
    using parts by (simp_all add: stop(1,2) [of outs] stop(3,4))
  ultimately show ?thesis using r(1) by blast
qed

section \<open>Examples\<close>

text \<open>One upstream chunk whose text holds the token of a redacted original, and the printer it needs.\<close>

definition relay_example_json :: serde_json where
  "relay_example_json = table_json [(''up'', openai_chunk (openai_encoder_new 7)
     (openai_delta_payload [(''content'', String ''hi <CRED_1>'')] Null))]"

definition relay_example_trace :: "upstream_event list" where
  "relay_example_trace = [Chunk (sse_frame ''up''), StreamEnd]"

lemma up_framable: "framable ''up''"
  by (simp add: framable_def utf8_valid_def utf8_chunks.simps utf8_step_def byte_at_def byte_def)

lemma relay_example_payloads:
  "trace_payloads sse_new relay_example_trace = Some ([''up''], sse_new, False)"
  "trace_payloads sse_new [Chunk (sse_frame ''up''), TransportError] = Some ([''up''], sse_new, True)"
  using sse_push_frame [OF up_framable] by (simp_all add: relay_example_trace_def MAX_BUFFER_BYTES_def DONE_def)

lemma relay_example_lines: "prints_lines relay_example_json"
  unfolding relay_example_json_def by (rule table_json_prints_lines) (use up_framable in simp)

lemma relay_example_objects: "prints_objects relay_example_json"
  by (auto simp: prints_objects_def relay_example_json_def table_json_def DONE_def)

abbreviation example_openai :: protocol_adapter where
  "example_openai \<equiv> openai_adapter relay_example_json 7"

section \<open>Properties\<close>

text \<open>
  C3: the streaming task refines one function of the upstream's events. When the upstream ends the
  stream (end marker, end of body, failure or stall) and the client stays, the task terminates; the
  bytes sent are the restored events encoded in order, then the restorer's held tail, then the stop,
  of which there is one at most, then the end marker; without stop and marker when the upstream
  failed, without marker after a delivered error; and the record says "ok" exactly when neither
  happened.
\<close>

theorem relay_refines_spec:
  assumes "matcher_ok A" "\<And>S. privacy = Some S \<Longrightarrow> session_ok S"
    and "trace_payloads sse_new evs = Some (ps, f, failed)"
  shows "\<exists>r outs rst. relay_stream A J (relay_new decoder encoder privacy None) evs
        = Some (r, Some (if failed \<or> list_ex is_error_event outs then ''error'' else ''ok'')) \<and>
      restore_list A J (restorer_new privacy) (upstream_events J decoder (ps @ fed (snd (sse_finish f))) failed) = Some (outs, rst) \<and>
      concat (ln_sent (rl_link r)) = stream_spec J encoder outs (fst (restore_flush rst)) failed \<and> stops outs \<le> 1"
proof -
  have "stops (upstream_events J decoder qs failed) \<le> 1" for qs
  proof -
    have "decoder_run (dec_feed J) dec_finish decoder (map Feed qs @ [Finish])
      = (let (es, d) = feed_all J decoder qs; (fs, d2) = dec_finish d in (es @ fs, d2))"
      unfolding feed_all_def by (induction qs arbitrary: decoder) (simp_all add: Let_def case_prod_beta)
    with boxed_dec.at_most_one_stop [of J decoder "map Feed qs @ [Finish]"] show ?thesis
      by (auto simp: upstream_events_def split: prod.splits)
  qed
  moreover have "stops outs = stops es" if "restore_list A J rst0 es = Some (outs, rst)" for es outs rst rst0
    using restore_list_kinds [OF that] by (simp add: stops_def)
  moreover obtain r outs rst where "relay_stream A J (relay_new decoder encoder privacy None) evs
        = Some (r, Some (if failed \<or> list_ex is_error_event outs then ''error'' else ''ok''))"
      "restore_list A J (restorer_new privacy) (upstream_events J decoder (ps @ fed (snd (sse_finish f))) failed) = Some (outs, rst)"
      "concat (ln_sent (rl_link r)) = stream_spec J encoder outs (fst (restore_flush rst)) failed"
    using relay_stream_refines [OF assms] by blast
  ultimately show ?thesis by metis
qed

theorem relay_refines_spec_witness:
  "\<exists>r. relay_stream reference_matcher relay_example_json
      (relay_new (OpenAIDecoder openai_decoder_new) (OpenAIEncoder (openai_encoder_new 7)) (Some example_after) None)
      relay_example_trace = Some (r, Some ''ok'')"
proof -
  have "\<not> list_ex is_error_event (upstream_events relay_example_json (OpenAIDecoder openai_decoder_new) [''up''] False)"
    by code_simp
  then show ?thesis
    using relay_refines_spec [OF reference_matcher_ok _ relay_example_payloads(1), of "Some example_after" relay_example_json
        "OpenAIDecoder openai_decoder_new" "OpenAIEncoder (openai_encoder_new 7)"] example_after_ok
    by (auto simp: sse_finish_new dest!: restore_list_kinds)
qed

text \<open>
  A streaming client sees its own secrets back. The text of all the events that are encoded for
  the client is the restoration, by the session's vault, of all the text the upstream streamed,
  however the tokens were cut across chunks and events; and so is the reasoning.
\<close>

theorem relayed_text_is_restored:
  fixes J decoder encoder
  assumes "matcher_ok A" "session_ok S" and "trace_payloads sse_new evs = Some (ps, f, failed)"
  defines "up \<equiv> upstream_events J decoder (ps @ fed (snd (sse_finish f))) failed"
  shows "\<exists>r status all. relay_stream A J (relay_new decoder encoder (Some S) None) evs = Some (r, Some status) \<and>
    concat (ln_sent (rl_link r)) = (let (frames, encoder1) = encoder_run (enc_encode J) encoder all
       in concat frames @ (if failed \<or> list_ex is_error_event all then [] else enc_done encoder1)) \<and>
    concat (map text_part all) = fst (restore_text A S (concat (map text_part up))) \<and>
    concat (map reasoning_part all) = fst (restore_text A S (concat (map reasoning_part up)))"
  unfolding up_def by (rule relay_restores_channels [OF assms(1-3)])

theorem relayed_text_is_restored_witness:
  "\<exists>r status all. relay_stream reference_matcher relay_example_json
      (relay_new (OpenAIDecoder openai_decoder_new) (OpenAIEncoder (openai_encoder_new 7)) (Some example_after) None)
      relay_example_trace = Some (r, Some status) \<and> concat (map text_part all) = ''hi bob''"
proof -
  have "fst (restore_text reference_matcher example_after (concat (map text_part (upstream_events relay_example_json
      (OpenAIDecoder openai_decoder_new) [''up''] False)))) = ''hi bob''" by code_simp
  then show ?thesis
    using relayed_text_is_restored [OF reference_matcher_ok example_after_ok relay_example_payloads(1), of relay_example_json
        "OpenAIDecoder openai_decoder_new" "OpenAIEncoder (openai_encoder_new 7)"]
    by (auto simp: sse_finish_new)
qed

text \<open>
  C16: an OpenAI client can tell a complete stream from a broken one. Among the payloads it reads
  from the bytes it was sent, the end marker is there exactly when the task recorded "ok": never
  after an upstream failure, a stall or a delivered error, and always otherwise.
\<close>

theorem openai_client_sees_done_iff_ok:
  assumes "matcher_ok A" "\<And>S. privacy = Some S \<Longrightarrow> session_ok S" "prints_lines J" "prints_objects J"
    and "trace_payloads sse_new evs = Some (ps, f, failed)"
    and "relay_stream A J (relay_new decoder (OpenAIEncoder e) privacy None) evs = Some (r, status)"
  shows "DONE \<in> set (client_reads (concat (ln_sent (rl_link r)))) \<longleftrightarrow> status = Some ''ok''"
proof -
  obtain outs rst where r: "status = Some (if failed \<or> list_ex is_error_event outs then ''error'' else ''ok'')"
    "concat (ln_sent (rl_link r)) = stream_spec J (OpenAIEncoder e) outs (fst (restore_flush rst)) failed"
    using relay_stream_refines [OF assms(1,2,5), of privacy J decoder "OpenAIEncoder e"] assms(6) by auto
  obtain fs enc where fs: "encoder_run (enc_encode J) (OpenAIEncoder e)
      (content outs @ fst (restore_flush rst) @ (if failed then [] else filter is_message_stop outs)) = (fs, enc)" by fastforce
  obtain kvs e' where k: "enc = OpenAIEncoder e'" "fs = map (\<lambda>m. sse_frame (to_string J (Object m))) kvs"
    using openai_run_objects [OF fs] by blast
  have "client_reads (concat fs @ rest) = map (\<lambda>m. to_string J (Object m)) kvs @ client_reads rest" for rest
    unfolding k(2) by (rule openai_frames_read [OF assms(3)])
  moreover have "concat (ln_sent (rl_link r)) = concat fs @ (if failed \<or> list_ex is_error_event outs then [] else sse_frame DONE)"
    using r(2) fs by (simp add: stream_spec_def k(1) openai_done_def DONE_def)
  ultimately have "client_reads (concat (ln_sent (rl_link r))) = map (\<lambda>m. to_string J (Object m)) kvs @
      (if failed \<or> list_ex is_error_event outs then [] else [DONE])"
    by (simp add: client_reads_done client_reads_Nil)
  moreover have "DONE \<notin> set (map (\<lambda>m. to_string J (Object m)) kvs)"
    using assms(4) by (auto simp: prints_objects_def dest: sym)
  ultimately show ?thesis by (auto simp: r(1))
qed

theorem openai_client_sees_done_iff_ok_witness:
  "\<exists>r. relay_stream reference_matcher relay_example_json (relay_new (OpenAIDecoder openai_decoder_new)
        (OpenAIEncoder (openai_encoder_new 7)) None None) [Chunk (sse_frame ''up''), TransportError] = Some (r, Some ''error'') \<and>
     DONE \<notin> set (client_reads (concat (ln_sent (rl_link r))))"
proof -
  obtain r where "relay_stream reference_matcher relay_example_json (relay_new (OpenAIDecoder openai_decoder_new)
        (OpenAIEncoder (openai_encoder_new 7)) None None) [Chunk (sse_frame ''up''), TransportError] = Some (r, Some ''error'')"
    using relay_stream_refines [OF reference_matcher_ok _ relay_example_payloads(2), of None] by fastforce
  with openai_client_sees_done_iff_ok [OF reference_matcher_ok _ relay_example_lines relay_example_objects
      relay_example_payloads(2) this] show ?thesis by auto
qed

text \<open>
  C26: a stream without its SSE framing is the same stream. When an upstream answers a streaming
  request with one JSON body that its stream decoder reads content from, the client gets, byte for
  byte, what it would have been sent for that body in an SSE frame.
\<close>

theorem json_body_equals_framed_stream:
  assumes "matcher_ok A" "\<And>S. privacy = Some S \<Longrightarrow> session_ok S"
    and "framable body" "body \<noteq> DONE" "length body + 8 \<le> MAX_BUFFER_BYTES"
    and "list_ex is_content_event (upstream_events J (pa_stream_decoder upstream) [body] False)"
  shows "\<exists>r status. relay_stream A J (relay_new (pa_stream_decoder upstream) (pa_stream_encoder client) privacy None)
        [Chunk (sse_frame body), StreamEnd] = Some (r, Some status) \<and>
    handle_json_as_stream A J client upstream body privacy = Some (Inr (concat (ln_sent (rl_link r))))"
proof -
  have t: "trace_payloads sse_new [Chunk (sse_frame body), StreamEnd] = Some ([body], sse_new, False)"
    using assms(4) sse_push_frame [OF assms(3,5)] by simp
  obtain es d where d: "dec_feed J (pa_stream_decoder upstream) body = (es, d)" by fastforce
  obtain fs d2 where f: "dec_finish d = (fs, d2)" by fastforce
  have up: "upstream_events J (pa_stream_decoder upstream) [body] False = es @ fs"
    by (simp add: upstream_events_def feed_all_simps d f)
  obtain r outs rst where r: "relay_stream A J (relay_new (pa_stream_decoder upstream) (pa_stream_encoder client) privacy None)
        [Chunk (sse_frame body), StreamEnd] = Some (r, Some (if list_ex is_error_event outs then ''error'' else ''ok''))"
    "restore_list A J (restorer_new privacy) (es @ fs) = Some (outs, rst)"
    "concat (ln_sent (rl_link r)) = stream_spec J (pa_stream_encoder client) outs (fst (restore_flush rst)) False"
    using relay_stream_refines [OF assms(1,2) t, of privacy J "pa_stream_decoder upstream" "pa_stream_encoder client"]
    by (auto simp: sse_finish_new up)
  have "handle_json_as_stream A J client upstream body privacy = Some (Inr (concat (ln_sent (rl_link r))))"
    using json_run_spec [OF r(2), of "pa_stream_encoder client"] assms(6) unfolding up
    by (auto simp: handle_json_as_stream_def d f r(3) split: option.splits)
  with r(1) show ?thesis by blast
qed

theorem json_body_equals_framed_stream_witness:
  "\<exists>r status. relay_stream reference_matcher relay_example_json (relay_new (pa_stream_decoder example_openai)
        (pa_stream_encoder example_openai) (Some example_after) None) [Chunk (sse_frame ''up''), StreamEnd] = Some (r, Some status) \<and>
     handle_json_as_stream reference_matcher relay_example_json example_openai example_openai ''up'' (Some example_after)
       = Some (Inr (concat (ln_sent (rl_link r))))"
proof -
  have "list_ex is_content_event (upstream_events relay_example_json (pa_stream_decoder example_openai) [''up''] False)"
    by code_simp
  then show ?thesis
    using json_body_equals_framed_stream [OF reference_matcher_ok _ up_framable, of "Some example_after"] example_after_ok
    by (simp add: DONE_def MAX_BUFFER_BYTES_def)
qed


definition relay_response_json :: serde_json where
  "relay_response_json = table_json [(''r'', jobj [(''id'', String ''x1''), (''model'', String ''gpt-4o''),
     (''choices'', Array [jobj [(''message'', jobj [(''content'', String ''hi <CRED_1>'')]),
        (''finish_reason'', String ''stop'')]])])]"


text \<open>
  C34: keep-alive comments never change what a client reads. Wherever the timer fires between the
  task's sends, whatever the upstream, the dialects and the moment the client leaves, an SSE client
  reads from the bytes with the comments the payloads it reads from the bytes without.
\<close>

theorem keepalives_are_invisible:
  assumes "prints_lines J"
    and "relay_stream A J (relay_new decoder encoder privacy left) evs = Some (r, status)"
    and "items polls = ln_sent (rl_link r)"
  shows "client_reads (concat (keepalive_stream polls)) = client_reads (concat (ln_sent (rl_link r)))"
  using keepalive_reads [of polls] relay_stream_recorded [OF assms(2)] assms(1,3) by simp

theorem keepalives_are_invisible_witness:
  "\<exists>r status. relay_stream reference_matcher relay_example_json (relay_new (OpenAIDecoder openai_decoder_new)
        (OpenAIEncoder (openai_encoder_new 7)) None None) relay_example_trace = Some (r, Some status) \<and>
     client_reads (concat (keepalive_stream (Tick # map Item (ln_sent (rl_link r)) @ [Tick])))
       = client_reads (concat (ln_sent (rl_link r)))"
proof -
  obtain r status where r: "relay_stream reference_matcher relay_example_json (relay_new (OpenAIDecoder openai_decoder_new)
        (OpenAIEncoder (openai_encoder_new 7)) None None) relay_example_trace = Some (r, Some status)"
    using relay_stream_refines [OF reference_matcher_ok _ relay_example_payloads(1), of None] by fastforce
  have "items (map Item bs @ [Tick]) = bs" for bs by (induction bs) simp_all
  then show ?thesis
    using keepalives_are_invisible [OF relay_example_lines r, of "Tick # map Item (ln_sent (rl_link r)) @ [Tick]"] r
    by auto
qed

text \<open>
  A disconnect is never recorded. If the loop noticed that the client was gone, the task makes
  no record at all, so that the outcome it would write for it is never written; a record says
  "error" exactly when the upstream failed or an error was delivered.
\<close>

theorem disconnect_leaves_no_record:
  assumes "relay_stream A J (relay_new decoder encoder privacy left) evs = Some (r, status)"
  shows "(rl_client_gone r \<longrightarrow> status = None) \<and>
    (\<forall>st. status = Some st \<longrightarrow> st = (if rl_upstream_failed r \<or> rl_saw_error r then ''error'' else ''ok''))"
proof -
  note rec = relay_stream_recorded [OF assms]
  have "st = (if rl_upstream_failed r \<or> rl_saw_error r then ''error'' else ''ok'')" if st: "status = Some st" for st
  proof -
    have "\<not> rl_client_gone r" "st = relay_outcome r" using rec st by blast+
    then show ?thesis by (simp add: relay_outcome_def)
  qed
  with rec show ?thesis by blast
qed

theorem disconnect_leaves_no_record_witness:
  "\<exists>r. relay_stream reference_matcher relay_example_json (relay_new (OpenAIDecoder openai_decoder_new)
        (OpenAIEncoder (openai_encoder_new 7)) None None) [ClientClosed] = Some (r, None) \<and> rl_client_gone r"
proof -
  obtain r status where r: "relay_stream reference_matcher relay_example_json (relay_new (OpenAIDecoder openai_decoder_new)
        (OpenAIEncoder (openai_encoder_new 7)) None None) [ClientClosed] = Some (r, status)" "rl_client_gone r"
    by (simp add: relay_stream_def relay_new_def relay_end_def link_closed_def)
  with disconnect_leaves_no_record [OF r(1)] show ?thesis by simp
qed

end
