(* ===== verification/Auth.thy ===== *)
theory Auth
  imports Utf8
begin

text \<open>
  Client authentication (\<open>src/auth.rs\<close>). A header map is the list of its entries (name in
  lower case, value bytes), in order; \<open>get\<close> returns the first value of a name and \<open>remove\<close>
  drops all of them. \<open>HeaderValue::to_str\<close> belongs to the \<open>http\<close> crate and is the parameter
  \<open>to_str\<close>: the text of a header value, or nothing.
\<close>

unbundle bit_operations_syntax

section \<open>Constant-time comparison\<close>

type_synonym headers = "(string \<times> bytes) list"

definition byte_or_zero :: "string \<Rightarrow> nat \<Rightarrow> u8" where
  "byte_or_zero s i = (if i < length s then of_nat (byte (s ! i)) else 0)"

text \<open>One iteration of the loop over the byte positions.\<close>

definition ct_step :: "string \<Rightarrow> string \<Rightarrow> nat \<Rightarrow> u64 \<Rightarrow> u64" where
  "ct_step a b i diff = diff OR ucast (byte_or_zero a i XOR byte_or_zero b i)"

definition ct_eq :: "string \<Rightarrow> string \<Rightarrow> bool" where
  "ct_eq a b \<longleftrightarrow>
     fold (ct_step a b) [0 ..< max (length a) (length b)]
       (of_nat (length a) XOR of_nat (length b)) = 0"

section \<open>The presented key\<close>

definition header_get :: "headers \<Rightarrow> string \<Rightarrow> bytes option" where
  "header_get h name = map_of h name"

definition header_remove :: "headers \<Rightarrow> string \<Rightarrow> headers" where
  "header_remove h name = filter (\<lambda>(n, v). n \<noteq> name) h"

definition auth_headers :: "string list" where
  "auth_headers = [''authorization'', ''api-key'', ''x-api-key'']"

text \<open>The body of the loop over the header names: the key one header presents, if it does.\<close>

definition key_from_header :: "(bytes \<Rightarrow> string option) \<Rightarrow> headers \<Rightarrow> string \<Rightarrow> string option" where
  "key_from_header to_str h name =
     (case map_option trim (Option.bind (header_get h name) to_str) of
        None \<Rightarrow> None
      | Some v \<Rightarrow>
          if name = ''authorization'' then
            (case split_once_ws v of
               None \<Rightarrow> None
             | Some (scheme, creds) \<Rightarrow>
                 if \<not> eq_ignore_ascii_case scheme ''Bearer'' then None
                 else if trim creds \<noteq> [] then Some (trim creds) else None)
          else if v \<noteq> [] then Some v else None)"

fun first_key :: "(bytes \<Rightarrow> string option) \<Rightarrow> headers \<Rightarrow> string list \<Rightarrow> string option" where
  "first_key to_str h [] = None"
| "first_key to_str h (n # ns) =
     (case key_from_header to_str h n of Some k \<Rightarrow> Some k | None \<Rightarrow> first_key to_str h ns)"

definition extract_key :: "(bytes \<Rightarrow> string option) \<Rightarrow> headers \<Rightarrow> string option" where
  "extract_key to_str h = first_key to_str h auth_headers"

section \<open>The middleware\<close>

definition strip_credential_headers :: "headers \<Rightarrow> headers" where
  "strip_credential_headers h =
     header_remove (header_remove (header_remove h ''authorization'') ''api-key'') ''x-api-key''"

text \<open>The request is passed on, with these headers, or answered with 401.\<close>

datatype auth_outcome = Next headers | Unauthorized

definition require_auth :: "(bytes \<Rightarrow> string option) \<Rightarrow> string list \<Rightarrow> headers \<Rightarrow> auth_outcome" where
  "require_auth to_str api_keys h =
     (if api_keys = [] then Next h
      else
        (case extract_key to_str h of
           None \<Rightarrow> Unauthorized
         | Some presented \<Rightarrow>
             (let max_key_len = fold max (map length api_keys) 0 in
              if max_key_len < length presented then Unauthorized
              else
                (let key_ok = fold (\<lambda>k ok. ok \<or> ct_eq k presented) api_keys False in
                 if key_ok then Next (strip_credential_headers h) else Unauthorized))))"

section \<open>Comparison lemmas\<close>

lemma byte_or_zero_eq:
  assumes "i < length a" "i < length b"
  shows "byte_or_zero a i = byte_or_zero b i \<longleftrightarrow> a ! i = b ! i"
proof -
  have "(of_nat (byte c) :: u8) = of_nat (byte d) \<longleftrightarrow> c = d" for c d
  proof
    assume "(of_nat (byte c) :: u8) = of_nat (byte d)"
    then have "unat (of_nat (byte c) :: u8) = unat (of_nat (byte d) :: u8)" by simp
    then show "c = d" by (simp add: unat_of_nat byte_def)
  qed simp
  with assms show ?thesis by (simp add: byte_or_zero_def)
qed

lemma xor_eq_0: "x XOR y = 0 \<longleftrightarrow> x = (y :: 'a :: len word)"
proof
  assume "x XOR y = 0"
  then have "(x XOR y) XOR y = y" by simp
  then show "x = y" by (simp add: xor.assoc)
qed simp

lemma ucast_u8_eq_0: "(ucast (x :: u8) :: u64) = 0 \<longleftrightarrow> x = 0"
proof
  assume "(ucast x :: u64) = 0"
  then have "(ucast (ucast x :: u64) :: u8) = 0" by simp
  then show "x = 0" by (simp add: ucast_down_ucast_id is_down)
qed simp

lemma ct_loop_zero:
  "fold (ct_step a b) is d = 0 \<longleftrightarrow> d = 0 \<and> (\<forall>i \<in> set is. byte_or_zero a i = byte_or_zero b i)"
  by (induction "is" arbitrary: d) (auto simp: ct_step_def or_eq_0_iff ucast_u8_eq_0 xor_eq_0)

lemma length_word_eq:
  "n < 2 ^ 64 \<Longrightarrow> m < 2 ^ 64 \<Longrightarrow> (of_nat n :: u64) = of_nat m \<longleftrightarrow> n = m"
proof -
  assume n: "n < 2 ^ 64" "m < 2 ^ 64"
  show ?thesis
  proof
    assume "(of_nat n :: u64) = of_nat m"
    then have "unat (of_nat n :: u64) = unat (of_nat m :: u64)" by simp
    with n show "n = m" by (simp add: unat_of_nat)
  qed simp
qed

lemma ct_eq_iff:
  assumes "length a < 2 ^ 64" "length b < 2 ^ 64"
  shows "ct_eq a b \<longleftrightarrow> a = b"
proof -
  have "ct_eq a b \<longleftrightarrow> length a = length b \<and> (\<forall>i < max (length a) (length b). byte_or_zero a i = byte_or_zero b i)"
    using assms by (auto simp: ct_eq_def ct_loop_zero xor_eq_0 length_word_eq)
  also have "\<dots> \<longleftrightarrow> length a = length b \<and> (\<forall>i < length a. a ! i = b ! i)"
    by (auto simp: byte_or_zero_eq)
  also have "\<dots> \<longleftrightarrow> a = b" by (auto simp: list_eq_iff_nth_eq)
  finally show ?thesis .
qed

section \<open>Middleware lemmas\<close>

lemma fold_or: "fold (\<lambda>k ok. ok \<or> P k) ks b \<longleftrightarrow> b \<or> (\<exists>k \<in> set ks. P k)"
  by (induction ks arbitrary: b) auto

lemma fold_max_le: "fold max xs m = (n :: nat) \<Longrightarrow> m \<le> n \<and> (\<forall>x \<in> set xs. x \<le> n)"
proof (induction xs arbitrary: m)
  case (Cons x xs)
  then show ?case by fastforce
qed simp

lemma longest_key_length: "k \<in> set ks \<Longrightarrow> length k \<le> fold max (map length ks) 0"
  using fold_max_le [of "map length ks" 0] by simp

lemma header_get_remove:
  "header_get (header_remove h n) m = (if n = m then None else header_get h m)"
  by (induction h) (auto simp: header_get_def header_remove_def)

lemma header_get_stripped:
  "header_get (strip_credential_headers h) m = (if m \<in> set auth_headers then None else header_get h m)"
  by (auto simp: strip_credential_headers_def header_get_remove auth_headers_def)

lemma first_key_none: "(\<forall>n \<in> set ns. header_get h n = None) \<Longrightarrow> first_key to_str h ns = None"
  by (induction ns) (auto simp: key_from_header_def)

lemma require_auth_next:
  assumes "api_keys \<noteq> []" "\<forall>k \<in> set api_keys. length k < 2 ^ 64"
  shows "require_auth to_str api_keys h =
    (case extract_key to_str h of
       None \<Rightarrow> Unauthorized
     | Some k \<Rightarrow> if k \<in> set api_keys then Next (strip_credential_headers h) else Unauthorized)"
proof (cases "extract_key to_str h")
  case (Some k)
  let ?m = "fold max (map length api_keys) 0"
  have ct: "ct_eq x k \<longleftrightarrow> x = k" if "x \<in> set api_keys" "length k \<le> ?m" for x
  proof -
    have "?m < 2 ^ 64"
      using assms(2) by (induction api_keys rule: rev_induct) auto
    with that assms(2) show ?thesis by (intro ct_eq_iff) auto
  qed
  show ?thesis
    using assms(1) Some longest_key_length [of k api_keys] ct
    by (auto simp: require_auth_def Let_def fold_or not_less)
qed (use assms(1) in \<open>simp add: require_auth_def\<close>)

section \<open>Properties\<close>

text \<open>
  The constant-time comparison accepts exactly equal strings (of any length a string can
  have on a 64-bit machine): the padding of the shorter one with zero bytes never makes two
  different strings equal.
\<close>

theorem ct_eq_correct:
  assumes "length a < 2 ^ 64" "length b < 2 ^ 64"
  shows "ct_eq a b \<longleftrightarrow> a = b"
  using assms by (rule ct_eq_iff)

theorem ct_eq_correct_witness: "ct_eq ''sk-1'' ''sk-1'' \<and> \<not> ct_eq ''sk-1'' (''sk-1'' @ [CHR 0x00])"
  using ct_eq_correct [of "''sk-1''" "''sk-1''"] ct_eq_correct [of "''sk-1''" "''sk-1'' @ [CHR 0x00]"]
  by simp

text \<open>
  C32: with authentication configured, a request passes exactly when it presents one of the
  configured keys, and then no credential header is left in the headers that travel on while
  every other header is untouched.
\<close>

theorem require_auth_correct:
  assumes "api_keys \<noteq> []" "\<forall>k \<in> set api_keys. length k < 2 ^ 64"
  shows "case require_auth to_str api_keys h of
      Unauthorized \<Rightarrow> (\<forall>k \<in> set api_keys. extract_key to_str h \<noteq> Some k)
    | Next h' \<Rightarrow>
        (\<exists>k \<in> set api_keys. extract_key to_str h = Some k) \<and> extract_key to_str h' = None \<and>
        (\<forall>n. header_get h' n = (if n \<in> set auth_headers then None else header_get h n))"
  using require_auth_next [OF assms, of to_str h]
  by (auto simp: extract_key_def header_get_stripped intro!: first_key_none split: option.splits if_splits)

theorem require_auth_correct_witness:
  "require_auth Some [''k1''] [(''x-api-key'', ''k1''), (''accept'', ''a'')] \<noteq> Unauthorized"
proof
  assume "require_auth Some [''k1''] [(''x-api-key'', ''k1''), (''accept'', ''a'')] = Unauthorized"
  with require_auth_correct [of "[''k1'']" Some "[(''x-api-key'', ''k1''), (''accept'', ''a'')]"]
  have "extract_key Some [(''x-api-key'', ''k1''), (''accept'', ''a'')] \<noteq> Some ''k1''" by simp
  then show False
    by (simp add: extract_key_def auth_headers_def key_from_header_def header_get_def trim_def chars_def
        utf8_chunks.simps utf8_step_def byte_at_def byte_def is_whitespace_def)
qed

text \<open>
  An \<open>Authorization\<close> header with another scheme than Bearer presents no key and does not
  shadow a key in \<open>api-key\<close> or \<open>x-api-key\<close>.
\<close>

theorem other_scheme_does_not_shadow:
  assumes "\<forall>v scheme creds. header_get h ''authorization'' = Some v \<longrightarrow>
      Option.bind (to_str v) (\<lambda>t. split_once_ws (trim t)) = Some (scheme, creds) \<longrightarrow>
      \<not> eq_ignore_ascii_case scheme ''Bearer''"
  shows "extract_key to_str h = extract_key to_str (header_remove h ''authorization'')"
proof -
  have "key_from_header to_str h ''authorization'' = None"
    using assms by (fastforce simp: key_from_header_def bind_eq_Some_conv split: option.splits)
  moreover have "key_from_header to_str (header_remove h ''authorization'') n = key_from_header to_str h n"
    if "n \<noteq> ''authorization''" for n
    using that by (simp add: key_from_header_def header_get_remove)
  moreover have "key_from_header to_str (header_remove h ''authorization'') ''authorization'' = None"
    by (simp add: key_from_header_def header_get_remove)
  ultimately show ?thesis by (simp add: extract_key_def auth_headers_def split: option.split)
qed

theorem other_scheme_does_not_shadow_witness:
  "extract_key Some [(''authorization'', ''Basic x''), (''api-key'', ''k'')]
   = extract_key Some (header_remove [(''authorization'', ''Basic x''), (''api-key'', ''k'')] ''authorization'')"
  by (rule other_scheme_does_not_shadow)
    (simp add: header_get_def trim_def chars_def split_once_ws_def
      utf8_chunks.simps utf8_step_def byte_at_def byte_def is_whitespace_def
      eq_ignore_ascii_case_def ascii_lower_def)

end
