(* ===== verification/Config.thy ===== *)
theory Config
  imports Tokens Auth
begin

text \<open>
  Configuration (\<open>src/config.rs\<close>): the sections of the file, their defaults, loading and
  validation. Reading TOML, parsing a URL and the rules of HTTP header names and values belong to
  crates: they are the parameters \<open>toml\<close> and \<open>http_crates\<close>. A header value is its bytes.
\<close>

section \<open>Sections\<close>

record header_config =
  hc_name :: string
  hc_value :: string

record client_config =
  cc_protocols :: "string list"

record upstream_config =
  uc_protocol :: string
  uc_url :: string
  uc_authorization :: string
  uc_extra_headers :: "header_config list"
  uc_timeout_ms :: u64

record models_config =
  mc_default :: string
  mc_map :: "(string \<times> string) list"
  mc_prefixes :: "string list"

record server_config =
  sc_host :: string
  sc_port :: u16

record auth_config =
  ac_api_keys :: "string list"

record memory_config =
  mm_enabled :: bool
  mm_path :: "string option"
  mm_ttl_hours :: "u64 option"
  mm_flush_interval_secs :: "u64 option"

record config =
  cf_client :: client_config
  cf_upstream :: upstream_config
  cf_models :: models_config
  cf_server :: server_config
  cf_auth :: auth_config
  cf_privacy :: privacy_config
  cf_memory :: memory_config

definition default_config :: config where
  "default_config =
     \<lparr>cf_client = \<lparr>cc_protocols = [''openai'', ''anthropic'']\<rparr>,
      cf_upstream = \<lparr>uc_protocol = ''openai'', uc_url = ''http://localhost:11434'', uc_authorization = [],
        uc_extra_headers = [], uc_timeout_ms = 60000\<rparr>,
      cf_models = \<lparr>mc_default = [], mc_map = [], mc_prefixes = []\<rparr>,
      cf_server = \<lparr>sc_host = ''127.0.0.1'', sc_port = 5000\<rparr>,
      cf_auth = \<lparr>ac_api_keys = []\<rparr>,
      cf_privacy = default_privacy_config,
      cf_memory = \<lparr>mm_enabled = False, mm_path = None, mm_ttl_hours = None, mm_flush_interval_secs = None\<rparr>\<rparr>"

section \<open>Validation\<close>

record http_crates =
  header_value_ok :: "string \<Rightarrow> bool"
  header_to_str :: "bytes \<Rightarrow> string option"
  header_name_ok :: "string \<Rightarrow> bool"
  url_scheme :: "string \<Rightarrow> string + string"

text \<open>Why loading fails: the code's messages as constructors.\<close>

datatype config_error =
    EmptyKey
  | KeyNotHeader string
  | KeyUntrimmed string
  | UrlInvalid string string
  | UrlScheme string
  | HeaderNameInvalid string
  | EmptyPrefix
  | MemoryPathMissing
  | ConfigMissing string
  | ConfigUnreadable string
  | ConfigSyntax string

definition validate_key :: "http_crates \<Rightarrow> string \<Rightarrow> config_error + unit" where
  "validate_key H key =
     (if trim key = [] then Inl EmptyKey
      else
        (let invalid_header = (if header_value_ok H key then header_to_str H key = None else True) in
         if invalid_header then Inl (KeyNotHeader key)
         else if key \<noteq> trim key then Inl (KeyUntrimmed key)
         else Inr ()))"

text \<open>A loop whose body may return an error, for its first error.\<close>

fun check_each :: "('a \<Rightarrow> 'e + unit) \<Rightarrow> 'a list \<Rightarrow> 'e + unit" where
  "check_each f [] = Inr ()"
| "check_each f (x # xs) = (case f x of Inl e \<Rightarrow> Inl e | Inr _ \<Rightarrow> check_each f xs)"

definition validate_url :: "http_crates \<Rightarrow> string \<Rightarrow> config_error + unit" where
  "validate_url H url =
     (case url_scheme H url of
        Inl e \<Rightarrow> Inl (UrlInvalid url e)
      | Inr scheme \<Rightarrow> if scheme \<noteq> ''http'' \<and> scheme \<noteq> ''https'' then Inl (UrlScheme url) else Inr ())"

definition validate_header_name :: "http_crates \<Rightarrow> header_config \<Rightarrow> config_error + unit" where
  "validate_header_name H h = (if \<not> header_name_ok H (hc_name h) then Inl (HeaderNameInvalid (hc_name h)) else Inr ())"

definition validate_prefix :: "string \<Rightarrow> config_error + unit" where
  "validate_prefix p = (if p = [] then Inl EmptyPrefix else Inr ())"

definition validate_memory :: "memory_config \<Rightarrow> config_error + unit" where
  "validate_memory m =
     (if mm_enabled m then
        (case mm_path m of
           Some p \<Rightarrow> if trim p \<noteq> [] then Inr () else Inl MemoryPathMissing
         | None \<Rightarrow> Inl MemoryPathMissing)
      else Inr ())"

definition and_then :: "'e + unit \<Rightarrow> 'e + unit \<Rightarrow> 'e + unit" where
  "and_then x y = (case x of Inl e \<Rightarrow> Inl e | Inr _ \<Rightarrow> y)"

definition validate :: "http_crates \<Rightarrow> config \<Rightarrow> config_error + unit" where
  "validate H cfg =
     and_then (check_each (validate_key H) (ac_api_keys (cf_auth cfg)))
       (and_then (validate_url H (uc_url (cf_upstream cfg)))
         (and_then (check_each (validate_header_name H) (uc_extra_headers (cf_upstream cfg)))
           (and_then (check_each validate_prefix (mc_prefixes (cf_models cfg)))
             (validate_memory (cf_memory cfg)))))"

definition host_is_loopback :: "string \<Rightarrow> bool" where
  "host_is_loopback host \<longleftrightarrow> host = ''localhost'' \<or> host = ''::1'' \<or> prefix ''127.'' host"

text \<open>The warning of \<open>validate\<close>: no keys, on an interface that others reach.\<close>

definition is_open_proxy :: "config \<Rightarrow> bool" where
  "is_open_proxy cfg \<longleftrightarrow> ac_api_keys (cf_auth cfg) = [] \<and> \<not> host_is_loopback (sc_host (cf_server cfg))"

section \<open>Loading\<close>

text \<open>The file system: a path is missing, or reading it fails, or gives the text.\<close>

type_synonym files = "string \<Rightarrow> (string + string) option"

definition load_path :: "http_crates \<Rightarrow> (string \<Rightarrow> string + config) \<Rightarrow> files \<Rightarrow> string \<Rightarrow> config_error + config" where
  "load_path H toml fs path =
     (case fs path of
        None \<Rightarrow> Inl (ConfigMissing path)
      | Some (Inl e) \<Rightarrow> Inl (ConfigUnreadable e)
      | Some (Inr raw) \<Rightarrow>
          (case toml raw of
             Inl e \<Rightarrow> Inl (ConfigSyntax e)
           | Inr cfg \<Rightarrow> (case validate H cfg of Inl e \<Rightarrow> Inl e | Inr _ \<Rightarrow> Inr cfg)))"

definition load :: "http_crates \<Rightarrow> (string \<Rightarrow> string + config) \<Rightarrow> files \<Rightarrow> string option \<Rightarrow> config_error + config" where
  "load H toml fs config_path =
     (case config_path of
        Some path \<Rightarrow> load_path H toml fs path
      | None \<Rightarrow> if fs ''config.toml'' \<noteq> None then load_path H toml fs ''config.toml'' else Inr default_config)"

section \<open>What a loaded configuration satisfies\<close>

lemma check_each_ok: "check_each f xs = Inr () \<longleftrightarrow> (\<forall>x \<in> set xs. f x = Inr ())"
  by (induction xs) (auto split: sum.split)

lemma and_then_ok: "and_then x y = Inr () \<longleftrightarrow> x = Inr () \<and> y = Inr ()"
  by (cases x) (simp_all add: and_then_def)

lemma validate_key_ok:
  "validate_key H k = Inr () \<longleftrightarrow> k \<noteq> [] \<and> trim k = k \<and> header_value_ok H k \<and> header_to_str H k \<noteq> None"
  by (auto simp: validate_key_def Let_def)

lemma validate_ok:
  "validate H cfg = Inr () \<longleftrightarrow>
     (\<forall>k \<in> set (ac_api_keys (cf_auth cfg)). k \<noteq> [] \<and> trim k = k \<and> header_value_ok H k \<and> header_to_str H k \<noteq> None) \<and>
     (\<exists>scheme. url_scheme H (uc_url (cf_upstream cfg)) = Inr scheme \<and> scheme \<in> {''http'', ''https''}) \<and>
     (\<forall>h \<in> set (uc_extra_headers (cf_upstream cfg)). header_name_ok H (hc_name h)) \<and>
     [] \<notin> set (mc_prefixes (cf_models cfg)) \<and>
     (mm_enabled (cf_memory cfg) \<longrightarrow> (\<exists>p. mm_path (cf_memory cfg) = Some p \<and> trim p \<noteq> []))"
  unfolding validate_def and_then_ok check_each_ok validate_key_ok
  by (auto simp: validate_url_def validate_header_name_def validate_prefix_def validate_memory_def
      split: sum.splits if_splits option.splits)

lemma load_cases:
  "load H toml fs config_path = Inr cfg \<Longrightarrow>
     validate H cfg = Inr () \<or> cfg = default_config \<and> config_path = None \<and> fs ''config.toml'' = None"
  by (auto simp: load_def load_path_def split: option.splits sum.splits if_splits)

section \<open>Properties\<close>

text \<open>
  A configuration that opens the gateway is the content of the file that was read, and valid.
  (\<open>ConfigFile\<close> says what that file has to contain.)
\<close>

lemma open_proxy_is_explicit:
  assumes "load H toml fs config_path = Inr cfg" "is_open_proxy cfg"
  shows "\<exists>raw. fs (unwrap_or config_path ''config.toml'') = Some (Inr raw) \<and> toml raw = Inr cfg \<and> validate H cfg = Inr ()"
proof (cases config_path)
  case None
  have "\<not> is_open_proxy default_config" by (simp add: is_open_proxy_def default_config_def host_is_loopback_def)
  then have "cfg \<noteq> default_config" using assms(2) by blast
  then show ?thesis
    using assms(1) None by (auto simp: load_def load_path_def split: option.splits sum.splits if_splits)
next
  case (Some path)
  then show ?thesis using assms(1) by (auto simp: load_def load_path_def split: option.splits sum.splits)
qed

definition example_http :: http_crates where
  "example_http = \<lparr>header_value_ok = (\<lambda>s. True), header_to_str = Some, header_name_ok = (\<lambda>s. True),
     url_scheme = (\<lambda>s. Inr ''http'')\<rparr>"

definition keyed_config :: config where
  "keyed_config = default_config\<lparr>cf_server := \<lparr>sc_host = ''0.0.0.0'', sc_port = 80\<rparr>,
     cf_auth := \<lparr>ac_api_keys = [''sk-1'']\<rparr>\<rparr>"

definition open_config :: config where
  "open_config = default_config\<lparr>cf_server := \<lparr>sc_host = ''0.0.0.0'', sc_port = 80\<rparr>\<rparr>"

definition example_files :: files where
  "example_files = (\<lambda>path. if path = ''config.toml'' then Some (Inr ''port 80'') else None)"

lemma trim_key: "trim ''sk-1'' = ''sk-1''"
  by code_simp

lemma example_valid: "validate example_http keyed_config = Inr ()" "validate example_http open_config = Inr ()"
  unfolding validate_ok
  by (simp_all add: example_http_def keyed_config_def open_config_def default_config_def trim_key)

lemma example_loads:
  "load example_http (\<lambda>raw. Inr keyed_config) example_files None = Inr keyed_config"
  "load example_http (\<lambda>raw. Inr open_config) example_files None = Inr open_config"
  by (simp_all add: load_def load_path_def example_files_def example_valid)

text \<open>
  Every key of a loaded configuration is usable and none lets a request without credentials
  in: presented in an \<open>api-key\<close> or \<open>x-api-key\<close> header it passes the middleware, which strips it,
  and a request with no credential header is refused.
\<close>

theorem configured_keys_authenticate:
  assumes "load H toml fs config_path = Inr cfg" "k \<in> set (ac_api_keys (cf_auth cfg))"
    and "\<forall>key \<in> set (ac_api_keys (cf_auth cfg)). length key < 2 ^ 64"
    and "\<And>v t. header_to_str H v = Some t \<Longrightarrow> t = v"
    and "n \<in> {''api-key'', ''x-api-key''}"
  shows "require_auth (header_to_str H) (ac_api_keys (cf_auth cfg)) [(n, k)] = Next [] \<and>
    require_auth (header_to_str H) (ac_api_keys (cf_auth cfg)) [] = Unauthorized"
proof -
  have ne: "ac_api_keys (cf_auth cfg) \<noteq> []" using assms(2) by auto
  then have "validate H cfg = Inr ()"
    using load_cases [OF assms(1)] by (auto simp: default_config_def)
  then have k: "k \<noteq> []" "trim k = k" "header_to_str H k \<noteq> None"
    using assms(2) by (auto simp: validate_ok)
  then have "header_to_str H k = Some k" using assms(4) by fastforce
  then have "extract_key (header_to_str H) [(n, k)] = Some k" "strip_credential_headers [(n, k)] = []"
    "extract_key (header_to_str H) [] = None"
    using k assms(5)
    by (auto simp: extract_key_def auth_headers_def key_from_header_def header_get_def strip_credential_headers_def header_remove_def)
  then show ?thesis using require_auth_next [OF ne assms(3)] assms(2) by simp
qed

theorem configured_keys_authenticate_witness:
  "require_auth (header_to_str example_http) (ac_api_keys (cf_auth keyed_config)) [(''x-api-key'', ''sk-1'')] = Next [] \<and>
   require_auth (header_to_str example_http) (ac_api_keys (cf_auth keyed_config)) [] = Unauthorized"
  by (rule configured_keys_authenticate [OF example_loads(1)]) (simp_all add: keyed_config_def example_http_def)

end
