(* ===== verification/Server.thy ===== *)
theory Server
  imports Registry Config
begin

text \<open>
  The entry point (\<open>src/main.rs\<close>): the adapters that are registered, the checks that refuse to
  start, the table of routes, the order of its middleware, and the request id. Binding sockets,
  signals and logging are I/O; a route's handler is named by its protocol and kind.
\<close>

section \<open>Registration and start-up checks\<close>

definition default_registry :: "serde_json \<Rightarrow> (string \<Rightarrow> string) \<Rightarrow> u64 \<Rightarrow> protocol_registry" where
  "default_registry J dbg now =
     registry_register (registry_register (registry_register registry_new (openai_adapter J now))
       (anthropic_adapter J)) (gemini_adapter J dbg)"

datatype http_method = GET | POST

datatype startup_error =
    UnknownClients "string list" "string list"
  | UnknownUpstream string "string list"
  | EndpointClash http_method string string string

definition check_protocols :: "config \<Rightarrow> protocol_registry \<Rightarrow> startup_error + unit" where
  "check_protocols cfg reg =
     (let unknown = filter (\<lambda>p. registry_get reg p = None) (cc_protocols (cf_client cfg)) in
      if unknown \<noteq> [] then Inl (UnknownClients unknown (registry_names reg))
      else if registry_get reg (uc_protocol (cf_upstream cfg)) = None
      then Inl (UnknownUpstream (uc_protocol (cf_upstream cfg)) (registry_names reg))
      else Inr ())"

section \<open>Routes\<close>

definition endpoint_method :: "endpoint_kind \<Rightarrow> http_method" where
  "endpoint_method kind = (case kind of Models \<Rightarrow> GET | Chat \<Rightarrow> POST | Messages \<Rightarrow> POST | CountTokens \<Rightarrow> POST)"

text \<open>The ordered map from paths to the endpoints claimed on them, in the order they are pushed.\<close>

type_synonym path_map = "(string \<times> (endpoint_kind \<times> string) list) list"

fun path_push :: "string \<Rightarrow> endpoint_kind \<times> string \<Rightarrow> path_map \<Rightarrow> path_map" where
  "path_push path x [] = [(path, [x])]"
| "path_push path x ((p, xs) # m) =
     (if path < p then (path, [x]) # (p, xs) # m
      else if path = p then (p, xs @ [x]) # m
      else (p, xs) # path_push path x m)"

definition push_endpoints :: "path_map \<Rightarrow> protocol_adapter \<Rightarrow> path_map" where
  "push_endpoints m a = foldl (\<lambda>m (path, kind). path_push path (kind, pa_name a) m) m (pa_endpoints a)"

definition by_path :: "protocol_adapter list \<Rightarrow> path_map" where
  "by_path as = foldl push_endpoints [] as"

record route =
  rt_method :: http_method
  rt_path :: string
  rt_kind :: endpoint_kind
  rt_protocol :: string

type_synonym mounted = "http_method \<times> string \<Rightarrow> string option"

text \<open>One iteration of the inner loop: the route it mounts, or none, or the refusal to start.\<close>

definition mount_one ::
    "string \<Rightarrow> endpoint_kind \<times> string \<Rightarrow> mounted \<Rightarrow> startup_error + (route list \<times> mounted)" where
  "mount_one path kp mounted =
     (let (kind, protocol) = kp; method = endpoint_method kind; key = (method, path) in
      case mounted key of
        Some owner \<Rightarrow>
          if owner \<noteq> protocol then
            (if kind = Models then Inr ([], mounted) else Inl (EndpointClash method path owner protocol))
          else Inr ([], mounted)
      | None \<Rightarrow>
          Inr ([\<lparr>rt_method = method, rt_path = path, rt_kind = kind, rt_protocol = protocol\<rparr>],
               mounted(key \<mapsto> protocol)))"

fun mount_path :: "string \<Rightarrow> (endpoint_kind \<times> string) list \<Rightarrow> mounted \<Rightarrow> startup_error + (route list \<times> mounted)" where
  "mount_path path [] mounted = Inr ([], mounted)"
| "mount_path path (kp # kps) mounted =
     (case mount_one path kp mounted of
        Inl e \<Rightarrow> Inl e
      | Inr (rs, mounted1) \<Rightarrow>
          (case mount_path path kps mounted1 of
             Inl e \<Rightarrow> Inl e
           | Inr (rs2, mounted2) \<Rightarrow> Inr (rs @ rs2, mounted2)))"

fun mount_paths :: "path_map \<Rightarrow> mounted \<Rightarrow> startup_error + (route list \<times> mounted)" where
  "mount_paths [] mounted = Inr ([], mounted)"
| "mount_paths ((path, kps) # m) mounted =
     (case mount_path path kps mounted of
        Inl e \<Rightarrow> Inl e
      | Inr (rs, mounted1) \<Rightarrow>
          (case mount_paths m mounted1 of
             Inl e \<Rightarrow> Inl e
           | Inr (rs2, mounted2) \<Rightarrow> Inr (rs @ rs2, mounted2)))"

definition startup :: "config \<Rightarrow> protocol_registry \<Rightarrow> startup_error + route list" where
  "startup cfg reg =
     (case check_protocols cfg reg of
        Inl e \<Rightarrow> Inl e
      | Inr _ \<Rightarrow>
          (case mount_paths (by_path (client_adapters reg (cc_protocols (cf_client cfg)))) Map.empty of
             Inl e \<Rightarrow> Inl e
           | Inr (routes, _) \<Rightarrow> Inr routes))"

section \<open>Serving\<close>

text \<open>
  What a request meets: the liveness probe, which is registered outside the authentication layer,
  or a mounted route behind it. The request id of the response is the client's or a generated one.
\<close>

datatype served = Health | Refused | Handled route headers | NotServed

definition serve :: "http_crates \<Rightarrow> config \<Rightarrow> route list \<Rightarrow> http_method \<Rightarrow> string \<Rightarrow> headers \<Rightarrow> served" where
  "serve H cfg routes method path h =
     (if method = GET \<and> path = ''/health'' then Health
      else
        (case find (\<lambda>rt. rt_method rt = method \<and> rt_path rt = path) routes of
           None \<Rightarrow> NotServed
         | Some rt \<Rightarrow>
             (case require_auth (header_to_str H) (ac_api_keys (cf_auth cfg)) h of
                Unauthorized \<Rightarrow> Refused
              | Next h' \<Rightarrow> Handled rt h')))"

definition request_trace_id :: "http_crates \<Rightarrow> string \<Rightarrow> headers \<Rightarrow> string" where
  "request_trace_id H generated h =
     (let request_id = unwrap_or (opt_filter (\<lambda>s. s \<noteq> []) (Option.bind (header_get h ''x-request-id'') (header_to_str H))) generated
      in if header_value_ok H request_id then request_id else ''req-unknown'')"

section \<open>The table of routes\<close>

text \<open>The endpoints a path map holds, one by one in its order.\<close>

definition claims :: "path_map \<Rightarrow> (string \<times> endpoint_kind \<times> string) list" where
  "claims m = concat (map (\<lambda>(path, kps). map (\<lambda>kp. (path, kp)) kps) m)"

lemma claims_simps [simp]: "claims [] = []" "claims ((path, kps) # m) = map (\<lambda>kp. (path, kp)) kps @ claims m"
  by (simp_all add: claims_def)

lemma claims_push: "set (claims (path_push path x m)) = insert (path, x) (set (claims m))"
  by (induction path x m rule: path_push.induct) auto

lemma claims_push_endpoints:
  "set (claims (push_endpoints m a)) = (\<lambda>(path, kind). (path, kind, pa_name a)) ` set (pa_endpoints a) \<union> set (claims m)"
proof -
  have "set (claims (foldl (\<lambda>m (path, kind). path_push path (kind, nm) m) m eps))
      = (\<lambda>(path, kind). (path, kind, nm)) ` set eps \<union> set (claims m)" for eps nm
    by (induction eps arbitrary: m) (auto simp: claims_push)
  then show ?thesis by (simp add: push_endpoints_def)
qed

lemma claims_by_path:
  "(path, kind, nm) \<in> set (claims (by_path as)) \<longleftrightarrow> (\<exists>a \<in> set as. nm = pa_name a \<and> (path, kind) \<in> set (pa_endpoints a))"
proof -
  have "set (claims (foldl push_endpoints m as)) =
      (\<Union>a \<in> set as. (\<lambda>(path, kind). (path, kind, pa_name a)) ` set (pa_endpoints a)) \<union> set (claims m)" for m
    by (induction as arbitrary: m) (auto simp: claims_push_endpoints)
  then show ?thesis by (auto simp: by_path_def)
qed

text \<open>The two loops are one loop over the claims.\<close>

fun mount_claims :: "(string \<times> endpoint_kind \<times> string) list \<Rightarrow> mounted \<Rightarrow> startup_error + (route list \<times> mounted)" where
  "mount_claims [] mounted = Inr ([], mounted)"
| "mount_claims ((path, kp) # cs) mounted =
     (case mount_one path kp mounted of
        Inl e \<Rightarrow> Inl e
      | Inr (rs, mounted1) \<Rightarrow>
          (case mount_claims cs mounted1 of
             Inl e \<Rightarrow> Inl e
           | Inr (rs2, mounted2) \<Rightarrow> Inr (rs @ rs2, mounted2)))"

lemma mount_claims_append:
  "mount_claims (cs @ ds) m = (case mount_claims cs m of Inl e \<Rightarrow> Inl e | Inr (rs, m1) \<Rightarrow>
     (case mount_claims ds m1 of Inl e \<Rightarrow> Inl e | Inr (rs2, m2) \<Rightarrow> Inr (rs @ rs2, m2)))"
  by (induction cs m rule: mount_claims.induct) (auto split: sum.splits prod.splits)

lemma mount_path_claims: "mount_path path kps m = mount_claims (map (\<lambda>kp. (path, kp)) kps) m"
  by (induction path kps m rule: mount_path.induct) (auto split: sum.splits prod.splits)

lemma mount_paths_claims: "mount_paths pm m = mount_claims (claims pm) m"
  by (induction pm m rule: mount_paths.induct) (auto simp: mount_path_claims mount_claims_append split: sum.splits prod.splits)

text \<open>
  What the loop keeps: one route for a method and path, owned by the protocol the map names, each
  from a claim that was seen, and every claim seen is mounted, under its own protocol unless it
  is a model listing.
\<close>

definition route_key :: "route \<Rightarrow> http_method \<times> string" where
  "route_key rt = (rt_method rt, rt_path rt)"

definition mount_ok :: "(string \<times> endpoint_kind \<times> string) set \<Rightarrow> route list \<Rightarrow> mounted \<Rightarrow> bool" where
  "mount_ok seen rts m \<longleftrightarrow>
     distinct (map route_key rts) \<and>
     (\<forall>k. m k = map_option rt_protocol (find (\<lambda>rt. route_key rt = k) rts)) \<and>
     (\<forall>rt \<in> set rts. (rt_path rt, rt_kind rt, rt_protocol rt) \<in> seen \<and> rt_method rt = endpoint_method (rt_kind rt)) \<and>
     (\<forall>(path, kind, nm) \<in> seen. \<exists>owner. m (endpoint_method kind, path) = Some owner \<and> (kind \<noteq> Models \<longrightarrow> owner = nm))"

lemma mount_ok_new: "mount_ok {} [] Map.empty"
  by (simp add: mount_ok_def)

lemma find_key_fresh: "find (\<lambda>rt. route_key rt = k) rts = None \<longleftrightarrow> k \<notin> set (map route_key rts)"
  by (auto simp: find_None_iff)

lemma find_snoc: "find P (xs @ [x]) = (case find P xs of Some y \<Rightarrow> Some y | None \<Rightarrow> if P x then Some x else None)"
  by (induction xs) auto

lemma mount_one_ok:
  assumes ok: "mount_ok seen rts m" and one: "mount_one path (kind, nm) m = Inr (rs, m')"
  shows "mount_ok (insert (path, kind, nm) seen) (rts @ rs) m'"
proof (cases "m (endpoint_method kind, path)")
  case (Some owner)
  then have r: "rs = []" "m' = m" "kind \<noteq> Models \<longrightarrow> owner = nm"
    using one by (auto simp: mount_one_def Let_def split: if_splits)
  with ok Some show ?thesis unfolding mount_ok_def by auto
next
  case None
  let ?rt = "\<lparr>rt_method = endpoint_method kind, rt_path = path, rt_kind = kind, rt_protocol = nm\<rparr>"
  have r: "rs = [?rt]" "m' = m((endpoint_method kind, path) \<mapsto> nm)"
    using one None by (auto simp: mount_one_def Let_def)
  have k: "route_key ?rt = (endpoint_method kind, path)" by (simp add: route_key_def)
  have fresh: "find (\<lambda>rt. route_key rt = (endpoint_method kind, path)) rts = None"
  proof -
    have "map_option rt_protocol (find (\<lambda>rt. route_key rt = (endpoint_method kind, path)) rts) = None"
      using ok None unfolding mount_ok_def by (auto dest: spec [of _ "(endpoint_method kind, path)"])
    then show ?thesis by simp
  qed
  have 1: "distinct (map route_key (rts @ [?rt]))"
    using ok fresh k unfolding mount_ok_def find_key_fresh by simp
  have 2: "\<forall>k. m' k = map_option rt_protocol (find (\<lambda>rt. route_key rt = k) (rts @ [?rt]))"
    using ok fresh k unfolding mount_ok_def r find_snoc by (auto split: option.split)
  have 3: "\<forall>rt \<in> set (rts @ [?rt]). (rt_path rt, rt_kind rt, rt_protocol rt) \<in> insert (path, kind, nm) seen \<and>
      rt_method rt = endpoint_method (rt_kind rt)"
    using ok unfolding mount_ok_def by auto
  have 4: "\<exists>owner. m' (endpoint_method kind', path') = Some owner \<and> (kind' \<noteq> Models \<longrightarrow> owner = nm')"
    if "(path', kind', nm') \<in> insert (path, kind, nm) seen" for path' kind' nm'
  proof (cases "(path', kind', nm') = (path, kind, nm)")
    case False
    then have "(path', kind', nm') \<in> seen" using that by auto
    then obtain owner where "m (endpoint_method kind', path') = Some owner" "kind' \<noteq> Models \<longrightarrow> owner = nm'"
      using ok unfolding mount_ok_def by blast
    moreover from this None have "(endpoint_method kind', path') \<noteq> (endpoint_method kind, path)" by auto
    ultimately show ?thesis by (auto simp: r)
  qed (simp add: r)
  from 1 2 3 4 show ?thesis unfolding mount_ok_def r(1) by blast
qed

lemma mount_claims_ok:
  "mount_ok seen rts m \<Longrightarrow> mount_claims cs m = Inr (rs, m') \<Longrightarrow> mount_ok (seen \<union> set cs) (rts @ rs) m'"
proof (induction cs m arbitrary: seen rts rs rule: mount_claims.induct)
  case (2 path kp cs m)
  obtain kind nm where kp: "kp = (kind, nm)" by fastforce
  obtain rs1 m1 where 1: "mount_one path kp m = Inr (rs1, m1)" using 2(3) by (auto split: sum.splits)
  obtain rs2 where r: "mount_claims cs m1 = Inr (rs2, m')" "rs = rs1 @ rs2" using 2(3) 1 by (auto split: sum.splits)
  have "mount_ok (insert (path, kind, nm) seen) (rts @ rs1) m1" using mount_one_ok 2(2) 1 kp by blast
  from 2(1) [OF 1 refl this r(1)] show ?case by (simp add: kp r(2))
qed simp

lemma startup_ok:
  assumes "startup cfg reg = Inr routes"
  shows "check_protocols cfg reg = Inr ()"
    "\<exists>m. mount_ok (set (claims (by_path (client_adapters reg (cc_protocols (cf_client cfg)))))) routes m"
proof -
  show "check_protocols cfg reg = Inr ()" using assms by (auto simp: startup_def split: sum.splits)
  obtain m where m: "mount_paths (by_path (client_adapters reg (cc_protocols (cf_client cfg)))) Map.empty = Inr (routes, m)"
    using assms by (auto simp: startup_def split: sum.splits)
  from mount_claims_ok [OF mount_ok_new m [unfolded mount_paths_claims]]
  show "\<exists>m. mount_ok (set (claims (by_path (client_adapters reg (cc_protocols (cf_client cfg)))))) routes m" by auto
qed

text \<open>Nothing clashes when no path is claimed by two protocols except for listing models.\<close>

definition no_clash :: "(string \<times> endpoint_kind \<times> string) set \<Rightarrow> bool" where
  "no_clash cs \<longleftrightarrow> (\<forall>(p, k, nm) \<in> cs. \<forall>(p', k', nm') \<in> cs. p = p' \<and> k \<noteq> Models \<and> k' \<noteq> Models \<longrightarrow> nm = nm')"

lemma mount_claims_total:
  assumes "mount_ok seen rts m" "no_clash (seen \<union> set cs)"
  shows "\<exists>rs m'. mount_claims cs m = Inr (rs, m')"
  using assms
proof (induction cs arbitrary: seen rts m)
  case (Cons c cs)
  obtain path kind nm where c: "c = (path, kind, nm)" by (cases c) auto
  have "\<exists>rs1 m1. mount_one path (kind, nm) m = Inr (rs1, m1)"
  proof (cases "m (endpoint_method kind, path)")
    case (Some owner)
    show ?thesis
    proof (cases "kind = Models")
      case False
      have "map_option rt_protocol (find (\<lambda>rt. route_key rt = (endpoint_method kind, path)) rts) = Some owner"
        using Cons.prems(1) Some unfolding mount_ok_def by metis
      then obtain rt where rt: "rt \<in> set rts" "route_key rt = (endpoint_method kind, path)" "rt_protocol rt = owner"
        by (auto simp: find_Some_iff dest: nth_mem)
      then have "(path, rt_kind rt, owner) \<in> seen" "endpoint_method (rt_kind rt) = endpoint_method kind"
        using Cons.prems(1) unfolding mount_ok_def by (auto simp: route_key_def)
      moreover from this False have "rt_kind rt \<noteq> Models" by (cases kind) (auto simp: endpoint_method_def)
      ultimately have "owner = nm" using Cons.prems(2) False unfolding no_clash_def c by fastforce
      with Some show ?thesis by (simp add: mount_one_def)
    qed (use Some in \<open>simp add: mount_one_def\<close>)
  qed (simp add: mount_one_def Let_def)
  then obtain rs1 m1 where 1: "mount_one path (kind, nm) m = Inr (rs1, m1)" by blast
  have "mount_ok (insert (path, kind, nm) seen) (rts @ rs1) m1" by (rule mount_one_ok [OF Cons.prems(1) 1])
  moreover have "insert (path, kind, nm) seen \<union> set cs = seen \<union> set (c # cs)" by (auto simp: c)
  ultimately have "\<exists>rs m'. mount_claims cs m1 = Inr (rs, m')" using Cons.IH Cons.prems(2) by metis
  with 1 show ?case by (auto simp: c)
qed simp

section \<open>Properties\<close>

text \<open>
  When the gateway starts, its routes are exactly what the configured protocols claim. Every
  configured protocol and the upstream are registered, no method and path has two handlers, every
  handler was claimed by its own protocol, and every claimed endpoint is served, by the protocol
  that claims it unless it is a model listing that an earlier protocol has taken.
\<close>

theorem startup_routes:
  assumes "startup cfg reg = Inr routes"
  defines "clients \<equiv> client_adapters reg (cc_protocols (cf_client cfg))"
  shows "(\<forall>p \<in> insert (uc_protocol (cf_upstream cfg)) (set (cc_protocols (cf_client cfg))). registry_get reg p \<noteq> None) \<and>
    distinct (map route_key routes) \<and>
    (\<forall>rt \<in> set routes. \<exists>a \<in> set clients. rt_protocol rt = pa_name a \<and> (rt_path rt, rt_kind rt) \<in> set (pa_endpoints a)) \<and>
    (\<forall>a \<in> set clients. \<forall>(path, kind) \<in> set (pa_endpoints a). \<exists>rt \<in> set routes.
       route_key rt = (endpoint_method kind, path) \<and> (kind \<noteq> Models \<longrightarrow> rt_protocol rt = pa_name a))"
proof -
  have 1: "\<forall>p \<in> insert (uc_protocol (cf_upstream cfg)) (set (cc_protocols (cf_client cfg))). registry_get reg p \<noteq> None"
    using startup_ok(1) [OF assms(1)] by (auto simp: check_protocols_def Let_def filter_empty_conv split: if_splits)
  obtain m where ok: "mount_ok (set (claims (by_path clients))) routes m"
    using startup_ok(2) [OF assms(1)] by (auto simp: clients_def)
  then have 2: "distinct (map route_key routes)" by (simp add: mount_ok_def)
  have "(rt_path rt, rt_kind rt, rt_protocol rt) \<in> set (claims (by_path clients))" if "rt \<in> set routes" for rt
    using ok that by (simp add: mount_ok_def)
  then have 3: "\<forall>rt \<in> set routes. \<exists>a \<in> set clients. rt_protocol rt = pa_name a \<and> (rt_path rt, rt_kind rt) \<in> set (pa_endpoints a)"
    unfolding claims_by_path by blast
  have 4: "\<exists>rt \<in> set routes. route_key rt = (endpoint_method kind, path) \<and> (kind \<noteq> Models \<longrightarrow> rt_protocol rt = pa_name a)"
    if "a \<in> set clients" "(path, kind) \<in> set (pa_endpoints a)" for a path kind
  proof -
    from that have "(path, kind, pa_name a) \<in> set (claims (by_path clients))" unfolding claims_by_path by blast
    then obtain owner where o: "m (endpoint_method kind, path) = Some owner" "kind \<noteq> Models \<longrightarrow> owner = pa_name a"
      using ok unfolding mount_ok_def by blast
    have "m (endpoint_method kind, path) = map_option rt_protocol (find (\<lambda>rt. route_key rt = (endpoint_method kind, path)) routes)"
      using ok unfolding mount_ok_def by blast
    with o(1) obtain rt where "rt \<in> set routes" "route_key rt = (endpoint_method kind, path)" "rt_protocol rt = owner"
      by (auto simp: find_Some_iff dest: nth_mem)
    with o(2) show ?thesis by blast
  qed
  from 1 2 3 4 show ?thesis by blast
qed

text \<open>The default configuration: four routes, and the model listing in the shape of the first protocol.\<close>

definition default_routes :: "route list" where
  "default_routes =
     [\<lparr>rt_method = POST, rt_path = ''/v1/chat/completions'', rt_kind = Chat, rt_protocol = ''openai''\<rparr>,
      \<lparr>rt_method = POST, rt_path = ''/v1/messages'', rt_kind = Messages, rt_protocol = ''anthropic''\<rparr>,
      \<lparr>rt_method = POST, rt_path = ''/v1/messages/count_tokens'', rt_kind = CountTokens, rt_protocol = ''anthropic''\<rparr>,
      \<lparr>rt_method = GET, rt_path = ''/v1/models'', rt_kind = Models, rt_protocol = ''openai''\<rparr>]"

lemma default_startup: "startup default_config (default_registry (table_json []) (\<lambda>s. s) 0) = Inr default_routes"
  by code_simp

theorem startup_routes_witness:
  "distinct (map route_key default_routes) \<and>
   list_all (\<lambda>rt. \<exists>a \<in> set (client_adapters (default_registry (table_json []) (\<lambda>s. s) 0) [''openai'', ''anthropic'']).
      rt_protocol rt = pa_name a \<and> (rt_path rt, rt_kind rt) \<in> set (pa_endpoints a)) default_routes"
  using startup_routes [OF default_startup] by (simp add: default_config_def list_all_iff)

text \<open>The adapters of the default registry, and that no two of them clash.\<close>

lemma default_registry_get:
  "registry_get (default_registry J dbg now) p =
     (if p = ''gemini'' then Some (gemini_adapter J dbg)
      else if p = ''anthropic'' then Some (anthropic_adapter J)
      else if p = ''openai'' then Some (openai_adapter J now) else None)"
  by (simp add: default_registry_def registry_get_register registry_new_def registry_get_def [of "[]"]
      openai_adapter_def anthropic_adapter_def gemini_adapter_def)

lemma default_adapter_endpoints:
  assumes "registry_get (default_registry J dbg now) p = Some a" "(path, kind) \<in> set (pa_endpoints a)"
  shows "(pa_name a, path, kind) \<in> {(''openai'', ''/v1/chat/completions'', Chat), (''openai'', ''/v1/models'', Models),
    (''anthropic'', ''/v1/messages'', Messages), (''anthropic'', ''/v1/messages/count_tokens'', CountTokens),
    (''anthropic'', ''/v1/models'', Models)}"
proof -
  from assms(1) consider "a = gemini_adapter J dbg" | "a = anthropic_adapter J" | "a = openai_adapter J now"
    by (simp add: default_registry_get split: if_splits)
  then show ?thesis
  proof cases
    case 1
    then show ?thesis using assms(2) by (simp add: gemini_adapter_def gemini_endpoints_def)
  next
    case 2
    then show ?thesis using assms(2) by (simp add: anthropic_adapter_def anthropic_endpoints_def)
  next
    case 3
    then show ?thesis using assms(2) by (simp add: openai_adapter_def openai_endpoints_def)
  qed
qed

lemma client_adapters_get: "a \<in> set (client_adapters reg ps) \<longleftrightarrow> (\<exists>p \<in> set ps. registry_get reg p = Some a)"
  by (induction ps) (auto simp: client_adapters_def split: option.split)

lemma default_no_clash: "no_clash (set (claims (by_path (client_adapters (default_registry J dbg now) ps))))"
proof -
  have "nm = nm'"
    if "(p, k, nm) \<in> set (claims (by_path (client_adapters (default_registry J dbg now) ps)))"
      "(p, k', nm') \<in> set (claims (by_path (client_adapters (default_registry J dbg now) ps)))"
      "k \<noteq> Models" "k' \<noteq> Models" for p k k' nm nm'
  proof -
    from that(1) obtain q a where 1: "registry_get (default_registry J dbg now) q = Some a" "nm = pa_name a"
      "(p, k) \<in> set (pa_endpoints a)" unfolding claims_by_path by (auto simp: client_adapters_get)
    from that(2) obtain q' a' where 2: "registry_get (default_registry J dbg now) q' = Some a'" "nm' = pa_name a'"
      "(p, k') \<in> set (pa_endpoints a')" unfolding claims_by_path by (auto simp: client_adapters_get)
    from default_adapter_endpoints [OF 1(1,3)] default_adapter_endpoints [OF 2(1,3)] that(3,4)
    show ?thesis unfolding 1(2) 2(2) by auto
  qed
  then show ?thesis unfolding no_clash_def by blast
qed

text \<open>
  Any choice among the three built-in protocols starts, in particular the default
  configuration, where two protocols claim the model listing: no combination of them is refused
  for a clash of endpoints.
\<close>

theorem builtin_protocols_start:
  assumes "uc_protocol (cf_upstream cfg) \<in> {''openai'', ''anthropic'', ''gemini''}"
    and "set (cc_protocols (cf_client cfg)) \<subseteq> {''openai'', ''anthropic'', ''gemini''}"
  shows "\<exists>routes. startup cfg (default_registry J dbg now) = Inr routes"
proof -
  have "check_protocols cfg (default_registry J dbg now) = Inr ()"
    using assms by (auto simp: check_protocols_def default_registry_get Let_def filter_empty_conv)
  moreover obtain rs m where
    "mount_paths (by_path (client_adapters (default_registry J dbg now) (cc_protocols (cf_client cfg)))) Map.empty = Inr (rs, m)"
    using mount_claims_total [OF mount_ok_new] default_no_clash unfolding mount_paths_claims by fastforce
  ultimately show ?thesis by (simp add: startup_def)
qed

theorem builtin_protocols_start_witness:
  "\<exists>routes. startup default_config (default_registry (table_json []) (\<lambda>s. s) 0) = Inr routes"
  by (rule builtin_protocols_start) (simp_all add: default_config_def)

end
