(* ===== verification/Proxy.thy ===== *)
theory Proxy
  imports Server
begin

text \<open>
  The upstream HTTP client (\<open>src/proxy.rs\<close>). The \<open>reqwest\<close> crate is the parameter
  \<open>reqwest\<close>: whether a request can be built, whether its headers come in time, and what executing
  it gives. Every call returns, with its result, the requests that left the gateway.
\<close>

section \<open>Requests and responses\<close>

record outgoing =
  og_method :: http_method
  og_url :: string
  og_headers :: "(string \<times> string) list"
  og_body :: string
  og_timeout_ms :: "u64 option"

text \<open>A body as it is read: its chunks, and the error that ended it, if one did.\<close>

record upstream_response =
  ur_status :: u16
  ur_content_type :: "bytes option"
  ur_chunks :: "bytes list"
  ur_read_error :: "string option"

record reqwest =
  rq_build_error :: "outgoing \<Rightarrow> string option"
  rq_in_time :: "outgoing \<Rightarrow> bool"
  rq_execute :: "outgoing \<Rightarrow> string + upstream_response"

text \<open>The settings of the shared client: seconds to connect, and whether redirects are followed.\<close>

record client_settings =
  cs_connect_timeout_secs :: nat
  cs_follow_redirects :: bool

definition proxy_client :: client_settings where
  "proxy_client = \<lparr>cs_connect_timeout_secs = 10, cs_follow_redirects = False\<rparr>"

definition STREAM_HEADER_TIMEOUT :: nat where
  "STREAM_HEADER_TIMEOUT = 15"

section \<open>Forwarding\<close>

text \<open>\<open>HeaderMap::insert\<close> of the content type: names compare without case, every earlier value goes.\<close>

definition is_header :: "string \<Rightarrow> string \<times> string \<Rightarrow> bool" where
  "is_header name h \<longleftrightarrow> eq_ignore_ascii_case (fst h) name"

definition insert_content_type :: "(string \<times> string) list \<Rightarrow> (string \<times> string) list" where
  "insert_content_type hs =
     filter (\<lambda>h. \<not> is_header ''content-type'' h) hs @ [(''content-type'', ''application/json'')]"

definition forward :: "reqwest \<Rightarrow> string \<Rightarrow> (string \<times> string) list \<Rightarrow> string \<Rightarrow> u64
    \<Rightarrow> (string + upstream_response) \<times> outgoing list" where
  "forward Q url hs body timeout =
     (let req = \<lparr>og_method = POST, og_url = url, og_headers = hs, og_body = body, og_timeout_ms = Some timeout\<rparr> in
      case rq_build_error Q req of
        Some e \<Rightarrow> (Inl e, [])
      | None \<Rightarrow>
          (let built = req\<lparr>og_headers := insert_content_type hs\<rparr> in (rq_execute Q built, [built])))"

definition forward_stream :: "reqwest \<Rightarrow> string \<Rightarrow> (string \<times> string) list \<Rightarrow> string
    \<Rightarrow> upstream_response result \<times> outgoing list" where
  "forward_stream Q url hs body =
     (let req = \<lparr>og_method = POST, og_url = url, og_headers = hs, og_body = body, og_timeout_ms = None\<rparr> in
      case rq_build_error Q req of
        Some e \<Rightarrow> (Inl (Internal (''upstream request build failed: '' @ e)), [])
      | None \<Rightarrow>
          (let built = req\<lparr>og_headers := insert_content_type hs\<rparr> in
           (if \<not> rq_in_time Q built
            then Inl (Upstream 504 (''upstream did not respond with headers within '' @ dec STREAM_HEADER_TIMEOUT @ ''s''))
            else
              (case rq_execute Q built of
                 Inl e \<Rightarrow> Inl (Internal (''upstream request failed: '' @ e))
               | Inr response \<Rightarrow> Inr response), [built])))"

definition forward_get :: "reqwest \<Rightarrow> string \<Rightarrow> (string \<times> string) list \<Rightarrow> u64
    \<Rightarrow> (string + upstream_response) \<times> outgoing list" where
  "forward_get Q url hs timeout =
     (let req = \<lparr>og_method = GET, og_url = url, og_headers = hs, og_body = [], og_timeout_ms = Some timeout\<rparr> in
      case rq_build_error Q req of
        Some e \<Rightarrow> (Inl e, [])
      | None \<Rightarrow> (rq_execute Q req, [req]))"

section \<open>What leaves\<close>

lemma content_type_once: "filter (is_header ''content-type'') (insert_content_type hs) = [(''content-type'', ''application/json'')]"
proof -
  have "is_header ''content-type'' (''content-type'', ''application/json'')"
    by (simp add: is_header_def eq_ignore_ascii_case_def)
  then show ?thesis by (simp add: insert_content_type_def)
qed

lemma insert_content_type_others: "filter (\<lambda>h. \<not> is_header ''content-type'' h) (insert_content_type hs) = filter (\<lambda>h. \<not> is_header ''content-type'' h) hs"
proof -
  have "is_header ''content-type'' (''content-type'', ''application/json'')"
    by (simp add: is_header_def eq_ignore_ascii_case_def)
  then show ?thesis by (simp add: insert_content_type_def)
qed

lemma forward_sent:
  "forward Q url hs body timeout = (r, sent) \<Longrightarrow>
   sent = [] \<and> (\<exists>e. r = Inl e) \<or>
   sent = [\<lparr>og_method = POST, og_url = url, og_headers = insert_content_type hs, og_body = body, og_timeout_ms = Some timeout\<rparr>]"
  by (auto simp: forward_def Let_def split: option.splits)

lemma forward_stream_sent:
  "forward_stream Q url hs body = (r, sent) \<Longrightarrow>
   sent = [] \<and> (\<exists>e. r = Inl e) \<or>
   sent = [\<lparr>og_method = POST, og_url = url, og_headers = insert_content_type hs, og_body = body, og_timeout_ms = None\<rparr>]"
  by (auto simp: forward_stream_def Let_def split: option.splits)

lemma forward_get_sent:
  "forward_get Q url hs timeout = (r, sent) \<Longrightarrow>
   sent = [] \<and> (\<exists>e. r = Inl e) \<or>
   sent = [\<lparr>og_method = GET, og_url = url, og_headers = hs, og_body = [], og_timeout_ms = Some timeout\<rparr>]"
  by (auto simp: forward_get_def Let_def split: option.splits)

end
