(* ===== verification/Memory.thy ===== *)
theory Memory
  imports Config Neutral
begin

text \<open>
  The observability store (\<open>src/core/memory.rs\<close>): the record of a request, the bounded queue
  that the request path fills, and the writer thread that inserts, checkpoints and sweeps. The
  nqlite engine is the parameter \<open>nql\<close>; the clock is an argument of the steps that read it. The
  threads are a step relation over the queue and the writer's state.
\<close>

section \<open>Records and statements\<close>

definition QUEUE_CAP :: nat where
  "QUEUE_CAP = 4096"

definition DEFAULT_FLUSH_INTERVAL_SECS :: u64 where
  "DEFAULT_FLUSH_INTERVAL_SECS = 30"

record request_record =
  rr_request_id :: string
  rr_client :: string
  rr_upstream :: string
  rr_model :: string
  rr_mode :: string
  rr_status :: string
  rr_latency_ms :: u64
  rr_input_tokens :: "u64 option"
  rr_output_tokens :: "u64 option"

text \<open>The engine: statements are parsed to plans; executing and checkpointing may fail.\<close>

record ('db, 'plan) nql =
  nql_open :: "string \<Rightarrow> string + 'db"
  nql_parse :: "string \<Rightarrow> string + 'plan"
  nql_execute :: "'db \<Rightarrow> 'plan \<Rightarrow> (string + unit) \<times> 'db"
  nql_flush :: "'db \<Rightarrow> (string + unit) \<times> 'db"

definition opt_number :: "u64 option \<Rightarrow> value" where
  "opt_number n = (case n of Some v \<Rightarrow> jnum v | None \<Rightarrow> Null)"

definition insert_statement :: "serde_json \<Rightarrow> string \<Rightarrow> u64 \<Rightarrow> request_record \<Rightarrow> string" where
  "insert_statement J i ts_ms rec =
     ''INSERT INTO request:'' @ i @ '' '' @
     to_string J (jobj [(''ts_ms'', jnum ts_ms), (''request_id'', String (rr_request_id rec)),
       (''client'', String (rr_client rec)), (''upstream'', String (rr_upstream rec)),
       (''model'', String (rr_model rec)), (''mode'', String (rr_mode rec)), (''status'', String (rr_status rec)),
       (''latency_ms'', jnum (rr_latency_ms rec)), (''input_tokens'', opt_number (rr_input_tokens rec)),
       (''output_tokens'', opt_number (rr_output_tokens rec))]) @ '';''"

definition forget_statement :: "string \<Rightarrow> string" where
  "forget_statement i = ''FORGET request:'' @ i @ '';''"

text \<open>\<open>parse\<close> and \<open>execute\<close> in one: whether the statement took effect.\<close>

definition run_statement :: "('db, 'plan) nql \<Rightarrow> 'db \<Rightarrow> string \<Rightarrow> bool \<times> 'db" where
  "run_statement N db stmt =
     (case nql_parse N stmt of
        Inl _ \<Rightarrow> (False, db)
      | Inr plan \<Rightarrow> (let (r, db1) = nql_execute N db plan in (case r of Inr _ \<Rightarrow> (True, db1) | Inl _ \<Rightarrow> (False, db1))))"

section \<open>The writer\<close>

record 'db writer =
  wr_db :: 'db
  wr_seq :: u64
  wr_dirty :: bool
  wr_ledger :: "(string \<times> u64) list"

definition record_id :: "u64 \<Rightarrow> u64 \<Rightarrow> string" where
  "record_id ts seq = ''r'' @ dec (unat ts) @ ''_'' @ dec (unat seq)"

definition insert_one ::
    "('db, 'plan) nql \<Rightarrow> serde_json \<Rightarrow> u64 \<Rightarrow> request_record \<Rightarrow> 'db writer \<Rightarrow> (string \<times> u64) option \<times> 'db writer" where
  "insert_one N J now rec w =
     (let seq = wr_seq w + 1;
          i = record_id now seq;
          (ok, db) = run_statement N (wr_db w) (insert_statement J i now rec)
      in (if ok then Some (i, now) else None, w\<lparr>wr_seq := seq, wr_db := db\<rparr>))"

text \<open>\<open>sweep\<close>: the expired entries at the front of the ledger leave it, and are forgotten in one plan.\<close>

definition expired_front :: "u64 \<Rightarrow> (string \<times> u64) list \<Rightarrow> (string \<times> u64) list" where
  "expired_front cutoff ledger = takeWhile (\<lambda>(_, ts). ts < cutoff) ledger"

definition sweep :: "('db, 'plan) nql \<Rightarrow> u64 \<Rightarrow> 'db writer \<Rightarrow> nat \<times> 'db writer" where
  "sweep N cutoff w =
     (let expired = map fst (expired_front cutoff (wr_ledger w));
          w1 = w\<lparr>wr_ledger := dropWhile (\<lambda>(_, ts). ts < cutoff) (wr_ledger w)\<rparr>
      in if expired = [] then (0, w1)
         else
           (let (ok, db) = run_statement N (wr_db w1) (concat (map forget_statement expired))
            in (if ok then length expired else 0, w1\<lparr>wr_db := db\<rparr>)))"

definition saturating_sub :: "u64 \<Rightarrow> u64 \<Rightarrow> u64" where
  "saturating_sub a b = (if a < b then 0 else a - b)"

definition saturating_mul :: "u64 \<Rightarrow> u64 \<Rightarrow> u64" where
  "saturating_mul a b = (if unat a * unat b < 2 ^ 64 then a * b else - 1)"

definition ttl_ms_of :: "memory_config \<Rightarrow> u64" where
  "ttl_ms_of cfg = saturating_mul (unwrap_or (mm_ttl_hours cfg) 0) 3600000"

definition flush_interval_of :: "memory_config \<Rightarrow> u64" where
  "flush_interval_of cfg = max (unwrap_or (mm_flush_interval_secs cfg) DEFAULT_FLUSH_INTERVAL_SECS) 1"

text \<open>One turn of the writer's loop: a record was received, or the flush interval passed without one.\<close>

definition writer_receive ::
    "('db, 'plan) nql \<Rightarrow> serde_json \<Rightarrow> u64 \<Rightarrow> u64 \<Rightarrow> request_record \<Rightarrow> 'db writer \<Rightarrow> 'db writer" where
  "writer_receive N J ttl_ms now rec w =
     (case insert_one N J now rec w of
        (Some entry, w1) \<Rightarrow>
          (let w2 = w1\<lparr>wr_dirty := True\<rparr> in
           if 0 < ttl_ms then w2\<lparr>wr_ledger := wr_ledger w2 @ [entry]\<rparr> else w2)
      | (None, w1) \<Rightarrow> w1)"

definition writer_timeout :: "('db, 'plan) nql \<Rightarrow> u64 \<Rightarrow> u64 \<Rightarrow> 'db writer \<Rightarrow> 'db writer" where
  "writer_timeout N ttl_ms now w =
     (let w1 = (if wr_dirty w then w\<lparr>wr_db := snd (nql_flush N (wr_db w)), wr_dirty := False\<rparr> else w)
      in if 0 < ttl_ms \<and> wr_ledger w1 \<noteq> [] then snd (sweep N (saturating_sub now ttl_ms) w1) else w1)"

text \<open>The drain of what is left, without the ledger, and the last checkpoint.\<close>

definition writer_drain_one ::
    "('db, 'plan) nql \<Rightarrow> serde_json \<Rightarrow> u64 \<Rightarrow> request_record \<Rightarrow> 'db writer \<Rightarrow> 'db writer" where
  "writer_drain_one N J now rec w =
     (case insert_one N J now rec w of (Some _, w1) \<Rightarrow> w1\<lparr>wr_dirty := True\<rparr> | (None, w1) \<Rightarrow> w1)"

definition writer_shutdown ::
    "('db, 'plan) nql \<Rightarrow> serde_json \<Rightarrow> u64 \<Rightarrow> request_record list \<Rightarrow> 'db writer \<Rightarrow> 'db writer" where
  "writer_shutdown N J now queue w =
     (let w1 = fold (writer_drain_one N J now) queue w
      in if wr_dirty w1 then w1\<lparr>wr_db := snd (nql_flush N (wr_db w1))\<rparr> else w1)"

section \<open>Starting\<close>

datatype memory_error =
    MemoryPathRequired
  | DirectoryFailed string string
  | OpenFailed string string
  | CreateTablePlan string
  | CreateTableFailed string

text \<open>\<open>mkdir\<close> creates the parent directory of the path when it has one.\<close>

definition memory_start ::
    "('db, 'plan) nql \<Rightarrow> (string \<Rightarrow> string option) \<Rightarrow> memory_config \<Rightarrow> memory_error + 'db writer" where
  "memory_start N mkdir cfg =
     (case opt_filter (\<lambda>p. trim p \<noteq> []) (mm_path cfg) of
        None \<Rightarrow> Inl MemoryPathRequired
      | Some path \<Rightarrow>
          (case mkdir path of
             Some e \<Rightarrow> Inl (DirectoryFailed path e)
           | None \<Rightarrow>
               (case nql_open N path of
                  Inl e \<Rightarrow> Inl (OpenFailed path e)
                | Inr db \<Rightarrow>
                    (case nql_parse N ''CREATE TABLE request;'' of
                       Inl e \<Rightarrow> Inl (CreateTablePlan e)
                     | Inr plan \<Rightarrow>
                         (case nql_execute N db plan of
                            (Inl e, _) \<Rightarrow> Inl (CreateTableFailed e)
                          | (Inr _, db1) \<Rightarrow> Inr \<lparr>wr_db = db1, wr_seq = 0, wr_dirty = False, wr_ledger = []\<rparr>)))))"

lemma memory_start_new: "memory_start N mkdir cfg = Inr w \<Longrightarrow> wr_ledger w = [] \<and> \<not> wr_dirty w \<and> wr_seq w = 0"
  by (auto simp: memory_start_def split: option.splits sum.splits prod.splits)

section \<open>The queue and the threads\<close>

text \<open>
  The senders enqueue or drop, the writer receives from the front, times out on an empty queue,
  and, when the senders are gone and the queue is empty, makes the last checkpoint.
\<close>

record 'db store =
  ms_queue :: "request_record list"
  ms_open :: bool
  ms_done :: bool
  ms_writer :: "'db writer"

datatype store_label =
    Accepted request_record
  | Dropped request_record
  | Inserted request_record u64
  | TimedOut u64
  | Closed
  | Ended

definition try_send :: "request_record \<Rightarrow> 'db store \<Rightarrow> bool \<times> 'db store" where
  "try_send rec s =
     (if length (ms_queue s) < QUEUE_CAP then (True, s\<lparr>ms_queue := ms_queue s @ [rec]\<rparr>) else (False, s))"

inductive store_step ::
    "('db, 'plan) nql \<Rightarrow> serde_json \<Rightarrow> u64 \<Rightarrow> 'db store \<Rightarrow> store_label \<Rightarrow> 'db store \<Rightarrow> bool"
  for N :: "('db, 'plan) nql" and J ttl_ms where
  accept: "ms_open s \<Longrightarrow> try_send rec s = (True, s') \<Longrightarrow> store_step N J ttl_ms s (Accepted rec) s'"
| drop: "ms_open s \<Longrightarrow> try_send rec s = (False, s') \<Longrightarrow> store_step N J ttl_ms s (Dropped rec) s'"
| receive: "ms_queue s = rec # rest \<Longrightarrow>
    store_step N J ttl_ms s (Inserted rec now)
      (s\<lparr>ms_queue := rest, ms_writer := writer_receive N J ttl_ms now rec (ms_writer s)\<rparr>)"
| timeout: "ms_open s \<Longrightarrow> ms_queue s = [] \<Longrightarrow>
    store_step N J ttl_ms s (TimedOut now) (s\<lparr>ms_writer := writer_timeout N ttl_ms now (ms_writer s)\<rparr>)"
| close: "ms_open s \<Longrightarrow> store_step N J ttl_ms s Closed (s\<lparr>ms_open := False\<rparr>)"
| finish: "\<not> ms_open s \<Longrightarrow> \<not> ms_done s \<Longrightarrow> ms_queue s = [] \<Longrightarrow>
    store_step N J ttl_ms s Ended (s\<lparr>ms_done := True, ms_writer := writer_shutdown N J now (ms_queue s) (ms_writer s)\<rparr>)"

inductive store_run ::
    "('db, 'plan) nql \<Rightarrow> serde_json \<Rightarrow> u64 \<Rightarrow> 'db store \<Rightarrow> store_label list \<Rightarrow> 'db store \<Rightarrow> bool"
  for N :: "('db, 'plan) nql" and J ttl_ms where
  none: "store_run N J ttl_ms s [] s"
| more: "store_run N J ttl_ms s tr s1 \<Longrightarrow> store_step N J ttl_ms s1 l s2 \<Longrightarrow> store_run N J ttl_ms s (tr @ [l]) s2"

definition store_new :: "'db writer \<Rightarrow> 'db store" where
  "store_new w = \<lparr>ms_queue = [], ms_open = True, ms_done = False, ms_writer = w\<rparr>"

inductive_cases store_stepE: "store_step N J ttl_ms s l s'"

section \<open>The queue is first in, first out\<close>

text \<open>The records that a run accepted, and those it inserted, with the clock.\<close>

fun accepted_of :: "store_label \<Rightarrow> request_record option" where
  "accepted_of (Accepted rec) = Some rec"
| "accepted_of _ = None"

fun inserted_of :: "store_label \<Rightarrow> (request_record \<times> u64) option" where
  "inserted_of (Inserted rec now) = Some (rec, now)"
| "inserted_of _ = None"

abbreviation accepted :: "store_label list \<Rightarrow> request_record list" where
  "accepted tr \<equiv> List.map_filter accepted_of tr"

abbreviation inserted :: "store_label list \<Rightarrow> (request_record \<times> u64) list" where
  "inserted tr \<equiv> List.map_filter inserted_of tr"

lemma try_send_simps:
  "try_send rec s = (True, s') \<longleftrightarrow> length (ms_queue s) < QUEUE_CAP \<and> s' = s\<lparr>ms_queue := ms_queue s @ [rec]\<rparr>"
  "try_send rec s = (False, s') \<longleftrightarrow> QUEUE_CAP \<le> length (ms_queue s) \<and> s' = s"
  by (auto simp: try_send_def not_less)

lemma store_run_queue:
  assumes "store_run N J ttl_ms (store_new w) tr s"
  shows "accepted tr = map fst (inserted tr) @ ms_queue s \<and> length (ms_queue s) \<le> QUEUE_CAP \<and>
    (ms_done s \<longrightarrow> \<not> ms_open s \<and> ms_queue s = [])"
  using assms
proof (induction "store_new w" tr s rule: store_run.induct)
  case none
  then show ?case by (simp add: store_new_def)
next
  case (more tr s1 l s2)
  from more(3) show ?case
    by (rule store_stepE) (use more(2) in \<open>auto simp: try_send_simps\<close>)
qed

section \<open>The ledger\<close>

lemma insert_one_entry:
  "insert_one N J now rec w = (r, w') \<Longrightarrow> wr_ledger w' = wr_ledger w \<and> (\<forall>e. r = Some e \<longrightarrow> snd e = now)"
  by (auto simp: insert_one_def Let_def split: prod.splits if_splits)

lemma writer_receive_ledger:
  "\<exists>xs. wr_ledger (writer_receive N J ttl_ms now rec w) = wr_ledger w @ xs \<and> (\<forall>x \<in> set xs. snd x = now)"
proof -
  obtain r w' where "insert_one N J now rec w = (r, w')" by fastforce
  with insert_one_entry [OF this] show ?thesis by (cases r) (auto simp: writer_receive_def Let_def)
qed

lemma sweep_ledger: "wr_ledger (snd (sweep N cutoff w)) = dropWhile (\<lambda>(_, ts). ts < cutoff) (wr_ledger w)"
  by (simp add: sweep_def Let_def split: prod.split)

lemma writer_timeout_ledger:
  "wr_ledger (writer_timeout N ttl_ms now w) =
     (if 0 < ttl_ms then dropWhile (\<lambda>(_, ts). ts < saturating_sub now ttl_ms) (wr_ledger w) else wr_ledger w)"
  by (simp add: writer_timeout_def Let_def sweep_ledger)

lemma writer_shutdown_ledger: "wr_ledger (writer_shutdown N J now [] w) = wr_ledger w"
  by (simp add: writer_shutdown_def Let_def)

lemma sorted_ledger_split:
  assumes "sorted (map snd xs)"
  shows "dropWhile (\<lambda>(_, ts). ts < c) xs = filter (\<lambda>(_, ts). c \<le> ts) xs"
    "takeWhile (\<lambda>(_, ts). ts < c) xs = filter (\<lambda>(_, ts). ts < (c :: u64)) xs"
proof -
  have "dropWhile (\<lambda>(_, ts). ts < c) xs = filter (\<lambda>(_, ts). c \<le> ts) xs \<and>
    takeWhile (\<lambda>(_, ts). ts < c) xs = filter (\<lambda>(_, ts). ts < c) xs"
    using assms
  proof (induction xs)
    case (Cons x xs)
    obtain i t where x: "x = (i, t)" by fastforce
    show ?case
    proof (cases "t < c")
      case False
      then have "\<forall>(j, u) \<in> set xs. c \<le> u" using Cons.prems by (fastforce simp: x)
      then have "filter (\<lambda>(_, ts). c \<le> ts) xs = xs" "filter (\<lambda>(_, ts). ts < c) xs = []"
        by (auto simp: filter_id_conv filter_empty_conv)
      with False show ?thesis by (simp add: x)
    qed (use Cons in \<open>simp add: x\<close>)
  qed simp
  then show "dropWhile (\<lambda>(_, ts). ts < c) xs = filter (\<lambda>(_, ts). c \<le> ts) xs"
    "takeWhile (\<lambda>(_, ts). ts < c) xs = filter (\<lambda>(_, ts). ts < c) xs" by blast+
qed

text \<open>The readings of the clock in a run.\<close>

fun clock_of :: "store_label \<Rightarrow> u64 option" where
  "clock_of (Inserted rec now) = Some now"
| "clock_of (TimedOut now) = Some now"
| "clock_of _ = None"

abbreviation clocks :: "store_label list \<Rightarrow> u64 list" where
  "clocks tr \<equiv> List.map_filter clock_of tr"

lemma store_run_ledger:
  assumes "store_run N J ttl_ms (store_new w) tr s" "wr_ledger w = []" "sorted (clocks tr)"
  shows "sorted (map snd (wr_ledger (ms_writer s))) \<and> snd ` set (wr_ledger (ms_writer s)) \<subseteq> set (clocks tr)"
  using assms
proof (induction "store_new w" tr s rule: store_run.induct)
  case none
  then show ?case by (simp add: store_new_def)
next
  case (more tr s1 l s2)
  then have IH: "sorted (map snd (wr_ledger (ms_writer s1)))" "snd ` set (wr_ledger (ms_writer s1)) \<subseteq> set (clocks tr)"
    by (auto simp: sorted_append)
  from more(3) show ?case
  proof (rule store_stepE)
    fix rec rest now
    assume l: "l = Inserted rec now" and s2: "s2 = s1\<lparr>ms_queue := rest, ms_writer := writer_receive N J ttl_ms now rec (ms_writer s1)\<rparr>"
    obtain xs where xs: "wr_ledger (ms_writer s2) = wr_ledger (ms_writer s1) @ xs" "\<forall>x \<in> set xs. snd x = now"
      using writer_receive_ledger [of N J ttl_ms now rec "ms_writer s1"] by (auto simp: s2)
    then have "map snd xs = replicate (length xs) now" by (simp add: list_eq_iff_nth_eq)
    then have "sorted (map snd xs)" by simp
    moreover have "\<forall>c \<in> set (clocks tr). c \<le> now" using more.prems(2) by (simp add: l sorted_append)
    ultimately show ?thesis using IH xs by (fastforce simp: l sorted_append)
  next
    fix now
    assume l: "l = TimedOut now" and s2: "s2 = s1\<lparr>ms_writer := writer_timeout N ttl_ms now (ms_writer s1)\<rparr>"
    have "sorted (map snd (wr_ledger (ms_writer s2)))" "set (wr_ledger (ms_writer s2)) \<subseteq> set (wr_ledger (ms_writer s1))"
      using IH(1) by (auto simp: s2 writer_timeout_ledger sorted_ledger_split sorted_filter [of snd, simplified])
    with IH(2) show ?thesis by (auto simp: l)
  qed (use IH in \<open>auto simp: try_send_simps writer_shutdown_ledger\<close>)
qed

section \<open>Properties\<close>

text \<open>An engine that logs what it is asked, for examples.\<close>

definition log_engine :: "(string list, string) nql" where
  "log_engine = \<lparr>nql_open = (\<lambda>path. Inr []), nql_parse = Inr, nql_execute = (\<lambda>db plan. (Inr (), db @ [plan])),
     nql_flush = (\<lambda>db. (Inr (), db @ [''CHECKPOINT'']))\<rparr>"

definition new_writer :: "string list writer" where
  "new_writer = \<lparr>wr_db = [], wr_seq = 0, wr_dirty = False, wr_ledger = []\<rparr>"

definition example_record :: request_record where
  "example_record = \<lparr>rr_request_id = ''-'', rr_client = ''openai'', rr_upstream = ''anthropic'', rr_model = ''m'',
     rr_mode = ''stream'', rr_status = ''ok'', rr_latency_ms = 7, rr_input_tokens = None, rr_output_tokens = None\<rparr>"

definition one_queued :: "string list store" where
  "one_queued = (store_new new_writer)\<lparr>ms_queue := [example_record]\<rparr>"

definition one_inserted :: "serde_json \<Rightarrow> string list store" where
  "one_inserted J = (store_new new_writer)\<lparr>ms_writer := writer_receive log_engine J 1000 5 example_record new_writer\<rparr>"

lemma example_run:
  "store_run log_engine J 1000 (store_new new_writer) [Accepted example_record, Inserted example_record 5] (one_inserted J)"
proof -
  have 1: "store_step log_engine J 1000 (store_new new_writer) (Accepted example_record) one_queued"
    by (rule accept) (simp_all add: store_new_def one_queued_def try_send_def QUEUE_CAP_def)
  have "store_step log_engine J 1000 one_queued (Inserted example_record 5)
      (one_queued\<lparr>ms_queue := [], ms_writer := writer_receive log_engine J 1000 5 example_record (ms_writer one_queued)\<rparr>)"
    by (rule receive) (simp add: one_queued_def)
  then have 2: "store_step log_engine J 1000 one_queued (Inserted example_record 5) (one_inserted J)"
    by (simp add: one_queued_def one_inserted_def store_new_def)
  have "store_run log_engine J 1000 (store_new new_writer) ([] @ [Accepted example_record]) one_queued"
    by (rule more [OF none 1])
  from more [OF this 2] show ?thesis by simp
qed



text \<open>
  C25: a sweep is exact. When the clock does not run backwards, a timeout of the writer takes out
  of the ledger exactly the records that are older than the retention, and asks the engine to
  forget exactly these, after the checkpoint.
\<close>

theorem ttl_sweep_exact:
  assumes "store_run N J ttl_ms (store_new w) tr s" "wr_ledger w = []" "0 < ttl_ms" "sorted (clocks tr)"
    and "store_step N J ttl_ms s (TimedOut now) s'"
  shows "let ledger = wr_ledger (ms_writer s); old = (\<lambda>(_, ts). ts < saturating_sub now ttl_ms);
      db = (if wr_dirty (ms_writer s) then snd (nql_flush N (wr_db (ms_writer s))) else wr_db (ms_writer s))
    in wr_ledger (ms_writer s') = filter (\<lambda>e. \<not> old e) ledger \<and>
       wr_db (ms_writer s') = (if filter old ledger = [] then db
         else snd (run_statement N db (concat (map (forget_statement \<circ> fst) (filter old ledger)))))"
proof -
  let ?w = "ms_writer s" and ?c = "saturating_sub now ttl_ms"
  have so: "sorted (map snd (wr_ledger ?w))" using store_run_ledger [OF assms(1,2,4)] by blast
  have s': "ms_writer s' = writer_timeout N ttl_ms now ?w"
    using assms(5) by (rule store_stepE) simp_all
  have old: "filter (\<lambda>e. \<not> (case e of (_, ts) \<Rightarrow> ts < ?c)) (wr_ledger ?w) = filter (\<lambda>(_, ts). ?c \<le> ts) (wr_ledger ?w)"
    by (rule filter_cong) (auto simp: not_less)
  show ?thesis
    using assms(3) so
    by (auto simp: s' writer_timeout_def sweep_def expired_front_def sorted_ledger_split old Let_def split: prod.splits)
qed

theorem ttl_sweep_exact_witness:
  "wr_ledger (writer_timeout log_engine 1000 2000 (ms_writer (one_inserted (table_json [])))) = []"
proof -
  let ?s = "one_inserted (table_json [])"
  have "store_step log_engine (table_json []) 1000 ?s (TimedOut 2000)
      (?s\<lparr>ms_writer := writer_timeout log_engine 1000 2000 (ms_writer ?s)\<rparr>)"
    by (rule timeout) (simp_all add: one_inserted_def store_new_def)
  from ttl_sweep_exact [OF example_run _ _ _ this] show ?thesis
    by (simp add: new_writer_def one_inserted_def Let_def saturating_sub_def writer_receive_def insert_one_def
        run_statement_def log_engine_def)
qed

text \<open>
  A busy gateway is never swept. Checkpoints and sweeps happen only when the queue stays empty
  for a whole flush interval: in a run without such a pause the writer does nothing but insert,
  however much time passes, and no expired record leaves the ledger or the database.
\<close>

theorem busy_store_never_sweeps:
  assumes "store_run N J ttl_ms s0 tr s"
    and "\<And>now. TimedOut now \<notin> set tr" "Ended \<notin> set tr"
  shows "ms_writer s = fold (\<lambda>(rec, now). writer_receive N J ttl_ms now rec) (inserted tr) (ms_writer s0) \<and>
    prefix (wr_ledger (ms_writer s0)) (wr_ledger (ms_writer s))"
  using assms
proof (induction s0 tr s rule: store_run.induct)
  case (more s tr s1 l s2)
  then have IH: "ms_writer s1 = fold (\<lambda>(rec, now). writer_receive N J ttl_ms now rec) (inserted tr) (ms_writer s)"
    "prefix (wr_ledger (ms_writer s)) (wr_ledger (ms_writer s1))" by auto
  from more(2) show ?case
  proof (rule store_stepE)
    fix rec rest now
    assume l: "l = Inserted rec now" and s2: "s2 = s1\<lparr>ms_queue := rest, ms_writer := writer_receive N J ttl_ms now rec (ms_writer s1)\<rparr>"
    have "prefix (wr_ledger (ms_writer s1)) (wr_ledger (ms_writer s2))"
      using writer_receive_ledger [of N J ttl_ms now rec "ms_writer s1"] by (auto simp: s2)
    with IH show ?thesis by (auto simp: l s2 intro: prefix_order.trans)
  qed (use IH more.prems in \<open>auto simp: try_send_simps\<close>)
qed simp

theorem busy_store_never_sweeps_witness:
  "ms_writer (one_inserted (table_json [])) = writer_receive log_engine (table_json []) 1000 5 example_record new_writer"
  using busy_store_never_sweeps [OF example_run [of "table_json []"]] by (simp add: store_new_def)

end
