(* ===== verification/Resolver.thy ===== *)
theory Resolver
  imports Prelude
begin

text \<open>
  Model-name resolution (\<open>src/resolver.rs\<close>): strip the longest configured prefix, look the
  rest up in the model map, fall back to the default for an empty name.
\<close>

section \<open>The resolver\<close>

record model_resolver =
  mr_default :: string
  mr_map :: "(string \<times> string) list"
  mr_prefixes :: "string list"

definition new_resolver :: "string \<Rightarrow> (string \<times> string) list \<Rightarrow> string list \<Rightarrow> model_resolver" where
  "new_resolver dflt m pfxs =
     \<lparr>mr_default = dflt, mr_map = m, mr_prefixes = pfxs\<rparr>"

text \<open>One iteration of the loop over the prefixes: \<open>best\<close> is the longest match so far.\<close>

definition better_prefix :: "string \<Rightarrow> string \<Rightarrow> (nat \<times> string) option \<Rightarrow> (nat \<times> string) option" where
  "better_prefix name p best =
     (case strip_prefix p name of
        None \<Rightarrow> best
      | Some rest \<Rightarrow>
          (case best of
             None \<Rightarrow> Some (length p, rest)
           | Some (best_len, _) \<Rightarrow> if best_len < length p then Some (length p, rest) else best))"

definition resolver_strip_prefix :: "model_resolver \<Rightarrow> string \<Rightarrow> string" where
  "resolver_strip_prefix r name =
     (case fold (better_prefix name) (mr_prefixes r) None of
        None \<Rightarrow> name
      | Some (_, rest) \<Rightarrow> rest)"

definition resolve :: "model_resolver \<Rightarrow> string \<Rightarrow> string" where
  "resolve r requested =
     (let stripped = resolver_strip_prefix r requested in
      case map_of (mr_map r) stripped of
        Some mapped \<Rightarrow> mapped
      | None \<Rightarrow> if stripped = [] then mr_default r else stripped)"

section \<open>The longest prefix\<close>

text \<open>\<open>best\<close> records a longest prefix of \<open>name\<close> among \<open>ps\<close>, and what is left of the name.\<close>

definition best_of :: "string \<Rightarrow> string list \<Rightarrow> (nat \<times> string) option \<Rightarrow> bool" where
  "best_of name ps best =
     (case best of
        None \<Rightarrow> (\<forall>p \<in> set ps. \<not> prefix p name)
      | Some (n, rest) \<Rightarrow>
          (\<exists>p \<in> set ps. name = p @ rest \<and> length p = n) \<and>
          (\<forall>p \<in> set ps. prefix p name \<longrightarrow> length p \<le> n))"

lemma best_of_step: "best_of name ps best \<Longrightarrow> best_of name (ps @ [p]) (better_prefix name p best)"
proof (cases "prefix p name")
  case False
  then show "best_of name ps best \<Longrightarrow> ?thesis"
    by (auto simp: best_of_def better_prefix_def strip_prefix_def split: option.splits)
next
  case True
  then obtain rest where rest: "name = p @ rest" by (auto simp: prefix_def)
  assume best: "best_of name ps best"
  show ?thesis
  proof (cases best)
    case None
    with best rest show ?thesis
      by (auto simp: best_of_def better_prefix_def strip_prefix_def)
  next
    case (Some nr)
    obtain n r where "nr = (n, r)" by (cases nr)
    with best rest Some show ?thesis
      by (auto simp: best_of_def better_prefix_def strip_prefix_def intro: order_trans)
  qed
qed

lemma best_of_fold:
  "best_of name ps best \<Longrightarrow> best_of name (ps @ qs) (fold (better_prefix name) qs best)"
proof (induction qs arbitrary: ps best)
  case (Cons q qs)
  from Cons.IH [OF best_of_step [OF Cons.prems, of q]] show ?case by simp
qed simp

lemma best_of_prefixes: "best_of name (mr_prefixes r) (fold (better_prefix name) (mr_prefixes r) None)"
  using best_of_fold [of name "[]" None "mr_prefixes r"] by (simp add: best_of_def)

lemma strip_prefix_cases:
  obtains (none) "\<forall>p \<in> set (mr_prefixes r). \<not> prefix p name" "resolver_strip_prefix r name = name"
  | (some) p where "p \<in> set (mr_prefixes r)" "name = p @ resolver_strip_prefix r name"
      "\<forall>q \<in> set (mr_prefixes r). prefix q name \<longrightarrow> length q \<le> length p"
proof (cases "fold (better_prefix name) (mr_prefixes r) None")
  case None
  with best_of_prefixes [of name r] show ?thesis
    by (intro none) (auto simp: best_of_def resolver_strip_prefix_def)
next
  case (Some nr)
  obtain n rest where nr: "nr = (n, rest)" by (cases nr)
  with Some best_of_prefixes [of name r] show ?thesis
    by (auto simp: best_of_def resolver_strip_prefix_def intro: some)
qed

lemma strip_prefix_same_set:
  assumes "set (mr_prefixes a) = set (mr_prefixes b)"
  shows "resolver_strip_prefix a name = resolver_strip_prefix b name"
proof (cases rule: strip_prefix_cases [where r = a and name = name])
  case none
  with assms show ?thesis
    by (cases rule: strip_prefix_cases [where r = b and name = name]) (auto intro: prefixI)
next
  case p: (some p)
  show ?thesis
  proof (cases rule: strip_prefix_cases [where r = b and name = name])
    case none
    with p assms show ?thesis by (metis prefixI)
  next
    case q: (some q)
    have "prefix p name" "prefix q name" using p(2) q(2) prefixI by blast+
    with p q assms have "length p = length q" by (metis le_antisym)
    then show ?thesis using p(2) q(2) by (metis append_eq_append_conv)
  qed
qed

section \<open>Properties\<close>

text \<open>
  C39: when \<open>p\<close> is a longest configured prefix of the requested name, the name resolves to what
  the model map says of the rest after \<open>p\<close>, to the rest itself when the map does not mention
  it, and to the default model when nothing is left.
\<close>

theorem resolve_longest_prefix:
  assumes p: "p \<in> set (mr_prefixes r)"
    and longest: "\<forall>q \<in> set (mr_prefixes r). prefix q (p @ rest) \<longrightarrow> length q \<le> length p"
  shows "resolve r (p @ rest) =
    (case map_of (mr_map r) rest of
       Some mapped \<Rightarrow> mapped
     | None \<Rightarrow> if rest = [] then mr_default r else rest)"
proof -
  have "resolver_strip_prefix r (p @ rest) = rest"
  proof (cases rule: strip_prefix_cases [where r = r and name = "p @ rest"])
    case none
    with p show ?thesis by auto
  next
    case (some q)
    then have "length q \<le> length p" "length p \<le> length q"
      using longest p by (metis prefixI)+
    with some(2) show ?thesis by (metis append_eq_append_conv le_antisym)
  qed
  then show ?thesis by (simp add: resolve_def Let_def)
qed

theorem resolve_longest_prefix_witness:
  "resolve (new_resolver ''d'' [(''4o'', ''claude'')] [''v/'', ''v/g/'']) ''v/g/4o'' = ''claude''"
  using resolve_longest_prefix
    [of "''v/g/''" "new_resolver ''d'' [(''4o'', ''claude'')] [''v/'', ''v/g/'']" "''4o''"]
  by (simp add: new_resolver_def)

text \<open>
  The order in which the prefixes are declared does not matter: two resolvers whose prefix
  lists have the same elements resolve every name alike.
\<close>

theorem resolve_prefix_order_irrelevant:
  assumes "set ps = set qs"
  shows "resolve (new_resolver d m ps) name = resolve (new_resolver d m qs) name"
proof -
  have "resolver_strip_prefix (new_resolver d m ps) name = resolver_strip_prefix (new_resolver d m qs) name"
    by (rule strip_prefix_same_set) (simp add: new_resolver_def assms)
  then show ?thesis by (simp add: resolve_def new_resolver_def Let_def split: option.split)
qed

theorem resolve_prefix_order_irrelevant_witness:
  "resolve (new_resolver ''d'' [] [''v/'', ''v/g/'']) ''v/g/4o''
   = resolve (new_resolver ''d'' [] [''v/g/'', ''v/'']) ''v/g/4o''"
  by (rule resolve_prefix_order_irrelevant) auto

end
