(* ===== verification/Pipeline.thy ===== *)
theory Pipeline
  imports Relay Proxy Memory Resolver
begin

text \<open>
  The request handlers (\<open>src/core/pipeline.rs\<close>): a client's request is parsed, resolved, redacted,
  serialized for the upstream and forwarded; the reply is parsed, restored and serialized back.
  A handler returns its response together with the requests that left the gateway and the records
  it made, so that what is sent and what is recorded can be stated on every path.
\<close>

section \<open>State\<close>

definition MAX_UPSTREAM_BODY_BYTES :: nat where
  "MAX_UPSTREAM_BODY_BYTES = 16 * 1024 * 1024"

definition MAX_BODY_BYTES :: nat where
  "MAX_BODY_BYTES = 16 * 1024 * 1024"

record 'db app_state =
  as_config :: config
  as_registry :: protocol_registry
  as_resolver :: model_resolver
  as_privacy :: "redaction_engine option"
  as_memory :: "'db store option"

datatype app_error = PrivacyInvalid engine_error | StoreFailed memory_error

definition app_state_new ::
    "(string \<Rightarrow> string + regex) \<Rightarrow> ('db, 'plan) nql \<Rightarrow> (string \<Rightarrow> string option) \<Rightarrow> config
     \<Rightarrow> app_error + 'db app_state" where
  "app_state_new rx_new N mkdir cfg =
     (case (if pc_enabled (cf_privacy cfg)
            then map_sum PrivacyInvalid Some (new_engine rx_new (cf_privacy cfg)) else Inr None) of
        Inl e \<Rightarrow> Inl e
      | Inr privacy \<Rightarrow>
          (case (if mm_enabled (cf_memory cfg)
                 then map_sum StoreFailed (\<lambda>w. Some (store_new w)) (memory_start N mkdir (cf_memory cfg)) else Inr None) of
             Inl e \<Rightarrow> Inl e
           | Inr memory \<Rightarrow>
               Inr \<lparr>as_config = cfg, as_registry = registry_new,
                    as_resolver = new_resolver (mc_default (cf_models cfg)) (mc_map (cf_models cfg)) (mc_prefixes (cf_models cfg)),
                    as_privacy = privacy, as_memory = memory\<rparr>))"

text \<open>
  A request: its headers, and what collecting its body gives for a limit (\<open>axum::body::to_bytes\<close>).
  The client's side of a stream: when it leaves, and what the task's \<open>select!\<close> observes of a reply.
\<close>

record http_request =
  hr_headers :: headers
  hr_body :: "nat \<Rightarrow> string + bytes"

record client_side =
  cl_left :: "nat option"
  cl_observe :: "upstream_response \<Rightarrow> upstream_event list"

datatype response_body = Full bytes | Streamed "bytes list"

record axum_response =
  ax_status :: u16
  ax_headers :: "(string \<times> string) list"
  ax_body :: response_body

record handled =
  hd_response :: axum_response
  hd_sent :: "outgoing list"
  hd_records :: "request_record list"

section \<open>Records\<close>

record mem_ctx =
  mc_request_id :: string
  mc_client :: string
  mc_upstream :: string
  mc_model :: string

definition mem_capture :: "http_crates \<Rightarrow> string \<Rightarrow> string \<Rightarrow> http_request \<Rightarrow> mem_ctx" where
  "mem_capture H client upstream request =
     \<lparr>mc_request_id = unwrap_or (opt_filter (\<lambda>s. trim s \<noteq> [])
        (Option.bind (header_get (hr_headers request) ''x-request-id'') (header_to_str H))) ''-'',
      mc_client = client, mc_upstream = upstream, mc_model = []\<rparr>"

text \<open>\<open>elapsed\<close> is the time since the request was captured.\<close>

definition to_record :: "u64 \<Rightarrow> mem_ctx \<Rightarrow> string \<Rightarrow> string \<Rightarrow> (u64 \<times> u64) option \<Rightarrow> request_record" where
  "to_record elapsed ctx mode status usage =
     \<lparr>rr_request_id = mc_request_id ctx, rr_client = mc_client ctx, rr_upstream = mc_upstream ctx,
      rr_model = mc_model ctx, rr_mode = mode, rr_status = status, rr_latency_ms = elapsed,
      rr_input_tokens = map_option fst usage, rr_output_tokens = map_option snd usage\<rparr>"

definition mem_record :: "'db store option \<Rightarrow> request_record \<Rightarrow> request_record list" where
  "mem_record memory rec = (case memory of Some _ \<Rightarrow> [rec] | None \<Rightarrow> [])"

section \<open>Bodies and responses\<close>

definition read_body :: "http_request \<Rightarrow> string result" where
  "read_body request =
     (case hr_body request MAX_BODY_BYTES of
        Inl e \<Rightarrow> Inl (InvalidRequest (''failed to read body: '' @ e))
      | Inr b \<Rightarrow> if utf8_valid b then Inr b else Inl (InvalidRequest ''body is not valid utf-8''))"

fun read_chunks :: "string option \<Rightarrow> bytes list \<Rightarrow> bytes \<Rightarrow> bytes result" where
  "read_chunks err [] b =
     (case err of None \<Rightarrow> Inr b | Some e \<Rightarrow> Inl (Internal (''upstream body read failed: '' @ e)))"
| "read_chunks err (chunk # chunks) b =
     (if MAX_UPSTREAM_BODY_BYTES < length b + length chunk
      then Inl (Internal (''upstream response body exceeds '' @ dec MAX_UPSTREAM_BODY_BYTES @ '' bytes''))
      else read_chunks err chunks (b @ chunk))"

definition read_upstream_text :: "upstream_response \<Rightarrow> string result" where
  "read_upstream_text resp =
     (case read_chunks (ur_read_error resp) (ur_chunks resp) [] of
        Inl e \<Rightarrow> Inl e
      | Inr b \<Rightarrow> if utf8_valid b then Inr b else Inl (Internal ''upstream response is not valid utf-8''))"

definition quoted :: "string \<Rightarrow> string" where
  "quoted s = [CHR 0x22] @ s @ [CHR 0x22]"

text \<open>\<open>dbg\<close> is the \<open>Debug\<close> form of a string, which the code uses as JSON text.\<close>

definition error_response :: "(string \<Rightarrow> string) \<Rightarrow> u16 \<Rightarrow> string \<Rightarrow> axum_response" where
  "error_response dbg status message =
     \<lparr>ax_status = status, ax_headers = [(''content-type'', ''application/json'')],
      ax_body = Full (''{'' @ quoted ''error'' @ '': {'' @ quoted ''message'' @ '': '' @ dbg message @ ''}}'')\<rparr>"

definition error_json_response :: "u16 \<times> string \<Rightarrow> axum_response" where
  "error_json_response e =
     (let (status, body) = e in
      \<lparr>ax_status = (if 100 \<le> status \<and> status \<le> 999 then status else 500),
       ax_headers = [(''content-type'', ''application/json'')], ax_body = Full body\<rparr>)"

definition json_response :: "string \<Rightarrow> axum_response" where
  "json_response body =
     \<lparr>ax_status = 200, ax_headers = [(''content-type'', ''application/json'')], ax_body = Full body\<rparr>"

definition stream_response :: "response_body \<Rightarrow> axum_response" where
  "stream_response body =
     \<lparr>ax_status = 200, ax_headers = [(''content-type'', ''text/event-stream''), (''cache-control'', ''no-cache''),
        (''x-accel-buffering'', ''no'')], ax_body = body\<rparr>"

definition is_success :: "u16 \<Rightarrow> bool" where
  "is_success status \<longleftrightarrow> 200 \<le> status \<and> status < 300"

definition estimate_tokens :: "string \<Rightarrow> u64" where
  "estimate_tokens text =
     (let n = of_nat (length (chars text)); words = of_nat (count_words text) in n div 4 + words div 8)"

section \<open>The streaming path\<close>

text \<open>The reply to a streaming request: an error body, a whole JSON body, or a stream.\<close>

definition handle_streaming_response ::
    "matcher \<Rightarrow> serde_json \<Rightarrow> http_crates \<Rightarrow> client_side \<Rightarrow> protocol_adapter \<Rightarrow> protocol_adapter \<Rightarrow> upstream_response
     \<Rightarrow> redaction_session option \<Rightarrow> 'db store option \<Rightarrow> mem_ctx \<Rightarrow> u64 \<Rightarrow> (axum_response \<times> request_record list) option" where
  "handle_streaming_response A J H side client upstream resp privacy memory ctx elapsed =
     (if \<not> is_success (ur_status resp) then
        (case read_upstream_text resp of
           Inl e \<Rightarrow> Some (error_json_response (pa_serialize_error client e), [])
         | Inr resp_text \<Rightarrow>
             (let error_body = (case privacy of Some S \<Rightarrow> fst (restore_text A S resp_text) | None \<Rightarrow> resp_text);
                  err = pa_parse_upstream_error upstream (ur_status resp) error_body
              in Some (error_json_response (pa_serialize_error client err),
                   mem_record memory (to_record elapsed ctx ''stream'' ''error'' None))))
      else
        (let looks_like_json = (case Option.bind (ur_content_type resp) (header_to_str H) of
               Some ct \<Rightarrow> prefix ''application/json'' ct | None \<Rightarrow> False) in
         if looks_like_json then
           (case read_upstream_text resp of
              Inl e \<Rightarrow> Some (error_json_response (pa_serialize_error client e), [])
            | Inr resp_text \<Rightarrow>
                (case handle_json_as_stream A J client upstream resp_text privacy of
                   None \<Rightarrow> None
                 | Some (Inl e) \<Rightarrow> Some (error_json_response (pa_serialize_error client e), [])
                 | Some (Inr body) \<Rightarrow> Some (stream_response (Full body), [])))
         else
           (case relay_stream A J (relay_new (pa_stream_decoder upstream) (pa_stream_encoder client) privacy (cl_left side))
                   (cl_observe side resp) of
              None \<Rightarrow> None
            | Some (r, outcome) \<Rightarrow>
                Some (stream_response (Streamed (ln_sent (rl_link r))),
                  (case outcome of None \<Rightarrow> [] | Some status \<Rightarrow> mem_record memory (to_record elapsed ctx ''stream'' status None))))))"

section \<open>Conversations\<close>

definition upstream_headers :: "config \<Rightarrow> protocol_adapter \<Rightarrow> (string \<times> string) list" where
  "upstream_headers cfg upstream =
     (if uc_authorization (cf_upstream cfg) \<noteq> [] then [(''authorization'', uc_authorization (cf_upstream cfg))] else []) @
     map (\<lambda>h. (hc_name h, hc_value h)) (filter (\<lambda>h. hc_name h \<noteq> []) (uc_extra_headers (cf_upstream cfg))) @
     pa_request_headers upstream"

text \<open>
  From the body of the request to what is forwarded: parse, resolve, redact, serialize, choose the
  URL, in this order, each of which can end the request.
\<close>

record prepared =
  pp_model :: string
  pp_stream :: bool
  pp_session :: "redaction_session option"
  pp_body :: string
  pp_url :: string

definition redact_for :: "matcher \<Rightarrow> redaction_engine option \<Rightarrow> neutral_request
    \<Rightarrow> (neutral_request \<times> redaction_session option) result" where
  "redact_for A privacy neutral =
     (case privacy of
        None \<Rightarrow> Inr (neutral, None)
      | Some engine \<Rightarrow>
          (case redact_request A (new_session engine) neutral of
             (Inl e, _, _) \<Rightarrow> Inl e
           | (Inr _, neutral1, S) \<Rightarrow> Inr (neutral1, Some S)))"

definition prepare :: "matcher \<Rightarrow> 'db app_state \<Rightarrow> protocol_adapter \<Rightarrow> protocol_adapter \<Rightarrow> http_request
    \<Rightarrow> prepared result" where
  "prepare A st client upstream request =
     (case read_body request of
        Inl e \<Rightarrow> Inl e
      | Inr body \<Rightarrow>
          (case pa_parse_request client body of
             Inl e \<Rightarrow> Inl e
           | Inr parsed \<Rightarrow>
               (let resolved = parsed\<lparr>req_model := resolve (as_resolver st) (req_model parsed)\<rparr> in
                case redact_for A (as_privacy st) resolved of
                  Inl e \<Rightarrow> Inl e
                | Inr (neutral, session) \<Rightarrow>
                    (case pa_serialize_request upstream neutral of
                       Inl e \<Rightarrow> Inl e
                     | Inr upstream_body \<Rightarrow>
                         (case (if req_stream neutral
                                then pa_stream_conversation_url upstream (uc_url (cf_upstream (as_config st))) (req_model neutral)
                                else pa_conversation_url upstream (uc_url (cf_upstream (as_config st))) (req_model neutral)) of
                            Inl e \<Rightarrow> Inl e
                          | Inr url \<Rightarrow>
                              Inr \<lparr>pp_model = req_model neutral, pp_stream = req_stream neutral,
                                   pp_session = session, pp_body = upstream_body, pp_url = url\<rparr>)))))"

text \<open>The reply to a request that does not stream.\<close>

definition handle_reply ::
    "matcher \<Rightarrow> protocol_adapter \<Rightarrow> protocol_adapter \<Rightarrow> upstream_response \<Rightarrow> redaction_session option
     \<Rightarrow> 'db store option \<Rightarrow> mem_ctx \<Rightarrow> u64 \<Rightarrow> axum_response \<times> request_record list" where
  "handle_reply A client upstream resp privacy memory ctx elapsed =
     (case read_upstream_text resp of
        Inl e \<Rightarrow> (error_json_response (pa_serialize_error client e), [])
      | Inr resp_text \<Rightarrow>
          if \<not> is_success (ur_status resp) then
            (let error_body = (case privacy of Some S \<Rightarrow> fst (restore_text A S resp_text) | None \<Rightarrow> resp_text);
                 err = pa_parse_upstream_error upstream (ur_status resp) error_body
             in (error_json_response (pa_serialize_error client err),
                 mem_record memory (to_record elapsed ctx ''non-stream'' ''error'' None)))
          else
            (case pa_parse_response upstream resp_text of
               Inl e \<Rightarrow>
                 (error_json_response (pa_serialize_error client e),
                  mem_record memory (to_record elapsed ctx ''non-stream'' ''error'' None))
             | Inr parsed \<Rightarrow>
                 (let neutral_resp = (case privacy of Some S \<Rightarrow> fst (restore_response A S parsed) | None \<Rightarrow> parsed);
                      usage = map_option (\<lambda>u. (input_tokens u, output_tokens u)) (resp_usage neutral_resp);
                      records = mem_record memory (to_record elapsed ctx ''non-stream'' ''ok'' usage)
                  in case pa_serialize_response client neutral_resp of
                       Inl e \<Rightarrow> (error_json_response (pa_serialize_error client e), records)
                     | Inr client_body \<Rightarrow> (json_response client_body, records))))"

definition handle_conversation ::
    "matcher \<Rightarrow> serde_json \<Rightarrow> (string \<Rightarrow> string) \<Rightarrow> http_crates \<Rightarrow> reqwest \<Rightarrow> 'db app_state \<Rightarrow> string \<Rightarrow> http_request
     \<Rightarrow> client_side \<Rightarrow> u64 \<Rightarrow> handled option" where
  "handle_conversation A J dbg H Q st client_name request side elapsed =
     (case registry_get (as_registry st) client_name of
        None \<Rightarrow> Some \<lparr>hd_response = error_response dbg 500 (''client protocol not registered: '' @ client_name),
                  hd_sent = [], hd_records = []\<rparr>
      | Some client \<Rightarrow>
     (case registry_get (as_registry st) (uc_protocol (cf_upstream (as_config st))) of
        None \<Rightarrow> Some \<lparr>hd_response = error_response dbg 500
                   (''upstream protocol not registered: '' @ uc_protocol (cf_upstream (as_config st))),
                  hd_sent = [], hd_records = []\<rparr>
      | Some upstream \<Rightarrow>
     (case prepare A st client upstream request of
        Inl e \<Rightarrow> Some \<lparr>hd_response = error_json_response (pa_serialize_error client e), hd_sent = [], hd_records = []\<rparr>
      | Inr p \<Rightarrow>
     (let ctx = (mem_capture H (pa_name client) (pa_name upstream) request)\<lparr>mc_model := pp_model p\<rparr>;
          hs = upstream_headers (as_config st) upstream;
          failed = (\<lambda>mode text sent. Some \<lparr>hd_response = error_json_response (pa_serialize_error client
               (Internal (''upstream request failed: '' @ text))), hd_sent = sent,
               hd_records = mem_record (as_memory st) (to_record elapsed ctx mode ''error'' None)\<rparr>)
      in if pp_stream p then
           (case forward_stream Q (pp_url p) hs (pp_body p) of
              (Inl e, sent) \<Rightarrow> failed ''stream'' (error_to_string e) sent
            | (Inr resp, sent) \<Rightarrow>
                map_option (\<lambda>(response, records). \<lparr>hd_response = response, hd_sent = sent, hd_records = records\<rparr>)
                  (handle_streaming_response A J H side client upstream resp (pp_session p) (as_memory st) ctx elapsed))
         else
           (case forward Q (pp_url p) hs (pp_body p) (uc_timeout_ms (cf_upstream (as_config st))) of
              (Inl e, sent) \<Rightarrow> failed ''non-stream'' e sent
            | (Inr resp, sent) \<Rightarrow>
                (let (response, records) = handle_reply A client upstream resp (pp_session p) (as_memory st) ctx elapsed
                 in Some \<lparr>hd_response = response, hd_sent = sent, hd_records = records\<rparr>))))))"

section \<open>Model listings and token counts\<close>

definition handle_models :: "(string \<Rightarrow> string) \<Rightarrow> reqwest \<Rightarrow> 'db app_state \<Rightarrow> string \<Rightarrow> handled" where
  "handle_models dbg Q st client_name =
     (let answer = (\<lambda>response sent. \<lparr>hd_response = response, hd_sent = sent, hd_records = []\<rparr>) in
      case registry_get (as_registry st) client_name of
        None \<Rightarrow> answer (error_response dbg 500 (''client protocol not registered: '' @ client_name)) []
      | Some client \<Rightarrow>
     (let fail = (\<lambda>e sent. answer (error_json_response (pa_serialize_error client e)) sent) in
      case registry_get (as_registry st) (uc_protocol (cf_upstream (as_config st))) of
        None \<Rightarrow> answer (error_response dbg 500
                   (''upstream protocol not registered: '' @ uc_protocol (cf_upstream (as_config st)))) []
      | Some upstream \<Rightarrow>
     (case pa_models_path upstream of
        None \<Rightarrow> fail (Internal (''upstream protocol '' @ pa_name upstream @ '' has no model listing'')) []
      | Some models_path \<Rightarrow>
     (case forward_get Q (trim_end_char CHR ''/'' (uc_url (cf_upstream (as_config st))) @ models_path)
             (upstream_headers (as_config st) upstream) (uc_timeout_ms (cf_upstream (as_config st))) of
        (Inl e, sent) \<Rightarrow> fail (Internal (''upstream request failed: '' @ e)) sent
      | (Inr resp, sent) \<Rightarrow>
     (case read_upstream_text resp of
        Inl e \<Rightarrow> fail e sent
      | Inr resp_text \<Rightarrow>
          if \<not> is_success (ur_status resp) then fail (pa_parse_upstream_error upstream (ur_status resp) resp_text) sent
          else
     (case pa_parse_models upstream resp_text of
        Inl e \<Rightarrow> fail e sent
      | Inr models \<Rightarrow>
     (case pa_serialize_models client models of
        Inl e \<Rightarrow> fail e sent
      | Inr body \<Rightarrow> answer (json_response body) sent)))))))"

definition handle_count_tokens :: "serde_json \<Rightarrow> (string \<Rightarrow> string) \<Rightarrow> 'db app_state \<Rightarrow> string \<Rightarrow> http_request \<Rightarrow> handled" where
  "handle_count_tokens J dbg st client_name request =
     \<lparr>hd_response =
        (case registry_get (as_registry st) client_name of
           None \<Rightarrow> error_response dbg 500 (''client protocol not registered: '' @ client_name)
         | Some client \<Rightarrow>
             (case read_body request of
                Inl e \<Rightarrow> error_json_response (pa_serialize_error client e)
              | Inr body \<Rightarrow> json_response (to_string J (jobj [(''input_tokens'', jnum (estimate_tokens body))])))),
      hd_sent = [], hd_records = []\<rparr>"

section \<open>Reading a body\<close>

lemma read_chunks_spec:
  "length b \<le> MAX_UPSTREAM_BODY_BYTES \<Longrightarrow>
   read_chunks err chunks b = Inr t \<longleftrightarrow> err = None \<and> t = b @ concat chunks \<and> length t \<le> MAX_UPSTREAM_BODY_BYTES"
proof (induction chunks arbitrary: b)
  case (Cons c cs)
  then show ?case by (auto simp: Cons.IH [of "b @ c"])
qed (auto split: option.split)

lemma read_upstream_text_spec:
  "read_upstream_text resp = Inr t \<longleftrightarrow>
     ur_read_error resp = None \<and> t = concat (ur_chunks resp) \<and> length t \<le> MAX_UPSTREAM_BODY_BYTES \<and> utf8_valid t"
  using read_chunks_spec [of "[]" "ur_read_error resp" "ur_chunks resp" t]
  by (cases "read_chunks (ur_read_error resp) (ur_chunks resp) []") (auto simp: read_upstream_text_def)

section \<open>What a conversation forwards\<close>

lemma prepare_Inr:
  assumes "prepare A st client upstream request = Inr p"
  shows "\<exists>body parsed neutral. read_body request = Inr body \<and> pa_parse_request client body = Inr parsed \<and>
    redact_for A (as_privacy st) (parsed\<lparr>req_model := resolve (as_resolver st) (req_model parsed)\<rparr>) = Inr (neutral, pp_session p) \<and>
    pa_serialize_request upstream neutral = Inr (pp_body p) \<and> pp_model p = req_model neutral \<and> pp_stream p = req_stream neutral"
  using assms by (auto simp: prepare_def Let_def split: sum.splits prod.splits)

lemma redact_for_frame:
  assumes "redact_for A privacy neutral = Inr (neutral1, session)"
  shows "neutral1 = neutral\<lparr>req_messages := req_messages neutral1\<rparr>"
  using assms by (auto simp: redact_for_def redact_request_def split: option.splits sum.splits prod.splits)

text \<open>The ways a conversation ends, once both protocols are registered.\<close>

lemma handle_conversation_cases:
  assumes "handle_conversation A J dbg H Q st cn request side elapsed = Some h"
  obtains (unregistered) msg where "h = \<lparr>hd_response = error_response dbg 500 msg, hd_sent = [], hd_records = []\<rparr>"
  | (rejected) client upstream e where "registry_get (as_registry st) cn = Some client"
      "registry_get (as_registry st) (uc_protocol (cf_upstream (as_config st))) = Some upstream"
      "prepare A st client upstream request = Inl e"
      "h = \<lparr>hd_response = error_json_response (pa_serialize_error client e), hd_sent = [], hd_records = []\<rparr>"
  | (failed) client upstream p e sent where "registry_get (as_registry st) cn = Some client"
      "registry_get (as_registry st) (uc_protocol (cf_upstream (as_config st))) = Some upstream"
      "prepare A st client upstream request = Inr p" "hd_sent h = sent"
      "sent = [] \<or> sent = [\<lparr>og_method = POST, og_url = pp_url p, og_headers = insert_content_type (upstream_headers (as_config st) upstream),
         og_body = pp_body p, og_timeout_ms = (if pp_stream p then None else Some (uc_timeout_ms (cf_upstream (as_config st))))\<rparr>]"
      "hd_records h = mem_record (as_memory st) (to_record elapsed
         ((mem_capture H (pa_name client) (pa_name upstream) request)\<lparr>mc_model := pp_model p\<rparr>)
         (if pp_stream p then ''stream'' else ''non-stream'') ''error'' None)"
      "hd_response h = error_json_response (pa_serialize_error client (Internal e))"
      "\<not> pp_stream p \<Longrightarrow> sent \<noteq> [] \<Longrightarrow> \<exists>e. rq_execute Q (hd sent) = Inl e"
  | (streamed) client upstream p resp out response records where "registry_get (as_registry st) cn = Some client"
      "registry_get (as_registry st) (uc_protocol (cf_upstream (as_config st))) = Some upstream"
      "prepare A st client upstream request = Inr p" "pp_stream p"
      "out = \<lparr>og_method = POST, og_url = pp_url p, og_headers = insert_content_type (upstream_headers (as_config st) upstream),
         og_body = pp_body p, og_timeout_ms = None\<rparr>"
      "rq_execute Q out = Inr resp"
      "handle_streaming_response A J H side client upstream resp (pp_session p) (as_memory st)
         ((mem_capture H (pa_name client) (pa_name upstream) request)\<lparr>mc_model := pp_model p\<rparr>) elapsed = Some (response, records)"
      "h = \<lparr>hd_response = response, hd_sent = [out], hd_records = records\<rparr>"
  | (replied) client upstream p resp out response records where "registry_get (as_registry st) cn = Some client"
      "registry_get (as_registry st) (uc_protocol (cf_upstream (as_config st))) = Some upstream"
      "prepare A st client upstream request = Inr p" "\<not> pp_stream p"
      "out = \<lparr>og_method = POST, og_url = pp_url p, og_headers = insert_content_type (upstream_headers (as_config st) upstream),
         og_body = pp_body p, og_timeout_ms = Some (uc_timeout_ms (cf_upstream (as_config st)))\<rparr>"
      "rq_execute Q out = Inr resp"
      "handle_reply A client upstream resp (pp_session p) (as_memory st)
         ((mem_capture H (pa_name client) (pa_name upstream) request)\<lparr>mc_model := pp_model p\<rparr>) elapsed = (response, records)"
      "h = \<lparr>hd_response = response, hd_sent = [out], hd_records = records\<rparr>"
proof (cases "registry_get (as_registry st) cn")
  case None
  then show ?thesis using assms by (auto simp: handle_conversation_def intro: unregistered)
next
  case client: (Some client)
  show ?thesis
  proof (cases "registry_get (as_registry st) (uc_protocol (cf_upstream (as_config st)))")
    case None
    then show ?thesis using assms client by (auto simp: handle_conversation_def intro: unregistered)
  next
    case upstream: (Some upstream)
    show ?thesis
    proof (cases "prepare A st client upstream request")
      case (Inl e)
      then show ?thesis using assms client upstream by (auto simp: handle_conversation_def intro: rejected)
    next
      case p: (Inr p)
      let ?hs = "upstream_headers (as_config st) upstream"
      let ?ctx = "(mem_capture H (pa_name client) (pa_name upstream) request)\<lparr>mc_model := pp_model p\<rparr>"
      show ?thesis
      proof (cases "pp_stream p")
        case True
        obtain r sent where f: "forward_stream Q (pp_url p) ?hs (pp_body p) = (r, sent)" by fastforce
        note s = forward_stream_sent [OF f]
        show ?thesis
        proof (cases r)
          case (Inl e)
          show ?thesis
            by (rule failed [OF client upstream p, of sent])
              (use assms client upstream p True f Inl s in \<open>auto simp: handle_conversation_def Let_def\<close>)
        next
          case (Inr resp)
          then obtain response records where r: "handle_streaming_response A J H side client upstream resp (pp_session p)
              (as_memory st) ?ctx elapsed = Some (response, records)"
            "h = \<lparr>hd_response = response, hd_sent = sent, hd_records = records\<rparr>"
            using assms client upstream p True f by (auto simp: handle_conversation_def Let_def)
          have "rq_execute Q (hd sent) = Inr resp"
            using f Inr by (auto simp: forward_stream_def Let_def split: option.splits if_splits sum.splits)
          then show ?thesis using s Inr r True by (intro streamed [OF client upstream p True refl]) auto
        qed
      next
        case False
        obtain r sent where f: "forward Q (pp_url p) ?hs (pp_body p) (uc_timeout_ms (cf_upstream (as_config st))) = (r, sent)" by fastforce
        note s = forward_sent [OF f]
        show ?thesis
        proof (cases r)
          case (Inl e)
          have x: "sent \<noteq> [] \<Longrightarrow> \<exists>e. rq_execute Q (hd sent) = Inl e"
            using f Inl by (auto simp: forward_def Let_def split: option.splits)
          show ?thesis
            by (rule failed [OF client upstream p, of sent])
              (use x assms client upstream p False f Inl s in \<open>auto simp: handle_conversation_def Let_def\<close>)
        next
          case (Inr resp)
          obtain response records where r: "handle_reply A client upstream resp (pp_session p)
              (as_memory st) ?ctx elapsed = (response, records)" by fastforce
          then have "h = \<lparr>hd_response = response, hd_sent = sent, hd_records = records\<rparr>"
            using assms client upstream p False f Inr by (auto simp: handle_conversation_def Let_def)
          moreover have "rq_execute Q (hd sent) = Inr resp"
            using f Inr by (auto simp: forward_def Let_def split: option.splits)
          ultimately show ?thesis using s Inr r False by (intro replied [OF client upstream p False refl]) auto
        qed
      qed
    qed
  qed
qed

section \<open>Records of a conversation\<close>

lemma mem_record_cases: "mem_record memory rec = [] \<and> memory = None \<or> mem_record memory rec = [rec] \<and> memory \<noteq> None"
  by (cases memory) (auto simp: mem_record_def)

text \<open>The two statuses of a record.\<close>

definition is_outcome :: "string \<Rightarrow> bool" where
  "is_outcome status \<longleftrightarrow> status \<in> {''ok'', ''error''}"

lemma is_outcome_simps: "is_outcome ''ok''" "is_outcome ''error''" "is_outcome (relay_outcome r)"
  by (simp_all add: is_outcome_def relay_outcome_def)

definition recorded :: "'db store option \<Rightarrow> u64 \<Rightarrow> mem_ctx \<Rightarrow> string \<Rightarrow> request_record list \<Rightarrow> bool" where
  "recorded memory elapsed ctx mode records \<longleftrightarrow>
     records = [] \<or> (\<exists>status usage. is_outcome status \<and> memory \<noteq> None \<and> records = [to_record elapsed ctx mode status usage])"

lemma recorded_intros:
  "recorded memory elapsed ctx mode []"
  "is_outcome status \<Longrightarrow> recorded memory elapsed ctx mode (mem_record memory (to_record elapsed ctx mode status usage))"
  using mem_record_cases [of memory] by (fastforce simp: recorded_def)+

lemma stream_records:
  assumes "handle_streaming_response A J H side client upstream resp privacy memory ctx elapsed = Some (response, records)"
  shows "recorded memory elapsed ctx ''stream'' records"
proof -
  consider (none) "records = []" | (error) "records = mem_record memory (to_record elapsed ctx ''stream'' ''error'' None)"
    | (task) r status where "relay_stream A J (relay_new (pa_stream_decoder upstream) (pa_stream_encoder client) privacy (cl_left side))
         (cl_observe side resp) = Some (r, Some status)" "records = mem_record memory (to_record elapsed ctx ''stream'' status None)"
    using assms by (auto simp: handle_streaming_response_def Let_def split: if_splits sum.splits option.splits)
  then show ?thesis
  proof cases
    case task
    then have "is_outcome status" using relay_stream_recorded [OF task(1)] is_outcome_simps(3) [of r] by simp
    then show ?thesis unfolding task(2) by (rule recorded_intros(2))
  qed (simp_all only: recorded_intros is_outcome_simps)
qed

lemma reply_records:
  assumes "handle_reply A client upstream resp privacy memory ctx elapsed = (response, records)"
  shows "recorded memory elapsed ctx ''non-stream'' records"
proof -
  consider (none) "records = []" | (error) "records = mem_record memory (to_record elapsed ctx ''non-stream'' ''error'' None)"
    | (ok) usage where "records = mem_record memory (to_record elapsed ctx ''non-stream'' ''ok'' usage)"
    using assms by (auto simp: handle_reply_def Let_def split: if_splits sum.splits)
  then show ?thesis by cases (simp_all only: recorded_intros is_outcome_simps)
qed

section \<open>What leaves is redacted\<close>

lemma sent_is_redacted:
  assumes "handle_conversation A J dbg H Q st cn request side elapsed = Some h" "as_privacy st = Some E"
    and "out \<in> set (hd_sent h)"
  shows "hd_sent h = [out] \<and> (\<exists>client upstream body parsed neutral S. registry_get (as_registry st) cn = Some client \<and>
    registry_get (as_registry st) (uc_protocol (cf_upstream (as_config st))) = Some upstream \<and>
    read_body request = Inr body \<and> pa_parse_request client body = Inr parsed \<and>
    redact_request A (new_session E) (parsed\<lparr>req_model := resolve (as_resolver st) (req_model parsed)\<rparr>) = (Inr (), neutral, S) \<and>
    pa_serialize_request upstream neutral = Inr (og_body out) \<and>
    og_headers out = insert_content_type (upstream_headers (as_config st) upstream) \<and>
    filter (is_header ''content-type'') (og_headers out) = [(''content-type'', ''application/json'')])"
proof -
  obtain client upstream p where p: "registry_get (as_registry st) cn = Some client"
    "registry_get (as_registry st) (uc_protocol (cf_upstream (as_config st))) = Some upstream"
    "prepare A st client upstream request = Inr p" "hd_sent h = [out]" "og_body out = pp_body p"
    "og_headers out = insert_content_type (upstream_headers (as_config st) upstream)"
    using assms(1) by (cases rule: handle_conversation_cases) (use assms(3) in auto)
  from prepare_Inr [OF p(3)] obtain body parsed neutral where b: "read_body request = Inr body" "pa_parse_request client body = Inr parsed"
    "redact_for A (as_privacy st) (parsed\<lparr>req_model := resolve (as_resolver st) (req_model parsed)\<rparr>) = Inr (neutral, pp_session p)"
    "pa_serialize_request upstream neutral = Inr (pp_body p)" by blast
  obtain S where "redact_request A (new_session E) (parsed\<lparr>req_model := resolve (as_resolver st) (req_model parsed)\<rparr>) = (Inr (), neutral, S)"
    using b(3) assms(2) by (auto simp: redact_for_def split: sum.splits prod.splits)
  with p b content_type_once show ?thesis by auto
qed

text \<open>A model listing asks with no body.\<close>

lemma models_sent: "out \<in> set (hd_sent (handle_models dbg Q st cn)) \<Longrightarrow> og_method out = GET \<and> og_body out = []"
  by (auto simp: handle_models_def forward_get_def Let_def split: option.splits sum.splits if_splits)

lemma models_records: "hd_records (handle_models dbg Q st cn) = []"
  by (auto simp: handle_models_def Let_def split: option.split sum.split prod.split)

text \<open>Every character has a byte.\<close>

lemma chars_le: "length (chars s) \<le> length s"
proof (induction s rule: utf8_chunks.induct)
  case (1 s)
  show ?case
  proof (cases "s = []")
    case False
    obtain n ok where n: "utf8_step s = (n, ok)" by fastforce
    have pos: "0 < n" using utf8_step_pos [of s] by (simp add: n)
    have "length (chars (drop n s)) \<le> length (drop n s)" using 1 [OF False] n by simp
    moreover have "chars s = take n s # chars (drop n s)" using False n by (simp add: chars_def utf8_chunks.simps [of s])
    ultimately show ?thesis using pos False by (cases s) auto
  qed (simp add: chars_def)
qed

lemma estimate_tokens_exact:
  assumes "length t < 2 ^ 64"
  shows "unat (estimate_tokens t) = length (chars t) div 4 + count_words t div 8"
proof -
  have c: "length (chars t) < 2 ^ 64" "count_words t < 2 ^ 64"
    using assms chars_le [of t] count_words_le [of t] by linarith+
  have "unat (of_nat (length (chars t)) div 4 :: u64) = length (chars t) div 4"
    "unat (of_nat (count_words t) div 8 :: u64) = count_words t div 8"
    using c by (simp_all add: unat_div unat_of_nat take_bit_nat_eq_self)
  moreover have "length (chars t) div 4 + count_words t div 8 < 2 ^ 64" using c by linarith
  ultimately show ?thesis by (simp add: estimate_tokens_def Let_def unat_word_ariths(1))
qed

lemma one_record:
  assumes "registry_get (as_registry st) cn = Some client"
    "registry_get (as_registry st) (uc_protocol (cf_upstream (as_config st))) = Some upstream"
    "prepare A st client upstream request = Inr p"
    "recorded (as_memory st) elapsed ((mem_capture H (pa_name client) (pa_name upstream) request)\<lparr>mc_model := pp_model p\<rparr>)
       (if pp_stream p then ''stream'' else ''non-stream'') (hd_records h)"
    "\<forall>rec \<in> set (hd_records h). rr_status rec = ''ok'' \<longrightarrow> hd_sent h \<noteq> []"
  shows "hd_records h = [] \<or> (\<exists>rec client upstream p. hd_records h = [rec] \<and> as_memory st \<noteq> None \<and>
    registry_get (as_registry st) cn = Some client \<and>
    registry_get (as_registry st) (uc_protocol (cf_upstream (as_config st))) = Some upstream \<and>
    prepare A st client upstream request = Inr p \<and>
    rr_model rec = pp_model p \<and> rr_client rec = pa_name client \<and> rr_upstream rec = pa_name upstream \<and>
    rr_mode rec = (if pp_stream p then ''stream'' else ''non-stream'') \<and> is_outcome (rr_status rec) \<and>
    (rr_status rec = ''ok'' \<longrightarrow> hd_sent h \<noteq> []))"
proof (cases "hd_records h = []")
  case False
  then obtain status usage where "is_outcome status" "as_memory st \<noteq> None" "hd_records h = [to_record elapsed
      ((mem_capture H (pa_name client) (pa_name upstream) request)\<lparr>mc_model := pp_model p\<rparr>)
      (if pp_stream p then ''stream'' else ''non-stream'') status usage]"
    using assms(4) unfolding recorded_def by blast
  with assms(1-3,5) show ?thesis
    by (intro disjI2 exI [of _ "hd (hd_records h)"] exI [of _ client] exI [of _ upstream] exI [of _ p])
      (simp add: to_record_def mem_capture_def)
qed simp

section \<open>Properties\<close>

text \<open>
  Only redacted requests leave. With the privacy guard on, whatever a conversation sends
  upstream is one request, whose body is the upstream dialect's serialization of the client's
  request after model resolution and a redaction that succeeded in a fresh session, and whose
  headers come from the configuration and the upstream adapter alone, with one content type.
\<close>

theorem only_redacted_requests_leave:
  assumes "handle_conversation A J dbg H Q st cn request side elapsed = Some h" "as_privacy st = Some E"
    and "out \<in> set (hd_sent h)"
  shows "hd_sent h = [out] \<and> (\<exists>client upstream body parsed neutral S. registry_get (as_registry st) cn = Some client \<and>
    registry_get (as_registry st) (uc_protocol (cf_upstream (as_config st))) = Some upstream \<and>
    read_body request = Inr body \<and> pa_parse_request client body = Inr parsed \<and>
    redact_request A (new_session E) (parsed\<lparr>req_model := resolve (as_resolver st) (req_model parsed)\<rparr>) = (Inr (), neutral, S) \<and>
    pa_serialize_request upstream neutral = Inr (og_body out) \<and>
    og_headers out = insert_content_type (upstream_headers (as_config st) upstream) \<and>
    filter (is_header ''content-type'') (og_headers out) = [(''content-type'', ''application/json'')])"
  using sent_is_redacted [OF assms] .

text \<open>
  C28: a conversation makes one record at most, and only of a request that was parsed and redacted:
  it names the resolved model, the client's and the upstream's protocol, the mode that the client
  asked for and one of the two outcomes. A request that says it ended well was sent.
\<close>

theorem conversation_records:
  assumes "handle_conversation A J dbg H Q st cn request side elapsed = Some h"
  shows "hd_records h = [] \<or> (\<exists>rec client upstream p. hd_records h = [rec] \<and> as_memory st \<noteq> None \<and>
    registry_get (as_registry st) cn = Some client \<and>
    registry_get (as_registry st) (uc_protocol (cf_upstream (as_config st))) = Some upstream \<and>
    prepare A st client upstream request = Inr p \<and>
    rr_model rec = pp_model p \<and> rr_client rec = pa_name client \<and> rr_upstream rec = pa_name upstream \<and>
    rr_mode rec = (if pp_stream p then ''stream'' else ''non-stream'') \<and> is_outcome (rr_status rec) \<and>
    (rr_status rec = ''ok'' \<longrightarrow> hd_sent h \<noteq> []))"
proof -
  show ?thesis
    using assms
  proof (cases rule: handle_conversation_cases)
    case (failed client upstream p e sent)
    have "recorded (as_memory st) elapsed ((mem_capture H (pa_name client) (pa_name upstream) request)\<lparr>mc_model := pp_model p\<rparr>)
       (if pp_stream p then ''stream'' else ''non-stream'') (hd_records h)"
      unfolding failed(6) by (rule recorded_intros(2)) (simp add: is_outcome_simps)
    moreover have "\<forall>rec \<in> set (hd_records h). rr_status rec = ''ok'' \<longrightarrow> hd_sent h \<noteq> []"
      unfolding failed(6) by (simp add: mem_record_def to_record_def split: option.split)
    ultimately show ?thesis by (rule one_record [OF failed(1-3)])
  next
    case (streamed client upstream p resp out response records)
    have "recorded (as_memory st) elapsed ((mem_capture H (pa_name client) (pa_name upstream) request)\<lparr>mc_model := pp_model p\<rparr>)
       (if pp_stream p then ''stream'' else ''non-stream'') (hd_records h)"
      using stream_records [OF streamed(7)] by (simp only: streamed(4,8) if_True handled.select_convs)
    then show ?thesis by (rule one_record [OF streamed(1-3)]) (simp add: streamed(8))
  next
    case (replied client upstream p resp out response records)
    have "recorded (as_memory st) elapsed ((mem_capture H (pa_name client) (pa_name upstream) request)\<lparr>mc_model := pp_model p\<rparr>)
       (if pp_stream p then ''stream'' else ''non-stream'') (hd_records h)"
      using reply_records [OF replied(7)] by (simp only: replied(4,8) if_False handled.select_convs)
    then show ?thesis by (rule one_record [OF replied(1-3)]) (simp add: replied(8))
  qed auto
qed

text \<open>
  C7: a secret makes the whole round trip. Let the client send a request whose message is redacted
  and let the upstream answer with that message's content: the client gets the content it sent, its
  own secrets in place, serialized in its own dialect, if its text does not contain one of the
  session's tokens.
\<close>

theorem echoed_message_comes_back:
  assumes "matcher_ok A" "new_engine rx_new cfg = Inr E" "regexes_ok E" "as_privacy st = Some E"
    and "registry_get (as_registry st) cn = Some client"
    and "registry_get (as_registry st) (uc_protocol (cf_upstream (as_config st))) = Some upstream"
    and "read_body request = Inr body" "pa_parse_request client body = Inr parsed" "\<not> req_stream parsed"
    and "redact_request A (new_session E) (parsed\<lparr>req_model := resolve (as_resolver st) (req_model parsed)\<rparr>) = (Inr (), neutral, S)"
    and "i < length (req_messages parsed)" "list_all (absent_block S) (msg_content (req_messages parsed ! i))"
    and "handle_conversation A J dbg H Q st cn request side elapsed = Some h" "hd_sent h = [out]"
    and "rq_execute Q out = Inr resp" "is_success (ur_status resp)" "read_upstream_text resp = Inr resp_text"
    and "pa_parse_response upstream resp_text = Inr reply" "resp_content reply = msg_content (req_messages neutral ! i)"
    and "pa_serialize_response client (reply\<lparr>resp_content := msg_content (req_messages parsed ! i)\<rparr>) = Inr client_body"
  shows "hd_response h = json_response client_body"
proof -
  let ?resolved = "parsed\<lparr>req_model := resolve (as_resolver st) (req_model parsed)\<rparr>"
  have neutral: "req_stream neutral = req_stream parsed" using assms(10)
    by (auto simp: redact_request_def split: sum.splits prod.splits)
  have prep: "pp_session p = Some S \<and> \<not> pp_stream p" if "prepare A st client upstream request = Inr p" for p
    using prepare_Inr [OF that] assms(4,7-10) neutral by (auto simp: redact_for_def)
  have ok: "session_ok S"
    using redact_request_ok [OF assms(1) new_session_ok [OF new_engine_ok [OF assms(2)]] assms(10)] by simp
  have content_back: "resp_content (fst (restore_response A S reply)) = msg_content (req_messages parsed ! i)"
    using echo_restored [OF assms(1-3,10) ok extends_refl] assms(11,12,19) by simp
  then have restored_eq: "fst (restore_response A S reply) = reply\<lparr>resp_content := msg_content (req_messages parsed ! i)\<rparr>"
    by (auto simp: restore_response_def split: prod.splits)
  from assms(13) show ?thesis
  proof (cases rule: handle_conversation_cases)
    case (failed client' upstream' p e sent)
    then have "\<not> pp_stream p" "sent = [out]" using prep assms(5,6,14) by auto
    then show ?thesis using failed(8) assms(15) by simp
  next
    case (streamed client' upstream' p resp' out' response records)
    then show ?thesis using prep assms(5,6) by auto
  next
    case (replied client' upstream' p resp' out' response records)
    have "out' = out" "client' = client" "upstream' = upstream" "resp' = resp"
      using replied(1,2,6,8) assms(5,6,14,15) by auto
    then have "handle_reply A client upstream resp (Some S) (as_memory st)
        ((mem_capture H (pa_name client) (pa_name upstream) request)\<lparr>mc_model := pp_model p\<rparr>) elapsed = (response, records)"
      using replied(3,7) prep by auto
    then have "response = json_response client_body"
      using assms(16-18,20) by (simp add: handle_reply_def restored_eq Let_def)
    then show ?thesis using replied(8) by simp
  qed (use assms(14) in auto)
qed

section \<open>An example conversation\<close>

text \<open>An OpenAI client, an OpenAI upstream that mirrors the redacted message, and the guard.\<close>

definition chat_parsed :: neutral_request where
  "chat_parsed = new_request ''m'' [\<lparr>msg_role = User, msg_content = [Text ''hi bob'']\<rparr>]"

definition chat_redacted :: neutral_request where
  "chat_redacted = new_request ''m'' [\<lparr>msg_role = User, msg_content = [Text ''hi <CRED_1>'']\<rparr>]"

definition chat_reply :: "string \<Rightarrow> neutral_response" where
  "chat_reply t = \<lparr>resp_id = ''x1'', resp_model = ''m'', resp_content = [Text t], resp_finish_reason = Stop, resp_usage = None\<rparr>"

definition chat_json :: serde_json where
  "chat_json = table_json
     [(''q'', jobj [(''model'', String ''m''), (''messages'', Array [jobj [(''role'', String ''user''), (''content'', String ''hi bob'')]])]),
      (''u'', openai_request_value (table_json []) chat_redacted),
      (''r'', openai_response_value (table_json []) 7 (chat_reply ''hi <CRED_1>'')),
      (''c'', openai_response_value (table_json []) 7 (chat_reply ''hi bob''))]"

definition chat_config :: config where
  "chat_config = default_config\<lparr>cf_privacy := example_config\<rparr>"

definition chat_state :: "unit app_state" where
  "chat_state = \<lparr>as_config = chat_config, as_registry = default_registry chat_json (\<lambda>s. s) 7,
     as_resolver = new_resolver [] [] [], as_privacy = Some example_engine, as_memory = None\<rparr>"

definition chat_request :: http_request where
  "chat_request = \<lparr>hr_headers = [], hr_body = (\<lambda>_. Inr ''q'')\<rparr>"

definition chat_response :: upstream_response where
  "chat_response = \<lparr>ur_status = 200, ur_content_type = None, ur_chunks = [''r''], ur_read_error = None\<rparr>"

definition chat_reqwest :: reqwest where
  "chat_reqwest = \<lparr>rq_build_error = (\<lambda>_. None), rq_in_time = (\<lambda>_. True), rq_execute = (\<lambda>_. Inr chat_response)\<rparr>"

definition chat_side :: client_side where
  "chat_side = \<lparr>cl_left = None, cl_observe = (\<lambda>_. [StreamEnd])\<rparr>"

abbreviation chat_adapter :: protocol_adapter where
  "chat_adapter \<equiv> openai_adapter chat_json 7"

abbreviation chat_handle :: "http_crates \<Rightarrow> handled option" where
  "chat_handle H \<equiv> handle_conversation reference_matcher chat_json (\<lambda>s. s) H chat_reqwest chat_state ''openai'' chat_request chat_side 5"

lemma chat_registry: "registry_get (as_registry chat_state) ''openai'' = Some chat_adapter"
  by (simp add: chat_state_def default_registry_def registry_register_def registry_get_def registry_new_def
      update_conv anthropic_adapter_def gemini_adapter_def openai_adapter_def)

lemma chat_upstream: "uc_protocol (cf_upstream (as_config chat_state)) = ''openai''"
  by (simp add: chat_state_def chat_config_def default_config_def)

lemma chat_body: "read_body chat_request = Inr ''q''"
proof -
  have "utf8_valid ''q''" by code_simp
  then show ?thesis by (simp add: read_body_def chat_request_def)
qed

lemma chat_parse: "pa_parse_request chat_adapter ''q'' = Inr chat_parsed"
proof -
  have "openai_parse_request chat_json ''q'' = Inr chat_parsed" by code_simp
  then show ?thesis by (simp add: openai_adapter_def)
qed

lemma chat_resolved: "chat_parsed\<lparr>req_model := resolve (as_resolver chat_state) (req_model chat_parsed)\<rparr> = chat_parsed"
  by (simp add: chat_state_def chat_parsed_def new_request_def resolve_def resolver_strip_prefix_def new_resolver_def)

definition chat_session :: redaction_session where
  "chat_session = snd (snd (redact_request reference_matcher (new_session example_engine) chat_parsed))"

lemma chat_redact: "redact_request reference_matcher (new_session example_engine) chat_parsed = (Inr (), chat_redacted, chat_session)"
proof -
  have "fst (redact_request reference_matcher (new_session example_engine) chat_parsed) = Inr ()"
    "fst (snd (redact_request reference_matcher (new_session example_engine) chat_parsed)) = chat_redacted"
    by code_simp+
  then show ?thesis by (simp add: chat_session_def prod_eq_iff)
qed

lemma chat_prepared: "\<exists>p. prepare reference_matcher chat_state chat_adapter chat_adapter chat_request = Inr p \<and> \<not> pp_stream p"
proof -
  have "as_privacy chat_state = Some example_engine" by (simp add: chat_state_def)
  then have r: "redact_for reference_matcher (as_privacy chat_state) chat_parsed = Inr (chat_redacted, Some chat_session)"
    by (simp add: redact_for_def chat_redact)
  have s: "pa_serialize_request chat_adapter chat_redacted = Inr ''u''"
  proof -
    have "openai_serialize_request chat_json chat_redacted = Inr ''u''" by code_simp
    then show ?thesis by (simp add: openai_adapter_def)
  qed
  obtain url where u: "pa_conversation_url chat_adapter (uc_url (cf_upstream (as_config chat_state))) (req_model chat_redacted) = Inr url"
    by (simp add: openai_adapter_def openai_conversation_url_def)
  have "\<not> req_stream chat_redacted" by (simp add: chat_redacted_def new_request_def)
  then show ?thesis by (simp add: prepare_def chat_body chat_parse chat_resolved r s u)
qed

lemma chat_handled: "\<exists>h out. chat_handle H = Some h \<and> hd_sent h = [out]"
proof -
  obtain p where p: "prepare reference_matcher chat_state chat_adapter chat_adapter chat_request = Inr p" "\<not> pp_stream p"
    using chat_prepared by blast
  then show ?thesis
    by (simp add: handle_conversation_def chat_registry chat_upstream forward_def chat_reqwest_def Let_def split: prod.split)
qed

lemma chat_reads: "read_upstream_text chat_response = Inr ''r''"
proof -
  have "utf8_valid ''r''" by code_simp
  then show ?thesis by (simp add: read_upstream_text_spec chat_response_def MAX_UPSTREAM_BODY_BYTES_def)
qed

text \<open>The same gateway with a store.\<close>

definition recording_state :: "unit app_state" where
  "recording_state = chat_state\<lparr>as_memory := Some (store_new \<lparr>wr_db = (), wr_seq = 0, wr_dirty = False, wr_ledger = []\<rparr>)\<rparr>"

lemma chat_recorded:
  "\<exists>h rec. handle_conversation reference_matcher chat_json (\<lambda>s. s) H chat_reqwest recording_state ''openai'' chat_request chat_side 5
     = Some h \<and> hd_records h = [rec]"
proof -
  have fields: "as_config recording_state = as_config chat_state" "as_registry recording_state = as_registry chat_state"
    "as_resolver recording_state = as_resolver chat_state" "as_privacy recording_state = as_privacy chat_state"
    by (simp_all add: recording_state_def)
  have same: "prepare A recording_state c u r = prepare A chat_state c u r" for A c u r
    unfolding prepare_def fields ..
  obtain p where p: "prepare reference_matcher chat_state chat_adapter chat_adapter chat_request = Inr p" "\<not> pp_stream p"
    using chat_prepared by blast
  have m: "mem_record (as_memory recording_state) rec = [rec]" for rec by (simp add: mem_record_def recording_state_def)
  have "\<exists>response rec. handle_reply reference_matcher chat_adapter chat_adapter chat_response (pp_session p)
      (as_memory recording_state) ctx 5 = (response, [rec])" for ctx
    by (auto simp: handle_reply_def chat_reads m Let_def split: sum.split)
  then show ?thesis
    using p by (auto simp: handle_conversation_def fields same chat_registry chat_upstream forward_def chat_reqwest_def Let_def
        split: prod.split) (metis handled.select_convs(3) prod.inject)
qed

theorem only_redacted_requests_leave_witness:
  "\<exists>h out neutral S. chat_handle example_http = Some h \<and> hd_sent h = [out] \<and>
     redact_request reference_matcher (new_session example_engine) chat_parsed = (Inr (), neutral, S) \<and>
     pa_serialize_request chat_adapter neutral = Inr (og_body out)"
proof -
  obtain h out where h: "chat_handle example_http = Some h" "hd_sent h = [out]" using chat_handled by blast
  have e: "as_privacy chat_state = Some example_engine" by (simp add: chat_state_def)
  show ?thesis
    using only_redacted_requests_leave [OF h(1) e, of out] h chat_registry chat_upstream chat_body chat_parse chat_resolved
    by auto
qed

theorem conversation_records_witness:
  "\<exists>h rec. handle_conversation reference_matcher chat_json (\<lambda>s. s) example_http chat_reqwest recording_state ''openai'' chat_request
      chat_side 5 = Some h \<and> hd_records h = [rec] \<and> rr_client rec = ''openai'' \<and> is_outcome (rr_status rec)"
proof -
  obtain h rec where h: "handle_conversation reference_matcher chat_json (\<lambda>s. s) example_http chat_reqwest recording_state ''openai''
      chat_request chat_side 5 = Some h" "hd_records h = [rec]" using chat_recorded by blast
  have "registry_get (as_registry recording_state) ''openai'' = Some chat_adapter"
    by (simp add: recording_state_def chat_registry)
  moreover have "pa_name chat_adapter = ''openai''" by (simp add: openai_adapter_def)
  ultimately show ?thesis using conversation_records [OF h(1)] h by auto
qed

theorem echoed_message_comes_back_witness:
  "\<exists>h. chat_handle example_http = Some h \<and> hd_response h = json_response ''c''"
proof -
  obtain h out where h: "chat_handle example_http = Some h" "hd_sent h = [out]" using chat_handled by blast
  have e: "as_privacy chat_state = Some example_engine" by (simp add: chat_state_def)
  have up: "registry_get (as_registry chat_state) (uc_protocol (cf_upstream (as_config chat_state))) = Some chat_adapter"
    by (simp only: chat_upstream chat_registry)
  have ns: "\<not> req_stream chat_parsed" and i: "0 < length (req_messages chat_parsed)"
    by (simp_all add: chat_parsed_def new_request_def)
  have ab: "list_all (absent_block chat_session) (msg_content (req_messages chat_parsed ! 0))" by code_simp
  have x: "rq_execute chat_reqwest out = Inr chat_response" by (simp add: chat_reqwest_def)
  have ok: "is_success (ur_status chat_response)" by (simp add: is_success_def chat_response_def)
  have "openai_parse_response chat_json ''r'' = Inr (chat_reply ''hi <CRED_1>'')" by code_simp
  then have pr: "pa_parse_response chat_adapter ''r'' = Inr (chat_reply ''hi <CRED_1>'')" by (simp add: openai_adapter_def)
  have same: "resp_content (chat_reply ''hi <CRED_1>'') = msg_content (req_messages chat_redacted ! 0)"
    by (simp add: chat_reply_def chat_redacted_def new_request_def)
  have "openai_serialize_response chat_json 7 (chat_reply ''hi bob'') = Inr ''c''" by code_simp
  moreover have "(chat_reply ''hi <CRED_1>'')\<lparr>resp_content := msg_content (req_messages chat_parsed ! 0)\<rparr> = chat_reply ''hi bob''"
    by (simp add: chat_reply_def chat_parsed_def new_request_def)
  ultimately have se: "pa_serialize_response chat_adapter
      ((chat_reply ''hi <CRED_1>'')\<lparr>resp_content := msg_content (req_messages chat_parsed ! 0)\<rparr>) = Inr ''c''"
    by (simp add: openai_adapter_def)
  have rd: "redact_request reference_matcher (new_session example_engine)
      (chat_parsed\<lparr>req_model := resolve (as_resolver chat_state) (req_model chat_parsed)\<rparr>) = (Inr (), chat_redacted, chat_session)"
    by (simp only: chat_resolved chat_redact)
  show ?thesis
    using echoed_message_comes_back [OF reference_matcher_ok example_engine_new example_regexes_ok e chat_registry up
        chat_body chat_parse ns rd i ab h x ok chat_reads pr same se] h(1) by blast
qed

text \<open>
  Upstream bodies are bounded. A body is read exactly when it ends without a transport error, is
  at most 16 MiB in all and is valid UTF-8, however it was cut into chunks, and then it is read whole;
  every other body is an internal error, never a shortened text.
\<close>

theorem upstream_body_capped:
  "(read_upstream_text resp = Inr t \<longleftrightarrow>
     ur_read_error resp = None \<and> t = concat (ur_chunks resp) \<and> length t \<le> 16 * 1024 * 1024 \<and> utf8_valid t) \<and>
   (case read_upstream_text resp of Inl e \<Rightarrow> \<exists>m. e = Internal m | Inr _ \<Rightarrow> True)"
proof -
  have "\<exists>m. e = Internal m" if "read_chunks err cs b = Inl e" for err cs b e
    using that by (induction err cs b rule: read_chunks.induct) (auto split: option.splits if_splits)
  then have "\<exists>m. e = Internal m" if "read_upstream_text resp = Inl e" for e
    using that by (auto simp: read_upstream_text_def split: sum.splits if_splits)
  then show ?thesis by (simp add: read_upstream_text_spec MAX_UPSTREAM_BODY_BYTES_def split: sum.split)
qed

text \<open>
  The token estimate does not wrap: on any body that fits in memory it is the number of
  characters over four plus the number of words over eight, and at most three eighths of the bytes.
\<close>

theorem estimate_tokens_bounds:
  assumes "length t < 2 ^ 64"
  shows "unat (estimate_tokens t) = length (chars t) div 4 + count_words t div 8 \<and>
    8 * unat (estimate_tokens t) \<le> 3 * length t"
  using estimate_tokens_exact [OF assms] chars_le [of t] count_words_le [of t] by simp

theorem estimate_tokens_bounds_witness:
  "unat (estimate_tokens ''four words are here'') = length (chars ''four words are here'') div 4 + count_words ''four words are here'' div 8"
  using estimate_tokens_bounds [of "''four words are here''"] by simp

end
