(* ===== verification/Gateway.thy ===== *)
theory Gateway
  imports Pipeline
begin

text \<open>
  The gateway as a whole: \<open>main\<close> from the configuration to the table of routes
  (\<open>src/main.rs\<close>), and a request from the router through the authentication layer to its handler
  and back through the request-id layer. What axum answers when no route matches is a parameter.
\<close>

section \<open>Starting\<close>

datatype start_error = ConfigRefused config_error | StateRefused app_error | RoutesRefused startup_error

definition start_gateway ::
    "(string \<Rightarrow> string + regex) \<Rightarrow> ('db, 'plan) nql \<Rightarrow> (string \<Rightarrow> string option) \<Rightarrow> http_crates \<Rightarrow> (string \<Rightarrow> string + config)
     \<Rightarrow> files \<Rightarrow> string option \<Rightarrow> serde_json \<Rightarrow> (string \<Rightarrow> string) \<Rightarrow> u64 \<Rightarrow> start_error + ('db app_state \<times> route list)" where
  "start_gateway rx_new N mkdir H toml fs config_path J dbg now =
     (case load H toml fs config_path of
        Inl e \<Rightarrow> Inl (ConfigRefused e)
      | Inr cfg \<Rightarrow>
          (case app_state_new rx_new N mkdir cfg of
             Inl e \<Rightarrow> Inl (StateRefused e)
           | Inr st0 \<Rightarrow>
               (let st = st0\<lparr>as_registry := default_registry J dbg now\<rparr> in
                case startup cfg (as_registry st) of
                  Inl e \<Rightarrow> Inl (RoutesRefused e)
                | Inr routes \<Rightarrow> Inr (st, routes))))"

section \<open>Serving\<close>

definition unauthorized :: axum_response where
  "unauthorized =
     \<lparr>ax_status = 401, ax_headers = [(''content-type'', ''application/json''), (''www-authenticate'', ''Bearer'')],
      ax_body = Full (''{'' @ quoted ''error'' @ '':{'' @ quoted ''message'' @ '':'' @ quoted ''invalid or missing api key'' @ ''}}'')\<rparr>"

definition health :: "serde_json \<Rightarrow> axum_response" where
  "health J =
     \<lparr>ax_status = 200, ax_headers = [(''content-type'', ''application/json'')],
      ax_body = Full (to_string J (jobj [(''status'', String ''ok'')]))\<rparr>"

definition only_response :: "axum_response \<Rightarrow> handled" where
  "only_response r = \<lparr>hd_response = r, hd_sent = [], hd_records = []\<rparr>"

text \<open>The handler that the routes were built with, for the kind and protocol of the route.\<close>

definition route_handler ::
    "matcher \<Rightarrow> serde_json \<Rightarrow> (string \<Rightarrow> string) \<Rightarrow> http_crates \<Rightarrow> reqwest \<Rightarrow> 'db app_state \<Rightarrow> client_side \<Rightarrow> u64
     \<Rightarrow> route \<Rightarrow> http_request \<Rightarrow> handled option" where
  "route_handler A J dbg H Q st side elapsed rt request =
     (case rt_kind rt of
        Models \<Rightarrow> Some (handle_models dbg Q st (rt_protocol rt))
      | CountTokens \<Rightarrow> Some (handle_count_tokens J dbg st (rt_protocol rt) request)
      | Chat \<Rightarrow> handle_conversation A J dbg H Q st (rt_protocol rt) request side elapsed
      | Messages \<Rightarrow> handle_conversation A J dbg H Q st (rt_protocol rt) request side elapsed)"

text \<open>\<open>request_trace\<close> around the router: the response carries the request's id, once.\<close>

definition set_request_id :: "string \<Rightarrow> handled \<Rightarrow> handled" where
  "set_request_id i h =
     h\<lparr>hd_response := (hd_response h)\<lparr>ax_headers :=
         filter (\<lambda>e. \<not> is_header ''x-request-id'' e) (ax_headers (hd_response h)) @ [(''x-request-id'', i)]\<rparr>\<rparr>"

definition gateway ::
    "matcher \<Rightarrow> serde_json \<Rightarrow> (string \<Rightarrow> string) \<Rightarrow> http_crates \<Rightarrow> reqwest \<Rightarrow> axum_response \<Rightarrow> 'db app_state \<Rightarrow> route list
     \<Rightarrow> client_side \<Rightarrow> u64 \<Rightarrow> string \<Rightarrow> http_method \<Rightarrow> string \<Rightarrow> http_request \<Rightarrow> handled option" where
  "gateway A J dbg H Q fallback st routes side elapsed generated method path request =
     map_option (set_request_id (request_trace_id H generated (hr_headers request)))
       (case serve H (as_config st) routes method path (hr_headers request) of
          Health \<Rightarrow> Some (only_response (health J))
        | NotServed \<Rightarrow> Some (only_response fallback)
        | Refused \<Rightarrow> Some (only_response unauthorized)
        | Handled rt h \<Rightarrow> route_handler A J dbg H Q st side elapsed rt (request\<lparr>hr_headers := h\<rparr>))"

section \<open>What a started gateway has\<close>

lemma start_gateway_parts:
  assumes "start_gateway rx_new N mkdir H toml fs config_path J dbg now = Inr (st, routes)"
  shows "load H toml fs config_path = Inr (as_config st)" "as_registry st = default_registry J dbg now"
    "startup (as_config st) (as_registry st) = Inr routes"
    "as_privacy st = None \<longleftrightarrow> \<not> pc_enabled (cf_privacy (as_config st))"
    "as_privacy st = Some E \<Longrightarrow> new_engine rx_new (cf_privacy (as_config st)) = Inr E"
    "as_memory st = None \<longleftrightarrow> \<not> mm_enabled (cf_memory (as_config st))"
  using assms
  by (auto simp: start_gateway_def app_state_new_def Let_def map_sum_def split: sum.splits if_splits)

lemma started_protocols:
  assumes "startup cfg (default_registry J dbg now) = Inr routes" "rt \<in> set routes"
  shows "\<exists>a. registry_get (default_registry J dbg now) (rt_protocol rt) = Some a \<and> pa_name a = rt_protocol rt \<and>
      (rt_path rt, rt_kind rt) \<in> set (pa_endpoints a)"
    "registry_get (default_registry J dbg now) (uc_protocol (cf_upstream cfg)) \<noteq> None"
proof -
  obtain m where ok: "mount_ok (set (claims (by_path (client_adapters (default_registry J dbg now) (cc_protocols (cf_client cfg)))))) routes m"
    using startup_ok(2) [OF assms(1)] by auto
  then have "(rt_path rt, rt_kind rt, rt_protocol rt) \<in> set (claims (by_path (client_adapters (default_registry J dbg now) (cc_protocols (cf_client cfg)))))"
    using assms(2) by (simp add: mount_ok_def)
  then obtain p a where a: "registry_get (default_registry J dbg now) p = Some a" "rt_protocol rt = pa_name a" "(rt_path rt, rt_kind rt) \<in> set (pa_endpoints a)"
    unfolding claims_by_path by (auto simp: client_adapters_get)
  then have "p = pa_name a"
    by (auto simp: default_registry_get openai_adapter_def anthropic_adapter_def gemini_adapter_def split: if_splits)
  with a show "\<exists>a. registry_get (default_registry J dbg now) (rt_protocol rt) = Some a \<and> pa_name a = rt_protocol rt \<and>
      (rt_path rt, rt_kind rt) \<in> set (pa_endpoints a)" by auto
  show "registry_get (default_registry J dbg now) (uc_protocol (cf_upstream cfg)) \<noteq> None"
    using startup_ok(1) [OF assms(1)] by (auto simp: check_protocols_def Let_def split: if_splits)
qed

lemma serve_handled:
  assumes "serve H cfg routes method path h = Handled rt h'"
  shows "rt \<in> set routes \<and> require_auth (header_to_str H) (ac_api_keys (cf_auth cfg)) h = Next h'"
  using assms by (auto simp: serve_def find_Some_iff dest: nth_mem split: if_splits option.splits auth_outcome.splits)

lemma gateway_cases:
  assumes "gateway A J dbg H Q fallback st routes side elapsed generated method path request = Some h"
  obtains (plain) "hd_sent h = []" "hd_records h = []"
      "\<And>rt h'. serve H (as_config st) routes method path (hr_headers request) \<noteq> Handled rt h'"
  | (handled) rt h' g where "serve H (as_config st) routes method path (hr_headers request) = Handled rt h'"
      "route_handler A J dbg H Q st side elapsed rt (request\<lparr>hr_headers := h'\<rparr>) = Some g"
      "hd_sent h = hd_sent g" "hd_records h = hd_records g"
  using assms
  by (cases "serve H (as_config st) routes method path (hr_headers request)")
    (auto simp: gateway_def set_request_id_def only_response_def)

section \<open>An example gateway\<close>

definition chat_toml :: "string \<Rightarrow> string + config" where
  "chat_toml = (\<lambda>_. Inr chat_config)"

definition null_engine :: "(unit, unit) nql" where
  "null_engine = \<lparr>nql_open = (\<lambda>path. Inr ()), nql_parse = (\<lambda>stmt. Inr ()), nql_execute = (\<lambda>db plan. (Inr (), db)),
     nql_flush = (\<lambda>db. (Inr (), db))\<rparr>"

lemma chat_fields: "cf_client chat_config = cf_client default_config" "cf_upstream chat_config = cf_upstream default_config"
  by (simp_all add: chat_config_def)

lemma chat_starts:
  "start_gateway (\<lambda>p. Inr (literal_regex p)) N mkdir example_http chat_toml example_files None chat_json (\<lambda>s. s) 7
    = Inr (chat_state, default_routes)"
proof -
  have v: "validate example_http chat_config = Inr ()"
    unfolding validate_ok by (simp add: example_http_def chat_config_def default_config_def)
  then have l: "load example_http chat_toml example_files None = Inr chat_config"
    by (simp add: load_def load_path_def example_files_def chat_toml_def)
  have "pc_enabled example_config" by (simp add: example_config_def)
  then have s: "app_state_new (\<lambda>p. Inr (literal_regex p)) N mkdir chat_config = Inr (chat_state\<lparr>as_registry := registry_new\<rparr>)"
    by (simp add: app_state_new_def chat_config_def example_engine_new chat_state_def default_config_def)
  have "startup chat_config (default_registry chat_json (\<lambda>s. s) 7) = Inr default_routes"
  proof -
    have "startup chat_config = startup default_config"
      by (simp only: fun_eq_iff startup_def check_protocols_def chat_fields simp_thms)
    moreover have "startup default_config (default_registry chat_json (\<lambda>s. s) 7) = Inr default_routes" by code_simp
    ultimately show ?thesis by simp
  qed
  then show ?thesis using l s by (simp add: start_gateway_def chat_state_def Let_def)
qed

section \<open>Properties\<close>

text \<open>
  C14: nothing gets past the authentication. With keys configured, a request that presents none of
  them sends nothing upstream and leaves no record, whatever its method, path, headers and body; on
  a path that is served, apart from the liveness probe, it is answered with 401.
\<close>

theorem unauthenticated_requests_stay_out:
  assumes "gateway A J dbg H Q fallback st routes side elapsed generated method path request = Some h"
    and "ac_api_keys (cf_auth (as_config st)) \<noteq> []" "\<forall>k \<in> set (ac_api_keys (cf_auth (as_config st))). length k < 2 ^ 64"
    and "\<forall>k \<in> set (ac_api_keys (cf_auth (as_config st))). extract_key (header_to_str H) (hr_headers request) \<noteq> Some k"
  shows "hd_sent h = [] \<and> hd_records h = [] \<and>
    ((\<exists>rt \<in> set routes. rt_method rt = method \<and> rt_path rt = path) \<and> path \<noteq> ''/health'' \<longrightarrow> ax_status (hd_response h) = 401)"
proof -
  have un: "require_auth (header_to_str H) (ac_api_keys (cf_auth (as_config st))) (hr_headers request) = Unauthorized"
    using require_auth_next [OF assms(2,3)] assms(4) by (auto split: option.split)
  have no: "serve H (as_config st) routes method path (hr_headers request) \<noteq> Handled rt h'" for rt h'
    using un by (auto dest: serve_handled)
  have quiet: "hd_sent h = [] \<and> hd_records h = []"
    using assms(1) by (cases rule: gateway_cases) (use no in auto)
  have "ax_status (hd_response h) = 401"
    if rt: "rt \<in> set routes" "rt_method rt = method" "rt_path rt = path" "path \<noteq> ''/health''" for rt
  proof -
    have "find (\<lambda>rt. rt_method rt = method \<and> rt_path rt = path) routes \<noteq> None"
      using rt by (auto simp: find_None_iff)
    then have "serve H (as_config st) routes method path (hr_headers request) = Refused"
      using rt(4) un by (auto simp: serve_def)
    with assms(1) show ?thesis by (auto simp: gateway_def set_request_id_def only_response_def unauthorized_def)
  qed
  with quiet show ?thesis by blast
qed

theorem unauthenticated_requests_stay_out_witness:
  "\<exists>h. gateway reference_matcher chat_json (\<lambda>s. s) example_http chat_reqwest unauthorized
      (chat_state\<lparr>as_config := keyed_config\<rparr>) default_routes chat_side 5 ''req-1'' GET ''/v1/models'' chat_request = Some h \<and>
     ax_status (hd_response h) = 401 \<and> hd_sent h = []"
proof -
  let ?st = "chat_state\<lparr>as_config := keyed_config\<rparr>"
  have keys: "ac_api_keys (cf_auth (as_config ?st)) = [''sk-1'']" by (simp add: keyed_config_def)
  have none: "extract_key (header_to_str example_http) (hr_headers chat_request) = None"
    by (simp add: chat_request_def extract_key_def first_key_none header_get_def)
  then have "require_auth (header_to_str example_http) [''sk-1''] (hr_headers chat_request) = Unauthorized"
    by (simp add: require_auth_def)
  then have "serve example_http (as_config ?st) default_routes GET ''/v1/models'' (hr_headers chat_request) = Refused"
    using keys by (simp add: serve_def default_routes_def)
  then obtain h where h: "gateway reference_matcher chat_json (\<lambda>s. s) example_http chat_reqwest unauthorized ?st default_routes
      chat_side 5 ''req-1'' GET ''/v1/models'' chat_request = Some h" by (simp add: gateway_def)
  have "\<exists>rt \<in> set default_routes. rt_method rt = GET \<and> rt_path rt = ''/v1/models''" by (simp add: default_routes_def)
  then show ?thesis
    using unauthenticated_requests_stay_out [OF h] keys none h by simp
qed

text \<open>
  C1: a gateway that started with the privacy guard on never sends an unredacted conversation.
  Whatever request it serves, what goes upstream is a bodyless model listing, or the upstream
  dialect's serialization of a request that the engine compiled from the configuration redacted with
  success, in a session of its own.
\<close>

theorem started_guard_redacts_everything:
  assumes "start_gateway rx_new N mkdir H toml fs config_path J dbg now = Inr (st, routes)"
    and "pc_enabled (cf_privacy (as_config st))"
    and "gateway A J dbg H Q fallback st routes side elapsed generated method path request = Some h"
    and "out \<in> set (hd_sent h)"
  shows "og_method out = GET \<and> og_body out = [] \<or>
    (\<exists>E upstream parsed neutral S. new_engine rx_new (cf_privacy (as_config st)) = Inr E \<and>
      registry_get (as_registry st) (uc_protocol (cf_upstream (as_config st))) = Some upstream \<and>
      redact_request A (new_session E) parsed = (Inr (), neutral, S) \<and>
      pa_serialize_request upstream neutral = Inr (og_body out))"
proof -
  obtain E where E: "as_privacy st = Some E" "new_engine rx_new (cf_privacy (as_config st)) = Inr E"
    using start_gateway_parts(4,5) [OF assms(1)] assms(2) by auto
  from assms(3) obtain rt h' g where g: "route_handler A J dbg H Q st side elapsed rt (request\<lparr>hr_headers := h'\<rparr>) = Some g"
    "out \<in> set (hd_sent g)"
    by (cases rule: gateway_cases) (use assms(4) in auto)
  have conversation: ?thesis
    if c: "handle_conversation A J dbg H Q st (rt_protocol rt) (request\<lparr>hr_headers := h'\<rparr>) side elapsed = Some g"
  proof -
    from sent_is_redacted [OF c E(1) g(2)] obtain upstream parsed neutral S where
      "registry_get (as_registry st) (uc_protocol (cf_upstream (as_config st))) = Some upstream"
      "redact_request A (new_session E) parsed = (Inr (), neutral, S)" "pa_serialize_request upstream neutral = Inr (og_body out)"
      by auto
    with E(2) show ?thesis by blast
  qed
  show ?thesis
  proof (cases "rt_kind rt")
    case Models
    then have "out \<in> set (hd_sent (handle_models dbg Q st (rt_protocol rt)))" using g by (simp add: route_handler_def)
    then show ?thesis by (intro disjI1 models_sent)
  next
    case CountTokens
    then show ?thesis using g by (auto simp: route_handler_def handle_count_tokens_def)
  next
    case Chat
    then show ?thesis using g(1) by (intro conversation) (simp add: route_handler_def)
  next
    case Messages
    then show ?thesis using g(1) by (intro conversation) (simp add: route_handler_def)
  qed
qed

theorem started_guard_redacts_everything_witness:
  "\<exists>h out. gateway reference_matcher chat_json (\<lambda>s. s) example_http chat_reqwest unauthorized
      chat_state default_routes chat_side 5 ''req-1'' POST ''/v1/chat/completions'' chat_request = Some h \<and> hd_sent h = [out] \<and>
     (og_method out = GET \<and> og_body out = [] \<or>
      (\<exists>E parsed neutral S. redact_request reference_matcher (new_session E) parsed = (Inr (), neutral, S)))"
proof -
  have e: "pc_enabled (cf_privacy (as_config chat_state))" by (simp add: chat_state_def chat_config_def example_config_def)
  obtain h out where h: "chat_handle example_http = Some h" "hd_sent h = [out]" using chat_handled by blast
  have "serve example_http (as_config chat_state) default_routes POST ''/v1/chat/completions'' (hr_headers chat_request)
      = Handled \<lparr>rt_method = POST, rt_path = ''/v1/chat/completions'', rt_kind = Chat, rt_protocol = ''openai''\<rparr> (hr_headers chat_request)"
    by (simp add: serve_def default_routes_def require_auth_def chat_state_def chat_config_def default_config_def)
  then obtain g where g: "gateway reference_matcher chat_json (\<lambda>s. s) example_http chat_reqwest unauthorized
      chat_state default_routes chat_side 5 ''req-1'' POST ''/v1/chat/completions'' chat_request = Some g" "hd_sent g = [out]"
    using h by (simp add: gateway_def route_handler_def set_request_id_def)
  show ?thesis
    using started_guard_redacts_everything [OF chat_starts [of null_engine "\<lambda>_. None"] e g(1), of out] g by auto
qed

text \<open>
  C29: in a started gateway no handler misses an adapter. Behind every mounted route the client's
  adapter is registered under the route's protocol and claims the route, and so is the upstream's, so
  that the handlers' "not registered" answers cannot happen; and the memory store and the guard are
  there exactly when the configuration enables them.
\<close>

theorem started_handlers_have_adapters:
  assumes "start_gateway rx_new N mkdir H toml fs config_path J dbg now = Inr (st, routes)" "rt \<in> set routes"
  shows "(\<exists>a. registry_get (as_registry st) (rt_protocol rt) = Some a \<and> pa_name a = rt_protocol rt \<and>
      (rt_path rt, rt_kind rt) \<in> set (pa_endpoints a)) \<and>
    registry_get (as_registry st) (uc_protocol (cf_upstream (as_config st))) \<noteq> None \<and>
    (as_privacy st = None \<longleftrightarrow> \<not> pc_enabled (cf_privacy (as_config st))) \<and>
    (as_memory st = None \<longleftrightarrow> \<not> mm_enabled (cf_memory (as_config st)))"
proof -
  note parts = start_gateway_parts(2-4,6) [OF assms(1)]
  from started_protocols [OF parts(2) [unfolded parts(1)] assms(2)] show ?thesis
    by (simp add: parts(1,3,4))
qed

theorem started_handlers_have_adapters_witness:
  "registry_get (as_registry chat_state) ''openai'' \<noteq> None \<and> as_privacy chat_state \<noteq> None"
proof -
  have r: "\<lparr>rt_method = POST, rt_path = ''/v1/chat/completions'', rt_kind = Chat, rt_protocol = ''openai''\<rparr> \<in> set default_routes"
    by (simp add: default_routes_def)
  have e: "pc_enabled (cf_privacy (as_config chat_state))" by (simp add: chat_state_def chat_config_def example_config_def)
  from started_handlers_have_adapters [OF chat_starts [of null_engine "\<lambda>_. None"] r] e show ?thesis by auto
qed

text \<open>
  Every response can be correlated: whatever is answered, by a handler, the authentication layer
  or the router, the response carries exactly one request id: the client's own, or the generated one.
\<close>

theorem every_response_has_one_request_id:
  assumes "gateway A J dbg H Q fallback st routes side elapsed generated method path request = Some h"
  shows "filter (is_header ''x-request-id'') (ax_headers (hd_response h))
    = [(''x-request-id'', request_trace_id H generated (hr_headers request))]"
proof -
  have "is_header ''x-request-id'' (''x-request-id'', i)" for i by (simp add: is_header_def eq_ignore_ascii_case_def)
  then show ?thesis using assms by (auto simp: gateway_def set_request_id_def)
qed

theorem every_response_has_one_request_id_witness:
  "\<exists>h. gateway reference_matcher chat_json (\<lambda>s. s) example_http chat_reqwest unauthorized
      chat_state default_routes chat_side 5 ''req-1'' GET ''/health'' chat_request = Some h \<and>
     filter (is_header ''x-request-id'') (ax_headers (hd_response h)) = [(''x-request-id'', ''req-1'')]"
proof -
  obtain h where h: "gateway reference_matcher chat_json (\<lambda>s. s) example_http chat_reqwest unauthorized
      chat_state default_routes chat_side 5 ''req-1'' GET ''/health'' chat_request = Some h"
    by (simp add: gateway_def serve_def)
  have "request_trace_id example_http ''req-1'' (hr_headers chat_request) = ''req-1''"
    by (simp add: request_trace_id_def example_http_def chat_request_def header_get_def)
  with every_response_has_one_request_id [OF h] h show ?thesis by auto
qed

end
