(* ===== verification/Confidential.thy ===== *)
theory Confidential
  imports Roundtrip
begin

text \<open>
  What the redacted request reveals of the secrets: their places and which of them are equal, and
  nothing else. Two requests that differ only in the values that one rule finds are redacted to the
  same request. The proof runs two sessions in step: they hold the same tokens, for values that a
  bijection relates. The contract of one step is a locale; it holds of texts, and is lifted to JSON
  values, blocks and messages.
\<close>

section \<open>Two sessions in step\<close>

text \<open>A disguise: the rule whose matches differ, the rules before and after it, the exchange of values.\<close>

record disguise =
  ds_before :: "compiled_rule list"
  ds_rule :: compiled_rule
  ds_after :: "compiled_rule list"
  ds_exchange :: "string \<Rightarrow> string"

definition disguise_ok :: "redaction_engine \<Rightarrow> disguise \<Rightarrow> bool" where
  "disguise_ok E D \<longleftrightarrow>
     re_rules E = ds_before D @ ds_rule D # ds_after D \<and>
     list_all (\<lambda>r. cr_name r \<noteq> cr_name (ds_rule D)) (ds_before D @ ds_after D) \<and>
     inj (ds_exchange D)"

text \<open>The value that the second session holds where the first holds \<open>v\<close> under the rule \<open>nm\<close>.\<close>

definition exchanged :: "disguise \<Rightarrow> string \<Rightarrow> string \<Rightarrow> string" where
  "exchanged D nm v = (if nm = cr_name (ds_rule D) then ds_exchange D v else v)"

definition in_step :: "redaction_engine \<Rightarrow> disguise \<Rightarrow> redaction_session \<Rightarrow> redaction_session \<Rightarrow> bool" where
  "in_step E D S1 S2 \<longleftrightarrow>
     session_ok S1 \<and> session_ok S2 \<and> ses_engine S1 = E \<and> ses_engine S2 = E \<and> disguise_ok E D \<and>
     keys S1 = keys S2 \<and> counters (ses_vault S1) = counters (ses_vault S2) \<and>
     (\<forall>nm v. value_to_token (ses_vault S1) (nm, v) = value_to_token (ses_vault S2) (nm, exchanged D nm v))"

lemma exchanged_eq: "disguise_ok E D \<Longrightarrow> exchanged D nm v = exchanged D nm w \<longleftrightarrow> v = w"
  by (auto simp: exchanged_def disguise_ok_def dest: injD)

lemma in_step_new: "engine_ok E \<Longrightarrow> disguise_ok E D \<Longrightarrow> in_step E D (new_session E) (new_session E)"
  using new_session_ok [of E] by (simp add: in_step_def new_session_def)

lemma in_step_vaults:
  assumes "in_step E D S1 S2" "session_ok T1" "ses_vault T1 = ses_vault S1" "ses_engine T1 = ses_engine S1"
    "session_ok T2" "ses_vault T2 = ses_vault S2" "ses_engine T2 = ses_engine S2"
  shows "in_step E D T1 T2"
  using assms by (simp add: in_step_def)

lemma token_for_counters:
  assumes "token_for S rule v = (Inr tok, S')" "value_to_token (ses_vault S) (cr_name rule, v) = None"
  shows "counters (ses_vault S') =
    (counters (ses_vault S))(cr_name rule \<mapsto> unwrap_or (counters (ses_vault S) (cr_name rule)) 0 + 1)"
  using assms by (auto simp: token_for_def Let_def split: if_splits option.splits)

lemma token_for_in_step:
  assumes st: "in_step E D S1 S2" and rule: "rule \<in> set (re_rules E)"
    and t1: "token_for S1 rule v = (r1, S1')" and t2: "token_for S2 rule (exchanged D (cr_name rule) v) = (r2, S2')"
  shows "r1 = r2 \<and> in_step E D S1' S2'"
proof -
  let ?w = "exchanged D (cr_name rule) v"
  have ok: "session_ok S1" "rule \<in> set (re_rules (ses_engine S1))" "session_ok S2" "rule \<in> set (re_rules (ses_engine S2))"
    and dis: "disguise_ok E D" and eng: "ses_engine S1 = E" "ses_engine S2 = E"
    and ks: "keys S1 = keys S2" and cs: "counters (ses_vault S1) = counters (ses_vault S2)"
    and vt: "\<And>nm v. value_to_token (ses_vault S1) (nm, v) = value_to_token (ses_vault S2) (nm, exchanged D nm v)"
    using st rule by (simp_all add: in_step_def)
  have tc: "token_count S1 = token_count S2" using ks by (metis token_count_def length_map)
  from ok(1,2) show ?thesis
  proof (cases rule: token_for_cases [of S1 rule v])
    case (reuse tok)
    then have "value_to_token (ses_vault S2) (cr_name rule, ?w) = Some tok" using vt by metis
    then have "token_for S2 rule ?w = (Inr tok, S2)" by (simp add: token_for_def Let_def)
    with reuse t1 t2 st show ?thesis by simp
  next
    case cap
    then have n: "value_to_token (ses_vault S2) (cr_name rule, ?w) = None" using vt by metis
    then have "token_for S2 rule ?w = (Inl cap_error, S2)"
      using cap(2) tc by (simp add: token_for_def Let_def token_count_def)
    with cap t1 t2 st show ?thesis by simp
  next
    case (fresh tok T1)
    have n: "value_to_token (ses_vault S2) (cr_name rule, ?w) = None" using vt fresh(8) by metis
    from ok(3,4) show ?thesis
    proof (cases rule: token_for_cases [of S2 rule ?w])
      case (reuse tok')
      with n show ?thesis by simp
    next
      case cap
      then have "token_for S1 rule v = (Inl cap_error, S1)"
        using fresh(8) tc by (simp add: token_for_def Let_def token_count_def)
      with fresh(1) show ?thesis by simp
    next
      case second: (fresh tok' T2)
      have tok: "tok' = tok" using fresh(9) second(9) cs by simp
      have "counters (ses_vault T1) = counters (ses_vault T2)"
        using token_for_counters [OF fresh(1,8)] token_for_counters [OF second(1,8)] cs by simp
      moreover have "value_to_token (ses_vault T1) (nm, u) = value_to_token (ses_vault T2) (nm, exchanged D nm u)" for nm u
        using vt exchanged_eq [OF dis] by (auto simp: fresh(7) second(7) tok)
      moreover have "ses_engine T1 = ses_engine S1" "ses_engine T2 = ses_engine S2"
        using fresh(3) second(3) by (simp_all add: extends_def)
      ultimately have "in_step E D T1 T2"
        using fresh(2,5) second(2,5) ks eng dis tok by (simp add: in_step_def)
      with fresh(1) second(1) t1 t2 tok show ?thesis by simp
    qed
  qed
qed

section \<open>Texts that differ in matches\<close>

text \<open>
  Two texts with their matches, from a position on: the pieces between the matches are equal, and
  the matches are exchanged; a match that differs is not one that the allow list lets through.
\<close>

fun aligned :: "redaction_engine \<Rightarrow> (string \<Rightarrow> string) \<Rightarrow> string \<Rightarrow> nat \<Rightarrow> (nat \<times> nat) list \<Rightarrow> string \<Rightarrow> nat
    \<Rightarrow> (nat \<times> nat) list \<Rightarrow> bool" where
  "aligned E f t l [] u k [] \<longleftrightarrow> drop l t = drop k u"
| "aligned E f t l ((s, e) # ms) u k ((s', e') # ms') \<longleftrightarrow>
     substr t l s = substr u k s' \<and> substr u s' e' = f (substr t s e) \<and>
     (substr u s' e' = substr t s e \<or> \<not> is_allowed E (substr t s e) \<and> \<not> is_allowed E (substr u s' e')) \<and>
     aligned E f t e ms u e' ms'"
| "aligned E f t l ms u k ms' \<longleftrightarrow> False"

text \<open>No token that a rule of the engine could mint occurs in the text.\<close>

definition token_free :: "redaction_engine \<Rightarrow> string \<Rightarrow> bool" where
  "token_free E t \<longleftrightarrow> (\<forall>r \<in> set (re_rules E). \<forall>n. \<not> sublist (mint (cr_template r) n) t)"

definition alike_text :: "redaction_engine \<Rightarrow> disguise \<Rightarrow> string \<Rightarrow> string \<Rightarrow> bool" where
  "alike_text E D t u \<longleftrightarrow>
     token_free E t \<and> token_free E u \<and>
     list_all (\<lambda>r. rx_find_iter (cr_regex r) t = [] \<and> rx_find_iter (cr_regex r) u = []) (ds_before D) \<and>
     aligned E (ds_exchange D) t 0 (rx_find_iter (cr_regex (ds_rule D)) t) u 0 (rx_find_iter (cr_regex (ds_rule D)) u)"

lemma lm_iter_none: "(\<And>j. tok_at ps (drop j t) = None) \<Longrightarrow> lm_iter ps i k t = []"
proof (induction ps i k t rule: lm_iter.induct)
  case (2 ps i k x xs)
  have "tok_at ps (drop j xs) = None" for j using 2(2) [of "Suc j"] by simp
  with 2(1) show ?case by simp
next
  case (3 ps i x xs)
  have "tok_at ps (drop j xs) = None" for j using "3.prems" [of "Suc j"] by simp
  with "3.IH" "3.prems" [of 0] show ?case by (auto split: option.split)
qed simp

lemma token_free_spans:
  assumes "session_ok S" "token_free (ses_engine S) t"
  shows "lm_iter (keys S) i k t = []"
proof (rule lm_iter_none)
  have "\<not> prefix p (drop j t)" if p: "p \<in> set (keys S)" for p j
  proof
    assume pre: "prefix p (drop j t)"
    from p assms(1) obtain r n where "r \<in> set (re_rules (ses_engine S))" "p = mint (cr_template r) n"
      by (auto simp: session_ok_def vault_ok_def minted_def)
    moreover from pre obtain zs where "drop j t = p @ zs" by (auto simp: prefix_def)
    then have "t = take j t @ p @ zs" by (metis append_take_drop_id)
    then have "sublist p t" by (metis sublist_def)
    ultimately show False using assms(2) unfolding token_free_def by blast
  qed
  then show "tok_at (keys S) (drop j t) = None" for j by (simp add: tok_at_None)
qed

text \<open>The loop on texts that are aligned, where no earlier token is in the way.\<close>

lemma redact_loop_aligned:
  "aligned E f t l ms u k ms' \<Longrightarrow> f = ds_exchange D \<Longrightarrow> in_step E D S1 S2 \<Longrightarrow>
   redact_loop S1 (ds_rule D) [] t ms result l c = (r1, S1') \<Longrightarrow>
   redact_loop S2 (ds_rule D) [] u ms' result k c = (r2, S2') \<Longrightarrow>
   in_step E D S1' S2' \<and>
   map_sum id (\<lambda>r. fst r @ drop (fst (snd r)) t) r1 = map_sum id (\<lambda>r. fst r @ drop (fst (snd r)) u) r2"
proof (induction E f t l ms u k ms' arbitrary: S1 S2 result c rule: aligned.induct)
  case (2 E f t l s e ms u k s' e' ms')
  let ?m = "substr t s e" let ?m' = "substr u s' e'" let ?x = "result @ substr t l s"
  have eng: "ses_engine S1 = E" "ses_engine S2 = E" and rl: "ds_rule D \<in> set (re_rules E)"
    using "2.prems"(3) by (simp_all add: in_step_def disguise_ok_def)
  have al: "aligned E f t e ms u e' ms'" and same: "substr t l s = substr u k s'"
    and ex: "?m' = exchanged D (cr_name (ds_rule D)) ?m" and allow: "is_allowed E ?m' = is_allowed E ?m"
    "is_allowed E ?m \<Longrightarrow> ?m' = ?m"
    using "2.prems"(1,2) by (auto simp: exchanged_def)
  note no = overlaps_def
  show ?case
  proof (cases "is_allowed E ?m")
    case True
    with "2.prems"(4,5) eng allow(1) allow(2) [OF True] same
    have "redact_loop S1 (ds_rule D) [] t ms (?x @ ?m) e True = (r1, S1')"
      "redact_loop S2 (ds_rule D) [] u ms' (?x @ ?m) e' True = (r2, S2')" by (simp_all add: no Let_def)
    with "2.IH" [OF al "2.prems"(2) "2.prems"(3)] show ?thesis by simp
  next
    case False
    obtain q1 T1 where q1: "token_for S1 (ds_rule D) ?m = (q1, T1)" by fastforce
    obtain q2 T2 where q2: "token_for S2 (ds_rule D) ?m' = (q2, T2)" by fastforce
    have q: "q1 = q2" "in_step E D T1 T2"
      using token_for_in_step [OF "2.prems"(3) rl q1] q2 ex by simp_all
    have na: "\<not> is_allowed E ?m'" using False allow by simp
    show ?thesis
    proof (cases q1)
      case (Inl err)
      with "2.prems"(4,5) False na q1 q2 q same eng show ?thesis by (auto simp: no Let_def)
    next
      case (Inr tok)
      then have "token_for S1 (ds_rule D) ?m = (Inr tok, T1)" "token_for S2 (ds_rule D) ?m' = (Inr tok, T2)"
        using q1 q2 q(1) by simp_all
      with "2.prems"(4,5) False na same eng
      have "redact_loop T1 (ds_rule D) [] t ms (?x @ tok) e True = (r1, S1')"
        "redact_loop T2 (ds_rule D) [] u ms' (?x @ tok) e' True = (r2, S2')" by (simp_all add: no Let_def)
      with "2.IH" [OF al "2.prems"(2) q(2)] show ?thesis by simp
    qed
  qed
qed auto

text \<open>The loop of another rule on one text.\<close>

lemma redact_loop_other:
  "redact_loop S1 rule spans t ms result l c = (r1, S1') \<Longrightarrow> redact_loop S2 rule spans t ms result l c = (r2, S2') \<Longrightarrow>
   in_step E D S1 S2 \<Longrightarrow> rule \<in> set (re_rules E) \<Longrightarrow> cr_name rule \<noteq> cr_name (ds_rule D) \<Longrightarrow>
   r1 = r2 \<and> in_step E D S1' S2'"
proof (induction S1 rule spans t ms result l c arbitrary: S2 rule: redact_loop.induct)
  case (2 S1 rule spans t s e ms result l c)
  let ?m = "substr t s e"
  have eng: "ses_engine S1 = E" "ses_engine S2 = E" using "2.prems"(3) by (simp_all add: in_step_def)
  have ex: "exchanged D (cr_name rule) ?m = ?m" using "2.prems"(5) by (simp add: exchanged_def)
  show ?case
  proof (cases "overlaps spans s e \<or> is_allowed E ?m")
    case True
    then show ?thesis using "2.IH"(1,2) "2.prems" eng by (auto simp: Let_def split: if_splits)
  next
    case False
    obtain q1 T1 where q1: "token_for S1 rule ?m = (q1, T1)" by fastforce
    obtain q2 T2 where q2: "token_for S2 rule ?m = (q2, T2)" by fastforce
    have q: "q1 = q2" "in_step E D T1 T2"
      using token_for_in_step [OF "2.prems"(3,4) q1] q2 ex by simp_all
    show ?thesis
    proof (cases q1)
      case (Inl err)
      with "2.prems"(1,2) False q1 q2 q eng show ?thesis by (auto simp: Let_def)
    next
      case (Inr tok)
      then have "token_for S1 rule ?m = (Inr tok, T1)" "token_for S2 rule ?m = (Inr tok, T2)"
        using q1 q2 q(1) by simp_all
      with "2.prems"(1,2) False eng
      have "redact_loop T1 rule spans t ms ((result @ substr t l s) @ tok) e True = (r1, S1')"
        "redact_loop T2 rule spans t ms ((result @ substr t l s) @ tok) e True = (r2, S2')" by (simp_all add: Let_def)
      with "2.IH"(3) [OF _ refl refl _ q1 [unfolded Inr, symmetric] refl _ _ q(2)] False "2.prems"(4,5) eng show ?thesis by auto
    qed
  qed
qed auto


section \<open>One rule, all rules\<close>

text \<open>The rule's pass in terms of its loop alone.\<close>

lemma redact_rule_loop:
  assumes "session_ok S" "matcher_ok A" "redact_rule A S rule t = (r, S')"
  obtains T q where "session_ok T" "ses_vault T = ses_vault S" "ses_engine T = ses_engine S"
    "redact_loop T rule (lm_iter (keys S) 0 0 t) t (rx_find_iter (cr_regex rule) t) [] 0 False = (q, S')"
    "r = map_sum id (\<lambda>x. fst x @ drop (fst (snd x)) t) q"
proof -
  obtain x T where w: "with_automaton A S (\<lambda>ac. ac_find_iter A ac t) = (x, T)" by fastforce
  obtain q S2 where l: "redact_loop T rule (lm_iter (keys S) 0 0 t) t (rx_find_iter (cr_regex rule) t) [] 0 False = (q, S2)"
    by fastforce
  have "S2 = S' \<and> r = map_sum id (\<lambda>x. fst x @ drop (fst (snd x)) t) q"
  proof (cases q)
    case (Inl e)
    with assms(3) w l with_automaton_spans [OF assms(1,2) w] show ?thesis by (simp add: redact_rule_def)
  next
    case (Inr z)
    obtain a b c where z: "z = (a, b, c)" by (cases z)
    then have "\<not> c \<Longrightarrow> a = [] \<and> b = 0" using redact_loop_unchanged [OF l [unfolded Inr z]] by simp
    with assms(3) w l with_automaton_spans [OF assms(1,2) w] Inr z show ?thesis
      by (auto simp: redact_rule_def split: if_splits)
  qed
  with that [of T q] with_automaton_ok(1-3) [OF assms(1,2) w] l show thesis by simp
qed

lemma redact_rule_other:
  assumes st: "in_step E D S1 S2" and A: "matcher_ok A" and rule: "rule \<in> set (re_rules E)" "cr_name rule \<noteq> cr_name (ds_rule D)"
    and run: "redact_rule A S1 rule t = (r1, S1')" "redact_rule A S2 rule t = (r2, S2')"
  shows "r1 = r2 \<and> in_step E D S1' S2'"
proof -
  have ok: "session_ok S1" "session_ok S2" "keys S1 = keys S2" using st by (simp_all add: in_step_def)
  obtain T1 q1 where 1: "session_ok T1" "ses_vault T1 = ses_vault S1" "ses_engine T1 = ses_engine S1"
    "redact_loop T1 rule (lm_iter (keys S1) 0 0 t) t (rx_find_iter (cr_regex rule) t) [] 0 False = (q1, S1')"
    "r1 = map_sum id (\<lambda>x. fst x @ drop (fst (snd x)) t) q1"
    by (rule redact_rule_loop [OF ok(1) A run(1)])
  obtain T2 q2 where 2: "session_ok T2" "ses_vault T2 = ses_vault S2" "ses_engine T2 = ses_engine S2"
    "redact_loop T2 rule (lm_iter (keys S2) 0 0 t) t (rx_find_iter (cr_regex rule) t) [] 0 False = (q2, S2')"
    "r2 = map_sum id (\<lambda>x. fst x @ drop (fst (snd x)) t) q2"
    by (rule redact_rule_loop [OF ok(2) A run(2)])
  from redact_loop_other [OF 1(4) 2(4) [folded ok(3)] in_step_vaults [OF st 1(1-3) 2(1-3)] rule] 1(5) 2(5)
  show ?thesis by simp
qed

lemma redact_rule_aligned:
  assumes st: "in_step E D S1 S2" and A: "matcher_ok A" and alike: "alike_text E D t u"
    and run: "redact_rule A S1 (ds_rule D) t = (r1, S1')" "redact_rule A S2 (ds_rule D) u = (r2, S2')"
  shows "r1 = r2 \<and> in_step E D S1' S2'"
proof -
  have ok: "session_ok S1" "session_ok S2" "ses_engine S1 = E" "ses_engine S2 = E" using st by (simp_all add: in_step_def)
  have free: "lm_iter (keys S1) 0 0 t = []" "lm_iter (keys S2) 0 0 u = []"
    using token_free_spans [OF ok(1)] token_free_spans [OF ok(2)] alike ok(3,4) by (simp_all add: alike_text_def)
  obtain T1 q1 where 1: "session_ok T1" "ses_vault T1 = ses_vault S1" "ses_engine T1 = ses_engine S1"
    "redact_loop T1 (ds_rule D) [] t (rx_find_iter (cr_regex (ds_rule D)) t) [] 0 False = (q1, S1')"
    "r1 = map_sum id (\<lambda>x. fst x @ drop (fst (snd x)) t) q1"
    by (rule redact_rule_loop [OF ok(1) A run(1), unfolded free(1)])
  obtain T2 q2 where 2: "session_ok T2" "ses_vault T2 = ses_vault S2" "ses_engine T2 = ses_engine S2"
    "redact_loop T2 (ds_rule D) [] u (rx_find_iter (cr_regex (ds_rule D)) u) [] 0 False = (q2, S2')"
    "r2 = map_sum id (\<lambda>x. fst x @ drop (fst (snd x)) u) q2"
    by (rule redact_rule_loop [OF ok(2) A run(2), unfolded free(2)])
  have "aligned E (ds_exchange D) t 0 (rx_find_iter (cr_regex (ds_rule D)) t) u 0 (rx_find_iter (cr_regex (ds_rule D)) u)"
    using alike by (simp add: alike_text_def)
  from redact_loop_aligned [OF this refl in_step_vaults [OF st 1(1-3) 2(1-3)] 1(4) 2(4)] 1(5) 2(5)
  show ?thesis by simp
qed

lemma redact_rules_other:
  "redact_rules A S1 rules t = (r1, S1') \<Longrightarrow> redact_rules A S2 rules t = (r2, S2') \<Longrightarrow> in_step E D S1 S2 \<Longrightarrow> matcher_ok A \<Longrightarrow>
   set rules \<subseteq> set (re_rules E) \<Longrightarrow> list_all (\<lambda>r. cr_name r \<noteq> cr_name (ds_rule D)) rules \<Longrightarrow>
   r1 = r2 \<and> in_step E D S1' S2'"
proof (induction rules arbitrary: S1 S2 t)
  case (Cons rule rules)
  obtain q1 T1 where 1: "redact_rule A S1 rule t = (q1, T1)" by fastforce
  obtain q2 T2 where 2: "redact_rule A S2 rule t = (q2, T2)" by fastforce
  have q: "q1 = q2" "in_step E D T1 T2"
    using redact_rule_other [OF Cons.prems(3,4) _ _ 1 2] Cons.prems(5,6) by simp_all
  show ?case
  proof (cases q2)
    case (Inl e)
    with q 1 2 Cons.prems(1,2) show ?thesis by auto
  next
    case (Inr t')
    then have "redact_rules A T1 rules t' = (r1, S1')" "redact_rules A T2 rules t' = (r2, S2')"
      using q 1 2 Cons.prems(1,2) by simp_all
    with Cons.IH q(2) Cons.prems(4-6) show ?thesis by simp
  qed
qed simp

lemma redact_rules_idle:
  "redact_rules A S (pre @ rules) t = (r, S') \<Longrightarrow> session_ok S \<Longrightarrow> matcher_ok A \<Longrightarrow>
   list_all (\<lambda>r. rx_find_iter (cr_regex r) t = []) pre \<Longrightarrow>
   \<exists>T. session_ok T \<and> ses_vault T = ses_vault S \<and> ses_engine T = ses_engine S \<and> redact_rules A T rules t = (r, S')"
proof (induction pre arbitrary: S)
  case (Cons rule pre)
  obtain q T where q: "redact_rule A S rule t = (q, T)" by fastforce
  obtain T0 q0 where "session_ok T0" "ses_vault T0 = ses_vault S" "ses_engine T0 = ses_engine S"
    "redact_loop T0 rule (lm_iter (keys S) 0 0 t) t (rx_find_iter (cr_regex rule) t) [] 0 False = (q0, T)"
    "q = map_sum id (\<lambda>x. fst x @ drop (fst (snd x)) t) q0"
    by (rule redact_rule_loop [OF Cons.prems(2,3) q])
  then have T: "session_ok T" "ses_vault T = ses_vault S" "ses_engine T = ses_engine S" "q = Inr t"
    using Cons.prems(4) by auto
  then have "redact_rules A T (pre @ rules) t = (r, S')" using Cons.prems(1) q by simp
  from Cons.IH [OF this T(1) Cons.prems(3)] Cons.prems(4) T(2,3) show ?case by simp
qed auto

lemma redact_text_in_step:
  assumes st: "in_step E D S1 S2" and A: "matcher_ok A" and alike: "alike_text E D t u"
    and run: "redact_text A S1 t = (r1, S1')" "redact_text A S2 u = (r2, S2')"
  shows "r1 = r2 \<and> in_step E D S1' S2'"
proof -
  have ok: "session_ok S1" "session_ok S2" and rules: "re_rules E = ds_before D @ ds_rule D # ds_after D"
    and eng: "ses_engine S1 = E" "ses_engine S2 = E"
    and names: "list_all (\<lambda>r. cr_name r \<noteq> cr_name (ds_rule D)) (ds_after D)"
    using st by (simp_all add: in_step_def disguise_ok_def)
  obtain T1 where 1: "session_ok T1" "ses_vault T1 = ses_vault S1" "ses_engine T1 = ses_engine S1"
    "redact_rules A T1 (ds_rule D # ds_after D) t = (r1, S1')"
    using redact_rules_idle [OF _ ok(1) A, of "ds_before D"] run(1) alike rules eng
    by (fastforce simp: redact_text_def alike_text_def list_all_iff)
  obtain T2 where 2: "session_ok T2" "ses_vault T2 = ses_vault S2" "ses_engine T2 = ses_engine S2"
    "redact_rules A T2 (ds_rule D # ds_after D) u = (r2, S2')"
    using redact_rules_idle [OF _ ok(2) A, of "ds_before D"] run(2) alike rules eng
    by (fastforce simp: redact_text_def alike_text_def list_all_iff)
  have stT: "in_step E D T1 T2" using in_step_vaults [OF st 1(1-3) 2(1-3)] .
  obtain q1 U1 where q1: "redact_rule A T1 (ds_rule D) t = (q1, U1)" by fastforce
  obtain q2 U2 where q2: "redact_rule A T2 (ds_rule D) u = (q2, U2)" by fastforce
  have q: "q1 = q2" "in_step E D U1 U2" using redact_rule_aligned [OF stT A alike q1 q2] by simp_all
  show ?thesis
  proof (cases q2)
    case (Inl e)
    with q q1 q2 1(4) 2(4) show ?thesis by auto
  next
    case (Inr t')
    then have "redact_rules A U1 (ds_after D) t' = (r1, S1')" "redact_rules A U2 (ds_after D) t' = (r2, S2')"
      using q q1 q2 1(4) 2(4) by simp_all
    from redact_rules_other [OF this q(2) A _ names] show ?thesis by (simp add: rules subset_iff)
  qed
qed

section \<open>The contract, and its lifting\<close>

locale oblivious =
  fixes redact :: "matcher \<Rightarrow> redaction_session \<Rightarrow> 'a \<Rightarrow> 'a result \<times> redaction_session"
    and alike :: "redaction_engine \<Rightarrow> disguise \<Rightarrow> 'a \<Rightarrow> 'a \<Rightarrow> bool"
  assumes step: "\<lbrakk>in_step E D S1 S2; matcher_ok A; alike E D x1 x2; redact A S1 x1 = (r1, S1'); redact A S2 x2 = (r2, S2')\<rbrakk>
      \<Longrightarrow> r1 = r2 \<and> in_step E D S1' S2'"
begin

lemma each_step:
  "\<lbrakk>in_step E D S1 S2; matcher_ok A; list_all2 (alike E D) xs ys; redact_each (redact A) S1 xs = (r1, S1');
    redact_each (redact A) S2 ys = (r2, S2')\<rbrakk> \<Longrightarrow> r1 = r2 \<and> in_step E D S1' S2'"
proof (induction xs arbitrary: S1 S2 ys r1 r2 S1' S2')
  case (Cons x xs)
  from Cons.prems(3) obtain y ys' where ys: "ys = y # ys'" "alike E D x y" "list_all2 (alike E D) xs ys'"
    by (auto simp: list_all2_Cons1)
  obtain q1 T1 where q1: "redact A S1 x = (q1, T1)" by fastforce
  obtain q2 T2 where q2: "redact A S2 y = (q2, T2)" by fastforce
  have q: "q1 = q2" "in_step E D T1 T2" using step [OF Cons.prems(1,2) ys(2) q1 q2] by simp_all
  show ?case
  proof (cases q2)
    case (Inl e)
    with q q1 q2 Cons.prems(4,5) show ?thesis by (auto simp: ys)
  next
    case (Inr z)
    obtain p1 U1 where p1: "redact_each (redact A) T1 xs = (p1, U1)" by fastforce
    obtain p2 U2 where p2: "redact_each (redact A) T2 ys' = (p2, U2)" by fastforce
    from Cons.IH [OF q(2) Cons.prems(2) ys(3) p1 p2] have "p1 = p2" "in_step E D U1 U2" by simp_all
    with q q1 q2 p1 p2 Inr Cons.prems(4,5) show ?thesis by (cases p2) (auto simp: ys)
  qed
qed auto

text \<open>The callers pass an error on and wrap a result.\<close>

lemma wrapped:
  assumes "in_step E D S1 S2" "matcher_ok A" "alike E D x1 x2"
    and "(case redact A S1 x1 of (Inl e, S) \<Rightarrow> (Inl e, S) | (Inr y, S) \<Rightarrow> (Inr (C y), S)) = (r1, S1')"
    and "(case redact A S2 x2 of (Inl e, S) \<Rightarrow> (Inl e, S) | (Inr y, S) \<Rightarrow> (Inr (C y), S)) = (r2, S2')"
  shows "r1 = r2 \<and> in_step E D S1' S2'"
proof -
  obtain a1 T1 where 1: "redact A S1 x1 = (a1, T1)" by fastforce
  obtain a2 T2 where 2: "redact A S2 x2 = (a2, T2)" by fastforce
  from step [OF assms(1-3) 1 2] assms(4,5) 1 2 show ?thesis by (cases a2) auto
qed

lemma oblivious_each: "oblivious (\<lambda>A. redact_each (redact A)) (\<lambda>E D. list_all2 (alike E D))"
  by unfold_locales (rule each_step)

end

interpretation text_step: oblivious redact_text alike_text
  by unfold_locales (rule redact_text_in_step)

fun alike_json :: "redaction_engine \<Rightarrow> disguise \<Rightarrow> value \<Rightarrow> value \<Rightarrow> bool" where
  "alike_json E D (String s) w = (case w of String t \<Rightarrow> alike_text E D s t | _ \<Rightarrow> False)"
| "alike_json E D (Array vs) w =
     (case w of Array ws \<Rightarrow> list_all2 (alike_json E D) vs ws | _ \<Rightarrow> False)"
| "alike_json E D (Object m) w =
     (case w of Object m' \<Rightarrow> list_all2 (\<lambda>(k, v) (k', v'). k = k' \<and> alike_json E D v v') m m' | _ \<Rightarrow> False)"
| "alike_json E D v w \<longleftrightarrow> v = w"

lemma redact_json_in_step:
  "redact_json A S1 v = (r1, S1') \<Longrightarrow> redact_json A S2 w = (r2, S2') \<Longrightarrow> matcher_ok A \<Longrightarrow> in_step E D S1 S2 \<Longrightarrow>
   alike_json E D v w \<Longrightarrow> r1 = r2 \<and> in_step E D S1' S2'"
  "redact_items A S1 vs = (q1, S1') \<Longrightarrow> redact_items A S2 ws = (q2, S2') \<Longrightarrow> matcher_ok A \<Longrightarrow> in_step E D S1 S2 \<Longrightarrow>
   list_all2 (alike_json E D) vs ws \<Longrightarrow> q1 = q2 \<and> in_step E D S1' S2'"
  "redact_entries A S1 m = (p1, S1') \<Longrightarrow> redact_entries A S2 m' = (p2, S2') \<Longrightarrow> matcher_ok A \<Longrightarrow> in_step E D S1 S2 \<Longrightarrow>
   list_all2 (\<lambda>(k, v) (k', v'). k = k' \<and> alike_json E D v v') m m' \<Longrightarrow> p1 = p2 \<and> in_step E D S1' S2'"
proof (induction A S1 v and A S1 vs and A S1 m arbitrary: w r1 r2 S2 S1' S2' and ws q1 q2 S2 S1' S2' and m' p1 p2 S2 S1' S2'
    rule: redact_json_redact_items_redact_entries.induct)
  case (1 A S1 s)
  then obtain t where w: "w = String t" "alike_text E D s t" by (cases w) auto
  obtain a1 T1 where 1: "redact_text A S1 s = (a1, T1)" by fastforce
  obtain a2 T2 where 2: "redact_text A S2 t = (a2, T2)" by fastforce
  from text_step.step [OF "1.prems"(4,3) w(2) 1 2] "1.prems"(1,2) 1 2 show ?case by (cases a2) (auto simp: w)
next
  case (2 A S1 vs)
  then obtain ws where w: "w = Array ws" "list_all2 (alike_json E D) vs ws" by (cases w) auto
  obtain a1 T1 where 1: "redact_items A S1 vs = (a1, T1)" by fastforce
  obtain a2 T2 where 2: "redact_items A S2 ws = (a2, T2)" by fastforce
  from "2.IH" [OF 1 2 "2.prems"(3,4) w(2)] "2.prems"(1,2) 1 2 show ?case by (cases a2) (auto simp: w)
next
  case (3 A S1 m)
  then obtain m' where w: "w = Object m'" "list_all2 (\<lambda>(k, v) (k', v'). k = k' \<and> alike_json E D v v') m m'"
    by (cases w) auto
  obtain a1 T1 where 1: "redact_entries A S1 m = (a1, T1)" by fastforce
  obtain a2 T2 where 2: "redact_entries A S2 m' = (a2, T2)" by fastforce
  from "3.IH" [OF 1 2 "3.prems"(3,4) w(2)] "3.prems"(1,2) 1 2 show ?case by (cases a2) (auto simp: w)
next
  case (6 A S1 v vs)
  from "6.prems"(5) obtain u us where ws: "ws = u # us" "alike_json E D v u" "list_all2 (alike_json E D) vs us"
    by (auto simp: list_all2_Cons1)
  obtain a1 T1 where 1: "redact_json A S1 v = (a1, T1)" by fastforce
  obtain a2 T2 where 2: "redact_json A S2 u = (a2, T2)" by fastforce
  have q: "a1 = a2" "in_step E D T1 T2" using "6.IH"(1) [OF 1 2 "6.prems"(3,4) ws(2)] by simp_all
  show ?case
  proof (cases a2)
    case (Inl e)
    with q 1 2 "6.prems"(1,2) show ?thesis by (auto simp: ws)
  next
    case (Inr y)
    obtain b1 U1 where b1: "redact_items A T1 vs = (b1, U1)" by fastforce
    obtain b2 U2 where b2: "redact_items A T2 us = (b2, U2)" by fastforce
    from "6.IH"(2) [OF 1 [symmetric] _ b1 b2 "6.prems"(3) q(2) ws(3)] q(1) Inr have "b1 = b2" "in_step E D U1 U2" by auto
    with q 1 2 b1 b2 Inr "6.prems"(1,2) show ?thesis by (cases b2) (auto simp: ws)
  qed
next
  case (8 A S1 k v m)
  from "8.prems"(5) obtain u us where ms: "m' = (k, u) # us" "alike_json E D v u"
    "list_all2 (\<lambda>(k, v) (k', v'). k = k' \<and> alike_json E D v v') m us"
    by (auto simp: list_all2_Cons1)
  obtain a1 T1 where 1: "redact_json A S1 v = (a1, T1)" by fastforce
  obtain a2 T2 where 2: "redact_json A S2 u = (a2, T2)" by fastforce
  have q: "a1 = a2" "in_step E D T1 T2" using "8.IH"(1) [OF 1 2 "8.prems"(3,4) ms(2)] by simp_all
  show ?case
  proof (cases a2)
    case (Inl e)
    with q 1 2 "8.prems"(1,2) show ?thesis by (auto simp: ms)
  next
    case (Inr y)
    obtain b1 U1 where b1: "redact_entries A T1 m = (b1, U1)" by fastforce
    obtain b2 U2 where b2: "redact_entries A T2 us = (b2, U2)" by fastforce
    from "8.IH"(2) [OF 1 [symmetric] _ b1 b2 "8.prems"(3) q(2) ms(3)] q(1) Inr have "b1 = b2" "in_step E D U1 U2" by auto
    with q 1 2 b1 b2 Inr "8.prems"(1,2) show ?thesis by (cases b2) (auto simp: ms)
  qed
qed auto

interpretation json_step: oblivious redact_json alike_json
  by unfold_locales (rule redact_json_in_step(1))

fun alike_block :: "redaction_engine \<Rightarrow> disguise \<Rightarrow> content_block \<Rightarrow> content_block \<Rightarrow> bool" where
  "alike_block E D (Text t) b = (case b of Text u \<Rightarrow> alike_text E D t u | _ \<Rightarrow> False)"
| "alike_block E D (Thinking t sig) b =
     (case b of Thinking u sig' \<Rightarrow> alike_text E D t u \<and> sig' = sig | _ \<Rightarrow> False)"
| "alike_block E D (ToolResult i c e) b =
     (case b of ToolResult i' c' e' \<Rightarrow> alike_text E D c c' \<and> i' = i \<and> e' = e | _ \<Rightarrow> False)"
| "alike_block E D (ToolUse i nm v) b =
     (case b of ToolUse i' nm' v' \<Rightarrow> alike_json E D v v' \<and> i' = i \<and> nm' = nm | _ \<Rightarrow> False)"
| "alike_block E D b b' \<longleftrightarrow> b = b'"

definition alike_message :: "redaction_engine \<Rightarrow> disguise \<Rightarrow> neutral_message \<Rightarrow> neutral_message \<Rightarrow> bool" where
  "alike_message E D m m' \<longleftrightarrow>
     msg_role m = msg_role m' \<and> list_all2 (alike_block E D) (msg_content m) (msg_content m')"

text \<open>Requests that differ only in the matches of the rule, in what the guard redacts.\<close>

definition alike_request :: "redaction_engine \<Rightarrow> disguise \<Rightarrow> neutral_request \<Rightarrow> neutral_request \<Rightarrow> bool" where
  "alike_request E D q q' \<longleftrightarrow>
     q\<lparr>req_messages := []\<rparr> = q'\<lparr>req_messages := []\<rparr> \<and>
     list_all2 (alike_message E D) (req_messages q) (req_messages q')"

interpretation block_step: oblivious redact_block alike_block
proof unfold_locales
  fix E D S1 S2 A x1 x2 r1 S1' r2 S2'
  assume st: "in_step E D S1 S2" "matcher_ok A" and x: "alike_block E D x1 x2"
    and run: "redact_block A S1 x1 = (r1, S1')" "redact_block A S2 x2 = (r2, S2')"
  show "r1 = r2 \<and> in_step E D S1' S2'"
  proof (cases x1)
    case (Text t)
    with x obtain u where u: "x2 = Text u" "alike_text E D t u" by (auto split: content_block.splits)
    from text_step.wrapped [OF st u(2), of Text] run show ?thesis by (simp add: Text u)
  next
    case (Thinking t sg)
    with x obtain u where u: "x2 = Thinking u sg" "alike_text E D t u" by (auto split: content_block.splits)
    from text_step.wrapped [OF st u(2), of "\<lambda>y. Thinking y sg"] run show ?thesis by (simp add: Thinking u)
  next
    case (ToolResult i c e)
    with x obtain u where u: "x2 = ToolResult i u e" "alike_text E D c u" by (auto split: content_block.splits)
    from text_step.wrapped [OF st u(2), of "\<lambda>y. ToolResult i y e"] run show ?thesis by (simp add: ToolResult u)
  next
    case (ToolUse i nm v)
    with x obtain w where w: "x2 = ToolUse i nm w" "alike_json E D v w" by (auto split: content_block.splits)
    from json_step.wrapped [OF st w(2), of "ToolUse i nm"] run show ?thesis by (simp add: ToolUse w)
  qed (use x run st in auto)
qed

interpretation blocks_step: oblivious "\<lambda>A. redact_each (redact_block A)" "\<lambda>E D. list_all2 (alike_block E D)"
  by (rule block_step.oblivious_each)

interpretation message_step: oblivious redact_message alike_message
proof unfold_locales
  fix E D S1 S2 A x1 x2 r1 S1' r2 S2'
  assume st: "in_step E D S1 S2" "matcher_ok A" and x: "alike_message E D x1 x2"
    and run: "redact_message A S1 x1 = (r1, S1')" "redact_message A S2 x2 = (r2, S2')"
  have role: "msg_role x1 = msg_role x2" and al: "list_all2 (alike_block E D) (msg_content x1) (msg_content x2)"
    using x by (simp_all add: alike_message_def)
  have "(\<lambda>bs. x2\<lparr>msg_content := bs\<rparr>) = (\<lambda>bs. x1\<lparr>msg_content := bs\<rparr>)"
    using role by (cases x1, cases x2) (simp add: fun_eq_iff)
  then have "\<And>bs. x2\<lparr>msg_content := bs\<rparr> = x1\<lparr>msg_content := bs\<rparr>" by (rule fun_cong)
  from blocks_step.wrapped [OF st al run [unfolded redact_message_def this]] show "r1 = r2 \<and> in_step E D S1' S2'" .
qed

lemma redact_request_in_step:
  assumes "engine_ok E" "disguise_ok E D" "matcher_ok A" "alike_request E D q1 q2"
    and "redact_request A (new_session E) q1 = (r1, out1, S1)" "redact_request A (new_session E) q2 = (r2, out2, S2)"
  shows "r1 = r2 \<and> in_step E D S1 S2 \<and> (r1 = Inr () \<longrightarrow> out1 = out2)"
proof -
  obtain p1 T1 where p1: "redact_each (redact_message A) (new_session E) (req_messages q1) = (p1, T1)" by fastforce
  obtain p2 T2 where p2: "redact_each (redact_message A) (new_session E) (req_messages q2) = (p2, T2)" by fastforce
  have "p1 = p2" "in_step E D T1 T2"
    using message_step.each_step [OF in_step_new [OF assms(1,2)] assms(3) _ p1 p2] assms(4) by (simp_all add: alike_request_def)
  moreover have "q1\<lparr>req_messages := ms\<rparr> = q2\<lparr>req_messages := ms\<rparr>" for ms
    using assms(4) by (cases q1, cases q2) (simp add: alike_request_def)
  ultimately show ?thesis using assms(5,6) p1 p2 by (cases p2) (auto simp: redact_request_def)
qed

end
