(* ===== verification/ClientView.thy ===== *)
theory ClientView
  imports Relay
begin

text \<open>
  The client at the other end of a stream. For each dialect, a decoder of the dialect that reads the
  frames the gateway's encoder wrote gets the same text and the same reasoning as the events that
  were encoded. The contract of one event is a locale, interpreted on the three dialects.
\<close>

section \<open>The contract\<close>

text \<open>The text and the reasoning of events.\<close>

definition said :: "stream_event list \<Rightarrow> string \<times> string" where
  "said es = (concat (map text_part es), concat (map reasoning_part es))"

lemma said_simps:
  "said [] = ([], [])" "said (e # es) = (text_part e @ fst (said es), reasoning_part e @ snd (said es))"
  "said (es @ fs) = (fst (said es) @ fst (said fs), snd (said es) @ snd (said fs))"
  by (simp_all add: said_def)

text \<open>What was printed as this payload is what is read from it.\<close>

definition rereads :: "serde_json \<Rightarrow> string \<Rightarrow> bool" where
  "rereads J p \<longleftrightarrow> (\<forall>v. to_string J v = p \<longrightarrow> from_str J p = Inr v)"

lemma rereadsD: "rereads J (to_string J v) \<Longrightarrow> from_str J (to_string J v) = Inr v"
  by (simp add: rereads_def)

fun feed_list :: "('d \<Rightarrow> string \<Rightarrow> stream_event list \<times> 'd) \<Rightarrow> 'd \<Rightarrow> string list \<Rightarrow> stream_event list \<times> 'd" where
  "feed_list feed d [] = ([], d)"
| "feed_list feed d (p # ps) = (let (es, d1) = feed d p; (fs, d2) = feed_list feed d1 ps in (es @ fs, d2))"

lemma feed_list_append:
  "feed_list feed d (ps @ qs) = (let (es, d1) = feed_list feed d ps; (fs, d2) = feed_list feed d1 qs in (es @ fs, d2))"
  by (induction ps arbitrary: d) (simp_all add: Let_def split: prod.split)

lemma fst_feed_list_append: "fst (feed_list feed d (ps @ qs)) = fst (feed_list feed d ps) @ fst (feed_list feed (snd (feed_list feed d ps)) qs)"
  by (simp add: feed_list_append Let_def split: prod.split)

locale text_codec =
  fixes encode :: "serde_json \<Rightarrow> 'e \<Rightarrow> stream_event \<Rightarrow> string list \<times> 'e"
    and feed :: "serde_json \<Rightarrow> 'd \<Rightarrow> string \<Rightarrow> stream_event list \<times> 'd"
    and lawful :: "serde_json \<Rightarrow> bool"
  assumes said_event: "\<lbrakk>prints_lines J; prints_objects J; lawful J; encode J e ev = (fs, e')\<rbrakk> \<Longrightarrow>
    \<exists>ps. list_all2 carries fs ps \<and> DONE \<notin> set ps \<and>
      (list_all (rereads J) ps \<longrightarrow> (\<forall>d. said (fst (feed_list (feed J) d ps)) = said [ev]))"
begin

lemma said_run:
  "\<lbrakk>prints_lines J; prints_objects J; lawful J; encoder_run (encode J) e evs = (fs, e')\<rbrakk> \<Longrightarrow>
    \<exists>ps. list_all2 carries fs ps \<and> DONE \<notin> set ps \<and>
      (list_all (rereads J) ps \<longrightarrow> (\<forall>d. said (fst (feed_list (feed J) d ps)) = said evs))"
proof (induction evs arbitrary: e fs)
  case (Cons ev evs)
  obtain f1 e1 where f: "encode J e ev = (f1, e1)" by fastforce
  obtain f2 where r: "encoder_run (encode J) e1 evs = (f2, e')" "fs = f1 @ f2"
    using Cons.prems(4) f by (auto split: prod.splits)
  obtain p1 where p1: "list_all2 carries f1 p1" "DONE \<notin> set p1"
    "list_all (rereads J) p1 \<longrightarrow> (\<forall>d. said (fst (feed_list (feed J) d p1)) = said [ev])"
    using said_event [OF Cons.prems(1-3) f] by blast
  obtain p2 where p2: "list_all2 carries f2 p2" "DONE \<notin> set p2"
    "list_all (rereads J) p2 \<longrightarrow> (\<forall>d. said (fst (feed_list (feed J) d p2)) = said evs)"
    using Cons.IH [OF Cons.prems(1-3) r(1)] by blast
  have "said (fst (feed_list (feed J) d (p1 @ p2))) = said (ev # evs)" if "list_all (rereads J) (p1 @ p2)" for d
    using p1(3) p2(3) that by (simp add: fst_feed_list_append said_simps)
  then show ?case using p1(1,2) p2(1,2) unfolding r(2)
    by (intro exI [of _ "p1 @ p2"]) (simp add: list_all2_appendI)
qed (auto simp: said_simps intro: exI [of _ "[]"])

end

text \<open>Encoders that print values as plain frames, and decoders that read values.\<close>

fun values_fed :: "('d \<Rightarrow> value \<Rightarrow> stream_event list \<times> 'd) \<Rightarrow> 'd \<Rightarrow> value list \<Rightarrow> stream_event list \<times> 'd" where
  "values_fed feed d [] = ([], d)"
| "values_fed feed d (v # vs) = (let (es, d1) = feed d v; (fs, d2) = values_fed feed d1 vs in (es @ fs, d2))"

lemma feed_list_values:
  assumes "\<And>d s. feed d s = (case from_str J s of Inl e \<Rightarrow> ([], d) | Inr v \<Rightarrow> feed_value d v)"
  shows "list_all2 (\<lambda>p v. from_str J p = Inr v) ps vs \<Longrightarrow> feed_list feed d ps = values_fed feed_value d vs"
  by (induction arbitrary: d rule: list_all2_induct) (simp_all add: assms Let_def split: prod.split)

lemma rereads_values: "list_all (rereads J) (map (to_string J) vs) \<Longrightarrow> list_all2 (\<lambda>p v. from_str J p = Inr v) (map (to_string J) vs) vs"
  by (induction vs) (simp_all add: rereadsD)

lemma plain_frames:
  assumes "prints_lines J" "prints_objects J" "list_all (\<lambda>v. \<exists>m. v = Object m) vs"
  shows "list_all2 carries (map (\<lambda>v. sse_frame (to_string J v)) vs) (map (to_string J) vs)"
    "DONE \<notin> set (map (to_string J) vs)"
  using assms(1) by (simp add: list_all2_conv_all_nth prints_lines_def carries_frame)
    (use assms(2,3) in \<open>auto simp: prints_objects_def list_all_iff\<close>, metis)

section \<open>OpenAI\<close>

lemma openai_calls_said: "said (fst (openai_stream_tool_calls calls seen)) = ([], [])"
  by (induction calls arbitrary: seen)
    (auto simp: said_simps openai_stream_tool_call_def Let_def case_prod_beta)

lemma openai_delta_said:
  "said (fst (openai_delta delta seen)) =
     (unwrap_or (get_str delta ''content'') [],
      unwrap_or (Option.bind (or_else (value_get delta ''reasoning_content'') (value_get delta ''reasoning'')) as_str) [])"
proof -
  have "said (fst (case get_array delta ''tool_calls'' of Some cs \<Rightarrow> openai_stream_tool_calls cs seen | None \<Rightarrow> ([], seen))) = ([], [])"
    by (simp add: openai_calls_said said_simps split: option.split)
  then show ?thesis
    by (simp add: openai_delta_def said_simps Let_def opt_filter_def case_prod_beta split: option.split)
qed

text \<open>The text that a chunk carries.\<close>

definition openai_chunk_delta :: "value \<Rightarrow> value option" where
  "openai_chunk_delta v =
     Option.bind (get_array v ''choices'') (\<lambda>cs. case cs of [] \<Rightarrow> None | c # _ \<Rightarrow> value_get c ''delta'')"

lemma openai_feed_said:
  "said (fst (openai_feed_value d v)) =
     (if value_get v ''error'' \<noteq> None then ([], [])
      else case openai_chunk_delta v of None \<Rightarrow> ([], []) | Some delta \<Rightarrow> said (fst (openai_delta delta {})))"
proof -
  have start: "said (fst (openai_start d v)) = ([], [])" by (simp add: openai_start_def said_simps)
  have delta: "said (fst (openai_delta delta seen)) = said (fst (openai_delta delta {}))" for delta seen
    by (simp add: openai_delta_said)
  have choice: "said (fst (openai_choice d1 c)) = (case value_get c ''delta'' of None \<Rightarrow> ([], []) | Some delta \<Rightarrow> said (fst (openai_delta delta {})))"
    for d1 c
    using delta by (auto simp: openai_choice_def said_simps Let_def case_prod_beta split: option.split)
  show ?thesis
  proof (cases "Option.bind (get_array v ''choices'') (\<lambda>c. case c of [] \<Rightarrow> None | x # _ \<Rightarrow> Some x)")
    case None
    then have "openai_chunk_delta v = None" unfolding openai_chunk_delta_def
      by (cases "get_array v ''choices''") (simp_all split: list.splits)
    with None start show ?thesis by (simp add: openai_feed_value_def said_simps case_prod_beta split: option.split)
  next
    case (Some c)
    then have "openai_chunk_delta v = value_get c ''delta''" unfolding openai_chunk_delta_def
      by (cases "get_array v ''choices''") (simp_all split: list.splits)
    with Some start choice show ?thesis by (simp add: openai_feed_value_def said_simps case_prod_beta split: option.split)
  qed
qed

lemma openai_chunk_said:
  "said (fst (openai_feed_value d (openai_chunk enc (openai_delta_payload delta finish @ rest))))
    = said (fst (openai_delta (jobj delta) {}))" if "map_of (rev rest) ''error'' = None" "map_of (rev rest) ''choices'' = None"
  using that by (simp add: openai_feed_said openai_chunk_delta_def openai_chunk_get openai_delta_payload_def map_add_def)

lemmas openai_plain_chunk_said = openai_chunk_said [of "[]", simplified]

lemma openai_values_said:
  assumes "openai_encode_values e ev = (vs, e')"
  shows "list_all (\<lambda>v. \<exists>m. v = Object m) vs" "said (fst (values_fed openai_feed_value d vs)) = said [ev]"
proof -
  show "list_all (\<lambda>v. \<exists>m. v = Object m) vs"
    using assms by (cases ev) (auto simp: openai_chunk_def Let_def)
  have one: "said (fst (values_fed openai_feed_value d [v])) = said (fst (openai_feed_value d v))" for v
    by (simp add: case_prod_beta)
  note plain = one openai_plain_chunk_said openai_delta_said
  show "said (fst (values_fed openai_feed_value d vs)) = said [ev]"
  proof (cases ev)
    case (MessageStart i m us)
    with assms show ?thesis by (auto simp: plain said_simps Let_def)
  next
    case (TextDelta t)
    with assms show ?thesis by (auto simp: plain said_simps)
  next
    case (ReasoningDelta t)
    with assms show ?thesis by (auto simp: plain said_simps)
  next
    case (ToolCallDelta k i nm a)
    with assms show ?thesis by (auto simp: plain said_simps)
  next
    case (MessageStop fr us)
    let ?rest = "case us of Some u \<Rightarrow> [(''usage'', openai_usage_value u)] | None \<Rightarrow> []"
    have "map_of (rev ?rest) ''error'' = None" "map_of (rev ?rest) ''choices'' = None" by (simp_all split: option.split)
    note stop = openai_chunk_said [OF this]
    with MessageStop assms show ?thesis by (auto simp: one stop openai_delta_said said_simps)
  next
    case (Error x)
    with assms show ?thesis by (auto simp: one openai_feed_said openai_chunk_get said_simps)
  qed (use assms in \<open>auto simp: said_simps\<close>)
qed

interpretation openai_text: text_codec openai_encode openai_feed "\<lambda>_. True"
proof unfold_locales
  fix J e ev fs e'
  assume J: "prints_lines J" "prints_objects J" and enc: "openai_encode J e ev = (fs, e')"
  then obtain vs where vs: "openai_encode_values e ev = (vs, e')" "fs = map (\<lambda>v. sse_frame (to_string J v)) vs"
    by (auto simp: openai_encode_def split: prod.splits)
  have "feed_list (openai_feed J) d (map (to_string J) vs) = values_fed openai_feed_value d vs"
    if "list_all (rereads J) (map (to_string J) vs)" for d
    using feed_list_values [OF openai_feed_def rereads_values [OF that]] .
  then show "\<exists>ps. list_all2 carries fs ps \<and> DONE \<notin> set ps \<and>
      (list_all (rereads J) ps \<longrightarrow> (\<forall>d. said (fst (feed_list (openai_feed J) d ps)) = said [ev]))"
    using plain_frames [OF J openai_values_said(1) [OF vs(1)]] openai_values_said(2) [OF vs(1)]
    unfolding vs(2) by (intro exI [of _ "map (to_string J) vs"]) simp
qed

section \<open>Anthropic\<close>

fun spoken :: "piece list \<Rightarrow> string \<times> string" where
  "spoken [] = ([], [])"
| "spoken (TextPiece t # ps) = (t @ fst (spoken ps), snd (spoken ps))"
| "spoken (ReasoningPiece t # ps) = (fst (spoken ps), t @ snd (spoken ps))"
| "spoken (p # ps) = spoken ps"

lemma spoken_append: "spoken (ps @ qs) = (fst (spoken ps) @ fst (spoken qs), snd (spoken ps) @ snd (spoken qs))"
  by (induction ps rule: spoken.induct) simp_all

lemma said_pieces: "said es = spoken (pieces es)"
proof (induction es)
  case (Cons e es)
  then show ?case by (cases e) (simp_all add: said_simps)
qed (simp add: said_simps)

lemma anthropic_values_fed: "anthropic_feed_values d vs = values_fed anthropic_feed_value d vs"
  by (induction vs arbitrary: d) simp_all

lemma anthropic_said:
  assumes "anthropic_encode_events enc ev = (es, enc')"
  shows "said (fst (values_fed anthropic_feed_value d (map snd es))) = said [ev]"
proof -
  have "spoken (fed_pieces d es) = spoken (event_pieces ev)"
  proof (cases "\<exists>k i nm a. ev = ToolCallDelta k i nm a")
    case True
    then obtain k i nm a where ev: "ev = ToolCallDelta k i nm a" by blast
    obtain cs enc1 where c: "anthropic_open_tool enc k i nm = (cs, enc1)" by fastforce
    have "spoken (fed_pieces d cs) = ([], [])"
    proof (cases "k \<in> ae_tool_blocks_open enc")
      case False
      obtain bs enc2 where b: "close_block enc = (bs, enc2)" by fastforce
      show ?thesis using c False
        by (auto simp: anthropic_open_tool_def b fed_append close_block_pieces [OF b] fed_events(1))
    qed (use c in \<open>simp add: anthropic_open_tool_def\<close>)
    then show ?thesis using assms by (auto simp: ev c fed_append spoken_append fed_events(6))
  next
    case False
    then show ?thesis using encode_pieces [OF assms] by metis
  qed
  then show ?thesis by (simp add: fed_pieces_def anthropic_values_fed said_pieces)
qed

definition anthropic_payload :: "serde_json \<Rightarrow> anthropic_event \<Rightarrow> string" where
  "anthropic_payload J e = (if fst e = ''message_stop'' then message_stop_text else to_string J (snd e))"

definition reads_stop :: "serde_json \<Rightarrow> bool" where
  "reads_stop J \<longleftrightarrow> from_str J message_stop_text = Inr (jobj [(''type'', String ''message_stop'')])"

lemma anthropic_events_objects:
  assumes "anthropic_encode_events enc ev = (es, enc')"
  shows "list_all (\<lambda>e. (\<exists>m. snd e = Object m) \<and> (fst e = ''message_stop'' \<longrightarrow> snd e = jobj [(''type'', String ''message_stop'')])) es"
proof -
  let ?P = "\<lambda>e. (\<exists>m. snd e = Object m) \<and> (fst e = ''message_stop'' \<longrightarrow> snd e = jobj [(''type'', String ''message_stop'')])"
  have c: "list_all ?P cs" if "close_block enc = (cs, enc1)" for enc cs enc1
    using that by (auto simp: close_block_def anthropic_delta_event_def anthropic_stop_event_def
        Let_def split: option.splits if_splits)
  show ?thesis
    using assms
    by (cases ev) (auto simp: ensure_block_def anthropic_open_tool_def anthropic_delta_event_def anthropic_start_event_def
        anthropic_start_payload_def Let_def dest!: c split: prod.splits if_splits)
qed

interpretation anthropic_text: text_codec anthropic_encode anthropic_feed reads_stop
proof unfold_locales
  fix J e ev fs e'
  assume J: "prints_lines J" "prints_objects J" "reads_stop J" and enc: "anthropic_encode J e ev = (fs, e')"
  obtain es where es: "anthropic_encode_events e ev = (es, e')" "fs = map (anthropic_frame J) es"
    using enc by (auto simp: anthropic_encode_def split: prod.splits)
  note obj = anthropic_events_objects [OF es(1)]
  have "list_all2 carries fs (map (anthropic_payload J) es)"
    using anthropic_event_names [OF es(1)] J(1) unfolding es(2)
    by (induction es) (auto simp: anthropic_payload_def anthropic_frame_def prints_lines_def message_stop_framable intro!: carries_event_frame)
  moreover have "DONE \<notin> set (map (anthropic_payload J) es)"
  proof -
    have "DONE \<noteq> message_stop_text" by code_simp
    moreover have "DONE \<noteq> to_string J (snd x)" if x: "x \<in> set es" for x
    proof -
      obtain m where "snd x = Object m" using obj x by (auto simp: list_all_iff)
      then show ?thesis using J(2) by (simp add: prints_objects_def not_sym)
    qed
    ultimately show ?thesis by (auto simp: anthropic_payload_def)
  qed
  moreover have "said (fst (feed_list (anthropic_feed J) d (map (anthropic_payload J) es))) = said [ev]"
    if "list_all (rereads J) (map (anthropic_payload J) es)" for d
  proof -
    have "list_all2 (\<lambda>p v. from_str J p = Inr v) (map (anthropic_payload J) es) (map snd es)"
      using that obj J(3)
      by (induction es) (auto simp: anthropic_payload_def reads_stop_def rereadsD split: if_splits)
    from feed_list_values [OF anthropic_feed_def this] anthropic_said [OF es(1)] show ?thesis by simp
  qed
  ultimately show "\<exists>ps. list_all2 carries fs ps \<and> DONE \<notin> set ps \<and>
      (list_all (rereads J) ps \<longrightarrow> (\<forall>d. said (fst (feed_list (anthropic_feed J) d ps)) = said [ev]))"
    by blast
qed

section \<open>Gemini\<close>

lemma gemini_parts_said:
  "said (fst (gemini_parts_events J parts k)) =
     (concat (map (\<lambda>p. fst (said (gemini_text_events p))) parts), concat (map (\<lambda>p. snd (said (gemini_text_events p))) parts))"
proof (induction parts arbitrary: k)
  case (Cons p ps)
  have "said (fst (gemini_call_events J p k)) = ([], [])"
    by (auto simp: gemini_call_events_def said_simps Let_def split: option.split)
  with Cons show ?case by (simp add: said_simps case_prod_beta)
qed (simp add: said_simps)

definition gemini_chunk_parts :: "value \<Rightarrow> value list" where
  "gemini_chunk_parts v =
     unwrap_or (Option.bind (first_of v ''candidates'') (\<lambda>c. Option.bind (value_get c ''content'') (\<lambda>x. get_array x ''parts''))) []"

lemma gemini_feed_said:
  "said (fst (gemini_feed_value J d v)) =
     (if value_get v ''error'' \<noteq> None then ([], []) else said (fst (gemini_parts_events J (gemini_chunk_parts v) 0)))"
proof -
  have start: "said (fst (gemini_start d v)) = ([], [])" by (simp add: gemini_start_def said_simps)
  have stop: "said (fst (gemini_stop e)) = ([], [])" for e by (simp add: gemini_stop_def said_simps)
  have candidate: "said (fst (gemini_candidate J d1 c)) =
      said (fst (gemini_parts_events J (unwrap_or (Option.bind (value_get c ''content'') (\<lambda>x. get_array x ''parts'')) []) 0))" for d1 c
    by (simp add: gemini_candidate_def gemini_parts_said said_simps Let_def case_prod_beta split: option.split)
  show ?thesis using start stop candidate
    by (cases "first_of v ''candidates''")
      (simp_all add: gemini_feed_value_def gemini_chunk_parts_def said_simps case_prod_beta split: option.split)
qed

lemma gemini_parts_chunk_said:
  "said (fst (gemini_feed_value J d (gemini_parts_chunk parts n))) = said (fst (gemini_parts_events J parts 0))"
  by (simp add: gemini_feed_said gemini_parts_chunk_def gemini_chunk_parts_def first_of_def)

lemma gemini_call_part_said: "said (gemini_text_events (gemini_call_part c args)) = ([], [])"
  by (simp add: gemini_text_events_def gemini_call_part_def said_simps)

lemma gemini_flush_said: "said (fst (values_fed (gemini_feed_value J) d (gemini_flush_calls calls))) = ([], [])"
proof -
  have "said (fst (values_fed (gemini_feed_value J) d vs)) = ([], [])"
    if "list_all (\<lambda>v. \<exists>c n. v = gemini_parts_chunk [gemini_call_part c Null] n) vs" for vs
    using that
    by (induction vs arbitrary: d)
      (auto simp: said_simps case_prod_beta gemini_parts_chunk_said gemini_parts_said gemini_call_part_said
        simp del: gemini_parts_events.simps)
  moreover have "list_all (\<lambda>v. \<exists>c n. v = gemini_parts_chunk [gemini_call_part c Null] n) (gemini_flush_calls calls)"
    by (auto simp: gemini_flush_calls_def list_all_iff split: option.split)
  ultimately show ?thesis by blast
qed

lemma gemini_values_said:
  assumes "gemini_encode_values J e ev = (vs, e')"
  shows "said (fst (values_fed (gemini_feed_value J) d vs)) = said [ev]"
proof -
  have one: "said (fst (values_fed (gemini_feed_value J) d [v])) = said (fst (gemini_feed_value J d v))" for d v
    by (simp add: case_prod_beta)
  note plain = one gemini_parts_chunk_said gemini_parts_said
  have last: "said (fst (values_fed (gemini_feed_value J) d (us @ [v])))
      = said (fst (values_fed (gemini_feed_value J) d us) @ fst (gemini_feed_value J (snd (values_fed (gemini_feed_value J) d us)) v))" for us v
    by (induction us arbitrary: d) (simp_all add: said_simps case_prod_beta)
  show ?thesis
  proof (cases ev)
    case (ToolCallDelta k i nm a)
    with assms show ?thesis
      by (auto simp: gemini_encode_call_def Let_def plain gemini_call_part_said said_simps
          simp del: gemini_parts_events.simps split: sum.splits)
  next
    case (MessageStop fr us)
    have "gemini_chunk_parts (gemini_stop_chunk fr us) = []" "value_get (gemini_stop_chunk fr us) ''error'' = None"
      by (auto simp: gemini_chunk_parts_def gemini_stop_chunk_def first_of_def split: option.split)
    then have "said (fst (gemini_feed_value J d' (gemini_stop_chunk fr us))) = ([], [])" for d'
      by (simp add: gemini_feed_said said_simps)
    with MessageStop assms gemini_flush_said show ?thesis by (auto simp: last said_simps split: if_splits)
  next
    case (Error x)
    have "value_get (gemini_error_chunk x) ''error'' \<noteq> None" by (simp add: gemini_error_chunk_def split: prod.split)
    with Error assms show ?thesis by (auto simp: one gemini_feed_said said_simps)
  qed (use assms in \<open>auto simp: plain gemini_text_events_def said_simps simp del: gemini_parts_events.simps\<close>)
qed

lemma gemini_values_objects:
  assumes "gemini_encode_values J e ev = (vs, e')"
  shows "list_all (\<lambda>v. \<exists>m. v = Object m) vs"
  using assms
  by (cases ev) (auto simp: gemini_encode_call_def gemini_parts_chunk_def gemini_flush_calls_def gemini_stop_chunk_def
      gemini_error_chunk_def list_all_iff Let_def split: sum.splits if_splits option.splits prod.splits)

interpretation gemini_text: text_codec gemini_encode gemini_feed "\<lambda>_. True"
proof unfold_locales
  fix J e ev fs e'
  assume J: "prints_lines J" "prints_objects J" and enc: "gemini_encode J e ev = (fs, e')"
  then obtain vs where vs: "gemini_encode_values J e ev = (vs, e')" "fs = map (\<lambda>v. sse_frame (to_string J v)) vs"
    by (auto simp: gemini_encode_def split: prod.splits)
  have "feed_list (gemini_feed J) d (map (to_string J) vs) = values_fed (gemini_feed_value J) d vs"
    if "list_all (rereads J) (map (to_string J) vs)" for d
    using feed_list_values [OF gemini_feed_def rereads_values [OF that]] .
  then show "\<exists>ps. list_all2 carries fs ps \<and> DONE \<notin> set ps \<and>
      (list_all (rereads J) ps \<longrightarrow> (\<forall>d. said (fst (feed_list (gemini_feed J) d ps)) = said [ev]))"
    using plain_frames [OF J gemini_values_objects [OF vs(1)]] gemini_values_said [OF vs(1)]
    unfolding vs(2) by (intro exI [of _ "map (to_string J) vs"]) simp
qed

section \<open>The client of a boxed encoder\<close>

text \<open>A decoder of the encoder's dialect, and what it relies on.\<close>

fun understands :: "serde_json \<Rightarrow> boxed_decoder \<Rightarrow> boxed_encoder \<Rightarrow> bool" where
  "understands J (OpenAIDecoder d) (OpenAIEncoder e) = True"
| "understands J (AnthropicDecoder d) (AnthropicEncoder e) = reads_stop J"
| "understands J (GeminiDecoder d) (GeminiEncoder e) = True"
| "understands J d e = False"

lemma encoder_run_boxed:
  "encoder_run (enc_encode J) (OpenAIEncoder e1) evs = map_prod id OpenAIEncoder (encoder_run (openai_encode J) e1 evs)"
  "encoder_run (enc_encode J) (AnthropicEncoder e2) evs = map_prod id AnthropicEncoder (encoder_run (anthropic_encode J) e2 evs)"
  "encoder_run (enc_encode J) (GeminiEncoder e3) evs = map_prod id GeminiEncoder (encoder_run (gemini_encode J) e3 evs)"
  by (induction evs arbitrary: e1 e2 e3) (simp_all add: Let_def split: prod.split)

lemma feed_all_boxed:
  "fst (feed_all J (OpenAIDecoder d1) ps) = fst (feed_list (openai_feed J) d1 ps)"
  "fst (feed_all J (AnthropicDecoder d2) ps) = fst (feed_list (anthropic_feed J) d2 ps)"
  "fst (feed_all J (GeminiDecoder d3) ps) = fst (feed_list (gemini_feed J) d3 ps)"
  by (induction ps arbitrary: d1 d2 d3) (simp_all add: feed_all_simps Let_def case_prod_beta)

lemma boxed_said:
  assumes "prints_lines J" "prints_objects J" "understands J d e" "encoder_run (enc_encode J) e evs = (fs, e')"
  shows "\<exists>ps. list_all2 carries fs ps \<and> DONE \<notin> set ps \<and> (list_all (rereads J) ps \<longrightarrow> said (fst (feed_all J d ps)) = said evs)"
proof (cases e)
  case (OpenAIEncoder x)
  then obtain y where y: "d = OpenAIDecoder y" using assms(3) by (cases d) auto
  obtain x' where "encoder_run (openai_encode J) x evs = (fs, x')"
    using assms(4) by (cases "encoder_run (openai_encode J) x evs") (simp add: OpenAIEncoder encoder_run_boxed)
  from openai_text.said_run [OF assms(1,2) _ this] show ?thesis by (auto simp: y feed_all_boxed)
next
  case (AnthropicEncoder x)
  then obtain y where y: "d = AnthropicDecoder y" using assms(3) by (cases d) auto
  obtain x' where "encoder_run (anthropic_encode J) x evs = (fs, x')"
    using assms(4) by (cases "encoder_run (anthropic_encode J) x evs") (simp add: AnthropicEncoder encoder_run_boxed)
  from anthropic_text.said_run [OF assms(1,2) _ this] assms(3) show ?thesis by (auto simp: y AnthropicEncoder feed_all_boxed)
next
  case (GeminiEncoder x)
  then obtain y where y: "d = GeminiDecoder y" using assms(3) by (cases d) auto
  obtain x' where "encoder_run (gemini_encode J) x evs = (fs, x')"
    using assms(4) by (cases "encoder_run (gemini_encode J) x evs") (simp add: GeminiEncoder encoder_run_boxed)
  from gemini_text.said_run [OF assms(1,2) _ this] show ?thesis by (auto simp: y feed_all_boxed)
qed

lemma upstream_events_said: "said (upstream_events J d ps failed) = said (fst (feed_all J d ps))"
proof -
  obtain es d' where 1: "feed_all J d ps = (es, d')" by fastforce
  obtain gs d'' where 2: "dec_finish d' = (gs, d'')" by fastforce
  have "said gs = ([], [])" using dec_finish_stops [OF 2]
    by (induction gs) (auto simp: said_simps elim: is_message_stop.elims)
  then show ?thesis by (simp add: upstream_events_def 1 2 said_simps)
qed

lemma client_reads_frames:
  assumes "list_all2 carries fs ps" shows "client_reads (concat fs @ rest) = ps @ client_reads rest"
  using frames_then [OF assms, of rest] by (auto simp: client_reads_def split: prod.splits)

lemma fed_marked: "DONE \<notin> set ps \<Longrightarrow> fed (ps @ [DONE]) = ps" "DONE \<notin> set ps \<Longrightarrow> fed ps = ps"
  by (induction ps) auto

section \<open>Property\<close>

text \<open>
  C4: what a streaming client reads is in clear. Whatever pair of dialects, and however the
  upstream's bytes, events and tokens were cut: a decoder of the client's dialect that reads the bytes
  the gateway sent, up to the end marker, gets as its text the restoration, by the session's vault, of
  all the text the upstream streamed, and as its reasoning the restoration of all the reasoning.
\<close>

theorem streaming_client_reads_restored_text:
  fixes J client encoder decoder
  assumes "matcher_ok A" "session_ok S" "prints_lines J" "prints_objects J" "understands J client encoder"
    and "trace_payloads sse_new evs = Some (ps, f, failed)"
    and "relay_stream A J (relay_new decoder encoder (Some S) None) evs = Some (r, status)"
    and "list_all (rereads J) (fed (client_reads (concat (ln_sent (rl_link r)))))"
  defines "up \<equiv> upstream_events J decoder (ps @ fed (snd (sse_finish f))) failed"
    and "down \<equiv> upstream_events J client (fed (client_reads (concat (ln_sent (rl_link r))))) False"
  shows "concat (map text_part down) = fst (restore_text A S (concat (map text_part up))) \<and>
    concat (map reasoning_part down) = fst (restore_text A S (concat (map reasoning_part up)))"
proof -
  obtain all where all: "concat (ln_sent (rl_link r)) = (let (frames, encoder1) = encoder_run (enc_encode J) encoder all
       in concat frames @ (if failed \<or> list_ex is_error_event all then [] else enc_done encoder1))"
    "said all = (fst (restore_text A S (concat (map text_part up))), fst (restore_text A S (concat (map reasoning_part up))))"
    using relay_restores_channels [OF assms(1,2,6), of J decoder encoder] assms(7) unfolding up_def said_def by auto
  obtain fs e' where run: "encoder_run (enc_encode J) encoder all = (fs, e')" by fastforce
  obtain qs where qs: "list_all2 carries fs qs" "DONE \<notin> set qs"
    "list_all (rereads J) qs \<longrightarrow> said (fst (feed_all J client qs)) = said all"
    using boxed_said [OF assms(3-5) run] by blast
  have "enc_done e' = [] \<or> enc_done e' = sse_frame DONE"
    by (cases e') (simp_all add: openai_done_def anthropic_done_def gemini_done_def DONE_def)
  then have "client_reads (concat (ln_sent (rl_link r))) \<in> {qs, qs @ [DONE]}"
    using client_reads_frames [OF qs(1)] by (auto simp: all(1) run client_reads_done client_reads_Nil)
  then have "fed (client_reads (concat (ln_sent (rl_link r)))) = qs"
    using fed_marked [OF qs(2)] by auto
  then have "said down = said all" using qs(3) assms(8) by (simp add: down_def upstream_events_said)
  then show ?thesis unfolding all(2) by (simp add: said_def)
qed

text \<open>An OpenAI upstream, a Gemini client.\<close>

definition crossing_json :: serde_json where
  "crossing_json = table_json
     [(''up'', openai_chunk (openai_encoder_new 7) (openai_delta_payload [(''content'', String ''hi <CRED_1>'')] Null)),
      (''g1'', gemini_parts_chunk [jobj [(''text'', String ''hi bob'')]] 0), (''g2'', gemini_stop_chunk Stop None)]"

lemma table_rereads: "distinct (map fst tab) \<Longrightarrow> p \<noteq> [] \<Longrightarrow> rereads (table_json tab) p"
proof -
  assume d: "distinct (map fst tab)" and p: "p \<noteq> []"
  have "map_of tab p = Some v" if t: "to_string (table_json tab) v = p" for v
  proof -
    obtain s w where f: "List.find (\<lambda>(s, w). w = v) tab = Some (s, w)"
      using t p by (cases "List.find (\<lambda>(s, w). w = v) tab") (auto simp: table_json_def)
    then have "(s, w) \<in> set tab" "w = v" by (auto simp: find_Some_iff) (metis nth_mem)
    moreover have "s = p" using f t by (simp add: table_json_def)
    ultimately show ?thesis using d by simp
  qed
  then show ?thesis by (simp add: rereads_def table_json_def)
qed

lemma crossing_lines: "prints_lines crossing_json"
proof -
  have "framable ''up''" "framable ''g1''" "framable ''g2''" by code_simp+
  then show ?thesis unfolding crossing_json_def by (intro table_json_prints_lines) simp
qed

lemma crossing_objects: "prints_objects crossing_json"
  by (auto simp: prints_objects_def crossing_json_def table_json_def DONE_def)

text \<open>What reaches the encoder, and the frames.\<close>

lemma crossing_events:
  "upstream_events crossing_json (OpenAIDecoder openai_decoder_new) [''up''] False =
     [MessageStart [] [] None, TextDelta ''hi <CRED_1>'', MessageStop Stop None]"
  by code_simp

lemma crossing_restored:
  "map_option (map_prod id (\<lambda>rst. fst (restore_flush rst)))
     (restore_list reference_matcher J (restorer_new (Some example_after))
       [MessageStart [] [] None, TextDelta ''hi <CRED_1>'', MessageStop Stop None])
   = Some ([MessageStart [] [] None, TextDelta ''hi bob'', MessageStop Stop None], [])"
  by code_simp

lemma crossing_frames:
  "stream_spec crossing_json (GeminiEncoder gemini_encoder_new)
     [MessageStart [] [] None, TextDelta ''hi bob'', MessageStop Stop None] [] False = sse_frame ''g1'' @ sse_frame ''g2''"
  by code_simp

lemma crossing_client: "client_reads (sse_frame ''g1'' @ sse_frame ''g2'') = [''g1'', ''g2'']"
  by code_simp

theorem streaming_client_reads_restored_text_witness:
  "\<exists>r status. relay_stream reference_matcher crossing_json (relay_new (OpenAIDecoder openai_decoder_new)
        (GeminiEncoder gemini_encoder_new) (Some example_after) None) relay_example_trace = Some (r, status) \<and>
     concat (map text_part (upstream_events crossing_json (GeminiDecoder gemini_decoder_new)
       (fed (client_reads (concat (ln_sent (rl_link r))))) False)) = ''hi bob''"
proof -
  obtain r status outs rst where r: "relay_stream reference_matcher crossing_json (relay_new (OpenAIDecoder openai_decoder_new)
        (GeminiEncoder gemini_encoder_new) (Some example_after) None) relay_example_trace = Some (r, status)"
    "restore_list reference_matcher crossing_json (restorer_new (Some example_after))
       [MessageStart [] [] None, TextDelta ''hi <CRED_1>'', MessageStop Stop None] = Some (outs, rst)"
    "concat (ln_sent (rl_link r)) = stream_spec crossing_json (GeminiEncoder gemini_encoder_new) outs (fst (restore_flush rst)) False"
    using relay_stream_refines [OF reference_matcher_ok _ relay_example_payloads(1), of "Some example_after" crossing_json
        "OpenAIDecoder openai_decoder_new" "GeminiEncoder gemini_encoder_new"] example_after_ok crossing_events
    by (auto simp: sse_finish_new)
  have outs: "outs = [MessageStart [] [] None, TextDelta ''hi bob'', MessageStop Stop None]" "fst (restore_flush rst) = []"
    using crossing_restored [of crossing_json] by (simp_all add: r(2))
  then have reads: "fed (client_reads (concat (ln_sent (rl_link r)))) = [''g1'', ''g2'']"
    using r(3) crossing_client by (simp add: crossing_frames DONE_def)
  have ok: "list_all (rereads crossing_json) (fed (client_reads (concat (ln_sent (rl_link r)))))"
    unfolding reads crossing_json_def by (simp add: table_rereads)
  have "fst (restore_text reference_matcher example_after ''hi <CRED_1>'') = ''hi bob''" by code_simp
  then show ?thesis
    using streaming_client_reads_restored_text [OF reference_matcher_ok example_after_ok crossing_lines crossing_objects _
        relay_example_payloads(1) r(1) ok, of "GeminiDecoder gemini_decoder_new"] r(1)
    by (auto simp: sse_finish_new crossing_events)
qed

end
