(* ===== verification/EndToEnd.thy ===== *)
theory EndToEnd
  imports Gateway Confidential ClientView
begin

text \<open>
  Properties of whole exchanges, that rest on the theorems of several components at once: what the
  upstream can learn of the secrets of a request, and what a success seen by the client implies.
\<close>

section \<open>What the upstream can tell\<close>

text \<open>What leaves the gateway for a prepared request.\<close>

definition forwarded :: "reqwest \<Rightarrow> config \<Rightarrow> protocol_adapter \<Rightarrow> prepared \<Rightarrow> outgoing list" where
  "forwarded Q cfg upstream p =
     (if pp_stream p then snd (forward_stream Q (pp_url p) (upstream_headers cfg upstream) (pp_body p))
      else snd (forward Q (pp_url p) (upstream_headers cfg upstream) (pp_body p) (uc_timeout_ms (cf_upstream cfg))))"

lemma conversation_sent:
  assumes "handle_conversation A J dbg H Q st cn request side elapsed = Some h"
    and "registry_get (as_registry st) cn = Some client"
    and "registry_get (as_registry st) (uc_protocol (cf_upstream (as_config st))) = Some upstream"
  shows "hd_sent h = (case prepare A st client upstream request of Inl e \<Rightarrow> [] | Inr p \<Rightarrow> forwarded Q (as_config st) upstream p)"
  using assms
  by (auto simp: handle_conversation_def forwarded_def Let_def split: sum.splits prod.splits if_splits)

lemma forwarded_cong:
  "pp_stream p = pp_stream p' \<Longrightarrow> pp_url p = pp_url p' \<Longrightarrow> pp_body p = pp_body p' \<Longrightarrow> forwarded Q cfg u p = forwarded Q cfg u p'"
  by (simp add: forwarded_def)

lemma alike_resolved:
  "alike_request E D n n' \<Longrightarrow> alike_request E D (n\<lparr>req_model := m\<rparr>) (n'\<lparr>req_model := m\<rparr>) \<and> req_model n = req_model n'"
  by (cases n, cases n') (simp add: alike_request_def)

lemma prepare_in_step:
  assumes "matcher_ok A" "engine_ok E" "disguise_ok E D" "as_privacy st = Some E"
    and "read_body q = Inr b" "pa_parse_request client b = Inr n"
    and "read_body q' = Inr b'" "pa_parse_request client b' = Inr n'"
    and "alike_request E D n n'"
  shows "(case prepare A st client upstream q of Inl e \<Rightarrow> [] | Inr p \<Rightarrow> forwarded Q cfg upstream p)
    = (case prepare A st client upstream q' of Inl e \<Rightarrow> [] | Inr p \<Rightarrow> forwarded Q cfg upstream p)"
proof -
  let ?m = "resolve (as_resolver st) (req_model n)"
  have al: "alike_request E D (n\<lparr>req_model := ?m\<rparr>) (n'\<lparr>req_model := ?m\<rparr>)" and same: "req_model n' = req_model n"
    using alike_resolved [OF assms(9)] by simp_all
  obtain r out S where 1: "redact_request A (new_session E) (n\<lparr>req_model := ?m\<rparr>) = (r, out, S)"
    by (metis prod.collapse)
  obtain r' out' S' where 2: "redact_request A (new_session E) (n'\<lparr>req_model := ?m\<rparr>) = (r', out', S')"
    by (metis prod.collapse)
  have r: "r = r'" "r' = Inr () \<Longrightarrow> out = out'"
    using redact_request_in_step [OF assms(2,3,1) al 1 2] by simp_all
  show ?thesis
  proof (cases r')
    case (Inl e)
    with r 1 2 show ?thesis by (simp add: prepare_def assms same redact_for_def)
  next
    case (Inr u)
    with r 1 2 show ?thesis
      by (auto simp: prepare_def assms same redact_for_def split: sum.split intro: forwarded_cong)
  qed
qed


text \<open>Two clients, one who writes of bob and one who writes of eve, and a rule that finds either.\<close>

definition either_regex :: regex where
  "either_regex = (let find = (\<lambda>s. if occurrences ''bob'' 0 0 s = [] then occurrences ''eve'' 0 0 s else occurrences ''bob'' 0 0 s)
     in \<lparr>rx_find_iter = find, rx_is_match = (\<lambda>s. find s \<noteq> [])\<rparr>)"

definition two_rule :: compiled_rule where
  "two_rule = \<lparr>cr_name = ''CRED'', cr_regex = either_regex, cr_template = ''<CRED_{n}>''\<rparr>"

definition two_engine :: redaction_engine where
  "two_engine = \<lparr>re_rules = [two_rule], re_allow_domains = [], re_allow_patterns = [], re_max_token_len = 19\<rparr>"

definition two_disguise :: disguise where
  "two_disguise = \<lparr>ds_before = [], ds_rule = two_rule, ds_after = [], ds_exchange = (\<lambda>v. if v = ''bob'' then ''eve'' else if v = ''eve'' then ''bob'' else v)\<rparr>"

definition eve_parsed :: neutral_request where
  "eve_parsed = new_request ''m'' [\<lparr>msg_role = User, msg_content = [Text ''hi eve'']\<rparr>]"

definition two_json :: serde_json where
  "two_json = table_json
     [(''q'', jobj [(''model'', String ''m''), (''messages'', Array [jobj [(''role'', String ''user''), (''content'', String ''hi bob'')]])]),
      (''w'', jobj [(''model'', String ''m''), (''messages'', Array [jobj [(''role'', String ''user''), (''content'', String ''hi eve'')]])]),
      (''u'', openai_request_value (table_json []) chat_redacted)]"

definition two_state :: "unit app_state" where
  "two_state = chat_state\<lparr>as_registry := default_registry two_json (\<lambda>s. s) 7, as_privacy := Some two_engine\<rparr>"

definition eve_request :: http_request where
  "eve_request = \<lparr>hr_headers = [], hr_body = (\<lambda>_. Inr ''w'')\<rparr>"

abbreviation two_adapter :: protocol_adapter where
  "two_adapter \<equiv> openai_adapter two_json 7"

abbreviation two_handle :: "http_request \<Rightarrow> handled option" where
  "two_handle q \<equiv> handle_conversation reference_matcher two_json (\<lambda>s. s) example_http chat_reqwest two_state ''openai'' q chat_side 5"

lemma two_engine_new: "new_engine (\<lambda>p. Inr either_regex) example_config = Inr two_engine"
proof -
  have "\<not> can_match_empty either_regex" by code_simp
  then show ?thesis
    by (simp add: new_engine_def example_config_def default_privacy_config_def compile_rule_def
        example_rule_valid example_trim two_engine_def two_rule_def longest_token_def)
qed

lemma two_registry: "registry_get (as_registry two_state) ''openai'' = Some two_adapter"
  by (simp add: two_state_def default_registry_get)

lemma two_parse: "pa_parse_request two_adapter ''q'' = Inr chat_parsed" "pa_parse_request two_adapter ''w'' = Inr eve_parsed"
proof -
  have "openai_parse_request two_json ''q'' = Inr chat_parsed" "openai_parse_request two_json ''w'' = Inr eve_parsed"
    by code_simp+
  then show "pa_parse_request two_adapter ''q'' = Inr chat_parsed" "pa_parse_request two_adapter ''w'' = Inr eve_parsed"
    by (simp_all add: openai_adapter_def)
qed

lemma eve_body: "read_body eve_request = Inr ''w''"
proof -
  have "utf8_valid ''w''" by code_simp
  then show ?thesis by (simp add: read_body_def eve_request_def)
qed

lemma two_alike: "disguise_ok two_engine two_disguise" "alike_request two_engine two_disguise chat_parsed eve_parsed"
proof -
  show "disguise_ok two_engine two_disguise"
    by (simp add: disguise_ok_def two_engine_def two_disguise_def inj_def)
  have "token_free two_engine t" if "CHR ''<'' \<notin> set t" for t
  proof -
    have "valid_template (cr_template two_rule)" using new_engine_ok [OF two_engine_new] by (simp add: engine_ok_def two_engine_def)
    then have "\<exists>body. mint (cr_template two_rule) n = CHR ''<'' # body" for n
      using mint_shape [of "cr_template two_rule" n] by (auto simp: token_shape_def)
    then have "CHR ''<'' \<in> set (mint (cr_template two_rule) n)" for n by (metis list.set_intros(1))
    then show ?thesis using that by (auto simp: token_free_def two_engine_def dest: set_mono_sublist)
  qed
  then have free: "token_free two_engine ''hi bob''" "token_free two_engine ''hi eve''" by simp_all
  have found: "rx_find_iter (cr_regex two_rule) ''hi bob'' = [(3, 6)]" "rx_find_iter (cr_regex two_rule) ''hi eve'' = [(3, 6)]"
    by code_simp+
  have "\<not> is_allowed two_engine ''bob''" "\<not> is_allowed two_engine ''eve''" by code_simp+
  with free found show "alike_request two_engine two_disguise chat_parsed eve_parsed"
    by (simp add: alike_request_def alike_message_def alike_text_def two_disguise_def chat_parsed_def eve_parsed_def new_request_def
        substr_def)
qed

lemma two_prepared:
  assumes "read_body q = Inr b" "pa_parse_request two_adapter b = Inr n" "req_model n = ''m''"
    and "fst (redact_request reference_matcher (new_session two_engine) n) = Inr ()"
    and "fst (snd (redact_request reference_matcher (new_session two_engine) n)) = chat_redacted"
  shows "\<exists>h. two_handle q = Some h \<and> hd_sent h \<noteq> []"
proof -
  have m: "resolve (as_resolver two_state) ''m'' = ''m''"
    by (simp add: two_state_def chat_state_def resolve_def resolver_strip_prefix_def new_resolver_def)
  have same: "n\<lparr>req_model := ''m''\<rparr> = n" using assms(3) by (cases n) simp
  have "as_privacy two_state = Some two_engine" by (simp add: two_state_def)
  then obtain S where r: "redact_for reference_matcher (as_privacy two_state) n = Inr (chat_redacted, Some S)"
    using assms(4,5) by (cases "redact_request reference_matcher (new_session two_engine) n") (auto simp: redact_for_def)
  have "openai_serialize_request two_json chat_redacted = Inr ''u''" by code_simp
  then have s: "pa_serialize_request two_adapter chat_redacted = Inr ''u''" by (simp add: openai_adapter_def)
  obtain url where u: "pa_conversation_url two_adapter (uc_url (cf_upstream (as_config two_state))) (req_model chat_redacted) = Inr url"
    by (simp add: openai_adapter_def openai_conversation_url_def)
  have "\<not> req_stream chat_redacted" by (simp add: chat_redacted_def new_request_def)
  then obtain p where p: "prepare reference_matcher two_state two_adapter two_adapter q = Inr p" "\<not> pp_stream p"
    using assms(1-3) by (simp add: prepare_def m same r s u)
  have "uc_protocol (cf_upstream (as_config two_state)) = ''openai''" using chat_upstream by (simp add: two_state_def)
  with p show ?thesis
    by (simp add: handle_conversation_def two_registry forward_def chat_reqwest_def Let_def split: prod.split)
qed

lemma two_handled:
  "\<exists>h. two_handle chat_request = Some h \<and> hd_sent h \<noteq> []" "\<exists>h. two_handle eve_request = Some h \<and> hd_sent h \<noteq> []"
proof -
  have "fst (redact_request reference_matcher (new_session two_engine) chat_parsed) = Inr ()"
    "fst (snd (redact_request reference_matcher (new_session two_engine) chat_parsed)) = chat_redacted"
    "req_model chat_parsed = ''m''" by code_simp+
  then show "\<exists>h. two_handle chat_request = Some h \<and> hd_sent h \<noteq> []"
    using two_prepared [OF chat_body two_parse(1)] by blast
  have "fst (redact_request reference_matcher (new_session two_engine) eve_parsed) = Inr ()"
    "fst (snd (redact_request reference_matcher (new_session two_engine) eve_parsed)) = chat_redacted"
    "req_model eve_parsed = ''m''" by code_simp+
  then show "\<exists>h. two_handle eve_request = Some h \<and> hd_sent h \<noteq> []"
    using two_prepared [OF eve_body two_parse(2)] by blast
qed


section \<open>Failures stay failures\<close>

text \<open>The adapters that the program registers.\<close>

definition builtin :: "serde_json \<Rightarrow> (string \<Rightarrow> string) \<Rightarrow> u64 \<Rightarrow> protocol_adapter \<Rightarrow> bool" where
  "builtin J dbg now a \<longleftrightarrow> a = openai_adapter J now \<or> a = anthropic_adapter J \<or> a = gemini_adapter J dbg"

lemma default_builtin: "registry_get (default_registry J dbg now) nm = Some a \<Longrightarrow> builtin J dbg now a"
  by (auto simp: default_registry_get builtin_def split: if_splits)

text \<open>No error carries a success status.\<close>

definition sound_error :: "adapter_error \<Rightarrow> bool" where
  "sound_error e \<longleftrightarrow> (case e of Upstream status _ \<Rightarrow> \<not> is_success status | _ \<Rightarrow> True)"

lemma sound_error_simps [simp]:
  "sound_error (InvalidRequest s)" "sound_error Authentication" "sound_error PermissionDenied" "sound_error (RateLimit r)"
  "sound_error Overloaded" "sound_error InsufficientQuota" "sound_error (Api s)" "sound_error (Internal s)"
  "sound_error (Upstream status s) = (\<not> is_success status)"
  by (simp_all add: sound_error_def)

lemma error_answer: "builtin J dbg now a \<Longrightarrow> sound_error e \<Longrightarrow> \<not> is_success (ax_status (error_json_response (pa_serialize_error a e)))"
  by (cases e)
    (auto simp: builtin_def openai_adapter_def anthropic_adapter_def gemini_adapter_def openai_serialize_error_def
      anthropic_serialize_error_def gemini_serialize_error_def openai_error_kind_def anthropic_error_kind_def
      gemini_error_kind_def error_json_response_def is_success_def split: if_splits)

lemma builtin_upstream_error:
  "builtin J dbg now a \<Longrightarrow> \<not> is_success status \<Longrightarrow> sound_error (pa_parse_upstream_error a status body)"
  by (auto simp: builtin_def openai_adapter_def anthropic_adapter_def gemini_adapter_def default_parse_upstream_error_def
      gemini_parse_upstream_error_def)

lemma builtin_parse_error: "builtin J dbg now a \<Longrightarrow> pa_parse_request a body = Inl e \<Longrightarrow> sound_error e"
  by (auto simp: builtin_def openai_adapter_def anthropic_adapter_def gemini_adapter_def openai_parse_request_def
      anthropic_parse_request_def gemini_parse_request_def invalid_json_def split: sum.splits option.splits)

lemma builtin_serialize_error: "builtin J dbg now a \<Longrightarrow> pa_serialize_request a req = Inl e \<Longrightarrow> sound_error e"
  by (auto simp: builtin_def openai_adapter_def anthropic_adapter_def gemini_adapter_def openai_serialize_request_def
      anthropic_serialize_request_def gemini_serialize_request_def)

lemma builtin_url_error:
  "builtin J dbg now a \<Longrightarrow> pa_conversation_url a base model = Inl e \<Longrightarrow> sound_error e"
  "builtin J dbg now a \<Longrightarrow> pa_stream_conversation_url a base model = Inl e \<Longrightarrow> sound_error e"
  by (auto simp: builtin_def openai_adapter_def anthropic_adapter_def gemini_adapter_def openai_conversation_url_def
      anthropic_conversation_url_def gemini_conversation_url_def gemini_stream_conversation_url_def
      validate_model_segment_def split: sum.splits if_splits)

lemma read_body_error: "read_body request = Inl e \<Longrightarrow> sound_error e"
  by (auto simp: read_body_def split: sum.splits if_splits)

lemma read_chunks_error: "read_chunks err cs b = Inl e \<Longrightarrow> sound_error e"
  by (induction err cs b rule: read_chunks.induct) (auto split: option.splits if_splits)

lemma read_upstream_error: "read_upstream_text resp = Inl e \<Longrightarrow> sound_error e"
  using read_chunks_error by (auto simp: read_upstream_text_def split: sum.splits if_splits)

lemma prepare_error:
  assumes "builtin J dbg now client" "builtin J dbg now upstream" "matcher_ok A"
    and "\<And>E. as_privacy st = Some E \<Longrightarrow> engine_ok E" and "prepare A st client upstream request = Inl e"
  shows "sound_error e"
proof -
  have "sound_error e" if "redact_for A (as_privacy st) n = Inl e" for n
  proof -
    from that obtain E n' S where "as_privacy st = Some E" "redact_request A (new_session E) n = (Inl e, n', S)"
      by (auto simp: redact_for_def split: option.splits prod.splits sum.splits)
    then have "e = cap_error"
      using redact_request_ok [OF assms(3) new_session_ok] assms(4) by (fastforce simp: fails_closed_def)
    then show ?thesis by (simp add: cap_error_def)
  qed
  with assms(5) read_body_error builtin_parse_error [OF assms(1)] builtin_serialize_error [OF assms(2)] builtin_url_error [OF assms(2)]
  show ?thesis by (auto simp: prepare_def Let_def split: sum.splits if_splits)
qed

text \<open>What a successful answer of a conversation, and of a model listing, rests on.\<close>

definition upstream_succeeded :: "reqwest \<Rightarrow> handled \<Rightarrow> bool" where
  "upstream_succeeded Q h \<longleftrightarrow> (\<exists>out resp. hd_sent h = [out] \<and> rq_execute Q out = Inr resp \<and> is_success (ur_status resp))"

lemma error_response_fails: "\<not> is_success (ax_status (error_response dbg 500 s))"
  by (simp add: error_response_def is_success_def)

lemma streaming_success:
  assumes "builtin J dbg now client" "builtin J dbg now upstream"
    and "handle_streaming_response A J H side client upstream resp privacy memory ctx elapsed = Some (response, records)"
    and "is_success (ax_status response)"
  shows "is_success (ur_status resp)"
proof (rule ccontr)
  assume "\<not> is_success (ur_status resp)"
  with assms(3,4) error_answer [OF assms(1) read_upstream_error]
    error_answer [OF assms(1) builtin_upstream_error [OF assms(2)]]
  show False by (auto simp: handle_streaming_response_def Let_def split: sum.splits)
qed

lemma reply_success:
  assumes "builtin J dbg now client" "builtin J dbg now upstream"
    and "handle_reply A client upstream resp privacy memory ctx elapsed = (response, records)" "is_success (ax_status response)"
  shows "is_success (ur_status resp)"
proof (rule ccontr)
  assume "\<not> is_success (ur_status resp)"
  with assms(3,4) error_answer [OF assms(1) read_upstream_error]
    error_answer [OF assms(1) builtin_upstream_error [OF assms(2)]]
  show False by (auto simp: handle_reply_def Let_def split: sum.splits)
qed

lemma conversation_success:
  assumes st: "as_registry st = default_registry J dbg now" "matcher_ok A" "\<And>E. as_privacy st = Some E \<Longrightarrow> engine_ok E"
    and run: "handle_conversation A J dbg H Q st cn request side elapsed = Some h" and ok: "is_success (ax_status (hd_response h))"
  shows "upstream_succeeded Q h"
  using run
proof (cases rule: handle_conversation_cases)
  case (unregistered s)
  with ok error_response_fails show ?thesis by simp
next
  case (rejected client upstream e)
  then have "builtin J dbg now client" "builtin J dbg now upstream" using default_builtin st(1) by simp_all
  with prepare_error [OF this st(2,3)] rejected ok error_answer show ?thesis by fastforce
next
  case (failed client upstream p e sent)
  then have "builtin J dbg now client" using default_builtin st(1) by simp
  from error_answer [OF this] failed ok show ?thesis by simp
next
  case (streamed client upstream p resp out response records)
  then have "builtin J dbg now client" "builtin J dbg now upstream" using default_builtin st(1) by simp_all
  from streaming_success [OF this streamed(7)] streamed ok show ?thesis by (simp add: upstream_succeeded_def)
next
  case (replied client upstream p resp out response records)
  then have "builtin J dbg now client" "builtin J dbg now upstream" using default_builtin st(1) by simp_all
  from reply_success [OF this replied(7)] replied ok show ?thesis by (simp add: upstream_succeeded_def)
qed

lemma models_success:
  assumes "as_registry st = default_registry J dbg now" "is_success (ax_status (hd_response (handle_models dbg Q st cn)))"
  shows "upstream_succeeded Q (handle_models dbg Q st cn)"
proof (cases "registry_get (as_registry st) cn")
  case None
  with assms(2) error_response_fails show ?thesis by (auto simp: handle_models_def Let_def)
next
  case c: (Some client)
  then have cb: "builtin J dbg now client" using default_builtin assms(1) by simp
  note err = error_answer [OF cb]
  show ?thesis
  proof (cases "registry_get (as_registry st) (uc_protocol (cf_upstream (as_config st)))")
    case None
    with c assms(2) error_response_fails show ?thesis by (auto simp: handle_models_def Let_def)
  next
    case u: (Some upstream)
    then have ub: "builtin J dbg now upstream" using default_builtin assms(1) by simp
    show ?thesis
    proof (cases "pa_models_path upstream")
      case None
      with c u assms(2) err show ?thesis by (auto simp: handle_models_def Let_def)
    next
      case p: (Some path)
      obtain r sent where f: "forward_get Q (trim_end_char CHR ''/'' (uc_url (cf_upstream (as_config st))) @ path)
          (upstream_headers (as_config st) upstream) (uc_timeout_ms (cf_upstream (as_config st))) = (r, sent)" by fastforce
      show ?thesis
      proof (cases r)
        case (Inl e)
        with c u p f assms(2) err show ?thesis by (auto simp: handle_models_def Let_def)
      next
        case (Inr resp)
        have "is_success (ur_status resp)"
        proof (rule ccontr)
          assume "\<not> is_success (ur_status resp)"
          with c u p f Inr assms(2) err read_upstream_error builtin_upstream_error [OF ub] show False
            by (auto simp: handle_models_def Let_def split: sum.splits)
        qed
        moreover have "hd_sent (handle_models dbg Q st cn) = sent"
          using c u p f Inr by (auto simp: handle_models_def Let_def split: sum.split)
        moreover have "\<exists>out. sent = [out] \<and> rq_execute Q out = Inr resp"
          using f Inr by (auto simp: forward_get_def Let_def split: option.splits)
        ultimately show ?thesis by (auto simp: upstream_succeeded_def)
      qed
    qed
  qed
qed

lemma started_serve:
  assumes "start_gateway rx_new N mkdir H toml fs config_path J dbg now = Inr (st, routes)" "rt \<in> set routes" "rt_path rt \<noteq> ''/health''"
  obtains (refused) "serve H (as_config st) routes (rt_method rt) (rt_path rt) h = Refused"
  | (handled) h' where "serve H (as_config st) routes (rt_method rt) (rt_path rt) h = Handled rt h'"
proof -
  obtain m where "mount_ok (set (claims (by_path (client_adapters (as_registry st) (cc_protocols (cf_client (as_config st))))))) routes m"
    using startup_ok(2) [OF start_gateway_parts(3) [OF assms(1)]] by auto
  then have d: "distinct (map route_key routes)" by (simp add: mount_ok_def)
  obtain rt' where f: "find (\<lambda>r. rt_method r = rt_method rt \<and> rt_path r = rt_path rt) routes = Some rt'"
    using assms(2) by (cases "find (\<lambda>r. rt_method r = rt_method rt \<and> rt_path r = rt_path rt) routes") (auto simp: find_None_iff)
  then have "rt' \<in> set routes" "route_key rt' = route_key rt" by (auto simp: find_Some_iff route_key_def)
  then have "rt' = rt" using d assms(2) by (meson distinct_map inj_onD)
  with f assms(3) show thesis
    by (cases "require_auth (header_to_str H) (ac_api_keys (cf_auth (as_config st))) h")
      (auto simp: serve_def intro: refused handled)
qed

lemma chat_answered: "\<exists>h. chat_handle example_http = Some h \<and> ax_status (hd_response h) = 200"
proof -
  have e: "as_privacy chat_state = Some example_engine" by (simp add: chat_state_def)
  then have r: "redact_for reference_matcher (as_privacy chat_state) chat_parsed = Inr (chat_redacted, Some chat_session)"
    by (simp add: redact_for_def chat_redact)
  have "openai_serialize_request chat_json chat_redacted = Inr ''u''" by code_simp
  then have s: "pa_serialize_request chat_adapter chat_redacted = Inr ''u''" by (simp add: openai_adapter_def)
  obtain url where u: "pa_conversation_url chat_adapter (uc_url (cf_upstream (as_config chat_state))) (req_model chat_redacted) = Inr url"
    by (simp add: openai_adapter_def openai_conversation_url_def)
  have "\<not> req_stream chat_redacted" by (simp add: chat_redacted_def new_request_def)
  then obtain p where p: "prepare reference_matcher chat_state chat_adapter chat_adapter chat_request = Inr p"
      "\<not> pp_stream p" "pp_session p = Some chat_session"
    by (simp add: prepare_def chat_body chat_parse chat_resolved r s u)
  have 1: "openai_parse_response chat_json ''r'' = Inr (chat_reply ''hi <CRED_1>'')"
    "fst (restore_response reference_matcher chat_session (chat_reply ''hi <CRED_1>'')) = chat_reply ''hi bob''"
    "openai_serialize_response chat_json 7 (chat_reply ''hi bob'') = Inr ''c''" by code_simp+
  then have "ax_status (fst (handle_reply reference_matcher chat_adapter chat_adapter chat_response (pp_session p)
      (as_memory chat_state) ctx 5)) = 200" for ctx
    by (simp add: handle_reply_def chat_reads p(3) openai_adapter_def json_response_def is_success_def Let_def
        split: sum.split prod.split)
      (simp add: chat_response_def)
  with p show ?thesis
    by (simp add: handle_conversation_def chat_registry chat_upstream forward_def chat_reqwest_def Let_def split: prod.split)
      (metis fst_conv)
qed



end
