(* ===== verification/Slicing.thy ===== *)
theory Slicing
  imports RestoreStreams
begin

text \<open>
  Rust panics when a string is sliced outside its bounds or inside a character. The loops of
  \<open>src/core/privacy.rs\<close> slice at offsets that regexes, the token matcher and the hold-back compute;
  here they are written again with slices that can fail, and shown never to fail on UTF-8 texts, to
  agree with the definitions of the other theories, and to yield UTF-8.
\<close>

section \<open>Slices\<close>

definition slice :: "string \<Rightarrow> nat \<Rightarrow> nat \<Rightarrow> string option" where
  "slice t a b = (if a \<le> b \<and> b \<le> length t \<and> is_char_boundary t a \<and> is_char_boundary t b then Some (substr t a b) else None)"

definition slice_from :: "string \<Rightarrow> nat \<Rightarrow> string option" where
  "slice_from t a = slice t a (length t)"

lemma utf8_step_take:
  assumes "utf8_step s = (n, True)" "n \<le> length s"
  shows "utf8_step (take n s) = (n, True)"
proof -
  have b: "byte_at (take n s) i = byte_at s i" if "i < n" for i
    using that assms(2) by (simp add: byte_at_def)
  show ?thesis using assms(1)
  proof (cases rule: utf8_step_cases)
    case one
    have "byte_at (take 1 s) 0 = byte_at s 0" using one b [of 0] by simp
    with one show ?thesis by (simp add: utf8_step_def)
  next
    case two
    with b [of 0] b [of 1] show ?thesis by (simp add: utf8_step_def)
  next
    case three
    with b [of 0] b [of 1] b [of 2] show ?thesis by (simp add: utf8_step_def)
  next
    case four
    with b [of 0] b [of 1] b [of 2] b [of 3] show ?thesis by (simp add: utf8_step_def)
  qed
qed

lemma utf8_first:
  assumes "utf8_valid t" "t \<noteq> []"
  obtains n where "utf8_step t = (n, True)" "0 < n" "n \<le> length t" "utf8_valid (drop n t)"
    "\<And>i. 0 < i \<Longrightarrow> i < n \<Longrightarrow> is_cont (byte (t ! i))" "utf8_valid (take n t)"
proof -
  obtain n ok where st: "utf8_step t = (n, ok)" by fastforce
  with assms have ok: "ok" "utf8_valid (drop n t)" by (simp_all add: utf8_valid_def utf8_chunks.simps [of t])
  then have st1: "utf8_step t = (n, True)" using st by simp
  have pos: "0 < n" using utf8_step_pos [of t] st1 by simp
  have le: "n \<le> length t" using utf8_step_length [OF assms(2) st1] .
  have cont: "is_cont (byte (t ! i))" if "0 < i" "i < n" for i
  proof -
    have "is_cont (byte_at t i)"
      using st1
    proof (cases rule: utf8_step_cases)
      case two
      then show ?thesis using that by (auto simp: utf8_two_def split: if_splits) (metis One_nat_def less_2_cases_iff neq0_conv)
    next
      case three
      then have "is_cont (byte_at t 1)" "is_cont (byte_at t 2)" "n = 3" by (auto simp: utf8_three_def split: if_splits)
      moreover have "i = 1 \<or> i = 2" using that \<open>n = 3\<close> by linarith
      ultimately show ?thesis by auto
    next
      case four
      then have "is_cont (byte_at t 1)" "is_cont (byte_at t 2)" "is_cont (byte_at t 3)" "n = 4"
        by (auto simp: utf8_four_def split: if_splits)
      moreover have "i = 1 \<or> i = 2 \<or> i = 3" using that \<open>n = 4\<close> by linarith
      ultimately show ?thesis by auto
    qed (use that in simp)
    then show ?thesis using that le by (simp add: byte_at_def)
  qed
  have one: "utf8_valid (take n t)"
    using utf8_step_take [OF st1 le] pos assms(2) by (simp add: utf8_valid_def utf8_chunks.simps [of "take n t"])
  show thesis using that [OF st1 pos le ok(2) cont one] .
qed

lemma utf8_cut: "utf8_valid t \<Longrightarrow> is_char_boundary t i \<Longrightarrow> utf8_valid (take i t) \<and> utf8_valid (drop i t)"
proof (induction t arbitrary: i rule: length_induct)
  case (1 t)
  show ?case
  proof (cases "t = [] \<or> i = 0 \<or> i = length t")
    case False
    then obtain n where n: "0 < n" "n \<le> length t" "utf8_valid (drop n t)" "\<And>i. 0 < i \<Longrightarrow> i < n \<Longrightarrow> is_cont (byte (t ! i))"
      "utf8_valid (take n t)"
      using utf8_first [OF "1.prems"(1)] by metis
    have i: "0 < i" "i < length t" "\<not> is_cont (byte (t ! i))" using False "1.prems"(2) by (auto simp: is_char_boundary_def)
    then have "n \<le> i" using n(4) by (meson not_le)
    then have b: "is_char_boundary (drop n t) (i - n)" using i by (auto simp: is_char_boundary_def)
    have "length (drop n t) < length t" using n(1,2) by simp
    then have ih: "utf8_valid (take (i - n) (drop n t)) \<and> utf8_valid (drop (i - n) (drop n t))" using "1.IH" n(3) b by blast
    have "take i t = take n t @ take (i - n) (drop n t)" using \<open>n \<le> i\<close> by (metis le_add_diff_inverse take_add)
    then show ?thesis using ih utf8_valid_app [OF n(5)] \<open>n \<le> i\<close> by simp
  qed (use "1.prems" in auto)
qed

lemma boundary_drop: "is_char_boundary t a \<Longrightarrow> is_char_boundary t b \<Longrightarrow> a \<le> b \<Longrightarrow> is_char_boundary (drop a t) (b - a)"
  by (auto simp: is_char_boundary_def)

lemma utf8_slice: "utf8_valid t \<Longrightarrow> slice t a b = Some u \<Longrightarrow> utf8_valid u"
  using utf8_cut utf8_cut [OF _ boundary_drop] by (auto simp: slice_def substr_def split: if_splits)

lemma slice_Some: "a \<le> b \<Longrightarrow> b \<le> length t \<Longrightarrow> is_char_boundary t a \<Longrightarrow> is_char_boundary t b \<Longrightarrow> slice t a b = Some (substr t a b)"
  by (simp add: slice_def)

lemma boundary_ends: "is_char_boundary t 0" "is_char_boundary t (length t)"
  by (simp_all add: is_char_boundary_def)

lemma slice_from_Some: "a \<le> length t \<Longrightarrow> is_char_boundary t a \<Longrightarrow> slice_from t a = Some (drop a t)"
  by (simp add: slice_from_def slice_def substr_def boundary_ends)

text \<open>Around an ASCII character a text can be cut.\<close>

lemma boundary_ascii:
  assumes "utf8_valid t" "i < length t" "byte (t ! i) < 128"
  shows "is_char_boundary t i" "is_char_boundary t (Suc i)"
proof -
  show b: "is_char_boundary t i" using assms(2,3) by (simp add: is_char_boundary_def is_cont_def)
  have v: "utf8_valid (drop i t)" "drop i t \<noteq> []" using utf8_cut [OF assms(1) b] assms(2) by simp_all
  have "utf8_step (drop i t) = (1, True)" using assms(2,3) by (simp add: utf8_step_def byte_at_def)
  then have "utf8_valid (drop (Suc i) t)"
    using v by (simp add: utf8_valid_def utf8_chunks.simps [of "drop i t"])
  then show "is_char_boundary t (Suc i)"
    using utf8_valid_hd [of "drop (Suc i) t"] assms(2) by (cases "Suc i = length t") (auto simp: is_char_boundary_def hd_drop_conv_nth)
qed

text \<open>An occurrence of a token.\<close>

definition token_span :: "string \<Rightarrow> nat \<times> nat \<Rightarrow> bool" where
  "token_span t m \<longleftrightarrow> (\<exists>p. token_shape p \<and> prefix p (drop (fst m) t) \<and> snd m = fst m + length p)"

lemma token_span_cuts:
  assumes "utf8_valid t" "token_span t (s, e)"
  shows "s \<le> e" "e \<le> length t" "is_char_boundary t s" "is_char_boundary t e"
proof -
  obtain p where p: "token_shape p" "prefix p (drop s t)" "e = s + length p" using assms(2) by (auto simp: token_span_def)
  then obtain z body where z: "drop s t = p @ z" "p = ''<'' @ body @ ''>''" by (auto simp: prefix_def token_shape_def)
  have len: "s + length p \<le> length t" using arg_cong [OF z(1), of length] token_length [OF p(1)] by simp
  have nth: "t ! (s + j) = p ! j" if "j < length p" for j using nth_of_drop [OF z(1) that] by simp
  have "t ! s = CHR ''<''" "t ! (e - 1) = CHR ''>''"
    using nth [of 0] nth [of "length p - 1"] p(3) by (simp_all add: z(2) nth_append)
  then have "byte (t ! s) < 128" "byte (t ! (e - 1)) < 128" by (simp_all add: byte_def)
  moreover have "s < length t" "e - 1 < length t" "Suc (e - 1) = e" using len p(3) token_length [OF p(1)] by simp_all
  ultimately show "is_char_boundary t s" "is_char_boundary t e"
    using boundary_ascii [OF assms(1)] by metis+
  show "s \<le> e" "e \<le> length t" using len p(3) by simp_all
qed

lemma tok_at_span: "tokens ps \<Longrightarrow> tok_at ps (drop i t) = Some p \<Longrightarrow> token_span t (i, i + length p)"
  using tok_at_SomeD [of ps "drop i t" p] by (auto simp: token_span_def tokens_def list_all_iff)

lemma lm_iter_spans:
  "tokens ps \<Longrightarrow> drop i t = u \<Longrightarrow> i \<le> length t \<Longrightarrow> k \<le> length u \<Longrightarrow>
   matches_ok (length t) (i + k) (lm_iter ps i k u) \<and> list_all (token_span t) (lm_iter ps i k u)"
proof (induction ps i k u rule: lm_iter.induct)
  case (2 ps i k x xs)
  then have "drop (Suc i) t = xs" "Suc i \<le> length t" by (metis drop_Suc list.sel(3) tl_drop, metis drop_all list.distinct(1) not_less_eq_eq)
  with 2 show ?case by simp
next
  case (3 ps i x xs)
  then have d: "drop (Suc i) t = xs" "Suc i \<le> length t" by (metis drop_Suc list.sel(3) tl_drop, metis drop_all list.distinct(1) not_less_eq_eq)
  show ?case
  proof (cases "tok_at ps (x # xs)")
    case None
    have "matches_ok (length t) (Suc i + 0) (lm_iter ps (Suc i) 0 xs) \<and> list_all (token_span t) (lm_iter ps (Suc i) 0 xs)"
      using "3.IH"(1) [OF None "3.prems"(1) d] by simp
    then show ?thesis using None matches_ok_mono [of "length t" "Suc i" _ i] by simp
  next
    case (Some p)
    have span: "token_span t (i, i + length p)" using tok_at_span [OF "3.prems"(1)] Some "3.prems"(2) by simp
    have p: "prefix p (x # xs)" "p \<noteq> []"
      using tok_at_SomeD [OF Some] tokens_no_empty [OF "3.prems"(1)] by auto
    then have l: "length p - 1 \<le> length xs" "i + length p \<le> length t"
      using prefix_length_le [OF p(1)] arg_cong [OF d(1), of length] d(2) by simp_all
    then show ?thesis using "3.IH"(2) [OF Some "3.prems"(1) d] span Some p(2) by (cases p) simp_all
  qed
qed simp

section \<open>The loops with slices that can fail\<close>

fun redact_loop_checked :: "redaction_session \<Rightarrow> compiled_rule \<Rightarrow> (nat \<times> nat) list \<Rightarrow> string \<Rightarrow> (nat \<times> nat) list
    \<Rightarrow> string \<Rightarrow> nat \<Rightarrow> bool \<Rightarrow> ((string \<times> nat \<times> bool) result \<times> redaction_session) option" where
  "redact_loop_checked S rule spans out [] result last_end changed = Some (Inr (result, last_end, changed), S)"
| "redact_loop_checked S rule spans out ((s, e) # ms) result last_end changed =
     (if overlaps spans s e then redact_loop_checked S rule spans out ms result last_end changed
      else
        Option.bind (slice out last_end s) (\<lambda>between.
        Option.bind (slice out s e) (\<lambda>m.
          if is_allowed (ses_engine S) m
          then redact_loop_checked S rule spans out ms (result @ between @ m) e True
          else
            (case token_for S rule m of
               (Inl err, S1) \<Rightarrow> Some (Inl err, S1)
             | (Inr tok, S1) \<Rightarrow> redact_loop_checked S1 rule spans out ms (result @ between @ tok) e True))))"

definition redact_rule_checked ::
  "matcher \<Rightarrow> redaction_session \<Rightarrow> compiled_rule \<Rightarrow> string \<Rightarrow> (string result \<times> redaction_session) option" where
  "redact_rule_checked A S rule out =
     (let (found, S1) = with_automaton A S (\<lambda>ac. ac_find_iter A ac out)
      in Option.bind (redact_loop_checked S1 rule (unwrap_or found []) out (rx_find_iter (cr_regex rule) out) [] 0 False)
           (\<lambda>r. case r of
              (Inl err, S2) \<Rightarrow> Some (Inl err, S2)
            | (Inr (result, last_end, changed), S2) \<Rightarrow>
                if changed then map_option (\<lambda>rest. (Inr (result @ rest), S2)) (slice_from out last_end)
                else Some (Inr out, S2)))"

fun redact_rules_checked :: "matcher \<Rightarrow> redaction_session \<Rightarrow> compiled_rule list \<Rightarrow> string
    \<Rightarrow> (string result \<times> redaction_session) option" where
  "redact_rules_checked A S [] out = Some (Inr out, S)"
| "redact_rules_checked A S (rule # rules) out =
     Option.bind (redact_rule_checked A S rule out) (\<lambda>r. case r of
        (Inl err, S1) \<Rightarrow> Some (Inl err, S1)
      | (Inr out1, S1) \<Rightarrow> redact_rules_checked A S1 rules out1)"

definition redact_text_checked :: "matcher \<Rightarrow> redaction_session \<Rightarrow> string \<Rightarrow> (string result \<times> redaction_session) option" where
  "redact_text_checked A S text = redact_rules_checked A S (re_rules (ses_engine S)) text"

fun restore_loop_checked :: "redaction_session \<Rightarrow> string \<Rightarrow> (nat \<times> nat) list \<Rightarrow> string \<Rightarrow> nat \<Rightarrow> string option" where
  "restore_loop_checked S text [] out last_end = map_option (\<lambda>rest. out @ rest) (slice_from text last_end)"
| "restore_loop_checked S text ((s, e) # ms) out last_end =
     Option.bind (slice text s e) (\<lambda>token.
     Option.bind (slice text last_end s) (\<lambda>between.
       restore_loop_checked S text ms (out @ between @ unwrap_or (lookup S token) token) e))"

definition restore_text_checked :: "matcher \<Rightarrow> redaction_session \<Rightarrow> string \<Rightarrow> (string \<times> redaction_session) option" where
  "restore_text_checked A S text =
     (let (r, S1) = with_automaton A S (\<lambda>ac. restore_loop_checked S text (ac_find_iter A ac text) [] 0)
      in case r of None \<Rightarrow> Some (text, S1) | Some out \<Rightarrow> map_option (\<lambda>t. (t, S1)) out)"

text \<open>The documented contract of \<open>regex\<close> on texts: its matches are between characters.\<close>

definition regex_utf8 :: "regex \<Rightarrow> bool" where
  "regex_utf8 rx \<longleftrightarrow> regex_ok rx \<and>
     (\<forall>t. utf8_valid t \<longrightarrow> list_all (\<lambda>(s, e). is_char_boundary t s \<and> is_char_boundary t e) (rx_find_iter rx t))"

definition regexes_utf8 :: "redaction_engine \<Rightarrow> bool" where
  "regexes_utf8 E \<longleftrightarrow> (\<forall>r \<in> set (re_rules E). regex_utf8 (cr_regex r))"

text \<open>The originals of a session are texts.\<close>

definition originals_utf8 :: "redaction_session \<Rightarrow> bool" where
  "originals_utf8 S \<longleftrightarrow> (\<forall>tok v. lookup S tok = Some v \<longrightarrow> utf8_valid v)"

section \<open>No slice fails\<close>

lemma token_name_byte: "token_name_char c \<Longrightarrow> byte c < 128"
  by (cases "c = CHR ''_''") (auto simp: token_name_char_def is_ascii_alphanumeric_def byte_def Let_def)

lemma token_utf8: "token_shape tok \<Longrightarrow> utf8_valid tok"
proof -
  assume "token_shape tok"
  then have "list_all (\<lambda>c. byte c < 128) tok"
    using token_name_byte by (auto simp: token_shape_def list_all_iff) (simp_all add: byte_def)
  then show ?thesis
  proof (induction tok)
    case (Cons c tok)
    then show ?case using utf8_valid_app [OF utf8_valid_ascii, of c tok] by simp
  qed simp
qed

lemma token_for_utf8:
  assumes "session_ok S" "rule \<in> set (re_rules (ses_engine S))" "token_for S rule m = (r, S')" "originals_utf8 S" "utf8_valid m"
  shows "session_ok S' \<and> extends S S' \<and> originals_utf8 S' \<and> (\<forall>tok. r = Inr tok \<longrightarrow> utf8_valid tok)"
  using assms(1,2)
proof (cases rule: token_for_cases [of S rule m])
  case (reuse tok)
  then have "tok \<in> set (keys S)" using lookup_key by blast
  then have "token_shape tok" using keys_tokens [OF assms(1)] unfolding tokens_def list_all_iff by blast
  with reuse assms(1,3,4) token_utf8 show ?thesis by auto
next
  case cap
  with assms(1,3,4) show ?thesis by auto
next
  case (fresh tok S1)
  have "utf8_valid v" if l: "lookup S1 k = Some v" for k v
  proof (cases "k = tok")
    case True
    with l fresh(6) assms(5) show ?thesis by simp
  next
    case False
    then have "k \<in> set (keys S)" using lookup_key [OF l] by (simp add: fresh(5))
    then obtain w where "lookup S k = Some w" by (metis lookup_def map_of_eq_None_iff not_Some_eq set_map)
    then show ?thesis using extends_lookup [OF fresh(3)] l assms(4) by (metis option.inject originals_utf8_def)
  qed
  then have "originals_utf8 S1" by (simp add: originals_utf8_def)
  moreover have "token_shape tok" using keys_tokens [OF fresh(2)] by (simp add: tokens_def list_all_iff fresh(5))
  ultimately show ?thesis using fresh(1-3) assms(3) token_utf8 by simp
qed

lemma redact_loop_safe:
  "redact_loop S rule spans out ms result l changed = (r, S') \<Longrightarrow> session_ok S \<Longrightarrow> rule \<in> set (re_rules (ses_engine S)) \<Longrightarrow>
   utf8_valid out \<Longrightarrow> matches_ok (length out) l ms \<Longrightarrow>
   list_all (\<lambda>(s, e). is_char_boundary out s \<and> is_char_boundary out e) ms \<Longrightarrow>
   is_char_boundary out l \<Longrightarrow> l \<le> length out \<Longrightarrow> utf8_valid result \<Longrightarrow> originals_utf8 S \<Longrightarrow>
   redact_loop_checked S rule spans out ms result l changed = Some (r, S') \<and> originals_utf8 S' \<and>
   (\<forall>res l' ch. r = Inr (res, l', ch) \<longrightarrow> utf8_valid res \<and> is_char_boundary out l' \<and> l' \<le> length out)"
proof (induction S rule spans out ms result l changed rule: redact_loop_checked.induct)
  case (2 S rule spans out s e ms result l changed)
  have m: "l \<le> s" "s \<le> e" "e \<le> length out" "matches_ok (length out) e ms" and b: "is_char_boundary out s" "is_char_boundary out e"
    "list_all (\<lambda>(s, e). is_char_boundary out s \<and> is_char_boundary out e) ms"
    using "2.prems"(5,6) by simp_all
  show ?case
  proof (cases "overlaps spans s e")
    case True
    have "matches_ok (length out) l ms" using m by (meson matches_ok_mono order_trans)
    with "2.IH"(1) [OF True _ "2.prems"(2-4) this b(3) "2.prems"(7-10)] "2.prems"(1) True show ?thesis by simp
  next
    case False
    have s1: "slice out l s = Some (substr out l s)" and s2: "slice out s e = Some (substr out s e)"
      using slice_Some m b "2.prems"(7) by simp_all
    have v: "utf8_valid (substr out l s)" "utf8_valid (substr out s e)" using utf8_slice [OF "2.prems"(4)] s1 s2 by blast+
    show ?thesis
    proof (cases "is_allowed (ses_engine S) (substr out s e)")
      case True
      have "utf8_valid (result @ substr out l s @ substr out s e)" using v "2.prems"(9) by (intro utf8_valid_app)
      with "2.IH"(2) [OF False s1 s2 True _ "2.prems"(2-4) m(4) b(3,2) m(3) this "2.prems"(10)] "2.prems"(1) False True
      show ?thesis by (simp add: s1 s2)
    next
      case mint: False
      obtain r1 S1 where t: "token_for S rule (substr out s e) = (r1, S1)" by fastforce
      note tok = token_for_utf8 [OF "2.prems"(2,3) t "2.prems"(10) v(2)]
      then have S1: "session_ok S1" "extends S S1" by simp_all
      show ?thesis
      proof (cases r1)
        case (Inl err)
        with "2.prems"(1) False mint t tok show ?thesis by (auto simp: s1 s2)
      next
        case (Inr token)
        have "rule \<in> set (re_rules (ses_engine S1))" using S1(2) "2.prems"(3) by (simp add: extends_def)
        moreover have "utf8_valid (result @ substr out l s @ token)" using v tok Inr "2.prems"(9) by (simp add: utf8_valid_app)
        ultimately show ?thesis
          using "2.IH"(3) [OF False s1 s2 mint t [symmetric] Inr _ S1(1) _ "2.prems"(4) m(4) b(3,2) m(3)] "2.prems"(1) False mint t tok
          by (simp add: s1 s2 Inr)
      qed
    qed
  qed
qed auto

lemma originals_vault: "ses_vault S' = ses_vault S \<Longrightarrow> originals_utf8 S' = originals_utf8 S"
  by (simp add: originals_utf8_def lookup_def)

lemma redact_rule_safe:
  assumes "redact_rule A S rule out = (r, S')" "matcher_ok A" "session_ok S" "rule \<in> set (re_rules (ses_engine S))"
    and "regex_utf8 (cr_regex rule)" "utf8_valid out" "originals_utf8 S"
  shows "redact_rule_checked A S rule out = Some (r, S') \<and> originals_utf8 S' \<and> (\<forall>out'. r = Inr out' \<longrightarrow> utf8_valid out')"
proof -
  obtain f S1 where w: "with_automaton A S (\<lambda>ac. ac_find_iter A ac out) = (f, S1)" by fastforce
  note w1 = with_automaton_ok(1-3) [OF assms(3,2) w]
  obtain q S2 where l: "redact_loop S1 rule (unwrap_or f []) out (rx_find_iter (cr_regex rule) out) [] 0 False = (q, S2)" by fastforce
  have "matches_ok (length out) 0 (rx_find_iter (cr_regex rule) out)"
    "list_all (\<lambda>(s, e). is_char_boundary out s \<and> is_char_boundary out e) (rx_find_iter (cr_regex rule) out)"
    using assms(5,6) by (simp_all add: regex_utf8_def regex_ok_def)
  from redact_loop_safe [OF l w1(1) _ assms(6) this boundary_ends(1) _ utf8_valid_Nil]
  have safe: "redact_loop_checked S1 rule (unwrap_or f []) out (rx_find_iter (cr_regex rule) out) [] 0 False = Some (q, S2)"
    "originals_utf8 S2" "\<forall>res l' ch. q = Inr (res, l', ch) \<longrightarrow> utf8_valid res \<and> is_char_boundary out l' \<and> l' \<le> length out"
    using assms(4,7) w1(3) originals_vault [OF w1(2)] by auto
  show ?thesis
  proof (cases q)
    case (Inl err)
    with assms(1) w l safe show ?thesis by (auto simp: redact_rule_def redact_rule_checked_def)
  next
    case (Inr x)
    obtain res l' ch where x: "x = (res, l', ch)" by (cases x)
    then have b: "utf8_valid res" "is_char_boundary out l'" "l' \<le> length out" using safe(3) Inr by simp_all
    have "utf8_valid (res @ drop l' out)" using b(1) utf8_cut [OF assms(6) b(2)] by (simp add: utf8_valid_app)
    with assms(1,6) w l safe Inr x slice_from_Some [OF b(3,2)] show ?thesis
      by (auto simp: redact_rule_def redact_rule_checked_def)
  qed
qed

lemma redact_rules_safe:
  "redact_rules A S rules out = (r, S') \<Longrightarrow> matcher_ok A \<Longrightarrow> session_ok S \<Longrightarrow> set rules \<subseteq> set (re_rules (ses_engine S)) \<Longrightarrow>
   regexes_utf8 (ses_engine S) \<Longrightarrow> utf8_valid out \<Longrightarrow> originals_utf8 S \<Longrightarrow>
   redact_rules_checked A S rules out = Some (r, S') \<and> originals_utf8 S' \<and> (\<forall>out'. r = Inr out' \<longrightarrow> utf8_valid out')"
proof (induction rules arbitrary: S out)
  case (Cons rule rules)
  obtain q S1 where q: "redact_rule A S rule out = (q, S1)" by fastforce
  have "regex_utf8 (cr_regex rule)" using Cons.prems(4,5) by (simp add: regexes_utf8_def)
  have "rule \<in> set (re_rules (ses_engine S))" using Cons.prems(4) by simp
  note redact_rule_safe [OF q Cons.prems(2,3) this \<open>regex_utf8 (cr_regex rule)\<close> Cons.prems(6,7)]
  then have safe: "redact_rule_checked A S rule out = Some (q, S1)" "originals_utf8 S1" "\<forall>out'. q = Inr out' \<longrightarrow> utf8_valid out'"
    by simp_all
  have S1: "session_ok S1" "ses_engine S1 = ses_engine S"
    using redact_rule_ok [OF q Cons.prems(2,3)] Cons.prems(4) by (simp_all add: extends_def)
  show ?case
  proof (cases q)
    case (Inl err)
    with Cons.prems q safe show ?thesis by auto
  next
    case (Inr out1)
    then have rest: "redact_rules A S1 rules out1 = (r, S')" using Cons.prems(1) q by simp
    have "redact_rules_checked A S1 rules out1 = Some (r, S') \<and> originals_utf8 S' \<and> (\<forall>out'. r = Inr out' \<longrightarrow> utf8_valid out')"
      using Cons.prems(4,5) safe(2,3) Inr by (intro Cons.IH [OF rest Cons.prems(2) S1(1)]) (simp_all add: S1(2))
    then show ?thesis using safe(1) Inr by simp
  qed
qed auto

lemma redact_text_safe:
  assumes "matcher_ok A" "session_ok S" "regexes_utf8 (ses_engine S)" "utf8_valid t" "originals_utf8 S"
  shows "redact_text_checked A S t = Some (redact_text A S t)" "originals_utf8 (snd (redact_text A S t))"
    "fst (redact_text A S t) = Inr t' \<Longrightarrow> utf8_valid t'"
proof -
  obtain r S' where r: "redact_rules A S (re_rules (ses_engine S)) t = (r, S')" by fastforce
  note safe = redact_rules_safe [OF r assms(1,2) subset_refl assms(3,4,5)]
  then show "redact_text_checked A S t = Some (redact_text A S t)" "originals_utf8 (snd (redact_text A S t))"
    "fst (redact_text A S t) = Inr t' \<Longrightarrow> utf8_valid t'"
    using r by (simp_all add: redact_text_checked_def redact_text_def)
qed

lemma restore_loop_safe:
  "originals_utf8 S \<Longrightarrow> utf8_valid t \<Longrightarrow> matches_ok (length t) l ms \<Longrightarrow> list_all (token_span t) ms \<Longrightarrow>
   is_char_boundary t l \<Longrightarrow> l \<le> length t \<Longrightarrow> utf8_valid out \<Longrightarrow>
   restore_loop_checked S t ms out l = Some (restore_loop S t ms out l) \<and> utf8_valid (restore_loop S t ms out l)"
proof (induction ms arbitrary: out l)
  case Nil
  then show ?case using slice_from_Some utf8_cut utf8_valid_app by simp
next
  case (Cons m ms)
  obtain s e where m: "m = (s, e)" by fastforce
  then have b: "s \<le> e" "e \<le> length t" "is_char_boundary t s" "is_char_boundary t e" "l \<le> s"
    using token_span_cuts [OF Cons.prems(2), of s e] Cons.prems(3,4) by simp_all
  have s1: "slice t s e = Some (substr t s e)" "slice t l s = Some (substr t l s)"
    using slice_Some b Cons.prems(5) by simp_all
  then have v: "utf8_valid (substr t s e)" "utf8_valid (substr t l s)" using utf8_slice [OF Cons.prems(2)] by blast+
  have "utf8_valid (unwrap_or (lookup S (substr t s e)) (substr t s e))"
    using v(1) Cons.prems(1) by (cases "lookup S (substr t s e)") (simp_all add: originals_utf8_def)
  then have "utf8_valid (out @ substr t l s @ unwrap_or (lookup S (substr t s e)) (substr t s e))"
    using v(2) Cons.prems(7) by (intro utf8_valid_app)
  with Cons.IH [OF Cons.prems(1,2) _ _ b(4,2) this] Cons.prems(3,4) s1 show ?case by (simp add: m Let_def)
qed

lemma restore_text_safe:
  assumes "matcher_ok A" "session_ok S" "utf8_valid t" "originals_utf8 S"
  shows "restore_text_checked A S t = Some (restore_text A S t)" "utf8_valid (fst (restore_text A S t))"
proof -
  obtain f S1 where w: "with_automaton A S (\<lambda>ac. ac_find_iter A ac t) = (f, S1)" by fastforce
  have map: "with_automaton A S (\<lambda>ac. g (ac_find_iter A ac t)) = (map_option g f, S1)" for g
    using w by (auto simp: with_automaton_def Let_def split: option.splits prod.splits if_splits)
  note maps = map [of "\<lambda>ms. restore_loop_checked S t ms [] 0"] map [of "\<lambda>ms. restore_loop S t ms [] 0"]
  have "restore_text_checked A S t = Some (restore_text A S t) \<and> utf8_valid (fst (restore_text A S t))"
  proof (cases f)
    case None
    then show ?thesis using assms(3) by (simp add: restore_text_checked_def restore_text_def maps)
  next
    case (Some ms)
    then obtain ps where ps: "set ps = set (keys S)" "ms = ac_find_iter A ps t"
      using with_automaton_ok(4) [OF assms(2,1) w] by auto
    then have "tokens ps" using keys_tokens [OF assms(2)] by (simp add: tokens_def list_all_iff)
    then have "matches_ok (length t) 0 ms" "list_all (token_span t) ms"
      using lm_iter_spans [of ps 0 t t 0] ps(2) matcher_find_iter [OF assms(1)] by simp_all
    from restore_loop_safe [OF assms(4,3) this boundary_ends(1) _ utf8_valid_Nil] Some
    show ?thesis by (simp add: restore_text_checked_def restore_text_def maps)
  qed
  then show "restore_text_checked A S t = Some (restore_text A S t)" "utf8_valid (fst (restore_text A S t))" by simp_all
qed

section \<open>Feeding a stream\<close>

definition splice_checked :: "serde_json \<Rightarrow> bool \<Rightarrow> string \<Rightarrow> string option" where
  "splice_checked J json_escape orig =
     (if json_escape then let quoted = to_string J (String orig) in slice quoted 1 (length quoted - 1) else Some orig)"

partial_function (option) feed_loop_checked ::
  "matcher \<Rightarrow> serde_json \<Rightarrow> bool \<Rightarrow> redaction_session \<Rightarrow> string \<Rightarrow> string
   \<Rightarrow> (string \<times> string \<times> redaction_session) option" where
  "feed_loop_checked A J esc S buffer out =
     (let (matched, S1) = with_automaton A S (\<lambda>ac. ac_find A ac buffer) in
      case Option.bind matched (\<lambda>m. m) of
        None \<Rightarrow> Some (out, buffer, S1)
      | Some (s, e) \<Rightarrow>
          Option.bind (slice buffer 0 s) (\<lambda>before.
          Option.bind (slice buffer s e) (\<lambda>token.
          Option.bind (splice_checked J esc (unwrap_or (lookup S1 token) token)) (\<lambda>orig.
          Option.bind (slice_from buffer e) (\<lambda>rest.
            feed_loop_checked A J esc S1 rest (out @ before @ orig))))))"

definition keep_from_checked :: "nat \<Rightarrow> string \<Rightarrow> nat option" where
  "keep_from_checked max_len buffer =
     (let window_start = boundary_below buffer (length buffer - (max_len - 1)) in
      map_option (\<lambda>window. case find_char CHR ''<'' window of Some i \<Rightarrow> window_start + i | None \<Rightarrow> length buffer)
        (slice_from buffer window_start))"

definition rs_feed_checked :: "matcher \<Rightarrow> serde_json \<Rightarrow> redaction_session \<Rightarrow> restore_stream \<Rightarrow> string
    \<Rightarrow> (string \<times> restore_stream \<times> redaction_session) option" where
  "rs_feed_checked A J S st fragment =
     Option.bind (feed_loop_checked A J (rs_json_escape st) S (rs_buffer st @ fragment) []) (\<lambda>(out, buffer, S1).
     Option.bind (keep_from_checked (rs_max_token_len st) buffer) (\<lambda>keep.
       if keep > 0 then
         Option.bind (slice buffer 0 keep) (\<lambda>safe.
         Option.bind (slice_from buffer keep) (\<lambda>rest.
           Some (out @ safe, st\<lparr>rs_buffer := rest\<rparr>, S1)))
       else Some (out, st\<lparr>rs_buffer := buffer\<rparr>, S1)))"

text \<open>\<open>serde_json\<close> prints a string between quotes.\<close>

definition quotes_strings :: "serde_json \<Rightarrow> bool" where
  "quotes_strings J \<longleftrightarrow>
     (\<forall>t. utf8_valid t \<longrightarrow> (\<exists>body. utf8_valid body \<and> to_string J (String t) = [CHR 0x22] @ body @ [CHR 0x22]))"

lemma splice_safe:
  assumes "quotes_strings J" "utf8_valid t"
  shows "splice_checked J esc t = Some (splice_original J esc t)" "utf8_valid (splice_original J esc t)"
proof -
  obtain body where b: "utf8_valid body" "to_string J (String t) = [CHR 0x22] @ body @ [CHR 0x22]"
    using assms by (auto simp: quotes_strings_def)
  have q: "utf8_valid [CHR 0x22]" by code_simp
  have v: "utf8_valid ([CHR 0x22] @ body @ [CHR 0x22])" using q b(1) by (intro utf8_valid_app)
  have "is_char_boundary ([CHR 0x22] @ body @ [CHR 0x22]) (Suc 0)"
    by (rule boundary_ascii(2) [OF v]) (simp_all add: byte_def)
  moreover have "is_char_boundary ([CHR 0x22] @ body @ [CHR 0x22]) (Suc (length body))"
    by (rule boundary_ascii(1) [OF v]) (simp_all add: byte_def nth_append)
  moreover have "substr ([CHR 0x22] @ body @ [CHR 0x22]) (Suc 0) (Suc (length body)) = body" by (simp add: substr_def)
  ultimately show "splice_checked J esc t = Some (splice_original J esc t)" "utf8_valid (splice_original J esc t)"
    using b assms(2) by (simp_all add: splice_checked_def splice_original_def slice_def)
qed

lemma found_cuts:
  assumes "tokens ps" "lm_find ps 0 b = Some (s, e)" "utf8_valid b"
  shows "s \<le> e" "e \<le> length b" "is_char_boundary b s" "is_char_boundary b e"
proof -
  obtain p where p: "tok_at ps (drop s b) = Some p" "e = s + length p" using lm_find_Some [OF assms(2)] by blast
  then have "token_span b (s, e)" using tok_at_span [OF assms(1)] by simp
  from token_span_cuts [OF assms(3) this] show "s \<le> e" "e \<le> length b" "is_char_boundary b s" "is_char_boundary b e" by simp_all
qed

lemma feed_loop_safe:
  assumes "matcher_ok A" "quotes_strings J" "session_ok S" "originals_utf8 S" "utf8_valid buffer" "utf8_valid out"
  shows "\<exists>out' buffer' S'. feed_loop A (splice_original J esc) S buffer out = Some (out', buffer', S') \<and>
    feed_loop_checked A J esc S buffer out = Some (out', buffer', S') \<and> utf8_valid out' \<and> utf8_valid buffer'"
  using assms(3-6)
proof (induction "length buffer" arbitrary: S buffer out rule: less_induct)
  case less
  obtain f S1 where w: "with_automaton A S (\<lambda>ac. ac_find A ac buffer) = (f, S1)" by fastforce
  note w1 = with_automaton_ok(1-3) [OF less.prems(1) assms(1) w] and fnd = with_automaton_find [OF less.prems(1) assms(1) w]
  note tk = keys_tokens [OF less.prems(1)]
  show ?case
  proof (cases "lm_find (keys S) 0 buffer")
    case None
    then have "feed_loop A (splice_original J esc) S buffer out = Some (out, buffer, S1)"
      "feed_loop_checked A J esc S buffer out = Some (out, buffer, S1)"
      by (subst feed_loop.simps feed_loop_checked.simps, simp add: w fnd)+
    with less.prems show ?thesis by blast
  next
    case (Some m)
    obtain s e where m: "m = (s, e)" by (cases m)
    note cut = found_cuts [OF tk Some [unfolded m] less.prems(3)]
    let ?tok = "substr buffer s e"
    let ?orig = "unwrap_or (lookup S1 ?tok) ?tok"
    have sl: "slice buffer 0 s = Some (take s buffer)" "slice buffer s e = Some ?tok" "slice_from buffer e = Some (drop e buffer)"
      using cut slice_Some [of 0 s buffer] boundary_ends slice_Some slice_from_Some by (simp_all add: substr_def)
    have v: "utf8_valid (take s buffer)" "utf8_valid ?tok" "utf8_valid (drop e buffer)"
      using utf8_cut [OF less.prems(3) cut(3)] utf8_cut [OF less.prems(3) cut(4)] utf8_slice [OF less.prems(3) sl(2)] by simp_all
    have S1: "originals_utf8 S1" using less.prems(2) originals_vault [OF w1(2)] by simp
    then have "utf8_valid ?orig" using v(2) by (cases "lookup S1 ?tok") (simp_all add: originals_utf8_def)
    note sp = splice_safe [OF assms(2) this, of esc]
    let ?out = "out @ take s buffer @ splice_original J esc ?orig"
    have "utf8_valid ?out" using less.prems(4) v(1) sp(2) by (intro utf8_valid_app)
    moreover have "length (drop e buffer) < length buffer" using subst_first_match(1,2) [OF tk Some [unfolded m]] by simp
    ultimately obtain out' buffer' S' where ih: "feed_loop A (splice_original J esc) S1 (drop e buffer) ?out = Some (out', buffer', S')"
      "feed_loop_checked A J esc S1 (drop e buffer) ?out = Some (out', buffer', S')" "utf8_valid out'" "utf8_valid buffer'"
      using less.hyps [OF _ w1(1) S1 v(3)] by blast
    have "feed_loop A (splice_original J esc) S buffer out = feed_loop A (splice_original J esc) S1 (drop e buffer) ?out"
      by (subst feed_loop.simps) (simp add: w fnd Some m Let_def)
    moreover have "feed_loop_checked A J esc S buffer out = feed_loop_checked A J esc S1 (drop e buffer) ?out"
      by (subst feed_loop_checked.simps) (simp add: w fnd Some m sl sp)
    ultimately show ?thesis using ih by auto
  qed
qed

lemma boundary_below_boundary: "is_char_boundary b (boundary_below b n)"
  by (induction b n rule: boundary_below.induct) (simp_all add: boundary_ends)

lemma keep_safe:
  assumes "utf8_valid b"
  shows "keep_from_checked m b = Some (keep_from m b)" "is_char_boundary b (keep_from m b)"
proof -
  let ?ws = "boundary_below b (length b - (m - 1))"
  have ws: "?ws \<le> length b" using boundary_below_le [of b "length b - (m - 1)"] by linarith
  show "keep_from_checked m b = Some (keep_from m b)"
    using slice_from_Some [OF ws boundary_below_boundary] by (simp add: keep_from_checked_def keep_from_def Let_def)
  show "is_char_boundary b (keep_from m b)"
  proof (cases "find_char CHR ''<'' (drop ?ws b)")
    case (Some i)
    then have "?ws + i < length b" "byte (b ! (?ws + i)) < 128" by (auto simp: find_char_Some byte_def)
    from boundary_ascii(1) [OF assms this] Some show ?thesis by (simp add: keep_from_def)
  qed (simp add: keep_from_def boundary_ends)
qed

lemma rs_feed_safe:
  assumes "matcher_ok A" "quotes_strings J" "session_ok S" "originals_utf8 S" "utf8_valid (rs_buffer st)" "utf8_valid fragment"
  shows "\<exists>out st' S'. rs_feed A J S st fragment = Some (out, st', S') \<and> rs_feed_checked A J S st fragment = Some (out, st', S') \<and>
    utf8_valid out \<and> utf8_valid (rs_buffer st')"
proof -
  have "utf8_valid (rs_buffer st @ fragment)" using assms(5,6) by (rule utf8_valid_app)
  from feed_loop_safe [OF assms(1-4) this utf8_valid_Nil, of "rs_json_escape st"] obtain out b S' where
    f: "feed_loop A (splice_original J (rs_json_escape st)) S (rs_buffer st @ fragment) [] = Some (out, b, S')"
      "feed_loop_checked A J (rs_json_escape st) S (rs_buffer st @ fragment) [] = Some (out, b, S')"
      "utf8_valid out" "utf8_valid b" by blast
  let ?k = "keep_from (rs_max_token_len st) b"
  note k = keep_safe [OF f(4), of "rs_max_token_len st"] keep_from_le [of "rs_max_token_len st" b]
  have sl: "slice b 0 ?k = Some (take ?k b)" "slice_from b ?k = Some (drop ?k b)"
    using slice_Some [of 0 ?k b] slice_from_Some [of ?k b] boundary_ends k by (simp_all add: substr_def)
  show ?thesis using f utf8_cut [OF f(4) k(2)] sl k(1) by (simp add: rs_feed_def rs_feed_checked_def utf8_valid_app Let_def)
qed

section \<open>Examples\<close>

lemma occurrences_at:
  "drop i t = u \<Longrightarrow> list_all (\<lambda>(s, e). prefix w (drop s t) \<and> e = s + length w) (occurrences w i k u)"
proof (induction w i k u rule: occurrences.induct)
  case (2 w i k x xs)
  then show ?case by (metis drop_Suc list.sel(3) occurrences.simps(2) tl_drop)
next
  case (3 w i x xs)
  then have "drop (Suc i) t = xs" by (metis drop_Suc list.sel(3) tl_drop)
  with 3 show ?case by simp
qed simp

lemma literal_regex_utf8:
  assumes "w \<noteq> []" "byte (hd w) < 128" "byte (last w) < 128"
  shows "regex_utf8 (literal_regex w)"
proof -
  have cut: "is_char_boundary t s \<and> is_char_boundary t e"
    if t: "utf8_valid t" and p: "prefix w (drop s t)" "e = s + length w" for t s e
  proof -
    obtain z where z: "drop s t = w @ z" using p(1) by (auto simp: prefix_def)
    have len: "s + length w \<le> length t" using arg_cong [OF z, of length] assms(1) by (cases w) simp_all
    have "e - 1 = s + (length w - 1)" using p(2) assms(1) by (cases w) simp_all
    then have "t ! s = hd w" "t ! (e - 1) = last w"
      using nth_of_drop [OF z, of 0] nth_of_drop [OF z, of "length w - 1"] assms(1) by (simp_all add: hd_conv_nth last_conv_nth)
    then have "byte (t ! s) < 128" "byte (t ! (e - 1)) < 128" using assms by simp_all
    moreover have "s < length t" "e - 1 < length t" "Suc (e - 1) = e" using len p(2) assms(1) by (cases w; simp)+
    ultimately show ?thesis using boundary_ascii [OF t] by metis
  qed
  have "list_all (\<lambda>(s, e). is_char_boundary t s \<and> is_char_boundary t e) (occurrences w 0 0 t)" if "utf8_valid t" for t
    using occurrences_at [of 0 t t w 0] cut [OF that] by (auto simp: list_all_iff)
  then show ?thesis using literal_regex_ok [OF assms(1)] by (simp add: regex_utf8_def literal_regex_def)
qed

lemma escaped_utf8:
  "utf8_valid t \<Longrightarrow> utf8_valid (concat (map (\<lambda>c. if c = CHR 0x22 \<or> c = CHR 0x5C then [CHR 0x5C, c] else [c]) t))"
proof (induction t rule: length_induct)
  case (1 t)
  let ?esc = "\<lambda>c. if c = CHR 0x22 \<or> c = CHR 0x5C then [CHR 0x5C, c] else [c]"
  show ?case
  proof (cases "t = []")
    case False
    obtain n where n: "utf8_step t = (n, True)" "0 < n" "n \<le> length t" "utf8_valid (drop n t)" "utf8_valid (take n t)"
      using utf8_first [OF "1.prems" False] by metis
    then have ih: "utf8_valid (concat (map ?esc (drop n t)))" using "1.IH" by simp
    have "utf8_valid (concat (map ?esc (take n t)))"
    proof (cases "n = 1")
      case True
      then obtain c where c: "take n t = [c]" using False by (cases t) simp_all
      have "utf8_valid [CHR 0x5C, CHR 0x22]" "utf8_valid [CHR 0x5C, CHR 0x5C]" by code_simp+
      then show ?thesis using n(5) by (auto simp: c)
    next
      case multi: False
      have "?esc c = [c]" if c: "c \<in> set (take n t)" for c
      proof -
        obtain i where i: "i < n" "c = t ! i" using c n(3) by (auto simp: in_set_conv_nth)
        then have "128 \<le> byte c" using utf8_step_multi [OF n(1) multi i(1)] n(3) by (simp add: byte_at_def)
        then show ?thesis by (auto simp: byte_def)
      qed
      then have "concat (map ?esc (take n t)) = take n t" by (induction "take n t" rule: list.induct) (auto simp: map_idI cong: map_cong)
      then show ?thesis using n(5) by simp
    qed
    then have "utf8_valid (concat (map ?esc (take n t)) @ concat (map ?esc (drop n t)))" using ih by (rule utf8_valid_app)
    then show ?thesis by (metis append_take_drop_id concat_append map_append)
  qed simp
qed

lemma example_serde_quotes: "quotes_strings example_serde"
  using escaped_utf8 by (auto simp: quotes_strings_def example_serde_def)

section \<open>Properties\<close>

text \<open>
  C11: the guard cuts texts only between characters. On any UTF-8 text, every string slice that
  redaction and restoration take is inside the text and on character boundaries, so neither can
  panic; both then compute what their definitions say, yield UTF-8 again, and keep the session's
  originals UTF-8.
\<close>

theorem guard_slices_between_characters:
  assumes "matcher_ok A" "session_ok S" "regexes_utf8 (ses_engine S)" "originals_utf8 S" "utf8_valid t"
  shows "redact_text_checked A S t = Some (redact_text A S t) \<and> restore_text_checked A S t = Some (restore_text A S t) \<and>
    (case redact_text A S t of (Inr t', S') \<Rightarrow> utf8_valid t' \<and> originals_utf8 S' | (Inl _, S') \<Rightarrow> originals_utf8 S') \<and>
    utf8_valid (fst (restore_text A S t))"
proof -
  note r = redact_text_safe [OF assms(1,2,3,5,4)] and q = restore_text_safe [OF assms(1,2,5,4)]
  show ?thesis using r(1,2) r(3) q by (cases "redact_text A S t") (auto split: sum.split)
qed

theorem guard_slices_between_characters_witness:
  "redact_text_checked reference_matcher example_session ''hi bob'' = Some (redact_text reference_matcher example_session ''hi bob'') \<and>
   restore_text_checked reference_matcher example_session ''hi bob'' = Some (restore_text reference_matcher example_session ''hi bob'')"
proof -
  have "regexes_utf8 (ses_engine example_session)"
    using literal_regex_utf8 [of "''bob''"] by (simp add: regexes_utf8_def example_session_def new_session_def example_engine_def byte_def)
  moreover have "originals_utf8 example_session" by (simp add: originals_utf8_def lookup_def example_session_def new_session_def)
  moreover have "utf8_valid ''hi bob''" by code_simp
  ultimately show ?thesis using guard_slices_between_characters [OF reference_matcher_ok example_session_ok] by blast
qed

text \<open>
  C12: a token hidden between multi-byte characters cannot crash a stream. Feeding a channel a
  fragment of UTF-8 never slices inside a character, not where tokens are replaced, not where the
  original is spliced into JSON, and not where the hold-back window starts; what is emitted and what
  is held back are UTF-8 again.
\<close>

theorem feed_slices_between_characters:
  assumes "matcher_ok A" "quotes_strings J" "session_ok S" "originals_utf8 S" "utf8_valid (rs_buffer st)" "utf8_valid fragment"
  shows "\<exists>out st' S'. rs_feed A J S st fragment = Some (out, st', S') \<and> rs_feed_checked A J S st fragment = Some (out, st', S') \<and>
    utf8_valid out \<and> utf8_valid (rs_buffer st')"
  by (rule rs_feed_safe [OF assms])

theorem feed_slices_between_characters_witness:
  "\<exists>out st' S'. rs_feed_checked reference_matcher example_serde example_after (rs_with_mode example_after True) ''hi <CRED_1>''
     = Some (out, st', S') \<and> utf8_valid out"
proof -
  have "token_to_original (ses_vault example_after) = [(''<CRED_1>'', ''bob'')]" by code_simp
  moreover have "utf8_valid ''bob''" "utf8_valid ''hi <CRED_1>''" by code_simp+
  ultimately have "originals_utf8 example_after" by (simp add: originals_utf8_def lookup_def)
  moreover have "utf8_valid (rs_buffer (rs_with_mode example_after True))" by (simp add: rs_with_mode_def)
  ultimately show ?thesis
    using feed_slices_between_characters [OF reference_matcher_ok example_serde_quotes example_after_ok _ _ \<open>utf8_valid ''hi <CRED_1>''\<close>]
    by blast
qed

end
