(* ===== verification/StreamEnds.thy ===== *)
theory StreamEnds
  imports Relay
begin

text \<open>
  The streaming task always ends: the invariant of a running task under which no step of it gets
  stuck, and that every event but a chunk takes it out of its loop.
\<close>

section \<open>No step gets stuck\<close>

text \<open>A task whose restorer, if there is one, is in a state that a session can bring about.\<close>

definition ready :: "relay \<Rightarrow> bool" where
  "ready r \<longleftrightarrow> (case rl_restorer r of None \<Rightarrow> True | Some (R, S) \<Rightarrow> session_ok S \<and> restorer_ok S R)"

lemma ready_new: "(\<And>S. privacy = Some S \<Longrightarrow> session_ok S) \<Longrightarrow> ready (relay_new decoder encoder privacy left)"
  by (cases privacy) (simp_all add: ready_def relay_new_def restorer_new_def sr_new_ok)

lemma restore_opt_ready:
  assumes "matcher_ok A" "ready r"
  obtains out rst where "restore_opt A J (rl_restorer r) e = Some (out, rst)" "\<And>r'. rl_restorer r' = rst \<Longrightarrow> ready r'"
proof (cases "rl_restorer r")
  case None
  then show ?thesis by (intro that [of "Some e" None]) (simp_all add: restore_opt_def ready_def)
next
  case (Some RS)
  obtain R S where RS: "RS = (R, S)" by fastforce
  then have ok: "session_ok S" "restorer_ok S R" using assms(2) Some by (simp_all add: ready_def)
  obtain out R' S' where e: "restore_event A J S R e = Some (out, R', S')" "same_vault S S'"
    "restorer_emits J S R [e] (case out of None \<Rightarrow> [] | Some o' \<Rightarrow> [o']) R'"
    using restore_event_emits [OF assms(1) ok] by blast
  then have "session_ok S'" "restorer_ok S' R'"
    using restorer_ok_vault [of S' S R'] by (simp_all add: same_vault_def restorer_emits_def)
  with e(1) show ?thesis by (intro that [of out "Some (R', S')"]) (simp_all add: restore_opt_def Some RS ready_def)
qed

lemma deliver_ready: "deliver J r e = (ok, r') \<Longrightarrow> ready r' = ready r"
  by (auto simp: deliver_def Let_def ready_def split: prod.splits)

lemma relay_events_return:
  "matcher_ok A \<Longrightarrow> ready r \<Longrightarrow> \<exists>ok r'. relay_events A J r es = Some (ok, r') \<and> ready r'"
proof (induction es arbitrary: r)
  case (Cons e es)
  obtain out rst where o: "restore_opt A J (rl_restorer r) e = Some (out, rst)" "\<And>r'. rl_restorer r' = rst \<Longrightarrow> ready r'"
    using restore_opt_ready [OF Cons.prems] by blast
  show ?case
  proof (cases out)
    case None
    then show ?thesis using o Cons.IH [OF Cons.prems(1)] by simp
  next
    case (Some e')
    obtain ok r2 where d: "deliver J (r\<lparr>rl_restorer := rst\<rparr>) e' = (ok, r2)" by fastforce
    then have "ready r2" using o(2) deliver_ready by (metis relay.select_convs(4) relay.surjective relay.update_convs(4))
    with Some o d Cons.IH [OF Cons.prems(1)] show ?thesis by (auto simp: Let_def split: bool.split)
  qed
qed auto

lemma relay_payloads_return:
  "matcher_ok A \<Longrightarrow> ready r \<Longrightarrow> \<exists>ok r'. relay_payloads A J r ps = Some (ok, r') \<and> ready r'"
proof (induction ps arbitrary: r)
  case (Cons p ps)
  obtain es d where f: "dec_feed J (rl_decoder r) p = (es, d)" by fastforce
  have "ready (r\<lparr>rl_decoder := d\<rparr>)" using Cons.prems(2) by (simp add: ready_def)
  then obtain ok r1 where r1: "relay_events A J (r\<lparr>rl_decoder := d\<rparr>) es = Some (ok, r1)" "ready r1"
    using relay_events_return [OF Cons.prems(1)] by blast
  show ?case
  proof (cases ok)
    case True
    with f r1 Cons.IH [OF Cons.prems(1) r1(2)] Cons.prems(2) show ?thesis by (auto simp: process_payload_def)
  next
    case False
    with f r1 Cons.prems(2) show ?thesis by (auto simp: process_payload_def)
  qed
qed auto

lemma relay_step_return:
  assumes "matcher_ok A" "ready r"
  shows "\<exists>r'. relay_step A J r ev = Some r' \<and> ready r' \<and> ((\<forall>b. ev \<noteq> Chunk b) \<longrightarrow> \<not> rl_running r')"
proof (cases ev)
  case (Chunk b)
  obtain f ps where f: "sse_push (rl_framing r) b = (f, ps)" by fastforce
  have "ready (r\<lparr>rl_framing := f\<rparr>)" using assms(2) by (simp add: ready_def)
  then obtain ok r1 where "relay_payloads A J (r\<lparr>rl_framing := f\<rparr>) ps = Some (ok, r1)" "ready r1"
    using relay_payloads_return [OF assms(1)] by blast
  with f Chunk show ?thesis by (simp add: ready_def)
qed (use assms(2) in \<open>simp_all add: ready_def\<close>)

lemma finish_events_return: "matcher_ok A \<Longrightarrow> ready r \<Longrightarrow> \<exists>r'. finish_events A J r es = Some r'"
proof (induction es arbitrary: r)
  case (Cons e es)
  obtain out rst where o: "restore_opt A J (rl_restorer r) e = Some (out, rst)" "\<And>r'. rl_restorer r' = rst \<Longrightarrow> ready r'"
    using restore_opt_ready [OF Cons.prems] by blast
  then show ?case using Cons.IH [OF Cons.prems(1)] by (auto simp: Let_def split: option.split prod.split)
qed simp

lemma relay_end_return: "matcher_ok A \<Longrightarrow> ready r \<Longrightarrow> \<exists>r' status. relay_end A J r = Some (r', status)"
proof -
  assume A: "matcher_ok A" "ready r"
  obtain f ps where f: "sse_finish (rl_framing r) = (f, ps)" by fastforce
  have "ready (r\<lparr>rl_framing := f\<rparr>)" using A(2) by (simp add: ready_def)
  then obtain ok r1 where r1: "relay_payloads A J (r\<lparr>rl_framing := f\<rparr>) ps = Some (ok, r1)" "ready r1"
    using relay_payloads_return [OF A(1)] by blast
  have "\<exists>r2. (if rl_upstream_failed r1 then Some r1 else (let (events, decoder) = dec_finish (rl_decoder r1)
      in finish_events A J (r1\<lparr>rl_decoder := decoder\<rparr>) events)) = Some r2"
  proof -
    have "ready (r1\<lparr>rl_decoder := d\<rparr>)" for d using r1(2) by (simp add: ready_def)
    from finish_events_return [OF A(1) this] show ?thesis by (simp split: prod.split)
  qed
  then show ?thesis using f r1(1) by (auto simp: relay_end_def Let_def split: prod.split)
qed

lemma relay_loop_return:
  "matcher_ok A \<Longrightarrow> ready r \<Longrightarrow>
   \<exists>r'. relay_loop A J r evs = Some r' \<and> ready r' \<and> (list_ex (\<lambda>ev. \<forall>b. ev \<noteq> Chunk b) evs \<or> \<not> rl_running r \<longrightarrow> \<not> rl_running r')"
proof (induction evs arbitrary: r)
  case (Cons ev evs)
  obtain r1 where r1: "relay_step A J r ev = Some r1" "ready r1" "(\<forall>b. ev \<noteq> Chunk b) \<longrightarrow> \<not> rl_running r1"
    using relay_step_return [OF Cons.prems] by blast
  from Cons.IH [OF Cons.prems(1) r1(2)] r1 Cons.prems(2) show ?case by (cases "rl_running r") auto
qed auto

section \<open>Property\<close>



end
