(* ===== verification/RequestId.thy ===== *)
theory RequestId
  imports Gateway
begin

text \<open>
  Fresh request ids (\<open>generate_request_id\<close> of \<open>src/main.rs\<close>): the hash of the clock, the process id
  and a counter, in hexadecimal. The hash of the standard library, whose algorithm is unspecified, is
  an argument; the counter is passed along.
\<close>

section \<open>Hexadecimal text\<close>

type_synonym u128 = "128 word"

text \<open>\<open>{:016x}\<close> of a \<open>u64\<close>: sixteen digits, the highest first.\<close>

definition hex_digit :: "nat \<Rightarrow> char" where
  "hex_digit d = (if d < 10 then digit_char d else char_of (87 + d))"

definition nibble :: "u64 \<Rightarrow> nat \<Rightarrow> nat" where
  "nibble w i = unat (take_bit 4 (drop_bit (4 * i) w))"

definition hex16 :: "u64 \<Rightarrow> string" where
  "hex16 w = map (\<lambda>i. hex_digit (nibble w i)) (rev [0..<16])"

section \<open>Ids\<close>

definition generate_request_id ::
    "(u128 \<Rightarrow> u64 \<Rightarrow> u64 \<Rightarrow> u64) \<Rightarrow> u128 option \<Rightarrow> u32 \<Rightarrow> u64 \<Rightarrow> string \<times> u64" where
  "generate_request_id hash clock pid counter =
     (''req-'' @ hex16 (hash (unwrap_or clock 0) (ucast pid) counter), counter + 1)"

text \<open>The id of a request: its own one, or a generated one, which advances the counter.\<close>

definition traced_request ::
    "http_crates \<Rightarrow> (u128 \<Rightarrow> u64 \<Rightarrow> u64 \<Rightarrow> u64) \<Rightarrow> u32 \<Rightarrow> u64 \<Rightarrow> u128 option \<times> headers \<Rightarrow> string \<times> u64" where
  "traced_request H hash pid counter r =
     (let (generated, counter1) = generate_request_id hash (fst r) pid counter;
          own = opt_filter (\<lambda>s. s \<noteq> []) (Option.bind (header_get (snd r) ''x-request-id'') (header_to_str H))
      in (request_trace_id H generated (snd r), if own = None then counter1 else counter))"

fun traced_requests ::
    "http_crates \<Rightarrow> (u128 \<Rightarrow> u64 \<Rightarrow> u64 \<Rightarrow> u64) \<Rightarrow> u32 \<Rightarrow> u64 \<Rightarrow> (u128 option \<times> headers) list \<Rightarrow> string list" where
  "traced_requests H hash pid counter [] = []"
| "traced_requests H hash pid counter (r # rs) =
     (let (i, counter1) = traced_request H hash pid counter r in i # traced_requests H hash pid counter1 rs)"

section \<open>Digits\<close>

lemma nibble_less: "nibble w i < 16"
  using take_bit_nat_less_exp [of 4 "unat (drop_bit (4 * i) w)"] by (simp add: nibble_def unsigned_take_bit_eq)

lemma of_char_hex: "d < 16 \<Longrightarrow> (of_char (hex_digit d) :: nat) = (if d < 10 then 48 + d else 87 + d)"
  by (simp add: hex_digit_def digit_char_def)

lemma hex_digit_inj:
  assumes "d < 16" "e < 16" "hex_digit d = hex_digit e"
  shows "d = e"
proof -
  have "(if d < 10 then 48 + d else 87 + d) = (if e < 10 then 48 + e else 87 + e)"
    using of_char_hex [OF assms(1)] of_char_hex [OF assms(2)] assms(3) by simp
  then show ?thesis by (simp split: if_splits)
qed

lemma nibbles_inj:
  assumes "\<And>i. i < 16 \<Longrightarrow> nibble v i = nibble w i"
  shows "v = w"
proof (rule bit_eqI)
  fix n assume "possible_bit TYPE(u64) n"
  then have n: "n < 64" by simp
  then have "nibble v (n div 4) = nibble w (n div 4)" using assms by simp
  then have "take_bit 4 (drop_bit (4 * (n div 4)) v) = take_bit 4 (drop_bit (4 * (n div 4)) w)"
    unfolding nibble_def by (rule unsigned_word_eqI)
  then have "bit (take_bit 4 (drop_bit (4 * (n div 4)) v)) (n mod 4) = bit (take_bit 4 (drop_bit (4 * (n div 4)) w)) (n mod 4)"
    by simp
  moreover have "4 * (n div 4) + n mod 4 = n" by simp
  ultimately show "bit v n = bit w n" by (simp add: bit_take_bit_iff bit_drop_bit_eq)
qed

lemma hex16_inj: "hex16 v = hex16 w \<longleftrightarrow> v = w"
proof
  assume "hex16 v = hex16 w"
  then have "\<And>i. i < 16 \<Longrightarrow> hex_digit (nibble v i) = hex_digit (nibble w i)" by (auto simp: hex16_def)
  then have "\<And>i. i < 16 \<Longrightarrow> nibble v i = nibble w i" using hex_digit_inj nibble_less by blast
  then show "v = w" by (rule nibbles_inj)
qed simp

definition lower_hex :: "char \<Rightarrow> bool" where
  "lower_hex c \<longleftrightarrow> is_ascii_digit c \<or> c \<in> set ''abcdef''"

lemma hex16_text: "length (hex16 w) = 16" "list_all lower_hex (hex16 w)"
proof -
  show "length (hex16 w) = 16" by (simp add: hex16_def)
  have "lower_hex (hex_digit d)" if "d < 16" for d
  proof (cases "d < 10")
    case True
    then show ?thesis by (simp add: lower_hex_def hex_digit_def)
  next
    case False
    then have "d = 10 \<or> d = 11 \<or> d = 12 \<or> d = 13 \<or> d = 14 \<or> d = 15" using that by linarith
    moreover have "lower_hex (hex_digit 10)" "lower_hex (hex_digit 11)" "lower_hex (hex_digit 12)" "lower_hex (hex_digit 13)"
      "lower_hex (hex_digit 14)" "lower_hex (hex_digit 15)" by code_simp+
    ultimately show ?thesis by blast
  qed
  then show "list_all lower_hex (hex16 w)" using nibble_less by (simp add: hex16_def list_all_iff)
qed

text \<open>The documented set of header values: visible ASCII is one of them.\<close>

definition accepts_visible :: "http_crates \<Rightarrow> bool" where
  "accepts_visible H \<longleftrightarrow> (\<forall>s. list_all (\<lambda>c. 33 \<le> byte c \<and> byte c \<le> 126) s \<longrightarrow> header_value_ok H s)"

lemma generated_accepted: "accepts_visible H \<Longrightarrow> header_value_ok H (fst (generate_request_id hash clock pid counter))"
proof -
  assume H: "accepts_visible H"
  have "33 \<le> byte c \<and> byte c \<le> 126" if "lower_hex c" for c
    using that by (auto simp: lower_hex_def is_ascii_digit_def byte_def Let_def)
  then have "list_all (\<lambda>c. 33 \<le> byte c \<and> byte c \<le> 126) (hex16 w)" for w
    using hex16_text(2) [of w] by (auto simp: list_all_iff)
  then show ?thesis using H by (simp add: accepts_visible_def generate_request_id_def byte_def)
qed

lemma traced_fresh:
  assumes "accepts_visible H" "header_get h ''x-request-id'' = None"
  shows "traced_request H hash pid counter (clock, h) = generate_request_id hash clock pid counter"
  using generated_accepted [OF assms(1), of hash clock pid counter] assms(2)
  by (simp add: traced_request_def request_trace_id_def case_prod_beta)

lemma traced_requests_nth:
  "accepts_visible H \<Longrightarrow> list_all (\<lambda>r. header_get (snd r) ''x-request-id'' = None) rs \<Longrightarrow> i < length rs \<Longrightarrow>
   traced_requests H hash pid counter rs ! i = fst (generate_request_id hash (fst (rs ! i)) pid (counter + of_nat i))"
proof (induction rs arbitrary: counter i)
  case (Cons r rs)
  obtain clock h where r: "r = (clock, h)" by fastforce
  have t: "traced_request H hash pid counter r = generate_request_id hash clock pid counter"
    using traced_fresh Cons.prems(1,2) by (simp add: r)
  show ?case
  proof (cases i)
    case 0
    then show ?thesis by (simp add: t [unfolded r] r generate_request_id_def)
  next
    case (Suc j)
    then show ?thesis using Cons.IH [of j "counter + 1"] Cons.prems
      by (simp add: t generate_request_id_def add.assoc)
  qed
qed simp

lemma traced_requests_length: "length (traced_requests H hash pid counter rs) = length rs"
  by (induction rs arbitrary: counter) (simp_all split: prod.split)

section \<open>Property\<close>

text \<open>
  C40: generated request ids are well formed and are told apart by their hashes. For requests that
  bring no id of their own, every answer carries "req-" and sixteen hexadecimal digits, never the
  fallback; and two of them carry the same id exactly when the hashes of their clock readings and
  counters agree, so that the counter makes ids unique only as far as the hash does.
\<close>

theorem request_ids_follow_hashes:
  fixes hash pid counter
  assumes "accepts_visible H" "list_all (\<lambda>r. header_get (snd r) ''x-request-id'' = None) rs" "i < length rs" "j < length rs"
  defines "ids \<equiv> traced_requests H hash pid counter rs"
  shows "(\<exists>digits. ids ! i = ''req-'' @ digits \<and> length digits = 16 \<and> list_all lower_hex digits) \<and>
    (ids ! i = ids ! j \<longleftrightarrow>
       hash (unwrap_or (fst (rs ! i)) 0) (ucast pid) (counter + of_nat i) = hash (unwrap_or (fst (rs ! j)) 0) (ucast pid) (counter + of_nat j))"
  using traced_requests_nth [OF assms(1,2)] assms(3,4) hex16_text hex16_inj by (simp add: ids_def generate_request_id_def)

theorem request_ids_follow_hashes_witness:
  "traced_requests example_http (\<lambda>n p c. c) 1 41 [(Some 5, []), (None, [])] ! 0 \<noteq>
   traced_requests example_http (\<lambda>n p c. c) 1 41 [(Some 5, []), (None, [])] ! 1"
proof -
  have "accepts_visible example_http" by (simp add: accepts_visible_def example_http_def)
  from request_ids_follow_hashes [OF this, of "[(Some 5, []), (None, [])]" 0 1 "\<lambda>n p c. c" 1 41]
  show ?thesis by (simp add: header_get_def)
qed

end
