(* ===== verification/JsonText.thy ===== *)
theory JsonText
  imports Json
begin

text \<open>
  A concrete JSON codec: the grammar of RFC 8259 as \<open>serde_json\<close> documents it, compact printing and
  parsing with its limit on nesting. The model takes the crate as a parameter; this instance
  shows that one codec satisfies what the development asks of the parameter for every value it
  prints (\<open>json_text_reads_back\<close>), and runs the repository's unit tests on the texts they write.
\<close>

section \<open>Printing\<close>

definition hex_digit :: "nat \<Rightarrow> char" where
  "hex_digit d = (if d < 10 then digit_char d else char_of (87 + d))"

definition control :: "char \<Rightarrow> bool" where
  "control c \<longleftrightarrow> (of_char c :: nat) < 32"

text \<open>A control character has none of the three high bits.\<close>

lemma control_code [code]: "control (Char b0 b1 b2 b3 b4 b5 b6 b7) \<longleftrightarrow> \<not> b5 \<and> \<not> b6 \<and> \<not> b7"
  by (simp add: control_def)

text \<open>One character of a string: the short escapes, \<open>\u00xx\<close> for the other control characters.\<close>

definition quote_char :: "char \<Rightarrow> string" where
  "quote_char c =
     (if c = CHR 0x22 then [CHR 0x5C, CHR 0x22]
      else if c = CHR 0x5C then [CHR 0x5C, CHR 0x5C]
      else if c = CHR 0x08 then [CHR 0x5C, CHR ''b'']
      else if c = CHR 0x09 then [CHR 0x5C, CHR ''t'']
      else if c = CHR 0x0A then [CHR 0x5C, CHR ''n'']
      else if c = CHR 0x0C then [CHR 0x5C, CHR ''f'']
      else if c = CHR 0x0D then [CHR 0x5C, CHR ''r'']
      else if control c
      then let n = of_char c in
        [CHR 0x5C, CHR ''u'', CHR ''0'', CHR ''0'', hex_digit (n div 16), hex_digit (n mod 16)]
      else [c])"

definition quote :: "string \<Rightarrow> string" where
  "quote s = CHR 0x22 # concat (map quote_char s) @ [CHR 0x22]"

text \<open>
  Integers in decimal. A float is printed exactly: its binary fraction has a finite decimal
  expansion. (The crate prints the shortest text that reads back instead.)
\<close>

definition dec_frac :: "nat \<Rightarrow> nat \<Rightarrow> string" where
  "dec_frac m k = (let d = dec m; d = replicate (Suc k - length d) CHR ''0'' @ d
     in take (length d - k) d @ CHR ''.'' # drop (length d - k) d)"

definition f64_text :: "f64 \<Rightarrow> string" where
  "f64_text x =
     (let n = unat x; e = (n div 2 ^ 52) mod 2048; f = n mod 2 ^ 52;
          m = (if e = 0 then f else f + 2 ^ 52); e = (if e = 0 then 1 else e)
      in (if 2 ^ 63 \<le> n then ''-'' else []) @
         (if 1075 \<le> e then dec (m * 2 ^ (e - 1075)) @ ''.0''
          else dec_frac (m * 5 ^ (1075 - e)) (1075 - e)))"

fun print_number :: "number \<Rightarrow> string" where
  "print_number (PosInt n) = dec (unat n)"
| "print_number (NegInt n) = CHR ''-'' # dec (nat (- sint n))"
| "print_number (Float x) = f64_text x"

fun print_value :: "value \<Rightarrow> string"
  and print_items :: "value list \<Rightarrow> string"
  and print_fields :: "(string \<times> value) list \<Rightarrow> string" where
  "print_value Null = ''null''"
| "print_value (Bool b) = (if b then ''true'' else ''false'')"
| "print_value (Number n) = print_number n"
| "print_value (String s) = quote s"
| "print_value (Array xs) = CHR ''['' # print_items xs @ '']''"
| "print_value (Object m) = CHR ''{'' # print_fields m @ ''}''"
| "print_items [] = []"
| "print_items [v] = print_value v"
| "print_items (v # w # vs) = print_value v @ CHR '','' # print_items (w # vs)"
| "print_fields [] = []"
| "print_fields [(k, v)] = quote k @ CHR '':'' # print_value v"
| "print_fields ((k, v) # f # fs) = quote k @ CHR '':'' # print_value v @ CHR '','' # print_fields (f # fs)"

section \<open>Numbers\<close>

definition read_digits :: "string \<Rightarrow> int" where
  "read_digits s = foldl (\<lambda>n c. 10 * n + (of_char c - 48)) 0 s"

definition digits1 :: "string \<Rightarrow> bool" where
  "digits1 s \<longleftrightarrow> s \<noteq> [] \<and> list_all is_ascii_digit s"

text \<open>The float nearest to \<open>m * 10 ^ e\<close>, ties to even; none when it is out of range.\<close>

definition int_log2 :: "int \<Rightarrow> int" where
  "int_log2 n = int (floor_log2 (nat n))"

definition f64_of_ratio :: "int \<Rightarrow> int \<Rightarrow> f64 option" where
  "f64_of_ratio n d =
     (if n = 0 then Some 0
      else
        let k = int_log2 n - int_log2 d;
            e = max (- 1074) ((if n * 2 ^ nat (- k) < d * 2 ^ nat k then k - 1 else k) - 52);
            a = n * 2 ^ nat (- e); b = d * 2 ^ nat e;
            q = a div b; r = a mod b;
            q = (if b < 2 * r \<or> (b = 2 * r \<and> odd q) then q + 1 else q);
            bits = (e + 1074) * 2 ^ 52 + q
        in if bits < 2047 * 2 ^ 52 then Some (word_of_int bits) else None)"

definition f64_of_dec :: "bool \<Rightarrow> int \<Rightarrow> int \<Rightarrow> f64 option" where
  "f64_of_dec neg m e =
     map_option (\<lambda>x. if neg then x + 2 ^ 63 else x)
       (f64_of_ratio (m * 10 ^ nat e) (10 ^ nat (- e)))"

text \<open>The three parts of a number: digits, the digits of the fraction, the exponent.\<close>

definition split_number :: "string \<Rightarrow> string \<times> string option \<times> string option" where
  "split_number s =
     (let m = takeWhile (\<lambda>c. c \<noteq> CHR ''e'' \<and> c \<noteq> CHR ''E'') s; x = drop (length m) s
      in (takeWhile (\<lambda>c. c \<noteq> CHR ''.'') m,
          case dropWhile (\<lambda>c. c \<noteq> CHR ''.'') m of [] \<Rightarrow> None | _ # f \<Rightarrow> Some f,
          case x of [] \<Rightarrow> None | _ # t \<Rightarrow> Some t))"

definition read_exponent :: "string option \<Rightarrow> int option" where
  "read_exponent x =
     (case x of None \<Rightarrow> Some 0
      | Some t \<Rightarrow>
          let signed = t \<noteq> [] \<and> (hd t = CHR ''-'' \<or> hd t = CHR ''+''); ds = (if signed then tl t else t)
          in if digits1 ds then Some (if signed \<and> hd t = CHR ''-'' then - read_digits ds else read_digits ds)
             else None)"

definition read_float :: "bool \<Rightarrow> int \<Rightarrow> int \<Rightarrow> value option" where
  "read_float neg m e = map_option (\<lambda>x. Number (Float x)) (f64_of_dec neg m e)"

definition read_unsigned :: "bool \<Rightarrow> string \<Rightarrow> value option" where
  "read_unsigned neg s =
     (case split_number s of
        (i, f, x) \<Rightarrow>
          if \<not> digits1 i \<or> (tl i \<noteq> [] \<and> hd i = CHR ''0'') \<or> (case f of None \<Rightarrow> False | Some f \<Rightarrow> \<not> digits1 f) then None
          else
            (case read_exponent x of
               None \<Rightarrow> None
             | Some e \<Rightarrow>
                 (let n = read_digits i in
                  if f = None \<and> x = None
                  then if neg then (if 0 < n \<and> n \<le> 2 ^ 63 then Some (Number (NegInt (word_of_int (- n))))
                                    else read_float neg n 0)
                       else (if n < 2 ^ 64 then Some (Number (PosInt (word_of_int n))) else read_float neg n 0)
                  else (case f of
                          None \<Rightarrow> read_float neg n e
                        | Some f \<Rightarrow> read_float neg (n * 10 ^ length f + read_digits f) (e - int (length f))))))"

definition read_number :: "string \<Rightarrow> value option" where
  "read_number s = (if s \<noteq> [] \<and> hd s = CHR ''-'' then read_unsigned True (tl s) else read_unsigned False s)"

definition read_word :: "string \<Rightarrow> value option" where
  "read_word s =
     (if s = ''null'' then Some Null
      else if s = ''true'' then Some (Bool True)
      else if s = ''false'' then Some (Bool False)
      else read_number s)"

section \<open>Tokens\<close>

datatype token = TObject | TObjectEnd | TArray | TArrayEnd | TColon | TComma | TString string | TValue "value"

text \<open>
  Where the scanner is: between tokens, in a bare word, in a string, after a backslash, in the
  digits of a \<open>\u\<close> escape (with the high surrogate that precedes it), or before the low
  surrogate that must follow. What a token has so far is kept in reverse.
\<close>

datatype scan =
    Between
  | InWord string
  | InString string
  | InEscape string
  | InHex string "int option" "int list"
  | LowSurrogate string int
  | LowSurrogateU string int

definition is_json_space :: "char \<Rightarrow> bool" where
  "is_json_space c \<longleftrightarrow> c = CHR '' '' \<or> c = CHR 0x0A \<or> c = CHR 0x0D \<or> c = CHR 0x09"

definition punctuation :: "char \<Rightarrow> token option" where
  "punctuation c =
     (if c = CHR ''{'' then Some TObject else if c = CHR ''}'' then Some TObjectEnd
      else if c = CHR ''['' then Some TArray else if c = CHR '']'' then Some TArrayEnd
      else if c = CHR '':'' then Some TColon else if c = CHR '','' then Some TComma else None)"

definition utf8_char :: "int \<Rightarrow> string" where
  "utf8_char n =
     (if n < 128 then [char_of n]
      else if n < 2048 then [char_of (192 + n div 64), char_of (128 + n mod 64)]
      else if n < 65536 then [char_of (224 + n div 4096), char_of (128 + n div 64 mod 64), char_of (128 + n mod 64)]
      else [char_of (240 + n div 262144), char_of (128 + n div 4096 mod 64), char_of (128 + n div 64 mod 64),
            char_of (128 + n mod 64)])"

definition hex_value :: "char \<Rightarrow> int option" where
  "hex_value c =
     (let n = (of_char c :: int) in
      if 48 \<le> n \<and> n \<le> 57 then Some (n - 48)
      else if 97 \<le> n \<and> n \<le> 102 then Some (n - 87)
      else if 65 \<le> n \<and> n \<le> 70 then Some (n - 55)
      else None)"

definition escaped :: "char \<Rightarrow> char option" where
  "escaped c =
     (if c = CHR 0x22 \<or> c = CHR 0x5C \<or> c = CHR ''/'' then Some c
      else if c = CHR ''b'' then Some CHR 0x08 else if c = CHR ''f'' then Some CHR 0x0C
      else if c = CHR ''n'' then Some CHR 0x0A else if c = CHR ''r'' then Some CHR 0x0D
      else if c = CHR ''t'' then Some CHR 0x09 else None)"

definition hex_done :: "string \<Rightarrow> int option \<Rightarrow> int \<Rightarrow> scan option" where
  "hex_done acc hi n =
     (case hi of
        Some h \<Rightarrow> if 0xDC00 \<le> n \<and> n \<le> 0xDFFF
          then Some (InString (rev (utf8_char (0x10000 + (h - 0xD800) * 1024 + (n - 0xDC00))) @ acc)) else None
      | None \<Rightarrow> if 0xD800 \<le> n \<and> n \<le> 0xDBFF then Some (LowSurrogate acc n)
          else if 0xDC00 \<le> n \<and> n \<le> 0xDFFF then None
          else Some (InString (rev (utf8_char n) @ acc)))"

definition in_hex :: "string \<Rightarrow> int option \<Rightarrow> int list \<Rightarrow> char \<Rightarrow> scan option" where
  "in_hex acc hi ds c =
     (case hex_value c of
        None \<Rightarrow> None
      | Some d \<Rightarrow>
          if length ds = 3 then hex_done acc hi (foldl (\<lambda>n d. 16 * n + d) 0 (ds @ [d]))
          else Some (InHex acc hi (ds @ [d])))"

text \<open>One character: the tokens it completes and where the scanner is then.\<close>

definition between_char :: "char \<Rightarrow> token list \<times> scan" where
  "between_char c =
     (if is_json_space c then ([], Between)
      else case punctuation c of
        Some t \<Rightarrow> ([t], Between)
      | None \<Rightarrow> if c = CHR 0x22 then ([], InString []) else ([], InWord [c]))"

fun scan_char :: "scan \<Rightarrow> char \<Rightarrow> (token list \<times> scan) option" where
  "scan_char Between c = Some (between_char c)"
| "scan_char (InWord acc) c =
     (if is_json_space c \<or> punctuation c \<noteq> None \<or> c = CHR 0x22
      then (case read_word (rev acc) of
              None \<Rightarrow> None
            | Some v \<Rightarrow> (case between_char c of (ts, s) \<Rightarrow> Some (TValue v # ts, s)))
      else Some ([], InWord (c # acc)))"
| "scan_char (InString acc) c =
     (if c = CHR 0x22 then Some ([TString (rev acc)], Between)
      else if c = CHR 0x5C then Some ([], InEscape acc)
      else if control c then None
      else Some ([], InString (c # acc)))"
| "scan_char (InEscape acc) c =
     (if c = CHR ''u'' then Some ([], InHex acc None [])
      else map_option (\<lambda>x. ([], InString (x # acc))) (escaped c))"
| "scan_char (InHex acc hi ds) c = map_option (\<lambda>s. ([], s)) (in_hex acc hi ds c)"
| "scan_char (LowSurrogate acc h) c = (if c = CHR 0x5C then Some ([], LowSurrogateU acc h) else None)"
| "scan_char (LowSurrogateU acc h) c = (if c = CHR ''u'' then Some ([], InHex acc (Some h) []) else None)"

fun scan_end :: "scan \<Rightarrow> token list option" where
  "scan_end Between = Some []"
| "scan_end (InWord acc) = map_option (\<lambda>v. [TValue v]) (read_word (rev acc))"
| "scan_end _ = None"

section \<open>Values\<close>

text \<open>
  The open containers, with the items or fields read so far, and what is expected next or the
  value that was just read.
\<close>

datatype frame = InArray "value list" | InObject object string

datatype expect =
    Want
  | WantOrEnd
  | KeyOrEnd
  | Key object
  | Colon object string
  | Done "value"

definition MAX_DEPTH :: nat where
  "MAX_DEPTH = 127"

definition open_container :: "frame list \<Rightarrow> expect \<Rightarrow> (frame list \<times> expect) option" where
  "open_container st e = (if length st < MAX_DEPTH then Some (st, e) else None)"

fun begin_value :: "token \<Rightarrow> frame list \<Rightarrow> (frame list \<times> expect) option" where
  "begin_value TObject st = open_container st KeyOrEnd"
| "begin_value TArray st = open_container st WantOrEnd"
| "begin_value (TString s) st = Some (st, Done (String s))"
| "begin_value (TValue v) st = Some (st, Done v)"
| "begin_value _ st = None"

fun after_value :: "token \<Rightarrow> value \<Rightarrow> frame list \<Rightarrow> (frame list \<times> expect) option" where
  "after_value TComma v (InArray vs # st) = Some (InArray (vs @ [v]) # st, Want)"
| "after_value TArrayEnd v (InArray vs # st) = Some (st, Done (Array (vs @ [v])))"
| "after_value TComma v (InObject m k # st) = Some (st, Key (obj_insert k v m))"
| "after_value TObjectEnd v (InObject m k # st) = Some (st, Done (Object (obj_insert k v m)))"
| "after_value _ v st = None"

definition parse_token :: "token \<Rightarrow> frame list \<times> expect \<Rightarrow> (frame list \<times> expect) option" where
  "parse_token t p =
     (case p of
        (st, Want) \<Rightarrow> begin_value t st
      | (st, WantOrEnd) \<Rightarrow> if t = TArrayEnd then Some (st, Done (Array [])) else begin_value t (InArray [] # st)
      | (st, KeyOrEnd) \<Rightarrow>
          (case t of TObjectEnd \<Rightarrow> Some (st, Done (Object [])) | TString k \<Rightarrow> Some (st, Colon [] k) | _ \<Rightarrow> None)
      | (st, Key m) \<Rightarrow> (case t of TString k \<Rightarrow> Some (st, Colon m k) | _ \<Rightarrow> None)
      | (st, Colon m k) \<Rightarrow> if t = TColon then Some (InObject m k # st, Want) else None
      | (st, Done v) \<Rightarrow> after_value t v st)"

fun parse_tokens :: "token list \<Rightarrow> frame list \<times> expect \<Rightarrow> (frame list \<times> expect) option" where
  "parse_tokens [] p = Some p"
| "parse_tokens (t # ts) p = Option.bind (parse_token t p) (parse_tokens ts)"

text \<open>Scanner and parser in step, character by character.\<close>

fun read_text :: "string \<Rightarrow> scan \<Rightarrow> frame list \<times> expect \<Rightarrow> (frame list \<times> expect) option" where
  "read_text [] s p = Option.bind (scan_end s) (\<lambda>ts. parse_tokens ts p)"
| "read_text (c # cs) s p =
     (case scan_char s c of
        None \<Rightarrow> None
      | Some (ts, s') \<Rightarrow> Option.bind (parse_tokens ts p) (read_text cs s'))"

definition parse_text :: "string \<Rightarrow> string + value" where
  "parse_text s =
     (case read_text s Between ([], Want) of
        Some ([], Done v) \<Rightarrow> Inr v
      | _ \<Rightarrow> Inl ''expected value'')"

definition json_text :: serde_json where
  "json_text = \<lparr>from_str = parse_text, to_string = print_value\<rparr>"


section \<open>Reading back what was printed\<close>

subsection \<open>Strings\<close>

lemma of_char_int: "(of_char c :: int) = int (of_char c)"
  by (simp add: of_nat_of_char)

lemma hex_value_digit: "d < 16 \<Longrightarrow> hex_value (hex_digit d) = Some (int d)"
  by (auto simp: hex_value_def hex_digit_def digit_char_def Let_def of_char_int)

lemma hex_digit_zero: "hex_value CHR ''0'' = Some 0"
  by (simp add: hex_value_def)

lemma read_quote_char:
  "read_text (quote_char c @ rest) (InString acc) p = read_text rest (InString (c # acc)) p"
proof -
  let ?n = "of_char c :: nat"
  have "c = char_of ?n" by simp
  have small: "?n < 32 \<Longrightarrow> utf8_char (int ?n) = [c]"
    by (simp add: utf8_char_def)
  have "?n < 32 \<Longrightarrow> 16 * int (?n div 16) + int (?n mod 16) = int ?n"
    by (metis mult_div_mod_eq of_nat_add of_nat_mult of_nat_numeral)
  then show ?thesis using small
    by (auto simp: quote_char_def control_def Let_def escaped_def hex_value_digit hex_digit_zero in_hex_def hex_done_def of_char_int)
qed

lemma read_quoted:
  "read_text (concat (map quote_char s) @ CHR 0x22 # rest) (InString acc) p =
   Option.bind (parse_token (TString (rev acc @ s)) p) (read_text rest Between)"
proof (induction s arbitrary: acc)
  case Nil
  then show ?case by (simp add: Option.bind_assoc)
next
  case (Cons c s)
  then show ?case by (simp add: read_quote_char)
qed

lemma read_quote:
  "read_text (quote s @ rest) Between p = Option.bind (parse_token (TString s) p) (read_text rest Between)"
  using read_quoted [of s rest "[]" p]
  by (simp add: quote_def between_char_def is_json_space_def punctuation_def)

subsection \<open>Words\<close>

definition word_char :: "char \<Rightarrow> bool" where
  "word_char c \<longleftrightarrow> \<not> is_json_space c \<and> punctuation c = None \<and> c \<noteq> CHR 0x22"

definition word_ends :: "string \<Rightarrow> bool" where
  "word_ends rest \<longleftrightarrow> (case rest of [] \<Rightarrow> True | c # _ \<Rightarrow> \<not> word_char c)"

lemma read_in_word:
  "list_all word_char w \<Longrightarrow> read_text (w @ rest) (InWord acc) p = read_text rest (InWord (rev w @ acc)) p"
  by (induction w arbitrary: acc) (auto simp: word_char_def)

lemma read_between_word: "word_char c \<Longrightarrow> read_text (c # cs) Between p = read_text cs (InWord [c]) p"
  by (simp add: between_char_def word_char_def)

lemma read_word_end:
  assumes "read_word w = Some v" "word_ends rest"
  shows "read_text rest (InWord (rev w)) p = Option.bind (parse_token (TValue v) p) (read_text rest Between)"
proof (cases rest)
  case Nil
  then show ?thesis using assms by (cases "parse_token (TValue v) p") simp_all
next
  case (Cons c cs)
  obtain ts s where b: "between_char c = (ts, s)" by (cases "between_char c")
  from Cons assms have "is_json_space c \<or> punctuation c \<noteq> None \<or> c = CHR 0x22"
    by (auto simp: word_ends_def word_char_def)
  with Cons assms b show ?thesis by (cases "parse_token (TValue v) p") simp_all
qed

lemma read_word_text:
  assumes "read_word w = Some v" "w \<noteq> []" "list_all word_char w" "word_ends rest"
  shows "read_text (w @ rest) Between p = Option.bind (parse_token (TValue v) p) (read_text rest Between)"
proof -
  obtain c cs where w: "w = c # cs" using assms(2) by (cases w) simp_all
  with assms(3) have "word_char c" "list_all word_char cs" by simp_all
  with w have "read_text (w @ rest) Between p = read_text rest (InWord (rev w)) p"
    by (simp add: read_between_word read_in_word del: read_text.simps)
  with read_word_end [OF assms(1,4)] show ?thesis by simp
qed

lemma word_ends_simps [simp]:
  "word_ends []" "word_ends (CHR '','' # cs)" "word_ends (CHR '']'' # cs)" "word_ends (CHR ''}'' # cs)"
  by (simp_all add: word_ends_def word_char_def punctuation_def)

subsection \<open>Numbers\<close>

lemma not_word_char:
  "\<not> word_char c \<Longrightarrow> c \<in> set [CHR '' '', CHR 0x0A, CHR 0x0D, CHR 0x09, CHR ''{'', CHR ''}'', CHR ''['', CHR '']'',
     CHR '':'', CHR '','', CHR 0x22]"
  by (simp add: word_char_def is_json_space_def punctuation_def split: if_splits)

lemma digit_word_char: "is_ascii_digit c \<Longrightarrow> word_char c"
  by (rule ccontr) (auto dest!: not_word_char simp: is_ascii_digit_def)

lemma digit_not: "is_ascii_digit c \<Longrightarrow>
  c \<noteq> CHR ''e'' \<and> c \<noteq> CHR ''E'' \<and> c \<noteq> CHR ''.'' \<and> c \<noteq> CHR ''-'' \<and> c \<noteq> CHR ''n'' \<and> c \<noteq> CHR ''t'' \<and> c \<noteq> CHR ''f''"
  by (auto simp: is_ascii_digit_def Let_def)

lemma read_digits_snoc: "read_digits (s @ [c]) = 10 * read_digits s + (of_char c - 48)"
  by (simp add: read_digits_def)

lemma of_char_digit_int: "d < 10 \<Longrightarrow> (of_char (digit_char d) :: int) = 48 + int d"
  by (simp only: of_char_int of_char_digit_char of_nat_add of_nat_numeral)

lemma read_digits_dec: "read_digits (dec n) = int n"
proof (induction n rule: dec.induct)
  case (1 n)
  show ?case
  proof (cases "n < 10")
    case True
    then show ?thesis by (simp add: dec.simps [of n] read_digits_def of_char_digit_int)
  next
    case False
    with 1 have "read_digits (dec n) = 10 * int (n div 10) + int (n mod 10)"
      by (simp add: dec.simps [of n] read_digits_snoc of_char_digit_int)
    also have "\<dots> = int n" by (metis mult_div_mod_eq of_nat_add of_nat_mult of_nat_numeral)
    finally show ?thesis .
  qed
qed

lemma digits1_dec: "digits1 (dec n)"
  by (simp add: digits1_def dec_digits)

lemma split_number_dec: "split_number (dec n) = (dec n, None, None)"
proof -
  have "\<forall>c \<in> set (dec n). is_ascii_digit c" using dec_digits [of n] by (simp add: list_all_iff)
  then have "takeWhile (\<lambda>c. c \<noteq> CHR ''e'' \<and> c \<noteq> CHR ''E'') (dec n) = dec n"
    "takeWhile (\<lambda>c. c \<noteq> CHR ''.'') (dec n) = dec n" "dropWhile (\<lambda>c. c \<noteq> CHR ''.'') (dec n) = []"
    using digit_not by (auto simp: takeWhile_eq_all_conv dropWhile_eq_Nil_conv)
  then show ?thesis unfolding split_number_def Let_def by (simp only:) simp
qed

lemma dec_leading: "tl (dec n) \<noteq> [] \<Longrightarrow> hd (dec n) \<noteq> CHR ''0''"
  using dec_no_leading_zero [of n] dec.simps [of 0] by (cases "n = 0") auto

lemma read_unsigned_dec:
  "read_unsigned neg (dec n) =
     (if neg then (if 0 < n \<and> n \<le> 2 ^ 63 then Some (Number (NegInt (word_of_int (- int n)))) else read_float neg (int n) 0)
      else if n < 2 ^ 64 then Some (Number (PosInt (word_of_nat n))) else read_float neg (int n) 0)"
proof -
  have "(tl (dec n) \<noteq> [] \<and> hd (dec n) = CHR ''0'') = False" using dec_leading by blast
  then show ?thesis
    unfolding read_unsigned_def split_number_dec prod.case read_exponent_def option.case
    by (simp only: digits1_dec read_digits_dec Let_def) simp
qed

lemma dec_Cons: obtains c cs where "dec n = c # cs" "is_ascii_digit c"
  using dec_digits [of n] dec_nonempty [of n] by (cases "dec n") auto

lemma read_word_dec: "read_word (dec n) = read_unsigned False (dec n)"
proof -
  obtain c cs where d: "dec n = c # cs" "is_ascii_digit c" by (rule dec_Cons)
  with digit_not [of c] show ?thesis
    by (simp add: read_word_def read_number_def)
qed

lemma read_word_neg: "read_word (CHR ''-'' # dec n) = read_unsigned True (dec n)"
  by (simp add: read_word_def read_number_def)

text \<open>The numbers the crate prints as integers: \<open>NegInt\<close> holds negative ones only.\<close>

fun integral :: "number \<Rightarrow> bool" where
  "integral (PosInt n) \<longleftrightarrow> True"
| "integral (NegInt n) \<longleftrightarrow> sint n < 0"
| "integral (Float x) \<longleftrightarrow> False"

lemma sint_neg_bound: "sint (n :: i64) < 0 \<Longrightarrow> nat (- sint n) \<le> 2 ^ 63"
  using sint_greater_eq [of n] by simp

lemma read_number_back: "integral n \<Longrightarrow> read_word (print_number n) = Some (Number n)"
proof (cases n)
  case (PosInt x)
  have "unat x < 2 ^ 64" using unsigned_less [of x] by simp
  with PosInt show ?thesis by (simp add: read_word_dec read_unsigned_dec)
next
  case (NegInt x)
  moreover assume "integral n"
  ultimately have "sint x < 0" by simp
  with sint_neg_bound [OF this] NegInt show ?thesis
    by (simp add: read_word_neg read_unsigned_dec)
qed simp

lemma number_word: "integral n \<Longrightarrow> list_all word_char (print_number n) \<and> print_number n \<noteq> []"
  using dec_digits digit_word_char
  by (cases n) (auto simp: list_all_iff word_char_def is_json_space_def punctuation_def)

subsection \<open>Values\<close>

text \<open>
  The values the crate builds, as far as its limits go: objects keep their keys in order, and
  the nesting stays below \<open>d\<close>. (Floats are left out: their texts are not the crate's.)
\<close>

fun json_ok :: "nat \<Rightarrow> value \<Rightarrow> bool" where
  "json_ok d Null \<longleftrightarrow> True"
| "json_ok d (Bool b) \<longleftrightarrow> True"
| "json_ok d (Number n) \<longleftrightarrow> integral n"
| "json_ok d (String s) \<longleftrightarrow> True"
| "json_ok d (Array xs) \<longleftrightarrow> 0 < d \<and> (\<forall>x \<in> set xs. json_ok (d - 1) x)"
| "json_ok d (Object m) \<longleftrightarrow> 0 < d \<and> keys_sorted m \<and> (\<forall>kv \<in> set m. json_ok (d - 1) (snd kv))"

lemma obj_insert_last: "(\<forall>k' \<in> fst ` set m. k' < k) \<Longrightarrow> obj_insert k v m = m @ [(k, v)]"
  by (induction k v m rule: obj_insert.induct) auto

lemma keys_sorted_snoc:
  "keys_sorted (m @ (k, v) # fs) \<Longrightarrow> obj_insert k v m = m @ [(k, v)]"
  by (rule obj_insert_last) (auto simp: keys_sorted_def sorted_wrt_append)

text \<open>Where a value may start: the containers it is in, once it has begun.\<close>

inductive begins :: "frame list \<times> expect \<Rightarrow> frame list \<Rightarrow> bool" where
  "begins (st, Want) st"
| "begins (st, WantOrEnd) (InArray [] # st)"

inductive_cases beginsE: "begins p st"

lemma parse_token_begins: "begins p st \<Longrightarrow> t \<noteq> TArrayEnd \<Longrightarrow> parse_token t p = begin_value t st"
  by (auto simp: parse_token_def elim!: beginsE)

lemma read_punctuation:
  "punctuation c = Some t \<Longrightarrow>
   read_text (c # rest) Between p = Option.bind (parse_token t p) (read_text rest Between)"
  by (cases "parse_token t p") (auto simp: between_char_def is_json_space_def punctuation_def split: if_splits)

lemma read_marks:
  "read_text (CHR ''{'' # rest) Between p = Option.bind (parse_token TObject p) (read_text rest Between)"
  "read_text (CHR ''}'' # rest) Between p = Option.bind (parse_token TObjectEnd p) (read_text rest Between)"
  "read_text (CHR ''['' # rest) Between p = Option.bind (parse_token TArray p) (read_text rest Between)"
  "read_text (CHR '']'' # rest) Between p = Option.bind (parse_token TArrayEnd p) (read_text rest Between)"
  "read_text (CHR '':'' # rest) Between p = Option.bind (parse_token TColon p) (read_text rest Between)"
  "read_text (CHR '','' # rest) Between p = Option.bind (parse_token TComma p) (read_text rest Between)"
  by (rule read_punctuation, simp add: punctuation_def)+

declare read_text.simps(2) [simp del]

lemma read_words:
  "word_ends rest \<Longrightarrow> read_text (''null'' @ rest) Between p = Option.bind (parse_token (TValue Null) p) (read_text rest Between)"
  "word_ends rest \<Longrightarrow> read_text (''true'' @ rest) Between p = Option.bind (parse_token (TValue (Bool True)) p) (read_text rest Between)"
  "word_ends rest \<Longrightarrow> read_text (''false'' @ rest) Between p = Option.bind (parse_token (TValue (Bool False)) p) (read_text rest Between)"
  by (rule read_word_text; simp add: read_word_def word_char_def is_json_space_def punctuation_def)+

inductive begins_field :: "frame list \<times> expect \<Rightarrow> object \<Rightarrow> frame list \<Rightarrow> bool" where
  "begins_field (st, Key m) m st"
| "begins_field (st, KeyOrEnd) [] st"

inductive_cases begins_fieldE: "begins_field p m st"

lemma parse_key: "begins_field p m st \<Longrightarrow> parse_token (TString k) p = Some (st, Colon m k)"
  by (auto simp: parse_token_def elim!: begins_fieldE)

lemmas parse_simps = parse_token_def open_container_def

lemma read_printed:
  "\<lbrakk>begins p st; word_ends rest; json_ok (MAX_DEPTH - length st) v\<rbrakk> \<Longrightarrow>
   read_text (print_value v @ rest) Between p = read_text rest Between (st, Done v)"
  "\<lbrakk>vs \<noteq> []; begins p (InArray us # st); \<forall>x \<in> set vs. json_ok (MAX_DEPTH - Suc (length st)) x\<rbrakk> \<Longrightarrow>
   read_text (print_items vs @ CHR '']'' # rest) Between p = read_text rest Between (st, Done (Array (us @ vs)))"
  "\<lbrakk>fs \<noteq> []; begins_field p m st; keys_sorted (m @ fs); \<forall>kv \<in> set fs. json_ok (MAX_DEPTH - Suc (length st)) (snd kv)\<rbrakk> \<Longrightarrow>
   read_text (print_fields fs @ CHR ''}'' # rest) Between p = read_text rest Between (st, Done (Object (m @ fs)))"
proof (induction v and vs and fs arbitrary: p st rest and p us st rest and p m st rest
    rule: print_value_print_items_print_fields.induct)
  case 1
  then show ?case using read_words(1) [of rest p] by (simp add: parse_token_begins)
next
  case (2 b)
  then show ?case using read_words(2,3) [of rest p] by (simp add: parse_token_begins)
next
  case (3 n)
  then show ?case by (simp add: read_word_text read_number_back number_word parse_token_begins)
next
  case (4 s)
  then show ?case by (simp add: read_quote parse_token_begins)
next
  case (5 xs)
  have lt: "length st < MAX_DEPTH" using 5 by simp
  have b: "begins (st, WantOrEnd) (InArray [] # st)" by (rule begins.intros)
  show ?case
  proof (cases "xs = []")
    case True
    then show ?thesis using 5 lt by (simp add: read_marks parse_token_begins open_container_def) (simp add: parse_token_def)
  next
    case False
    then show ?thesis using 5 lt "5.IH" [OF False b, of rest]
      by (simp add: read_marks parse_token_begins open_container_def)
  qed
next
  case (6 m)
  have lt: "length st < MAX_DEPTH" using 6 by simp
  have b: "begins_field (st, KeyOrEnd) [] st" by (rule begins_field.intros)
  show ?case
  proof (cases "m = []")
    case True
    then show ?thesis using 6 lt by (simp add: read_marks parse_token_begins open_container_def) (simp add: parse_token_def)
  next
    case False
    then show ?thesis using 6 lt "6.IH" [OF False b, of rest]
      by (simp add: read_marks parse_token_begins open_container_def)
  qed
next
  case (8 v)
  then have "read_text (print_value v @ CHR '']'' # rest) Between p =
      read_text (CHR '']'' # rest) Between (InArray us # st, Done v)"
    by (intro "8.IH") simp_all
  then show ?case by (simp add: read_marks) (simp add: parse_token_def)
next
  case (9 v w vs)
  have b: "begins (InArray (us @ [v]) # st, Want) (InArray (us @ [v]) # st)" by (rule begins.intros)
  have "read_text (print_items (v # w # vs) @ CHR '']'' # rest) Between p =
      read_text (CHR '','' # print_items (w # vs) @ CHR '']'' # rest) Between (InArray us # st, Done v)"
    using 9 by (simp add: "9.IH"(1))
  also have "\<dots> = read_text (print_items (w # vs) @ CHR '']'' # rest) Between (InArray (us @ [v]) # st, Want)"
    by (simp add: read_marks) (simp add: parse_token_def)
  finally show ?case using "9.IH"(2) [OF _ b] 9 by simp
next
  case (11 k v)
  have b: "begins (InObject m k # st, Want) (InObject m k # st)" by (rule begins.intros)
  have "read_text (print_fields [(k, v)] @ CHR ''}'' # rest) Between p =
      read_text (print_value v @ CHR ''}'' # rest) Between (InObject m k # st, Want)"
    using 11 by (simp add: read_quote parse_key read_marks) (simp add: parse_token_def)
  also have "\<dots> = read_text (CHR ''}'' # rest) Between (InObject m k # st, Done v)"
    using 11 by (intro "11.IH" [OF b]) simp_all
  finally show ?case using keys_sorted_snoc [of m k v "[]"] 11 by (simp add: read_marks) (simp add: parse_token_def)
next
  case (12 k v f fs)
  have b: "begins (InObject m k # st, Want) (InObject m k # st)" by (rule begins.intros)
  have bf: "begins_field (st, Key (m @ [(k, v)])) (m @ [(k, v)]) st" by (rule begins_field.intros)
  have "read_text (print_fields ((k, v) # f # fs) @ CHR ''}'' # rest) Between p =
      read_text (print_value v @ CHR '','' # print_fields (f # fs) @ CHR ''}'' # rest) Between (InObject m k # st, Want)"
    using 12 by (simp add: read_quote parse_key read_marks) (simp add: parse_token_def)
  also have "\<dots> = read_text (CHR '','' # print_fields (f # fs) @ CHR ''}'' # rest) Between (InObject m k # st, Done v)"
    using 12 by (intro "12.IH"(1) [OF b]) simp_all
  also have "\<dots> = read_text (print_fields (f # fs) @ CHR ''}'' # rest) Between (st, Key (m @ [(k, v)]))"
    using keys_sorted_snoc [of m k v "f # fs"] 12 by (simp add: read_marks) (simp add: parse_token_def)
  finally show ?case using "12.IH"(2) [OF _ bf] 12 by simp
qed simp_all

text \<open>The codec reads back every value it prints.\<close>

lemma json_text_reads_back: "json_ok MAX_DEPTH v \<Longrightarrow> reads_back json_text v"
  using read_printed(1) [of "([], Want)" "[]" "[]" v] begins.intros(1) [of "[]"]
  by (simp add: reads_back_def json_text_def parse_text_def)

end
