(* ===== verification/TestSupport.thy ===== *)
theory TestSupport
  imports Neutral Utf8 JsonText
begin

text \<open>
  What the unit tests of the repository share: \<open>unwrap()\<close>, \<open>unwrap_err()\<close>, indexing of JSON
  values and the substring tests. A test is a closed boolean definition, translated from the test
  function: its inputs are the texts that the test writes, its assertions are a conjunction, and a
  panic is falsehood. The codec of \<open>JsonText\<close> stands for \<open>serde_json\<close>.
\<close>

abbreviation bsl :: char where "bsl \<equiv> CHR 0x5C"

definition unwrapped :: "'e + 'a \<Rightarrow> ('a \<Rightarrow> bool) \<Rightarrow> bool" where
  "unwrapped r P \<longleftrightarrow> (case r of Inl _ \<Rightarrow> False | Inr x \<Rightarrow> P x)"

definition unwrapped_err :: "'e + 'a \<Rightarrow> ('e \<Rightarrow> bool) \<Rightarrow> bool" where
  "unwrapped_err r P \<longleftrightarrow> (case r of Inl e \<Rightarrow> P e | Inr _ \<Rightarrow> False)"

definition unwrapped_opt :: "'a option \<Rightarrow> ('a \<Rightarrow> bool) \<Rightarrow> bool" where
  "unwrapped_opt r P \<longleftrightarrow> (case r of None \<Rightarrow> False | Some x \<Rightarrow> P x)"

text \<open>\<open>v[key]\<close> and \<open>v[i]\<close> on a JSON value: \<open>Null\<close> when there is none.\<close>

definition at :: "value \<Rightarrow> string \<Rightarrow> value" where
  "at v k = unwrap_or (value_get v k) Null"

definition item :: "value \<Rightarrow> nat \<Rightarrow> value" where
  "item v i = (case as_array v of Some xs \<Rightarrow> if i < length xs then xs ! i else Null | None \<Rightarrow> Null)"

text \<open>Indexing a vector panics out of range.\<close>

definition nth_is :: "'a list \<Rightarrow> nat \<Rightarrow> ('a \<Rightarrow> bool) \<Rightarrow> bool" where
  "nth_is xs i P \<longleftrightarrow> i < length xs \<and> P (xs ! i)"

text \<open>
  \<open>str::contains\<close>. What follows a test is an argument of \<open>next_if\<close> and \<open>stop_if\<close>, so that it is
  evaluated only when it is needed.
\<close>

fun next_if :: "bool \<Rightarrow> (string \<Rightarrow> bool) \<Rightarrow> string \<Rightarrow> bool" where
  "next_if True go_on s = go_on s"
| "next_if False go_on s = False"

fun stop_if :: "bool \<Rightarrow> (string \<Rightarrow> bool) \<Rightarrow> string \<Rightarrow> bool" where
  "stop_if True go_on s = True"
| "stop_if False go_on s = go_on s"

fun starts_with :: "string \<Rightarrow> string \<Rightarrow> bool" where
  "starts_with [] s = True"
| "starts_with (x # p) [] = False"
| "starts_with (x # p) (c # s) = next_if (x = c) (starts_with p) s"

fun occurs_in :: "string \<Rightarrow> string \<Rightarrow> bool" where
  "occurs_in [] p = (p = [])"
| "occurs_in (c # s) p = stop_if (starts_with p (c # s)) (occurs_in s) p"

definition str_contains :: "string \<Rightarrow> string \<Rightarrow> bool" where
  "str_contains s p = occurs_in s p"

text \<open>
  \<open>str::find\<close> and \<open>str::rfind\<close>. The text is read once: \<open>open\<close> holds what is left
  of the pattern in every occurrence that has begun, and the result is where occurrences end.
\<close>

fun advance :: "char \<Rightarrow> string list \<Rightarrow> string list \<times> bool" where
  "advance c [] = ([], False)"
| "advance c (q # qs) =
     (case advance c qs of
        (opened, ended) \<Rightarrow>
          (case q of
             [] \<Rightarrow> (opened, ended)
           | x # xs \<Rightarrow> if x = c then (if xs = [] then (opened, True) else (xs # opened, ended)) else (opened, ended)))"

fun next_match :: "int \<Rightarrow> string list \<times> bool \<Rightarrow> (string list \<Rightarrow> int list) \<Rightarrow> int list" where
  "next_match n (opened, True) go_on = n # go_on opened"
| "next_match n (opened, False) go_on = go_on opened"

fun match_ends :: "string \<Rightarrow> int \<Rightarrow> string \<Rightarrow> string list \<Rightarrow> int list" where
  "match_ends p n [] opened = []"
| "match_ends p n (c # s) opened = next_match n (advance c (p # opened)) (match_ends p (n + 1) s)"

definition str_find :: "string \<Rightarrow> string \<Rightarrow> nat option" where
  "str_find s p = (case match_ends p 1 s [] of [] \<Rightarrow> None | e # _ \<Rightarrow> Some (nat (e - int (length p))))"

definition str_rfind :: "string \<Rightarrow> string \<Rightarrow> nat option" where
  "str_rfind s p = (case rev (match_ends p 1 s []) of [] \<Rightarrow> None | e # _ \<Rightarrow> Some (nat (e - int (length p))))"

text \<open>\<open>HeaderValue::to_str\<close>: a value of visible ASCII and tabs is a string.\<close>

definition visible_ascii :: "bytes \<Rightarrow> string option" where
  "visible_ascii v = (if list_all (\<lambda>c. (32 \<le> byte c \<and> byte c < 127) \<or> byte c = 9) v then Some v else None)"

definition reads_json :: "string \<Rightarrow> (value \<Rightarrow> bool) \<Rightarrow> bool" where
  "reads_json s P \<longleftrightarrow> unwrapped (from_str json_text s) P"

text \<open>The JSON of an SSE data line: \<open>from_str(&lines[0][6..])\<close>.\<close>

definition frame_json :: "string list \<Rightarrow> (value \<Rightarrow> bool) \<Rightarrow> bool" where
  "frame_json lines P \<longleftrightarrow> nth_is lines 0 (\<lambda>l. 6 \<le> length l \<and> reads_json (drop 6 l) P)"

end
