(* ===== verification/Tests_Core.thy ===== *)
theory Tests_Core
  imports TestSupport Gateway
begin

text \<open>
  The unit tests of the resolver, the authentication, the SSE parser, the registry, the store and
  the pipeline, run on the model. (Those of the adapters, the Privacy Guard and the configuration
  have theories of their own.)
\<close>

section \<open>Model resolver (\<open>src/resolver.rs\<close>)\<close>

definition test_resolver :: model_resolver where
  "test_resolver = new_resolver ''fallback-model'' [(''gpt-4o'', ''claude-3-5-sonnet'')] [''vendor/'', ''gateway/'']"

definition test_longest_prefix_wins_regardless_of_order :: bool where
  "test_longest_prefix_wins_regardless_of_order \<longleftrightarrow>
     list_all (\<lambda>prefixes. resolve (new_resolver ''default'' [] prefixes) ''vendor/gpt/4o'' = ''4o'')
       [[''vendor/'', ''vendor/gpt/''], [''vendor/gpt/'', ''vendor/'']]"

definition test_passthrough_unknown_model :: bool where
  "test_passthrough_unknown_model \<longleftrightarrow> resolve test_resolver ''some-model'' = ''some-model''"

definition test_strips_prefix_before_map :: bool where
  "test_strips_prefix_before_map \<longleftrightarrow> resolve test_resolver ''vendor/gpt-4o'' = ''claude-3-5-sonnet''"

definition test_maps_without_prefix :: bool where
  "test_maps_without_prefix \<longleftrightarrow> resolve test_resolver ''gpt-4o'' = ''claude-3-5-sonnet''"

definition test_strips_prefix_passthrough :: bool where
  "test_strips_prefix_passthrough \<longleftrightarrow> resolve test_resolver ''gateway/deepseek'' = ''deepseek''"

definition test_empty_uses_default :: bool where
  "test_empty_uses_default \<longleftrightarrow>
     resolve test_resolver ''vendor/'' = ''fallback-model'' \<and> resolve test_resolver [] = ''fallback-model''"

lemma resolver_tests_1:
  "test_longest_prefix_wins_regardless_of_order"
  "test_passthrough_unknown_model"
  "test_strips_prefix_before_map"
  by code_simp+

lemma resolver_tests_2:
  "test_maps_without_prefix"
  "test_strips_prefix_passthrough"
  "test_empty_uses_default"
  by code_simp+

section \<open>Authentication (\<open>src/auth.rs\<close>)\<close>

definition test_extracts_bearer_key :: bool where
  "test_extracts_bearer_key \<longleftrightarrow>
     extract_key visible_ascii [(''authorization'', ''Bearer sk-123'')] = Some ''sk-123''"

definition test_extracts_plain_keys :: bool where
  "test_extracts_plain_keys \<longleftrightarrow>
     extract_key visible_ascii [(''x-api-key'', ''sk-123'')] = Some ''sk-123'' \<and>
     extract_key visible_ascii [(''api-key'', ''sk-123'')] = Some ''sk-123''"

definition test_no_key_when_absent :: bool where
  "test_no_key_when_absent \<longleftrightarrow> extract_key visible_ascii [] = None"

definition test_strips_credential_headers :: bool where
  "test_strips_credential_headers \<longleftrightarrow>
     (let h = strip_credential_headers [(''authorization'', ''Bearer sk-1''), (''api-key'', ''k2''),
                (''x-api-key'', ''k3''), (''user-agent'', ''curl'')]
      in header_get h ''authorization'' = None \<and> header_get h ''api-key'' = None \<and>
         header_get h ''x-api-key'' = None \<and> header_get h ''user-agent'' = Some ''curl'')"

definition test_empty_bearer_is_none :: bool where
  "test_empty_bearer_is_none \<longleftrightarrow> extract_key visible_ascii [(''authorization'', ''Bearer '')] = None"

definition test_bearer_scheme_is_case_insensitive :: bool where
  "test_bearer_scheme_is_case_insensitive \<longleftrightarrow>
     extract_key visible_ascii [(''authorization'', ''bearer sk-123'')] = Some ''sk-123''"

definition test_non_bearer_scheme_is_ignored :: bool where
  "test_non_bearer_scheme_is_ignored \<longleftrightarrow>
     extract_key visible_ascii [(''authorization'', ''Basic dXNlcjpwYXNz''), (''x-api-key'', ''sk-123'')] =
       Some ''sk-123'' \<and>
     extract_key visible_ascii [(''authorization'', ''Basic dXNlcjpwYXNz'')] = None"

definition test_bearer_with_tab_separator_accepted :: bool where
  "test_bearer_with_tab_separator_accepted \<longleftrightarrow>
     extract_key visible_ascii [(''authorization'', ''Bearer'' @ CHR 0x09 # ''sk-123'')] = Some ''sk-123''"

definition test_ct_eq_matches_identically_and_rejects_differences :: bool where
  "test_ct_eq_matches_identically_and_rejects_differences \<longleftrightarrow>
     ct_eq ''sk-abcdef'' ''sk-abcdef'' \<and> \<not> ct_eq ''sk-abcdef'' ''sk-abcdeg'' \<and>
     \<not> ct_eq ''sk-abc'' ''sk-abcdef'' \<and> \<not> ct_eq ''sk-abcdef'' ''sk-abc'' \<and>
     \<not> ct_eq [] ''sk-1'' \<and> ct_eq [] []"

text \<open>The Russian word of the test, in UTF-8.\<close>

definition cyrillic_key :: string where
  "cyrillic_key = map char_of [208, 186, 208, 187, 209, 142, 209, 135 :: nat]"

definition test_ct_eq_handles_utf8 :: bool where
  "test_ct_eq_handles_utf8 \<longleftrightarrow>
     ct_eq (cyrillic_key @ ''-1'') (cyrillic_key @ ''-1'') \<and> \<not> ct_eq (cyrillic_key @ ''-1'') (cyrillic_key @ ''-2'')"

lemma auth_tests_1:
  "test_extracts_bearer_key"
  "test_extracts_plain_keys"
  "test_no_key_when_absent"
  by code_simp+

lemma auth_tests_2:
  "test_strips_credential_headers"
  "test_empty_bearer_is_none"
  "test_bearer_scheme_is_case_insensitive"
  by code_simp+

lemma auth_tests_3:
  "test_non_bearer_scheme_is_ignored"
  "test_bearer_with_tab_separator_accepted"
  "test_ct_eq_matches_identically_and_rejects_differences"
  by code_simp+

lemma auth_tests_4:
  "test_ct_eq_handles_utf8"
  by code_simp+

section \<open>SSE framing (\<open>src/core/sse.rs\<close>)\<close>

definition test_sse_parses_single_event_across_chunks :: bool where
  "test_sse_parses_single_event_across_chunks \<longleftrightarrow>
     snd (sse_push sse_new (''data: {\"a\":1}'' @ [nl, nl])) = [''{\"a\":1}'']"

definition test_sse_parses_event_split_across_chunk_boundaries :: bool where
  "test_sse_parses_event_split_across_chunk_boundaries \<longleftrightarrow>
     (case sse_push sse_new ''data: {\"a\":1'' of (f1, p1) \<Rightarrow>
      case sse_push f1 ('',\"b\":2}'' @ [nl]) of (f2, p2) \<Rightarrow>
      case sse_push f2 (nl # ''next: x'' @ nl # ''data: hello'' @ [nl, nl]) of (f3, p3) \<Rightarrow>
      p1 = [] \<and> p2 = [] \<and> p3 = [''{\"a\":1,\"b\":2}'', ''hello''])"

definition test_sse_joins_multiple_data_lines :: bool where
  "test_sse_joins_multiple_data_lines \<longleftrightarrow>
     snd (sse_push sse_new (''data: part1'' @ nl # ''data: part2'' @ [nl, nl])) = [''part1'' @ nl # ''part2'']"

definition test_sse_ignores_comments_and_other_fields :: bool where
  "test_sse_ignores_comments_and_other_fields \<longleftrightarrow>
     snd (sse_push sse_new ('': keepalive'' @ nl # ''event: ping'' @ nl # ''data: {\"type\":\"ping\"}'' @ [nl, nl])) =
       [''{\"type\":\"ping\"}'']"

definition test_sse_handles_done_marker_and_crlf :: bool where
  "test_sse_handles_done_marker_and_crlf \<longleftrightarrow>
     snd (sse_push sse_new (''data: [DONE]'' @ [cr, nl, cr, nl])) = [''[DONE]'']"

definition test_sse_finish_flushes_partial_event :: bool where
  "test_sse_finish_flushes_partial_event \<longleftrightarrow>
     (case sse_push sse_new (''data: {\"x\":1}'' @ [nl]) of (f1, p1) \<Rightarrow>
      case sse_finish f1 of (f2, p2) \<Rightarrow>
      case sse_finish f2 of (f3, p3) \<Rightarrow>
      p1 = [] \<and> p2 = [''{\"x\":1}''] \<and> p3 = [])"

definition invalid_utf8_line :: bytes where
  "invalid_utf8_line = ''data: '' @ map char_of [255, 254 :: nat] @ [nl, nl]"

definition test_sse_invalid_utf8_line_does_not_break_stream :: bool where
  "test_sse_invalid_utf8_line_does_not_break_stream \<longleftrightarrow>
     (case sse_push sse_new invalid_utf8_line of (f1, p1) \<Rightarrow>
      case sse_push f1 (''data: ok'' @ [nl, nl]) of (f2, p2) \<Rightarrow>
      p1 = [] \<and> p2 = [''ok''])"

definition test_sse_invalid_utf8_data_line_is_dropped_and_stream_continues :: bool where
  "test_sse_invalid_utf8_data_line_is_dropped_and_stream_continues \<longleftrightarrow>
     (case sse_push sse_new invalid_utf8_line of (f1, p1) \<Rightarrow>
      case sse_push f1 (''data: ok'' @ [nl, nl]) of (f2, p2) \<Rightarrow>
      p1 = [] \<and> p2 = [''ok''])"

text \<open>The evaluation compares with the cap in binary.\<close>

lemma cap_in_binary [code_unfold]: "MAX_BUFFER_BYTES < n \<longleftrightarrow> (67108864 :: int) < int n"
  by (simp add: MAX_BUFFER_BYTES_def)

lemma sse_tests_1:
  "test_sse_parses_single_event_across_chunks"
  "test_sse_parses_event_split_across_chunk_boundaries"
  "test_sse_joins_multiple_data_lines"
  by code_simp+

lemma sse_tests_2:
  "test_sse_ignores_comments_and_other_fields"
  "test_sse_handles_done_marker_and_crlf"
  "test_sse_finish_flushes_partial_event"
  by code_simp+

lemma sse_tests_3:
  "test_sse_invalid_utf8_line_does_not_break_stream"
  "test_sse_invalid_utf8_data_line_is_dropped_and_stream_continues"
  by code_simp+

subsection \<open>Inputs at the cap\<close>

text \<open>The tests that push tens of megabytes are proved from the parser's lemmas.\<close>

definition test_sse_single_chunk_with_many_lines_stays_linear :: bool where
  "test_sse_single_chunk_with_many_lines_stays_linear \<longleftrightarrow>
     (let chunk = concat (map (\<lambda>i. ''data: line'' @ dec i @ [nl]) [0 ..< 50000]) @ [nl];
          payloads = snd (sse_push sse_new chunk)
      in length payloads = 1 \<and>
         nth_is payloads 0 (\<lambda>p. prefix (''line0'' @ nl # ''line1'' @ [nl]) p \<and> suffix ''line49999'' p))"

definition test_sse_many_tiny_lines_stay_under_the_byte_cap :: bool where
  "test_sse_many_tiny_lines_stay_under_the_byte_cap \<longleftrightarrow>
     (let chunk = concat (replicate 70000 (''data: x'' @ [nl])) @ [nl];
          payloads = snd (sse_push sse_new chunk)
      in length payloads = 1 \<and> nth_is payloads 0 (suffix (''x'' @ nl # ''x'')))"

definition sse_filler :: bytes where
  "sse_filler = replicate (1024 * 1024) CHR ''x''"

definition sse_filler_line :: bytes where
  "sse_filler_line = ''data: '' @ sse_filler @ [nl]"

definition test_sse_many_data_lines_without_blank_line_stay_bounded :: bool where
  "test_sse_many_data_lines_without_blank_line_stay_bounded \<longleftrightarrow>
     (let f = fst (sse_run sse_new (replicate 70 sse_filler_line))
      in sf_data_lines_bytes f \<le> MAX_BUFFER_BYTES \<and>
         sum_list (map length (snd (sse_finish f))) \<le> MAX_BUFFER_BYTES)"

definition test_sse_overflow_discard_resets_event_data_accounting :: bool where
  "test_sse_overflow_discard_resets_event_data_accounting \<longleftrightarrow>
     (let f1 = fst (sse_run sse_new (replicate 63 sse_filler_line));
          f2 = fst (sse_run f1 (replicate 64 sse_filler));
          f3 = fst (sse_push f2 sse_filler);
          f4 = fst (sse_push f3 [nl]);
          payloads = snd (sse_push f4 (''data: ok'' @ [nl, nl]))
      in sf_data_lines_bytes f3 = 0 \<and> payloads = [''ok''])"

definition test_sse_discards_oversized_unterminated_buffer :: bool where
  "test_sse_discards_oversized_unterminated_buffer \<longleftrightarrow>
     (let big = replicate (MAX_BUFFER_BYTES + 1) CHR ''x'';
          (f1, p1) = sse_push sse_new big;
          (f2, p2) = sse_push f1 (nl # ''data: {\"ok\":true}'' @ [nl, nl]);
          (f3, p3) = sse_finish f2
      in p1 = [] \<and> p2 = [''{\"ok\":true}''] \<and> p3 = [])"

definition test_sse_oversized_single_chunk_is_not_buffered :: bool where
  "test_sse_oversized_single_chunk_is_not_buffered \<longleftrightarrow>
     (let big = replicate (MAX_BUFFER_BYTES + 1) CHR ''x'';
          (f1, p1) = sse_push sse_new big;
          (f2, p2) = sse_push f1 (''data: ok'' @ [nl, nl])
      in p1 = [] \<and> sf_buffer f1 = [] \<and> p2 = [''ok''])"

text \<open>A data line, and what a run of them followed by a blank line yields.\<close>

definition data_line :: "string \<Rightarrow> bytes" where
  "data_line p = ''data: '' @ p"

lemma spec_line_data: "framable p \<Longrightarrow> spec_line (data_line p) pend = (pend @ [p], [])"
  using spec_line_frame [of p] by (auto simp: data_line_def spec_line_def Let_def split: if_splits option.splits)

lemma spec_run_data:
  "list_all framable ls \<Longrightarrow> pend @ ls \<noteq> [] \<Longrightarrow>
   spec_run (map data_line ls @ [[]]) pend = ([], [join [nl] (pend @ ls)])"
proof (induction ls arbitrary: pend)
  case Nil
  then show ?case by (simp add: spec_line_def strip_cr_def strip_suffix_def)
next
  case (Cons l ls)
  from Cons.IH [of "pend @ [l]"] Cons.prems show ?case by (simp add: spec_line_data)
qed

lemma complete_lines_all:
  "list_all (\<lambda>l. nl \<notin> set l) ls \<Longrightarrow> complete_lines (concat (map (\<lambda>l. l @ [nl]) ls)) = ls"
  by (induction ls) simp_all

lemma sse_push_data_lines:
  assumes "list_all framable ls" "ls \<noteq> []"
    and "length (concat (map (\<lambda>p. data_line p @ [nl]) ls) @ [nl]) \<le> MAX_BUFFER_BYTES"
  shows "snd (sse_push sse_new (concat (map (\<lambda>p. data_line p @ [nl]) ls) @ [nl])) = [join [nl] ls]"
proof -
  let ?ls = "map data_line ls @ [[]]"
  have "concat (map (\<lambda>p. data_line p @ [nl]) ls) @ [nl] = concat (map (\<lambda>l. l @ [nl]) ?ls)"
    by (simp add: comp_def)
  moreover have "list_all (\<lambda>l. nl \<notin> set l) ?ls"
    using assms(1) by (auto simp: list_all_iff framable_def data_line_def)
  ultimately have "complete_lines (concat (map (\<lambda>p. data_line p @ [nl]) ls) @ [nl]) = ?ls"
    by (metis complete_lines_all)
  then show ?thesis
    using sse_push_new_spec [OF assms(3)] spec_run_data [of ls "[]"] assms(1,2) by simp
qed

lemma utf8_valid_ascii_string: "list_all (\<lambda>c. byte c < 128) s \<Longrightarrow> utf8_valid s"
proof (induction s)
  case (Cons c s)
  then show ?case using utf8_valid_app [OF utf8_valid_ascii [of c], of s] by simp
qed (simp add: utf8_valid_def)

lemma framable_ascii: "list_all (\<lambda>c. 32 \<le> byte c \<and> byte c < 128) s \<Longrightarrow> framable s"
proof -
  assume s: "list_all (\<lambda>c. 32 \<le> byte c \<and> byte c < 128) s"
  then have "\<forall>c \<in> set s. 32 \<le> byte c" "utf8_valid s"
    by (auto simp: list_all_iff intro!: utf8_valid_ascii_string)
  moreover have "\<not> 32 \<le> byte nl" "\<not> 32 \<le> byte cr" by (simp_all add: byte_def)
  ultimately show ?thesis using last_in_set [of s] unfolding framable_def by metis
qed

text \<open>The text of line \<open>i\<close> of the first test.\<close>

definition line_text :: "nat \<Rightarrow> string" where
  "line_text i = ''line'' @ dec i"

lemma framable_line: "framable (line_text i)"
proof -
  have "list_all (\<lambda>c. 32 \<le> byte c \<and> byte c < 128) (dec i)"
    using dec_digits [of i] by (auto simp: list_all_iff is_ascii_digit_def byte_def Let_def)
  then show ?thesis unfolding line_text_def by (intro framable_ascii) (simp add: byte_def)
qed

lemma length_concat_le: "\<forall>x \<in> set xs. length (f x) \<le> k \<Longrightarrow> length (concat (map f xs)) \<le> k * length xs"
  by (induction xs) auto

lemma join_snoc: "join sep (xs @ [z]) = (if xs = [] then z else join sep xs @ sep @ z)"
  by (induction sep xs rule: join.induct) simp_all

lemma suffix_join: "suffix z (join sep (xs @ [z]))"
  by (simp add: join_snoc suffix_def)

lemma digit_chars:
  "digit_char 0 = CHR ''0''" "digit_char (Suc 0) = CHR ''1''" "digit_char 4 = CHR ''4''" "digit_char 9 = CHR ''9''"
  by code_simp+

lemma sse_many_lines: "test_sse_single_chunk_with_many_lines_stays_linear"
proof -
  let ?is = "[0 ..< 50000]" let ?ls = "map line_text ?is"
  let ?chunk = "concat (map (\<lambda>p. data_line p @ [nl]) ?ls) @ [nl]"
  have chunk: "concat (map (\<lambda>i. ''data: line'' @ dec i @ [nl]) ?is) @ [nl] = ?chunk"
    by (simp add: comp_def data_line_def line_text_def del: upt_rec_numeral)
  have "\<forall>i \<in> set ?is. length (data_line (line_text i) @ [nl]) \<le> 16"
    using dec_length [of _ 4] by (fastforce simp: data_line_def line_text_def)
  then have "length ?chunk \<le> MAX_BUFFER_BYTES"
    using length_concat_le [of ?is "\<lambda>i. data_line (line_text i) @ [nl]" 16]
    by (simp add: MAX_BUFFER_BYTES_def comp_def del: upt_rec_numeral)
  moreover have "list_all framable ?ls" by (simp add: list_all_iff framable_line del: upt_rec_numeral)
  ultimately have p: "snd (sse_push sse_new ?chunk) = [join [nl] ?ls]"
    by (intro sse_push_data_lines) (simp_all del: upt_rec_numeral)
  have "?is = 0 # 1 # 2 # [3 ..< 50000]" 
    using upt_conv_Cons [of 0 50000] upt_conv_Cons [of 1 50000] upt_conv_Cons [of 2 50000]
    by (simp add: numeral_2_eq_2 [symmetric] del: upt_rec_numeral)
  then have "join [nl] ?ls = line_text 0 @ [nl] @ line_text 1 @ [nl] @ join [nl] (line_text 2 # map line_text [3 ..< 50000])"
    by (simp del: upt_rec_numeral)
  moreover have "line_text 0 = ''line0''" "line_text 1 = ''line1''" "line_text 49999 = ''line49999''"
    by (simp_all add: line_text_def dec.simps digit_chars)
  ultimately have "prefix (''line0'' @ nl # ''line1'' @ [nl]) (join [nl] ?ls)" by (simp del: upt_rec_numeral)
  moreover have "?is = [0 ..< 49999] @ [49999]" using upt_Suc_append [of 0 49999] by (simp del: upt_rec_numeral)
  then have "suffix (line_text 49999) (join [nl] ?ls)"
    using suffix_join [of "line_text 49999" "[nl]" "map line_text [0 ..< 49999]"] by (simp del: upt_rec_numeral)
  ultimately show ?thesis
    unfolding test_sse_single_chunk_with_many_lines_stays_linear_def Let_def chunk p
    using \<open>line_text 49999 = ''line49999''\<close> by (simp add: nth_is_def del: upt_rec_numeral)
qed

lemma sse_tiny_lines: "test_sse_many_tiny_lines_stay_under_the_byte_cap"
proof -
  let ?ls = "replicate 70000 ''x''"
  let ?chunk = "concat (map (\<lambda>p. data_line p @ [nl]) ?ls) @ [nl]"
  have chunk: "concat (replicate 70000 (''data: x'' @ [nl])) @ [nl] = ?chunk" by (simp add: data_line_def)
  have "length ?chunk \<le> MAX_BUFFER_BYTES"
    by (simp add: MAX_BUFFER_BYTES_def length_concat sum_list_replicate data_line_def)
  moreover have "list_all framable ?ls"
    using framable_ascii [of "''x''"] by (simp add: list_all_iff byte_def)
  ultimately have p: "snd (sse_push sse_new ?chunk) = [join [nl] ?ls]"
    by (intro sse_push_data_lines) simp_all
  have "?ls = (replicate 69998 ''x'' @ [''x'']) @ [''x'']"
    using replicate_add [of 69999 1 "''x''"] replicate_add [of 69998 1 "''x''"] by simp
  then have "join [nl] ?ls = join [nl] (replicate 69998 ''x'' @ [''x'']) @ [nl] @ ''x''"
    by (simp only: join_snoc [of "[nl]" "replicate 69998 ''x'' @ [''x'']"]) simp
  then have "suffix (''x'' @ nl # ''x'') (join [nl] ?ls)"
    using suffix_join [of "''x''" "[nl]" "replicate 69998 ''x''"] by (auto simp: suffix_def)
  then show ?thesis
    unfolding test_sse_many_tiny_lines_stay_under_the_byte_cap_def Let_def chunk p
    by (simp add: nth_is_def)
qed

lemma sse_data_bounded: "test_sse_many_data_lines_without_blank_line_stay_bounded"
proof -
  let ?f = "fst (sse_run sse_new (replicate 70 sse_filler_line))"
  have "sse_ok ?f" using sse_run_ok [OF sse_ok_new, of "replicate 70 sse_filler_line"]
    by (cases "sse_run sse_new (replicate 70 sse_filler_line)") simp
  then obtain pend where h: "sse_holds ?f pend" by (auto simp: sse_ok_def)
  then have "sum_list (map length (snd (sse_finish ?f))) \<le> MAX_BUFFER_BYTES"
    by (auto simp: sse_finish_def sse_holds_def lossy_pending butlast_lines_bytes [symmetric])
  with h show ?thesis
    by (simp add: test_sse_many_data_lines_without_blank_line_stay_bounded_def sse_holds_def)
qed

text \<open>Pushing a whole line leaves the buffer empty; pushing text without a newline extends it.\<close>

lemma sse_push_line_buffer:
  assumes "nl \<notin> set l" "sf_buffer f = []" "length l < MAX_BUFFER_BYTES"
  shows "sf_buffer (fst (sse_push f (l @ [nl]))) = []"
proof -
  obtain f1 p1 where l: "sse_line l f = (f1, p1)" by (cases "sse_line l f")
  have "sse_lines (sf_buffer f @ l @ [nl]) f = ([], f1, p1 @ [])"
    using sse_lines_nl [OF assms(1) l sse_lines_no_nl [of "[]" f1]] assms(2) by simp
  then show ?thesis using assms by (simp add: sse_push_small)
qed

lemma sse_run_Cons: "fst (sse_run f (c # cs)) = fst (sse_run (fst (sse_push f c)) cs)"
  by (simp split: prod.split)

lemma sse_run_line_buffer:
  assumes "nl \<notin> set l" "length l < MAX_BUFFER_BYTES"
  shows "sf_buffer f = [] \<Longrightarrow> sf_buffer (fst (sse_run f (replicate n (l @ [nl])))) = []"
proof (induction n arbitrary: f)
  case (Suc n)
  show ?case
    using Suc.IH [of "fst (sse_push f (l @ [nl]))"] sse_push_line_buffer [OF assms(1) Suc.prems assms(2)]
    by (simp add: sse_run_Cons del: sse_run.simps)
qed simp

lemma sse_push_text:
  assumes "nl \<notin> set (sf_buffer f @ c)" "length (sf_buffer f) + length c \<le> MAX_BUFFER_BYTES"
  shows "sse_push f c = (f\<lparr>sf_buffer := sf_buffer f @ c\<rparr>, [])"
  by (rule sse_push_small [OF assms(2) sse_lines_no_nl [OF assms(1)]])

lemma sse_run_text:
  "nl \<notin> set (sf_buffer f) \<Longrightarrow> nl \<notin> set c \<Longrightarrow> length (sf_buffer f) + n * length c \<le> MAX_BUFFER_BYTES \<Longrightarrow>
   sse_run f (replicate n c) = (f\<lparr>sf_buffer := sf_buffer f @ concat (replicate n c)\<rparr>, [])"
  by (induction n arbitrary: f) (simp_all add: sse_push_text)

lemma filler_props:
  "nl \<notin> set sse_filler" "length sse_filler = 1048576" "sse_filler \<noteq> []" "strip_cr sse_filler = sse_filler"
  "data_field sse_filler = None"
proof -
  have f: "sse_filler = CHR ''x'' # replicate 1048575 CHR ''x''"
    unfolding sse_filler_def using replicate_Suc [of 1048575 "CHR ''x''"] by simp
  show "nl \<notin> set sse_filler" "length sse_filler = 1048576" "sse_filler \<noteq> []"
    by (simp_all add: sse_filler_def)
  then have "last sse_filler = CHR ''x''" by (simp add: sse_filler_def)
  then have "last sse_filler \<noteq> cr" by simp
  then have "sse_filler \<noteq> x @ [cr]" for x by (metis last_snoc)
  then show "strip_cr sse_filler = sse_filler"
    by (auto simp: strip_cr_def strip_suffix_Some split: option.split)
  show "data_field sse_filler = None" by (simp add: f data_field_def strip_prefix_def)
qed

lemma sse_push_spec:
  assumes "sse_holds f []" "sf_buffer f = []" "length s \<le> MAX_BUFFER_BYTES"
  shows "snd (sse_push f s) = snd (spec_run (complete_lines s) [])"
proof -
  obtain left f' ps where l: "sse_lines s f = (left, f', ps)" by (cases "sse_lines s f")
  obtain pend qs where sp: "spec_run (complete_lines s) [] = (pend, qs)"
    by (cases "spec_run (complete_lines s) []")
  have "sse_push f s = (f'\<lparr>sf_buffer := left\<rparr>, ps)"
    using assms l by (intro sse_push_small) simp_all
  with sse_lines_refines [OF l assms(1) _ sp] assms(3) sp show ?thesis by simp
qed

lemma sse_overflow_resets: "test_sse_overflow_discard_resets_event_data_accounting"
proof -
  note F = filler_props
  let ?f1 = "fst (sse_run sse_new (replicate 63 sse_filler_line))"
  let ?f2 = "fst (sse_run ?f1 (replicate 64 sse_filler))"
  let ?f3 = "fst (sse_push ?f2 sse_filler)" let ?f4 = "fst (sse_push ?f3 [nl])"
  have b1: "sf_buffer ?f1 = []"
    using sse_run_line_buffer [of "''data: '' @ sse_filler" sse_new 63] F
    by (simp add: sse_filler_line_def MAX_BUFFER_BYTES_def sse_new_def)
  have f2: "?f2 = ?f1\<lparr>sf_buffer := concat (replicate 64 sse_filler)\<rparr>"
    using sse_run_text [of ?f1 sse_filler 64] b1 F by (simp add: MAX_BUFFER_BYTES_def)
  have "length (sf_buffer ?f2) = MAX_BUFFER_BYTES"
    by (simp add: f2 length_concat sum_list_replicate F MAX_BUFFER_BYTES_def)
  then have f3: "?f3 = ?f1\<lparr>sf_buffer := sse_filler, sf_data_lines := [], sf_data_lines_bytes := 0\<rparr>"
    using F sse_lines_no_nl [of sse_filler "?f2\<lparr>sf_buffer := [], sf_data_lines := [], sf_data_lines_bytes := 0\<rparr>"]
    by (simp add: sse_push_def MAX_BUFFER_BYTES_def f2)
  have "sse_line sse_filler ?f3 = (?f3, [])" by (simp add: sse_line_def F)
  then have "sse_lines (sse_filler @ [nl]) ?f3 = ([], ?f3, [] @ [])"
    using sse_lines_nl [OF F(1), of ?f3 ?f3 "[]" "[]" "[]" ?f3 "[]"] sse_lines_no_nl [of "[]" ?f3] by simp
  then have f4: "?f4 = ?f3\<lparr>sf_buffer := []\<rparr>"
    using sse_push_small [of ?f3 "[nl]" "[]" ?f3 "[]"] F by (simp add: f3 MAX_BUFFER_BYTES_def)
  have b4: "sse_holds ?f4 []" "sf_buffer ?f4 = []" unfolding f4 by (simp_all add: f3 sse_holds_def)
  then have "snd (sse_push ?f4 (''data: ok'' @ [nl, nl])) = [''ok'']"
    using sse_push_spec [of ?f4 "concat (map sse_frame [''ok''])"] spec_run_frames [of "[''ok'']"]
      framable_ascii [of "''ok''"]
    by (simp add: sse_frame_def byte_def MAX_BUFFER_BYTES_def)
  then show ?thesis
    by (simp add: test_sse_overflow_discard_resets_event_data_accounting_def f3 Let_def)
qed

lemma sse_push_oversized: "sse_push sse_new (replicate (MAX_BUFFER_BYTES + 1) c) = (sse_new, [])"
  by (simp add: sse_push_def)

lemma sse_oversized_discarded: "test_sse_discards_oversized_unterminated_buffer"
  unfolding test_sse_discards_oversized_unterminated_buffer_def Let_def sse_push_oversized prod.case
  by code_simp

lemma sse_oversized_not_buffered: "test_sse_oversized_single_chunk_is_not_buffered"
  unfolding test_sse_oversized_single_chunk_is_not_buffered_def Let_def sse_push_oversized prod.case
  by code_simp

section \<open>Protocol registry (\<open>src/core/registry.rs\<close>)\<close>

text \<open>The tests register an adapter of which the registry reads the name only.\<close>

definition test_register_and_lookup :: "protocol_adapter \<Rightarrow> bool" where
  "test_register_and_lookup dummy \<longleftrightarrow>
     (let reg = registry_register registry_new dummy
      in registry_get reg ''dummy'' \<noteq> None \<and> registry_get reg ''missing'' = None \<and>
         registry_names reg = [''dummy''])"

definition test_client_adapters_respects_order :: "protocol_adapter \<Rightarrow> bool" where
  "test_client_adapters_respects_order dummy \<longleftrightarrow>
     (let adapters = client_adapters (registry_register registry_new dummy) [''dummy'', ''nope'']
      in length adapters = 1 \<and> nth_is adapters 0 (\<lambda>a. pa_name a = ''dummy''))"

lemma registry_tests:
  assumes "pa_name dummy = ''dummy''"
  shows "test_register_and_lookup dummy" "test_client_adapters_respects_order dummy"
  using assms
  by (simp_all add: test_register_and_lookup_def test_client_adapters_respects_order_def
      registry_register_def registry_new_def registry_get_def registry_names_def client_adapters_def
      nth_is_def)

section \<open>Conversation memory (\<open>src/core/memory.rs\<close>)\<close>

definition test_record :: "u64 \<Rightarrow> request_record" where
  "test_record n = \<lparr>rr_request_id = ''req-'' @ dec (unat n), rr_client = ''openai'', rr_upstream = ''openai'',
     rr_model = ''gpt-4o'', rr_mode = ''non-stream'', rr_status = ''ok'', rr_latency_ms = 12 + n,
     rr_input_tokens = Some (10 + n), rr_output_tokens = Some (20 + n)\<rparr>"

text \<open>All but the last assertion, which runs the statement parser of the store's crate.\<close>

definition test_insert_statement_shape :: bool where
  "test_insert_statement_shape \<longleftrightarrow>
     (let text = insert_statement json_text ''r1_7'' 42 (test_record 1)
      in prefix ''INSERT INTO request:r1_7'' text \<and> str_contains text ''\"ts_ms\":42'' \<and>
         str_contains text ''\"model\":\"gpt-4o\"'' \<and> str_contains text ''\"status\":\"ok\"'' \<and> suffix ''};'' text)"

lemma memory_tests: "test_insert_statement_shape"
  by code_simp

section \<open>Request pipeline (\<open>src/core/pipeline.rs\<close>)\<close>

definition test_response_to_events_maps_blocks_to_deltas :: bool where
  "test_response_to_events_maps_blocks_to_deltas \<longleftrightarrow>
     (let events = response_to_events json_text \<lparr>resp_id = ''r1'', resp_model = ''m'',
            resp_content = [Text ''hello'', Thinking ''hmm'' None, ToolUse ''call_1'' ''f'' (jobj [(''a'', jnum 1)])],
            resp_finish_reason = Stop, resp_usage = Some \<lparr>input_tokens = 3, output_tokens = 7\<rparr>\<rparr>
      in nth_is events 0 (\<lambda>e. e = MessageStart ''r1'' ''m'' None) \<and>
         nth_is events 1 (\<lambda>e. e = TextDelta ''hello'') \<and>
         nth_is events 2 (\<lambda>e. e = ReasoningDelta ''hmm'') \<and>
         nth_is events 3 (\<lambda>e. case e of
           ToolCallDelta i c n a \<Rightarrow> i = 0 \<and> c = ''call_1'' \<and> n = ''f'' \<and> str_contains a ''a'' | _ \<Rightarrow> False) \<and>
         nth_is events 4 (\<lambda>e. case e of
           MessageStop Stop (Some u) \<Rightarrow> input_tokens u = 3 \<and> output_tokens u = 7 | _ \<Rightarrow> False))"

definition test_response_to_events_empty_content_still_terminates :: bool where
  "test_response_to_events_empty_content_still_terminates \<longleftrightarrow>
     (let events = response_to_events json_text \<lparr>resp_id = [], resp_model = [], resp_content = [],
            resp_finish_reason = Length, resp_usage = None\<rparr>
      in length events = 2 \<and> nth_is events 1 (\<lambda>e. e = MessageStop Length None))"

lemma pipeline_tests:
  "test_response_to_events_maps_blocks_to_deltas"
  "test_response_to_events_empty_content_still_terminates"
  by code_simp+

end
