(* ===== verification/Tests_OpenAI.thy ===== *)
theory Tests_OpenAI
  imports TestSupport OpenAI_Stream
begin

text \<open>
  The unit tests of the OpenAI adapter (\<open>src/adapters/openai/convert.rs\<close> and
  \<open>src/adapters/openai/stream.rs\<close>), run on the model.
\<close>

section \<open>Conversion\<close>

definition test_openai_parses_basic_request :: bool where
  "test_openai_parses_basic_request \<longleftrightarrow> unwrapped (openai_parse_request json_text
     ''{
            \"model\": \"gpt-4o\",
            \"messages\": [
                {\"role\": \"system\", \"content\": \"be concise\"},
                {\"role\": \"user\", \"content\": \"hello\"},
                {\"role\": \"assistant\", \"content\": \"hi\"}
            ],
            \"temperature\": 0.7,
            \"stop\": [\"END\", \"STOP\"],
            \"stream\": false
        }'')
     (\<lambda>req. req_model req = ''gpt-4o'' \<and> length (req_messages req) = 3 \<and>
        nth_is (req_messages req) 0 (\<lambda>m. msg_role m = System) \<and>
        nth_is (req_messages req) 1 (\<lambda>m. nth_is (msg_content m) 0 (\<lambda>b. b = Text ''hello'')) \<and>
        req_stop req = Some [''END'', ''STOP''] \<and>
        req_temperature req = f64_of_dec False 7 (- 1) \<and>
        \<not> req_stream req)"

definition test_openai_parses_single_stop_as_array :: bool where
  "test_openai_parses_single_stop_as_array \<longleftrightarrow> unwrapped (openai_parse_request json_text
     ''{\"model\":\"m\",\"messages\":[{\"role\":\"user\",\"content\":\"x\"}],\"stop\":\"END\"}'')
     (\<lambda>req. req_stop req = Some [''END''])"

definition test_openai_parses_image_and_tools :: bool where
  "test_openai_parses_image_and_tools \<longleftrightarrow> unwrapped (openai_parse_request json_text
     ''{
            \"model\": \"m\",
            \"messages\": [
                {\"role\": \"user\", \"content\": [
                    {\"type\": \"text\", \"text\": \"what is this?\"},
                    {\"type\": \"image_url\", \"image_url\": {\"url\": \"data:image/png;base64,AAAA\"}}
                ]}
            ],
            \"tools\": [{
                \"type\": \"function\",
                \"function\": {
                    \"name\": \"get_weather\",
                    \"description\": \"get weather\",
                    \"parameters\": {\"type\": \"object\", \"properties\": {\"city\": {\"type\": \"string\"}}}
                }
            }]
        }'')
     (\<lambda>req.
        nth_is (req_messages req) 0 (\<lambda>user. length (msg_content user) = 2 \<and>
          nth_is (msg_content user) 1 (\<lambda>b. b = Image ''image/png'' ''AAAA'')) \<and>
        length (req_tools req) = 1 \<and>
        nth_is (req_tools req) 0 (\<lambda>t. nt_name t = ''get_weather'' \<and>
          at (nt_parameters t) ''type'' = String ''object''))"

definition test_openai_parses_tool_calls_and_results :: bool where
  "test_openai_parses_tool_calls_and_results \<longleftrightarrow> unwrapped (openai_parse_request json_text
     (''{
            \"model\": \"m\",
            \"messages\": [
                {\"role\": \"assistant\", \"content\": null, \"tool_calls\": [
                    {\"id\": \"call_1\", \"type\": \"function\", \"function\": {\"name\": \"get_weather\", \"arguments\": \"{'' @ bsl # ''\"city'' @ bsl # ''\":'' @ bsl # ''\"paris'' @ bsl # ''\"}\"}}
                ]},
                {\"role\": \"tool\", \"tool_call_id\": \"call_1\", \"content\": \"22c\"}
            ]
        }''))
     (\<lambda>req.
        nth_is (req_messages req) 0 (\<lambda>assistant. msg_content assistant \<noteq> [] \<and>
          nth_is (msg_content assistant) 0 (\<lambda>b. case b of
             ToolUse i n input \<Rightarrow> i = ''call_1'' \<and> n = ''get_weather'' \<and> at input ''city'' = String ''paris''
           | _ \<Rightarrow> False)) \<and>
        nth_is (req_messages req) 1 (\<lambda>tool. msg_role tool = Tool \<and>
          nth_is (msg_content tool) 0 (\<lambda>b. case b of
             ToolResult i c _ \<Rightarrow> i = ''call_1'' \<and> c = ''22c''
           | _ \<Rightarrow> False)))"

definition test_openai_parses_reasoning_content :: bool where
  "test_openai_parses_reasoning_content \<longleftrightarrow> unwrapped (openai_parse_request json_text
     ''{
            \"model\": \"m\",
            \"messages\": [{\"role\": \"assistant\", \"content\": \"done\", \"reasoning_content\": \"let me think\"}]
        }'')
     (\<lambda>req. nth_is (req_messages req) 0 (\<lambda>assistant. length (msg_content assistant) = 2 \<and>
        nth_is (msg_content assistant) 1 (\<lambda>b. case b of Thinking t _ \<Rightarrow> t = ''let me think'' | _ \<Rightarrow> False)))"

definition test_openai_max_completion_tokens_round_trips :: bool where
  "test_openai_max_completion_tokens_round_trips \<longleftrightarrow> unwrapped (openai_parse_request json_text
     ''{\"model\":\"o3-mini\",\"messages\":[{\"role\":\"user\",\"content\":\"hi\"}],\"max_completion_tokens\":500}'')
     (\<lambda>req. req_max_completion_tokens req = Some 500 \<and> req_max_tokens req = None \<and>
        unwrapped (openai_serialize_request json_text req) (\<lambda>out. reads_json out (\<lambda>v.
          at v ''max_completion_tokens'' = jnum 500 \<and> value_get v ''max_tokens'' = None)))"

definition test_openai_multimodal_blocks_keep_interleaved_order :: bool where
  "test_openai_multimodal_blocks_keep_interleaved_order \<longleftrightarrow>
     (let req = new_request ''m'' [\<lparr>msg_role = User, msg_content =
            [Text ''what is in this image?'', Image ''image/png'' ''AA=='',
             Text ''and this one?'', Image ''image/png'' ''BB=='']\<rparr>]
      in unwrapped (openai_serialize_request json_text req) (\<lambda>out. reads_json out (\<lambda>v.
           let parts = at (item (at v ''messages'') 0) ''content'' in
           map_option length (as_array parts) = Some 4 \<and>
           at (item parts 0) ''type'' = String ''text'' \<and>
           at (item parts 1) ''type'' = String ''image_url'' \<and>
           at (item parts 2) ''type'' = String ''text'' \<and>
           at (item parts 3) ''type'' = String ''image_url'' \<and>
           unwrapped_opt (as_str (at (at (item parts 1) ''image_url'') ''url'')) (suffix ''AA=='') \<and>
           unwrapped_opt (as_str (at (at (item parts 3) ''image_url'') ''url'')) (suffix ''BB==''))))"

definition test_openai_tool_role_emits_one_message_per_result :: bool where
  "test_openai_tool_role_emits_one_message_per_result \<longleftrightarrow>
     (let req = new_request ''m'' [\<lparr>msg_role = Tool, msg_content =
            [ToolResult ''call_1'' ''22c'' False, ToolResult ''call_2'' ''paris'' False]\<rparr>]
      in unwrapped (openai_serialize_request json_text req) (\<lambda>out. reads_json out (\<lambda>v.
           let msgs = at v ''messages'' in
           map_option length (as_array msgs) = Some 2 \<and>
           at (item msgs 0) ''tool_call_id'' = String ''call_1'' \<and>
           at (item msgs 1) ''tool_call_id'' = String ''call_2'' \<and>
           at (item msgs 1) ''content'' = String ''paris'')))"

definition test_openai_response_images_serialize_as_content_parts :: bool where
  "test_openai_response_images_serialize_as_content_parts \<longleftrightarrow>
     (let resp = \<lparr>resp_id = ''r1'', resp_model = ''m'',
            resp_content = [Text ''badge:'', Image ''image/png'' ''AAAA''],
            resp_finish_reason = Stop, resp_usage = None\<rparr>
      in unwrapped (openai_serialize_response json_text 0 resp) (\<lambda>out. reads_json out (\<lambda>v.
           let parts = at (at (item (at v ''choices'') 0) ''message'') ''content'' in
           map_option length (as_array parts) = Some 2 \<and>
           at (item parts 0) ''type'' = String ''text'' \<and>
           at (item parts 1) ''type'' = String ''image_url'' \<and>
           unwrapped_opt (as_str (at (at (item parts 1) ''image_url'') ''url'')) (suffix ''AAAA''))))"

definition test_openai_serialize_round_trips_tools_and_images :: bool where
  "test_openai_serialize_round_trips_tools_and_images \<longleftrightarrow>
     (let req = (new_request ''m''
            [\<lparr>msg_role = User, msg_content = [Text ''look'', Image ''image/png'' ''AAAA'']\<rparr>,
             \<lparr>msg_role = Tool, msg_content = [ToolResult ''call_9'' ''ok'' False]\<rparr>])
            \<lparr>req_tools := [\<lparr>nt_name = ''f'', nt_description = Some ''d'',
                             nt_parameters = jobj [(''type'', String ''object'')]\<rparr>],
              req_max_tokens := Some 100, req_stop := Some [''END'']\<rparr>
      in unwrapped (openai_serialize_request json_text req) (\<lambda>out.
           unwrapped (openai_parse_request json_text out) (\<lambda>parsed.
             length (req_messages parsed) = 2 \<and>
             nth_is (req_messages parsed) 0 (\<lambda>m. Image ''image/png'' ''AAAA'' \<in> set (msg_content m)) \<and>
             nth_is (req_tools parsed) 0 (\<lambda>t. nt_name t = ''f'') \<and>
             req_stop parsed = Some [''END''] \<and>
             req_max_tokens parsed = Some 100)))"

definition test_openai_parses_response_with_tools_and_usage :: bool where
  "test_openai_parses_response_with_tools_and_usage \<longleftrightarrow> unwrapped (openai_parse_response json_text
     ''{
            \"id\": \"chatcmpl-1\",
            \"model\": \"gpt-4o\",
            \"choices\": [{
                \"index\": 0,
                \"message\": {
                    \"role\": \"assistant\",
                    \"content\": \"sure\",
                    \"tool_calls\": [{\"id\": \"call_2\", \"type\": \"function\", \"function\": {\"name\": \"f\", \"arguments\": \"{}\"}}]
                },
                \"finish_reason\": \"tool_calls\"
            }],
            \"usage\": {\"prompt_tokens\": 10, \"completion_tokens\": 5, \"total_tokens\": 15}
        }'')
     (\<lambda>resp. resp_id resp = ''chatcmpl-1'' \<and> resp_finish_reason resp = ToolCalls \<and>
        nth_is (resp_content resp) 0 (\<lambda>b. case b of Text _ \<Rightarrow> True | _ \<Rightarrow> False) \<and>
        nth_is (resp_content resp) 1 (\<lambda>b. case b of ToolUse _ _ _ \<Rightarrow> True | _ \<Rightarrow> False) \<and>
        resp_usage resp = Some \<lparr>input_tokens = 10, output_tokens = 5\<rparr>)"

definition test_openai_parses_reasoning_response :: bool where
  "test_openai_parses_reasoning_response \<longleftrightarrow> unwrapped (openai_parse_response json_text
     ''{
            \"id\": \"r\",
            \"model\": \"m\",
            \"choices\": [{\"index\": 0, \"message\": {\"role\": \"assistant\", \"content\": \"\", \"reasoning\": \"think\"}, \"finish_reason\": \"stop\"}]
        }'')
     (\<lambda>resp. nth_is (resp_content resp) 0 (\<lambda>b. case b of Thinking t _ \<Rightarrow> t = ''think'' | _ \<Rightarrow> False))"

definition test_openai_serialize_response_round_trips :: bool where
  "test_openai_serialize_response_round_trips \<longleftrightarrow>
     (let resp = \<lparr>resp_id = ''chatcmpl-x'', resp_model = ''gpt-4o'',
            resp_content = [Thinking ''hmm'' None, Text ''answer''],
            resp_finish_reason = Stop, resp_usage = Some \<lparr>input_tokens = 3, output_tokens = 7\<rparr>\<rparr>
      in unwrapped (openai_serialize_response json_text 0 resp) (\<lambda>out.
           unwrapped (openai_parse_response json_text out) (\<lambda>parsed.
             length (resp_content parsed) = 2 \<and>
             Text ''answer'' \<in> set (resp_content parsed) \<and>
             resp_finish_reason parsed = Stop \<and>
             resp_usage parsed = Some \<lparr>input_tokens = 3, output_tokens = 7\<rparr>)))"

definition test_openai_errors_map_to_openai_shape :: bool where
  "test_openai_errors_map_to_openai_shape \<longleftrightarrow>
     (case openai_serialize_error json_text (RateLimit None) of
        (status, body) \<Rightarrow> status = 429 \<and> reads_json body (\<lambda>v.
          at (at v ''error'') ''type'' = String ''rate_limit_error'' \<and>
          as_str (at (at v ''error'') ''message'') \<noteq> None))"

text \<open>Every conversion test passes on the model.\<close>

lemma openai_convert_tests_1:
  "test_openai_parses_basic_request"
  "test_openai_parses_single_stop_as_array"
  "test_openai_parses_image_and_tools"
  by code_simp+

lemma openai_convert_tests_2:
  "test_openai_parses_tool_calls_and_results"
  "test_openai_parses_reasoning_content"
  "test_openai_max_completion_tokens_round_trips"
  by code_simp+

lemma openai_convert_tests_3:
  "test_openai_multimodal_blocks_keep_interleaved_order"
  "test_openai_tool_role_emits_one_message_per_result"
  "test_openai_response_images_serialize_as_content_parts"
  by code_simp+

lemma openai_convert_tests_4:
  "test_openai_serialize_round_trips_tools_and_images"
  "test_openai_parses_response_with_tools_and_usage"
  "test_openai_parses_reasoning_response"
  by code_simp+

lemma openai_convert_tests_5:
  "test_openai_serialize_response_round_trips"
  "test_openai_errors_map_to_openai_shape"
  by code_simp+

section \<open>Streams\<close>

definition openai_test_chunk :: "string \<Rightarrow> value \<Rightarrow> string option \<Rightarrow> string" where
  "openai_test_chunk i delta finish =
     to_string json_text (jobj [(''id'', String i), (''object'', String ''chat.completion.chunk''),
       (''created'', jnum 0), (''model'', String ''m''),
       (''choices'', Array [jobj [(''index'', jnum 0), (''delta'', delta),
          (''finish_reason'', case finish of None \<Rightarrow> Null | Some f \<Rightarrow> String f)]])])"

definition openai_test_role :: string where
  "openai_test_role = openai_test_chunk ''c1'' (jobj [(''role'', String ''assistant'')]) None"

definition test_openai_decodes_text_and_reasoning_chunks :: bool where
  "test_openai_decodes_text_and_reasoning_chunks \<longleftrightarrow>
     (case openai_feed json_text openai_decoder_new openai_test_role of (events1, d1) \<Rightarrow>
      case openai_feed json_text d1
          (openai_test_chunk ''c1'' (jobj [(''content'', String ''hel'')]) None) of (events2, d2) \<Rightarrow>
      case openai_feed json_text d2
          (openai_test_chunk ''c1'' (jobj [(''reasoning_content'', String ''think'')]) None) of (events3, d3) \<Rightarrow>
      case openai_feed json_text d3 (openai_test_chunk ''c1'' (jobj []) (Some ''stop'')) of (events4, d4) \<Rightarrow>
      case openai_finish d4 of (events5, d5) \<Rightarrow>
      length events1 = 1 \<and>
         nth_is events1 0 (\<lambda>e. case e of MessageStart i _ _ \<Rightarrow> i = ''c1'' | _ \<Rightarrow> False) \<and>
         events2 = [TextDelta ''hel''] \<and>
         events3 = [ReasoningDelta ''think''] \<and>
         events4 = [] \<and>
         nth_is events5 0 (\<lambda>e. case e of MessageStop f _ \<Rightarrow> f = Stop | _ \<Rightarrow> False))"

definition test_openai_decodes_tool_call_fragments :: bool where
  "test_openai_decodes_tool_call_fragments \<longleftrightarrow>
     (case openai_feed json_text openai_decoder_new openai_test_role of (_, d1) \<Rightarrow>
      case openai_feed json_text d1 (openai_test_chunk ''c1''
          (jobj [(''tool_calls'', Array [jobj [(''index'', jnum 0), (''id'', String ''call_1''),
             (''type'', String ''function''),
             (''function'', jobj [(''name'', String ''f''), (''arguments'', String ''{\"a\":'')])]])]) None) of (events1, d2) \<Rightarrow>
      case openai_feed json_text d2 (openai_test_chunk ''c1''
          (jobj [(''tool_calls'', Array [jobj [(''index'', jnum 0), (''type'', String ''function''),
             (''function'', jobj [(''arguments'', String '' 1}'')])]])]) None) of (events2, d3) \<Rightarrow>
      nth_is events1 0 (\<lambda>e. case e of
           ToolCallDelta i c n _ \<Rightarrow> i = 0 \<and> c = ''call_1'' \<and> n = ''f'' | _ \<Rightarrow> False) \<and>
         nth_is events2 0 (\<lambda>e. case e of
           ToolCallDelta i c n a \<Rightarrow> i = 0 \<and> c = [] \<and> n = [] \<and> a = '' 1}'' | _ \<Rightarrow> False))"

definition test_openai_decodes_final_chunk_with_usage :: bool where
  "test_openai_decodes_final_chunk_with_usage \<longleftrightarrow>
     (case openai_feed json_text openai_decoder_new openai_test_role of (_, d1) \<Rightarrow>
      let data = to_string json_text (jobj [(''id'', String ''c1''), (''model'', String ''m''),
          (''choices'', Array [jobj [(''index'', jnum 0), (''delta'', jobj []), (''finish_reason'', String ''stop'')]]),
          (''usage'', jobj [(''prompt_tokens'', jnum 10), (''completion_tokens'', jnum 5), (''total_tokens'', jnum 15)])]) in
      case openai_feed json_text d1 data of (events1, d2) \<Rightarrow>
      case openai_finish d2 of (events2, d3) \<Rightarrow>
      events1 = [] \<and>
         nth_is events2 0 (\<lambda>e. case e of
           MessageStop Stop (Some u) \<Rightarrow> input_tokens u = 10 \<and> output_tokens u = 5 | _ \<Rightarrow> False))"

definition test_openai_empty_stream_no_finish_event :: bool where
  "test_openai_empty_stream_no_finish_event \<longleftrightarrow> fst (openai_finish openai_decoder_new) = []"

definition test_openai_error_chunk_produces_error_event_and_no_synthetic_stop :: bool where
  "test_openai_error_chunk_produces_error_event_and_no_synthetic_stop \<longleftrightarrow>
     (case openai_feed json_text openai_decoder_new (to_string json_text
          (jobj [(''error'', jobj [(''message'', String ''boom''), (''type'', String ''server_error'')])])) of (events, d1) \<Rightarrow>
      nth_is events 0 (\<lambda>e. case e of
           Error err \<Rightarrow> str_contains (error_to_string err) ''boom'' | _ \<Rightarrow> False) \<and>
         nth_is events 0 (\<lambda>e. \<not> is_message_start e) \<and>
         fst (openai_finish d1) = [])"

definition test_openai_finish_is_idempotent :: bool where
  "test_openai_finish_is_idempotent \<longleftrightarrow>
     (case openai_feed json_text openai_decoder_new openai_test_role of (_, d1) \<Rightarrow>
      case openai_finish d1 of (events1, d2) \<Rightarrow>
      case openai_finish d2 of (events2, d3) \<Rightarrow>
      nth_is events1 0 is_message_stop \<and> events2 = [])"

definition test_openai_encodes_neutral_events_to_chunks :: bool where
  "test_openai_encodes_neutral_events_to_chunks \<longleftrightarrow>
     (case openai_encode json_text (openai_encoder_new 0) (MessageStart ''c1'' ''m'' None) of (lines1, e1) \<Rightarrow>
      case openai_encode json_text e1 (TextDelta ''hi'') of (lines2, e2) \<Rightarrow>
      case openai_encode json_text e2 (ReasoningDelta ''r'') of (lines3, e3) \<Rightarrow>
      case openai_encode json_text e3
          (MessageStop Stop (Some \<lparr>input_tokens = 1, output_tokens = 2\<rparr>)) of (lines4, e4) \<Rightarrow>
      let delta = (\<lambda>v. at (item (at v ''choices'') 0) ''delta'') in
      nth_is lines1 0 (prefix ''data: '') \<and>
         frame_json lines1 (\<lambda>v. at (delta v) ''role'' = String ''assistant'') \<and>
         frame_json lines2 (\<lambda>v. at (delta v) ''content'' = String ''hi'') \<and>
         frame_json lines3 (\<lambda>v. at (delta v) ''reasoning_content'' = String ''r'') \<and>
         frame_json lines4 (\<lambda>v. at (item (at v ''choices'') 0) ''finish_reason'' = String ''stop'' \<and>
           at (at v ''usage'') ''completion_tokens'' = jnum 2) \<and>
         openai_done e4 = ''data: [DONE]'' @ newline @ newline)"

definition test_openai_encodes_tool_call_variants :: bool where
  "test_openai_encodes_tool_call_variants \<longleftrightarrow>
     (case openai_encode json_text (openai_encoder_new 0)
          (ToolCallDelta 0 ''call_1'' ''f'' ''{\"a\":'') of (lines1, e1) \<Rightarrow>
      case openai_encode json_text e1 (ToolCallDelta 0 [] [] ''1}'') of (lines2, e2) \<Rightarrow>
      let call = (\<lambda>v. item (at (at (item (at v ''choices'') 0) ''delta'') ''tool_calls'') 0) in
      frame_json lines1 (\<lambda>v. at (call v) ''id'' = String ''call_1'') \<and>
         frame_json lines2 (\<lambda>v. value_get (call v) ''id'' = None \<and>
           at (at (call v) ''function'') ''arguments'' = String ''1}''))"

text \<open>Every stream test passes on the model.\<close>

lemma openai_stream_tests_1:
  "test_openai_decodes_text_and_reasoning_chunks"
  "test_openai_decodes_tool_call_fragments"
  "test_openai_decodes_final_chunk_with_usage"
  by code_simp+

lemma openai_stream_tests_2:
  "test_openai_empty_stream_no_finish_event"
  "test_openai_error_chunk_produces_error_event_and_no_synthetic_stop"
  "test_openai_finish_is_idempotent"
  by code_simp+

lemma openai_stream_tests_3:
  "test_openai_encodes_neutral_events_to_chunks"
  "test_openai_encodes_tool_call_variants"
  by code_simp+

end
