(* ===== verification/Tests_Anthropic.thy ===== *)
theory Tests_Anthropic
  imports TestSupport Anthropic_Stream
begin

text \<open>
  The unit tests of the Anthropic adapter (\<open>src/adapters/anthropic/convert.rs\<close> and
  \<open>src/adapters/anthropic/stream.rs\<close>), run on the model.
\<close>

section \<open>Conversion\<close>

definition test_anthropic_empty_response_serializes_content_as_array :: bool where
  "test_anthropic_empty_response_serializes_content_as_array \<longleftrightarrow>
     (let resp = \<lparr>resp_id = ''r1'', resp_model = ''m'', resp_content = [],
            resp_finish_reason = Stop, resp_usage = None\<rparr>
      in unwrapped (anthropic_serialize_response json_text resp) (\<lambda>out. reads_json out (\<lambda>v.
           at v ''content'' = Array [])))"

definition test_anthropic_redacted_thinking_round_trips_verbatim :: bool where
  "test_anthropic_redacted_thinking_round_trips_verbatim \<longleftrightarrow> unwrapped (anthropic_parse_response json_text
     ''{
            \"id\": \"msg_1\", \"type\": \"message\", \"role\": \"assistant\", \"model\": \"claude\",
            \"content\": [{\"type\": \"redacted_thinking\", \"data\": \"Zm9vYmFy\"}],
            \"stop_reason\": \"end_turn\", \"stop_sequence\": null,
            \"usage\": {\"input_tokens\": 5, \"output_tokens\": 3}
        }'')
     (\<lambda>resp. nth_is (resp_content resp) 0 (\<lambda>b. case b of
          RedactedThinking data \<Rightarrow> data = ''Zm9vYmFy'' | _ \<Rightarrow> False) \<and>
        unwrapped (anthropic_serialize_response json_text resp) (\<lambda>out. reads_json out (\<lambda>v.
          at (item (at v ''content'') 0) ''type'' = String ''redacted_thinking'' \<and>
          at (item (at v ''content'') 0) ''data'' = String ''Zm9vYmFy'')))"

definition test_anthropic_mixed_user_message_with_tool_result_splits :: bool where
  "test_anthropic_mixed_user_message_with_tool_result_splits \<longleftrightarrow> unwrapped (anthropic_parse_request json_text
     ''{
            \"model\": \"claude\",
            \"messages\": [
                {\"role\": \"assistant\", \"content\": [
                    {\"type\": \"tool_use\", \"id\": \"tu_1\", \"name\": \"get_weather\", \"input\": {\"city\": \"paris\"}}
                ]},
                {\"role\": \"user\", \"content\": [
                    {\"type\": \"text\", \"text\": \"thanks!\"},
                    {\"type\": \"tool_result\", \"tool_use_id\": \"tu_1\", \"content\": \"22c\"}
                ]}
            ]
        }'')
     (\<lambda>req. length (req_messages req) = 3 \<and>
        nth_is (req_messages req) 1 (\<lambda>m. msg_role m = Tool \<and> nth_is (msg_content m) 0 is_tool_result) \<and>
        nth_is (req_messages req) 2 (\<lambda>m. msg_role m = User \<and>
          nth_is (msg_content m) 0 (\<lambda>b. case b of Text t \<Rightarrow> t = ''thanks!'' | _ \<Rightarrow> False)) \<and>
        unwrapped (anthropic_serialize_request json_text req) (\<lambda>out. reads_json out (\<lambda>v.
          let msgs = at v ''messages'' in
          map_option length (as_array msgs) = Some 3 \<and>
          at (item msgs 1) ''role'' = String ''user'' \<and>
          at (item (at (item msgs 1) ''content'') 0) ''type'' = String ''tool_result'' \<and>
          at (item (at (item msgs 1) ''content'') 0) ''content'' = String ''22c'' \<and>
          at (item msgs 2) ''role'' = String ''user'' \<and>
          at (item msgs 2) ''content'' = String ''thanks!'')))"

definition test_anthropic_response_with_image_serializes_as_image_block :: bool where
  "test_anthropic_response_with_image_serializes_as_image_block \<longleftrightarrow>
     (let resp = \<lparr>resp_id = ''r1'', resp_model = ''claude'',
            resp_content = [Text ''here is the badge:'', Image ''image/png'' ''AAAA''],
            resp_finish_reason = Stop, resp_usage = None\<rparr>
      in unwrapped (anthropic_serialize_response json_text resp) (\<lambda>out. reads_json out (\<lambda>v.
           at (item (at v ''content'') 0) ''type'' = String ''text'' \<and>
           at (item (at v ''content'') 1) ''type'' = String ''image'' \<and>
           at (at (item (at v ''content'') 1) ''source'') ''data'' = String ''AAAA'')))"

definition test_anthropic_parses_basic_request :: bool where
  "test_anthropic_parses_basic_request \<longleftrightarrow> unwrapped (anthropic_parse_request json_text
     ''{
            \"model\": \"claude-3-5-sonnet\",
            \"system\": \"be concise\",
            \"messages\": [
                {\"role\": \"user\", \"content\": \"hello\"},
                {\"role\": \"assistant\", \"content\": [{\"type\": \"text\", \"text\": \"hi\"}]}
            ],
            \"max_tokens\": 256,
            \"temperature\": 0.5,
            \"stop_sequences\": [\"END\"],
            \"stream\": false
        }'')
     (\<lambda>req. req_model req = ''claude-3-5-sonnet'' \<and> length (req_messages req) = 3 \<and>
        nth_is (req_messages req) 0 (\<lambda>m. msg_role m = System \<and>
          nth_is (msg_content m) 0 (\<lambda>b. b = Text ''be concise'')) \<and>
        nth_is (req_messages req) 2 (\<lambda>m. nth_is (msg_content m) 0 (\<lambda>b. b = Text ''hi'')) \<and>
        req_max_tokens req = Some 256 \<and>
        req_temperature req = f64_of_dec False 5 (- 1) \<and>
        req_stop req = Some [''END''])"

definition test_anthropic_parses_system_array :: bool where
  "test_anthropic_parses_system_array \<longleftrightarrow> unwrapped (anthropic_parse_request json_text
     ''{
            \"model\": \"m\",
            \"system\": [{\"type\": \"text\", \"text\": \"a\"}, {\"type\": \"text\", \"text\": \"b\"}],
            \"messages\": [{\"role\": \"user\", \"content\": \"x\"}]
        }'')
     (\<lambda>req. nth_is (req_messages req) 0 (\<lambda>m. msg_role m = System \<and> length (msg_content m) = 2))"

definition test_anthropic_parses_content_blocks :: bool where
  "test_anthropic_parses_content_blocks \<longleftrightarrow> unwrapped (anthropic_parse_request json_text
     ''{
            \"model\": \"m\",
            \"messages\": [{\"role\": \"user\", \"content\": [
                {\"type\": \"text\", \"text\": \"what\"},
                {\"type\": \"image\", \"source\": {\"type\": \"base64\", \"media_type\": \"image/png\", \"data\": \"QUFB\"}},
                {\"type\": \"image\", \"source\": {\"type\": \"url\", \"url\": \"https://ex.com/i.png\"}}
            ]}]
        }'')
     (\<lambda>req. nth_is (req_messages req) 0 (\<lambda>m. length (msg_content m) = 3 \<and>
        nth_is (msg_content m) 1 (\<lambda>b. b = Image ''image/png'' ''QUFB'') \<and>
        nth_is (msg_content m) 2 (\<lambda>b. b = Image ''url'' ''https://ex.com/i.png'')))"

definition test_anthropic_parses_thinking_and_tools :: bool where
  "test_anthropic_parses_thinking_and_tools \<longleftrightarrow> unwrapped (anthropic_parse_request json_text
     ''{
            \"model\": \"m\",
            \"messages\": [
                {\"role\": \"assistant\", \"content\": [
                    {\"type\": \"thinking\", \"thinking\": \"hmm\", \"signature\": \"sig-1\"},
                    {\"type\": \"tool_use\", \"id\": \"tu_1\", \"name\": \"get_weather\", \"input\": {\"city\": \"paris\"}}
                ]},
                {\"role\": \"user\", \"content\": [{\"type\": \"tool_result\", \"tool_use_id\": \"tu_1\", \"content\": \"22c\", \"is_error\": false}]}
            ],
            \"tools\": [{\"name\": \"get_weather\", \"description\": \"w\", \"input_schema\": {\"type\": \"object\"}}]
        }'')
     (\<lambda>req.
        nth_is (req_messages req) 0 (\<lambda>assistant.
          nth_is (msg_content assistant) 0 (\<lambda>b. b = Thinking ''hmm'' (Some ''sig-1'')) \<and>
          nth_is (msg_content assistant) 1 (\<lambda>b. case b of
             ToolUse i n input \<Rightarrow> i = ''tu_1'' \<and> n = ''get_weather'' \<and> at input ''city'' = String ''paris''
           | _ \<Rightarrow> False)) \<and>
        nth_is (req_messages req) 1 (\<lambda>tool. msg_role tool = Tool \<and>
          nth_is (msg_content tool) 0 (\<lambda>b. b = ToolResult ''tu_1'' ''22c'' False)) \<and>
        length (req_tools req) = 1 \<and>
        nth_is (req_tools req) 0 (\<lambda>t. nt_name t = ''get_weather'' \<and>
          at (nt_parameters t) ''type'' = String ''object''))"

definition test_anthropic_serializes_tool_results_as_user_messages :: bool where
  "test_anthropic_serializes_tool_results_as_user_messages \<longleftrightarrow>
     (let req = (new_request ''claude''
            [\<lparr>msg_role = System, msg_content = [Text ''sys'']\<rparr>,
             \<lparr>msg_role = Tool, msg_content = [ToolResult ''tu_9'' ''ok'' True]\<rparr>])
            \<lparr>req_tools := [\<lparr>nt_name = ''f'', nt_description = None,
                             nt_parameters = jobj [(''type'', String ''object'')]\<rparr>]\<rparr>
      in unwrapped (anthropic_serialize_request json_text req) (\<lambda>out. reads_json out (\<lambda>v.
           let first = item (at v ''messages'') 0; block = item (at first ''content'') 0 in
           at v ''system'' = String ''sys'' \<and>
           at first ''role'' = String ''user'' \<and>
           at block ''type'' = String ''tool_result'' \<and>
           at block ''tool_use_id'' = String ''tu_9'' \<and>
           at block ''is_error'' = Bool True \<and>
           at (at (item (at v ''tools'') 0) ''input_schema'') ''type'' = String ''object'' \<and>
           at v ''max_tokens'' = jnum 1024)))"

definition test_anthropic_serializes_user_message_with_single_text_as_string :: bool where
  "test_anthropic_serializes_user_message_with_single_text_as_string \<longleftrightarrow>
     (let req = new_request ''m'' [\<lparr>msg_role = User, msg_content = [Text ''hi'']\<rparr>]
      in unwrapped (anthropic_serialize_request json_text req) (\<lambda>out. reads_json out (\<lambda>v.
           at (item (at v ''messages'') 0) ''content'' = String ''hi'')))"

definition test_anthropic_parses_response :: bool where
  "test_anthropic_parses_response \<longleftrightarrow> unwrapped (anthropic_parse_response json_text
     ''{
            \"id\": \"msg_01\",
            \"type\": \"message\",
            \"role\": \"assistant\",
            \"model\": \"claude-3-5-sonnet\",
            \"content\": [
                {\"type\": \"thinking\", \"thinking\": \"think\"},
                {\"type\": \"text\", \"text\": \"answer\"},
                {\"type\": \"tool_use\", \"id\": \"tu_2\", \"name\": \"f\", \"input\": {}}
            ],
            \"stop_reason\": \"tool_use\",
            \"usage\": {\"input_tokens\": 10, \"output_tokens\": 5}
        }'')
     (\<lambda>resp. resp_id resp = ''msg_01'' \<and> resp_finish_reason resp = ToolCalls \<and>
        nth_is (resp_content resp) 0 (\<lambda>b. case b of Thinking _ _ \<Rightarrow> True | _ \<Rightarrow> False) \<and>
        nth_is (resp_content resp) 1 (\<lambda>b. case b of Text _ \<Rightarrow> True | _ \<Rightarrow> False) \<and>
        nth_is (resp_content resp) 2 (\<lambda>b. case b of ToolUse _ _ _ \<Rightarrow> True | _ \<Rightarrow> False) \<and>
        resp_usage resp = Some \<lparr>input_tokens = 10, output_tokens = 5\<rparr>)"

definition test_anthropic_parse_response_stop_reason_mapping :: bool where
  "test_anthropic_parse_response_stop_reason_mapping \<longleftrightarrow> unwrapped (anthropic_parse_response json_text
     ''{\"id\":\"m\",\"type\":\"message\",\"role\":\"assistant\",\"model\":\"m\",\"content\":[],\"stop_reason\":\"max_tokens\",\"usage\":{\"input_tokens\":1,\"output_tokens\":1}}'')
     (\<lambda>resp. resp_finish_reason resp = Length)"

definition test_anthropic_serialize_response_round_trips :: bool where
  "test_anthropic_serialize_response_round_trips \<longleftrightarrow>
     (let resp = \<lparr>resp_id = ''msg_x'', resp_model = ''claude'',
            resp_content = [Thinking ''hmm'' (Some ''sig''), Text ''answer'',
              ToolUse ''tu_1'' ''f'' (jobj [(''a'', jnum 1)])],
            resp_finish_reason = Stop, resp_usage = Some \<lparr>input_tokens = 3, output_tokens = 7\<rparr>\<rparr>
      in unwrapped (anthropic_serialize_response json_text resp) (\<lambda>out.
           reads_json out (\<lambda>v.
             let block = item (at v ''content'') in
             at (block 0) ''type'' = String ''thinking'' \<and>
             at (block 0) ''signature'' = String ''sig'' \<and>
             at (block 1) ''text'' = String ''answer'' \<and>
             at (block 2) ''type'' = String ''tool_use'' \<and>
             at v ''stop_reason'' = String ''end_turn'' \<and>
             at (at v ''usage'') ''input_tokens'' = jnum 3) \<and>
           unwrapped (anthropic_parse_response json_text out) (\<lambda>parsed.
             resp_content parsed = resp_content resp \<and> resp_finish_reason parsed = Stop)))"

definition test_anthropic_errors_map_to_anthropic_shape :: bool where
  "test_anthropic_errors_map_to_anthropic_shape \<longleftrightarrow>
     (case anthropic_serialize_error json_text Overloaded of
        (status, body) \<Rightarrow> status = 529 \<and> reads_json body (\<lambda>v.
          at v ''type'' = String ''error'' \<and>
          at (at v ''error'') ''type'' = String ''overloaded_error'' \<and>
          as_str (at (at v ''error'') ''message'') \<noteq> None))"

text \<open>Every conversion test passes on the model.\<close>

lemma anthropic_convert_tests_1:
  "test_anthropic_empty_response_serializes_content_as_array"
  "test_anthropic_redacted_thinking_round_trips_verbatim"
  "test_anthropic_mixed_user_message_with_tool_result_splits"
  by code_simp+

lemma anthropic_convert_tests_2:
  "test_anthropic_response_with_image_serializes_as_image_block"
  "test_anthropic_parses_basic_request"
  "test_anthropic_parses_system_array"
  by code_simp+

lemma anthropic_convert_tests_3:
  "test_anthropic_parses_content_blocks"
  "test_anthropic_parses_thinking_and_tools"
  "test_anthropic_serializes_tool_results_as_user_messages"
  by code_simp+

lemma anthropic_convert_tests_4:
  "test_anthropic_serializes_user_message_with_single_text_as_string"
  "test_anthropic_parses_response"
  "test_anthropic_parse_response_stop_reason_mapping"
  by code_simp+

lemma anthropic_convert_tests_5:
  "test_anthropic_serialize_response_round_trips"
  "test_anthropic_errors_map_to_anthropic_shape"
  by code_simp+

section \<open>Streams\<close>

definition anthropic_test_event :: "string \<Rightarrow> value \<Rightarrow> string" where
  "anthropic_test_event name payload = to_string json_text payload"

definition test_anthropic_error_chunk_suppresses_synthetic_stop :: bool where
  "test_anthropic_error_chunk_suppresses_synthetic_stop \<longleftrightarrow>
     (case anthropic_feed json_text anthropic_decoder_new (anthropic_test_event ''message_start''
          (jobj [(''type'', String ''message_start''),
             (''message'', jobj [(''id'', String ''msg_1''), (''model'', String ''claude''),
                (''usage'', jobj [(''input_tokens'', jnum 5), (''output_tokens'', jnum 0)])])])) of (_, d1) \<Rightarrow>
      case anthropic_feed json_text d1 (anthropic_test_event ''error''
          (jobj [(''type'', String ''error''),
             (''error'', jobj [(''type'', String ''api_error''), (''message'', String ''boom'')])])) of (events, d2) \<Rightarrow>
      nth_is events 0 (\<lambda>e. case e of
           Error err \<Rightarrow> str_contains (error_to_string err) ''boom'' | _ \<Rightarrow> False) \<and>
         fst (anthropic_finish d2) = [])"

definition test_anthropic_message_start_carries_input_tokens :: bool where
  "test_anthropic_message_start_carries_input_tokens \<longleftrightarrow>
     (case anthropic_feed json_text anthropic_decoder_new (anthropic_test_event ''message_start''
          (jobj [(''type'', String ''message_start''),
             (''message'', jobj [(''id'', String ''msg_1''), (''model'', String ''claude''),
                (''usage'', jobj [(''input_tokens'', jnum 42), (''output_tokens'', jnum 0)])])])) of (events, d1) \<Rightarrow>
      nth_is events 0 (\<lambda>e. case e of
           MessageStart _ _ usage \<Rightarrow> map_option input_tokens usage = Some 42 | _ \<Rightarrow> False) \<and>
         nth_is events 0 (\<lambda>e. nth_is (fst (anthropic_encode json_text anthropic_encoder_new e)) 0
           (\<lambda>l. str_contains l ''\"input_tokens\":42'')))"

definition test_anthropic_signature_delta_round_trips_through_encoder :: bool where
  "test_anthropic_signature_delta_round_trips_through_encoder \<longleftrightarrow>
     (case anthropic_feed json_text anthropic_decoder_new
          (anthropic_test_event ''content_block_delta''
            (jobj [(''type'', String ''content_block_delta''), (''index'', jnum 0),
               (''delta'', jobj [(''type'', String ''signature_delta''), (''signature'', String ''sig-abc-123'')])])) of (events, _) \<Rightarrow>
      case anthropic_encode json_text anthropic_encoder_new (MessageStart ''m1'' ''claude'' None) of (_, e1) \<Rightarrow>
      case anthropic_encode json_text e1 (ReasoningDelta ''hmm'') of (_, e2) \<Rightarrow>
      case anthropic_encode json_text e2 (ReasoningSignature ''sig-abc-123'') of (_, e3) \<Rightarrow>
      case anthropic_encode json_text e3 (TextDelta ''answer'') of (lines, _) \<Rightarrow>
      events = [ReasoningSignature ''sig-abc-123''] \<and>
         str_contains (concat lines) ''\"signature\":\"sig-abc-123\"'')"

definition test_anthropic_id_less_first_tool_fragment_still_opens_block :: bool where
  "test_anthropic_id_less_first_tool_fragment_still_opens_block \<longleftrightarrow>
     (case anthropic_encode json_text anthropic_encoder_new (MessageStart ''m1'' ''claude'' None) of (_, e1) \<Rightarrow>
      case anthropic_encode json_text e1 (ToolCallDelta 0 [] [] ''{\"city\": \"paris\"}'') of (lines, _) \<Rightarrow>
      let joined = join newline lines in
      str_contains joined ''content_block_start'' \<and> str_contains joined ''input_json_delta'')"

definition test_anthropic_reused_tool_index_reopens_a_fresh_block :: bool where
  "test_anthropic_reused_tool_index_reopens_a_fresh_block \<longleftrightarrow>
     (case anthropic_encode json_text anthropic_encoder_new (MessageStart ''m1'' ''claude'' None) of (_, e1) \<Rightarrow>
      case anthropic_encode json_text e1 (ToolCallDelta 0 ''call_1'' ''f'' ''{\"a\":1}'') of (_, e2) \<Rightarrow>
      case anthropic_encode json_text e2 (MessageStop ToolCalls None) of (_, e3) \<Rightarrow>
      case anthropic_encode json_text e3 (ToolCallDelta 0 ''call_2'' ''g'' ''{\"b\":2}'') of (second, _) \<Rightarrow>
      let joined = join newline second in
      str_contains joined ''content_block_start'' \<and> str_contains joined ''\"id\":\"call_2\"'')"

definition test_anthropic_decodes_anthropic_stream_sequence :: bool where
  "test_anthropic_decodes_anthropic_stream_sequence \<longleftrightarrow>
     (case anthropic_feed json_text anthropic_decoder_new (anthropic_test_event ''message_start''
          (jobj [(''type'', String ''message_start''),
             (''message'', jobj [(''id'', String ''msg_1''), (''type'', String ''message''),
                (''role'', String ''assistant''), (''model'', String ''claude''), (''content'', Array []),
                (''stop_reason'', Null), (''stop_sequence'', Null),
                (''usage'', jobj [(''input_tokens'', jnum 5), (''output_tokens'', jnum 0)])])])) of (events1, d1) \<Rightarrow>
      case anthropic_feed json_text d1 (anthropic_test_event ''content_block_start''
          (jobj [(''type'', String ''content_block_start''), (''index'', jnum 0),
             (''content_block'', jobj [(''type'', String ''thinking''), (''thinking'', String [])])])) of (events2, d2) \<Rightarrow>
      case anthropic_feed json_text d2 (anthropic_test_event ''content_block_delta''
          (jobj [(''type'', String ''content_block_delta''), (''index'', jnum 0),
             (''delta'', jobj [(''type'', String ''thinking_delta''), (''thinking'', String ''hmm'')])])) of (events3, d3) \<Rightarrow>
      case anthropic_feed json_text d3 (anthropic_test_event ''content_block_delta''
          (jobj [(''type'', String ''content_block_delta''), (''index'', jnum 1),
             (''delta'', jobj [(''type'', String ''text_delta''), (''text'', String ''answer'')])])) of (events4, d4) \<Rightarrow>
      case anthropic_feed json_text d4 (anthropic_test_event ''message_delta''
          (jobj [(''type'', String ''message_delta''),
             (''delta'', jobj [(''stop_reason'', String ''end_turn'')]),
             (''usage'', jobj [(''output_tokens'', jnum 7)])])) of (events5, d5) \<Rightarrow>
      case anthropic_feed json_text d5 (anthropic_test_event ''message_stop''
          (jobj [(''type'', String ''message_stop'')])) of (events6, d6) \<Rightarrow>
      nth_is events1 0 (\<lambda>e. case e of MessageStart i m _ \<Rightarrow> i = ''msg_1'' \<and> m = ''claude'' | _ \<Rightarrow> False) \<and>
         events2 = [] \<and>
         events3 = [ReasoningDelta ''hmm''] \<and>
         events4 = [TextDelta ''answer''] \<and>
         events5 = [] \<and>
         nth_is events6 0 (\<lambda>e. case e of
           MessageStop Stop (Some u) \<Rightarrow> input_tokens u = 5 \<and> output_tokens u = 7 | _ \<Rightarrow> False) \<and>
         fst (anthropic_finish d6) = [])"

definition test_anthropic_decodes_tool_use_blocks :: bool where
  "test_anthropic_decodes_tool_use_blocks \<longleftrightarrow>
     (case anthropic_feed json_text anthropic_decoder_new (anthropic_test_event ''message_start''
          (jobj [(''type'', String ''message_start''),
             (''message'', jobj [(''id'', String ''m''), (''model'', String ''claude''),
                (''usage'', jobj [(''input_tokens'', jnum 1), (''output_tokens'', jnum 0)])])])) of (_, d1) \<Rightarrow>
      case anthropic_feed json_text d1 (anthropic_test_event ''content_block_start''
          (jobj [(''type'', String ''content_block_start''), (''index'', jnum 0),
             (''content_block'', jobj [(''type'', String ''tool_use''), (''id'', String ''tu_1''),
                (''name'', String ''get_weather''), (''input'', jobj [])])])) of (events1, d2) \<Rightarrow>
      case anthropic_feed json_text d2 (anthropic_test_event ''content_block_delta''
          (jobj [(''type'', String ''content_block_delta''), (''index'', jnum 0),
             (''delta'', jobj [(''type'', String ''input_json_delta''),
                (''partial_json'', String ''{\"city\":\"paris\"}'')])])) of (events2, d3) \<Rightarrow>
      nth_is events1 0 (\<lambda>e. case e of
           ToolCallDelta i c n _ \<Rightarrow> i = 0 \<and> c = ''tu_1'' \<and> n = ''get_weather'' | _ \<Rightarrow> False) \<and>
         nth_is events2 0 (\<lambda>e. case e of
           ToolCallDelta i _ _ a \<Rightarrow> i = 0 \<and> a = ''{\"city\":\"paris\"}'' | _ \<Rightarrow> False))"

definition test_anthropic_decodes_ping_and_error :: bool where
  "test_anthropic_decodes_ping_and_error \<longleftrightarrow>
     (case anthropic_feed json_text anthropic_decoder_new
          (anthropic_test_event ''ping'' (jobj [(''type'', String ''ping'')])) of (events1, d1) \<Rightarrow>
      case anthropic_feed json_text d1 (anthropic_test_event ''error''
          (jobj [(''type'', String ''error''),
             (''error'', jobj [(''type'', String ''overloaded_error''), (''message'', String ''busy'')])])) of (events2, _) \<Rightarrow>
      events1 = [] \<and>
         nth_is events2 0 (\<lambda>e. case e of
           Error err \<Rightarrow> str_contains (error_to_string err) ''busy'' | _ \<Rightarrow> False))"

definition test_anthropic_finish_emits_stop_without_message_stop :: bool where
  "test_anthropic_finish_emits_stop_without_message_stop \<longleftrightarrow>
     (case anthropic_feed json_text anthropic_decoder_new (anthropic_test_event ''message_start''
          (jobj [(''type'', String ''message_start''),
             (''message'', jobj [(''id'', String ''m''), (''model'', String ''claude'')])])) of (_, d1) \<Rightarrow>
      case anthropic_feed json_text d1 (anthropic_test_event ''content_block_delta''
          (jobj [(''type'', String ''content_block_delta''), (''index'', jnum 0),
             (''delta'', jobj [(''type'', String ''text_delta''), (''text'', String ''partial'')])])) of (_, d2) \<Rightarrow>
      nth_is (fst (anthropic_finish d2)) 0 is_message_stop)"

text \<open>The lines of the five events of the next test, and its assertions on the joined lines in three groups.\<close>

definition switching_lines :: "string list" where
  "switching_lines =
     (case anthropic_encode json_text anthropic_encoder_new (MessageStart ''msg_1'' ''claude'' None) of (lines1, e1) \<Rightarrow>
      case anthropic_encode json_text e1 (ReasoningDelta ''think'') of (lines2, e2) \<Rightarrow>
      case anthropic_encode json_text e2 (ReasoningDelta '' more'') of (lines3, e3) \<Rightarrow>
      case anthropic_encode json_text e3 (TextDelta ''answer'') of (lines4, e4) \<Rightarrow>
      case anthropic_encode json_text e4 (MessageStop Stop None) of (lines5, _) \<Rightarrow>
      lines1 @ lines2 @ lines3 @ lines4 @ lines5)"

definition switching_opens :: "string \<Rightarrow> bool" where
  "switching_opens joined \<longleftrightarrow>
     str_contains joined ''content_block_start'' \<and>
     str_contains joined ''\"type\":\"thinking\"'' \<and>
     (case str_find joined ''content_block_start'' of
        None \<Rightarrow> False
      | Some start \<Rightarrow>
          let window = drop start joined;
              thinking_block = (case str_find window ''content_block_stop'' of
                  None \<Rightarrow> window | Some window_end \<Rightarrow> take window_end window)
          in str_contains thinking_block ''\"thinking\"'' \<and> \<not> str_contains thinking_block ''\"text\"'')"

definition switching_ends :: "string \<Rightarrow> bool" where
  "switching_ends joined \<longleftrightarrow>
     \<not> str_contains joined ''signature_delta'' \<and>
     str_contains joined ''\"type\":\"text_delta\"'' \<and>
     str_contains joined ''message_delta'' \<and>
     str_contains joined ''\"stop_reason\":\"end_turn\"'' \<and>
     str_contains joined ''message_stop''"

definition switching_in_order :: "string \<Rightarrow> bool" where
  "switching_in_order joined \<longleftrightarrow>
     (case str_find joined ''content_block_stop'' of
        None \<Rightarrow> False
      | Some first_stop \<Rightarrow>
          (case str_rfind joined ''content_block_start'' of
             None \<Rightarrow> False
           | Some text_start \<Rightarrow> first_stop < text_start))"

definition test_anthropic_encodes_sequence_with_block_switching :: bool where
  "test_anthropic_encodes_sequence_with_block_switching \<longleftrightarrow>
     nth_is (fst (anthropic_encode json_text anthropic_encoder_new (MessageStart ''msg_1'' ''claude'' None))) 0
       (\<lambda>l. str_contains l ''event: message_start'') \<and>
     switching_opens (concat switching_lines) \<and> switching_ends (concat switching_lines) \<and>
     switching_in_order (concat switching_lines)"

definition test_anthropic_encodes_tool_use_and_arguments :: bool where
  "test_anthropic_encodes_tool_use_and_arguments \<longleftrightarrow>
     (case anthropic_encode json_text anthropic_encoder_new (MessageStart ''m'' ''c'' None) of (lines1, e1) \<Rightarrow>
      case anthropic_encode json_text e1 (ToolCallDelta 0 ''tu_1'' ''f'' []) of (lines2, e2) \<Rightarrow>
      case anthropic_encode json_text e2 (ToolCallDelta 0 [] [] ''{\"a\":1}'') of (lines3, e3) \<Rightarrow>
      case anthropic_encode json_text e3 (MessageStop ToolCalls None) of (lines4, _) \<Rightarrow>
      let joined = concat (lines1 @ lines2 @ lines3 @ lines4) in
      str_contains joined ''\"type\":\"tool_use\"'' \<and>
         str_contains joined ''\"id\":\"tu_1\"'' \<and>
         str_contains joined ''input_json_delta'' \<and>
         str_contains joined ''\"stop_reason\":\"tool_use\"'')"

definition test_anthropic_done_is_empty :: bool where
  "test_anthropic_done_is_empty \<longleftrightarrow> anthropic_done anthropic_encoder_new = []"

text \<open>Every stream test passes on the model.\<close>

lemma anthropic_stream_tests_1:
  "test_anthropic_error_chunk_suppresses_synthetic_stop"
  "test_anthropic_message_start_carries_input_tokens"
  "test_anthropic_signature_delta_round_trips_through_encoder"
  by code_simp+

lemma anthropic_stream_tests_2:
  "test_anthropic_id_less_first_tool_fragment_still_opens_block"
  "test_anthropic_reused_tool_index_reopens_a_fresh_block"
  "test_anthropic_decodes_anthropic_stream_sequence"
  by code_simp+

lemma anthropic_stream_tests_3:
  "test_anthropic_decodes_tool_use_blocks"
  "test_anthropic_decodes_ping_and_error"
  "test_anthropic_finish_emits_stop_without_message_stop"
  by code_simp+

lemma anthropic_stream_tests_4:
  "test_anthropic_encodes_tool_use_and_arguments"
  "test_anthropic_done_is_empty"
  by code_simp+

lemma switching_opens: "switching_opens (concat switching_lines)"
  by code_simp

lemma switching_ends: "switching_ends (concat switching_lines)"
  by code_simp

lemma switching_in_order: "switching_in_order (concat switching_lines)"
  by code_simp

lemma switching_starts:
  "nth_is (fst (anthropic_encode json_text anthropic_encoder_new (MessageStart ''msg_1'' ''claude'' None))) 0
     (\<lambda>l. str_contains l ''event: message_start'')"
  by code_simp

lemma anthropic_stream_tests_5: "test_anthropic_encodes_sequence_with_block_switching"
  by (simp only: test_anthropic_encodes_sequence_with_block_switching_def switching_opens switching_ends
    switching_in_order switching_starts simp_thms)

end
