(* ===== verification/Tests_Gemini.thy ===== *)
theory Tests_Gemini
  imports TestSupport Gemini_Stream
begin

text \<open>
  The unit tests of the Gemini adapter (\<open>src/adapters/gemini/mod.rs\<close>,
  \<open>src/adapters/gemini/convert.rs\<close> and \<open>src/adapters/gemini/stream.rs\<close>), run on the model.
  \<open>quote\<close> stands for the debug text of a model name in an error, which no test reads.
\<close>

section \<open>URLs\<close>

definition gemini_test_url :: "string \<Rightarrow> string \<Rightarrow> string result" where
  "gemini_test_url = gemini_conversation_url quote"

definition gemini_test_rejects :: "string \<Rightarrow> bool" where
  "gemini_test_rejects model = unwrapped_err (gemini_test_url ''https://api.example.com'' model) (\<lambda>_. True)"

definition test_gemini_rejects_query_injection_in_model :: bool where
  "test_gemini_rejects_query_injection_in_model \<longleftrightarrow>
     gemini_test_rejects ''gpt-4?x=1'' \<and> gemini_test_rejects ''gpt-4#frag'' \<and> gemini_test_rejects ''a&b=1''"

definition test_gemini_rejects_path_traversal_in_model :: bool where
  "test_gemini_rejects_path_traversal_in_model \<longleftrightarrow>
     gemini_test_rejects ''../v1beta'' \<and> gemini_test_rejects ''a/../b'' \<and>
     gemini_test_rejects ''..'' \<and> gemini_test_rejects ''.''"

definition test_gemini_rejects_empty_and_whitespace_models :: bool where
  "test_gemini_rejects_empty_and_whitespace_models \<longleftrightarrow>
     gemini_test_rejects [] \<and> gemini_test_rejects ''gemini 2.5'' \<and> gemini_test_rejects ''gemini%2Dflash''"

definition test_gemini_accepts_normal_model_ids :: bool where
  "test_gemini_accepts_normal_model_ids \<longleftrightarrow>
     gemini_test_url ''https://generativelanguage.googleapis.com'' ''gemini-2.5-flash'' =
       Inr ''https://generativelanguage.googleapis.com/v1beta/models/gemini-2.5-flash:generateContent''"

definition test_gemini_accepts_prefixed_model_ids :: bool where
  "test_gemini_accepts_prefixed_model_ids \<longleftrightarrow>
     gemini_test_url ''https://api.example.com'' ''models/gemini-2.5-flash'' =
       Inr ''https://api.example.com/v1beta/models/gemini-2.5-flash:generateContent'' \<and>
     gemini_test_url ''https://api.example.com'' ''tunedModels/my-tuned'' =
       Inr ''https://api.example.com/v1beta/tunedModels/my-tuned:generateContent''"

definition test_gemini_stream_url_switches_endpoint_and_keeps_validation :: bool where
  "test_gemini_stream_url_switches_endpoint_and_keeps_validation \<longleftrightarrow>
     gemini_stream_conversation_url quote ''https://api.example.com/'' ''gemini-2.5-pro'' =
       Inr ''https://api.example.com/v1beta/models/gemini-2.5-pro:streamGenerateContent?alt=sse'' \<and>
     unwrapped_err (gemini_stream_conversation_url quote ''https://api.example.com'' ''gemini?alt=x'') (\<lambda>_. True)"

section \<open>Conversion\<close>

definition test_gemini_parses_function_response_message_and_wrapper_round_trip :: bool where
  "test_gemini_parses_function_response_message_and_wrapper_round_trip \<longleftrightarrow>
     unwrapped (gemini_parse_request json_text
       ''{
            \"model\": \"gemini-2.5-flash\",
            \"contents\": [
                {\"role\": \"model\", \"parts\": [
                    {\"functionCall\": {\"name\": \"get_weather\", \"args\": {\"city\": \"paris\"}}}
                ]},
                {\"role\": \"user\", \"parts\": [
                    {\"text\": \"thanks!\"},
                    {\"functionResponse\": {\"name\": \"get_weather\", \"response\": \"22c\"}}
                ]}
            ]
        }'')
       (\<lambda>req. length (req_messages req) = 3 \<and>
          nth_is (req_messages req) 1 (\<lambda>m. msg_role m = Tool \<and>
            nth_is (msg_content m) 0 (\<lambda>b. case b of ToolResult _ c err \<Rightarrow> c = ''22c'' \<and> \<not> err | _ \<Rightarrow> False)) \<and>
          nth_is (req_messages req) 2 (\<lambda>m. msg_role m = User)) \<and>
     unwrapped (gemini_parse_request json_text
       ''{
            \"model\": \"gemini-2.5-flash\",
            \"contents\": [
                {\"role\": \"user\", \"parts\": [
                    {\"functionResponse\": {\"name\": \"get_weather\", \"response\": {\"result\": \"oops 500\", \"is_error\": true}}}
                ]}
            ]
        }'')
       (\<lambda>req2. nth_is (req_messages req2) 0 (\<lambda>m.
          nth_is (msg_content m) 0 (\<lambda>b. case b of ToolResult _ c err \<Rightarrow> c = ''oops 500'' \<and> err | _ \<Rightarrow> False)))"

definition test_gemini_parses_basic_request_with_system_and_generation_config :: bool where
  "test_gemini_parses_basic_request_with_system_and_generation_config \<longleftrightarrow>
     unwrapped (gemini_parse_request json_text
       ''{
            \"systemInstruction\": {\"parts\": [{\"text\": \"be concise\"}]},
            \"contents\": [
                {\"role\": \"user\", \"parts\": [{\"text\": \"hello\"}]},
                {\"role\": \"model\", \"parts\": [{\"text\": \"hi\"}]}
            ],
            \"generationConfig\": {
                \"temperature\": 0.7,
                \"topP\": 0.9,
                \"topK\": 40,
                \"maxOutputTokens\": 256,
                \"stopSequences\": [\"END\"]
            }
        }'')
       (\<lambda>req. length (req_messages req) = 3 \<and>
          nth_is (req_messages req) 0 (\<lambda>m. msg_role m = System) \<and>
          nth_is (req_messages req) 1 (\<lambda>m. msg_role m = User \<and>
            nth_is (msg_content m) 0 (\<lambda>b. b = Text ''hello'')) \<and>
          nth_is (req_messages req) 2 (\<lambda>m. msg_role m = Assistant) \<and>
          req_max_tokens req = Some 256 \<and>
          req_temperature req = f64_of_dec False 7 (- 1) \<and>
          req_top_p req = f64_of_dec False 9 (- 1) \<and>
          req_top_k req = Some 40 \<and>
          req_stop req = Some [''END''])"

definition test_gemini_parses_parts_including_thought_images_and_function_calls :: bool where
  "test_gemini_parses_parts_including_thought_images_and_function_calls \<longleftrightarrow>
     unwrapped (gemini_parse_request json_text
       ''{
            \"contents\": [{\"role\": \"model\", \"parts\": [
                {\"text\": \"thinking...\", \"thought\": true},
                {\"text\": \"answer\"},
                {\"functionCall\": {\"id\": \"c1\", \"name\": \"get_weather\", \"args\": {\"city\": \"paris\"}}}
            ]}]
        }'')
       (\<lambda>req. nth_is (req_messages req) 0 (\<lambda>m. length (msg_content m) = 3 \<and>
          nth_is (msg_content m) 0 (\<lambda>b. case b of Thinking t _ \<Rightarrow> t = ''thinking...'' | _ \<Rightarrow> False) \<and>
          nth_is (msg_content m) 1 (\<lambda>b. b = Text ''answer'') \<and>
          nth_is (msg_content m) 2 (\<lambda>b. case b of
             ToolUse i n input \<Rightarrow> i = ''c1'' \<and> n = ''get_weather'' \<and> at input ''city'' = String ''paris''
           | _ \<Rightarrow> False))) \<and>
     unwrapped (gemini_parse_request json_text
       ''{
            \"contents\": [{\"role\": \"user\", \"parts\": [
                {\"text\": \"what is this?\"},
                {\"inlineData\": {\"mimeType\": \"image/png\", \"data\": \"QUFB\"}}
            ]}]
        }'')
       (\<lambda>req. nth_is (req_messages req) 0 (\<lambda>m.
          nth_is (msg_content m) 1 (\<lambda>b. b = Image ''image/png'' ''QUFB'')))"

definition test_gemini_parses_function_response_as_tool_result :: bool where
  "test_gemini_parses_function_response_as_tool_result \<longleftrightarrow>
     unwrapped (gemini_parse_request json_text
       ''{
            \"contents\": [{\"role\": \"user\", \"parts\": [
                {\"functionResponse\": {\"id\": \"c1\", \"name\": \"get_weather\", \"response\": {\"result\": \"22c\"}}}
            ]}]
        }'')
       (\<lambda>req. nth_is (req_messages req) 0 (\<lambda>m. nth_is (msg_content m) 0 (\<lambda>b. case b of
          ToolResult i c _ \<Rightarrow> i = ''c1'' \<and> str_contains c ''22c'' | _ \<Rightarrow> False)))"

definition test_gemini_parses_tools :: bool where
  "test_gemini_parses_tools \<longleftrightarrow>
     unwrapped (gemini_parse_request json_text
       ''{
            \"tools\": [{\"functionDeclarations\": [
                {\"name\": \"get_weather\", \"description\": \"w\", \"parameters\": {\"type\": \"object\"}}
            ]}]
        }'')
       (\<lambda>req. length (req_tools req) = 1 \<and>
          nth_is (req_tools req) 0 (\<lambda>t. nt_name t = ''get_weather'' \<and>
            at (nt_parameters t) ''type'' = String ''object''))"

definition test_gemini_serialize_request_round_trips :: bool where
  "test_gemini_serialize_request_round_trips \<longleftrightarrow>
     (let req = (new_request []
            [\<lparr>msg_role = System, msg_content = [Text ''be concise'']\<rparr>,
             \<lparr>msg_role = User, msg_content = [Text ''look'', Image ''image/png'' ''QUFB'']\<rparr>,
             \<lparr>msg_role = Assistant, msg_content =
                [Thinking ''hmm'' None, ToolUse ''c1'' ''f'' (jobj [(''a'', jnum 1)])]\<rparr>])
            \<lparr>req_tools := [\<lparr>nt_name = ''f'', nt_description = Some ''d'',
                             nt_parameters = jobj [(''type'', String ''object'')]\<rparr>],
              req_max_tokens := Some 128\<rparr>
      in unwrapped (gemini_serialize_request json_text req) (\<lambda>out.
           unwrapped (gemini_parse_request json_text out) (\<lambda>parsed.
             length (req_messages parsed) = 3 \<and>
             nth_is (req_messages parsed) 0 (\<lambda>m. msg_role m = System) \<and>
             nth_is (req_messages parsed) 1 (\<lambda>m. Image ''image/png'' ''QUFB'' \<in> set (msg_content m)) \<and>
             nth_is (req_messages parsed) 2 (\<lambda>m.
               nth_is (msg_content m) 0 (\<lambda>b. case b of Thinking t _ \<Rightarrow> t = ''hmm'' | _ \<Rightarrow> False)) \<and>
             nth_is (req_tools parsed) 0 (\<lambda>t. nt_name t = ''f'') \<and>
             req_max_tokens parsed = Some 128)))"

definition test_gemini_parses_response_with_finish_reason_and_usage :: bool where
  "test_gemini_parses_response_with_finish_reason_and_usage \<longleftrightarrow>
     unwrapped (gemini_parse_response json_text
       ''{
            \"candidates\": [{
                \"content\": {\"role\": \"model\", \"parts\": [{\"text\": \"answer\"}]},
                \"finishReason\": \"MAX_TOKENS\"
            }],
            \"usageMetadata\": {\"promptTokenCount\": 10, \"candidatesTokenCount\": 5}
        }'')
       (\<lambda>resp. nth_is (resp_content resp) 0 (\<lambda>b. b = Text ''answer'') \<and>
          resp_finish_reason resp = Length \<and>
          resp_usage resp = Some \<lparr>input_tokens = 10, output_tokens = 5\<rparr>)"

definition test_gemini_serialize_response_round_trips :: bool where
  "test_gemini_serialize_response_round_trips \<longleftrightarrow>
     (let resp = \<lparr>resp_id = [], resp_model = [], resp_content = [Thinking ''hmm'' None, Text ''answer''],
            resp_finish_reason = Stop, resp_usage = Some \<lparr>input_tokens = 3, output_tokens = 7\<rparr>\<rparr>
      in unwrapped (gemini_serialize_response json_text resp) (\<lambda>out.
           unwrapped (gemini_parse_response json_text out) (\<lambda>parsed.
             Text ''answer'' \<in> set (resp_content parsed) \<and>
             resp_finish_reason parsed = Stop \<and>
             resp_usage parsed = Some \<lparr>input_tokens = 3, output_tokens = 7\<rparr>)))"

definition test_gemini_errors_map_to_gemini_shape :: bool where
  "test_gemini_errors_map_to_gemini_shape \<longleftrightarrow>
     (case gemini_serialize_error json_text (RateLimit None) of
        (status, body) \<Rightarrow> status = 429 \<and> reads_json body (\<lambda>v.
          at (at v ''error'') ''status'' = String ''RESOURCE_EXHAUSTED'' \<and>
          at (at v ''error'') ''code'' = jnum 429))"

definition gemini_test_part :: "string \<Rightarrow> neutral_message list \<Rightarrow> nat \<Rightarrow> (value \<Rightarrow> bool) \<Rightarrow> bool" where
  "gemini_test_part model messages i P \<longleftrightarrow>
     unwrapped (gemini_serialize_request json_text (new_request model messages)) (\<lambda>out. reads_json out (\<lambda>v.
       P (item (at (item (at v ''contents'') i) ''parts'') 0)))"

definition gemini_test_call :: "string \<Rightarrow> string \<Rightarrow> value \<Rightarrow> neutral_message" where
  "gemini_test_call i n input = \<lparr>msg_role = Assistant, msg_content = [ToolUse i n input]\<rparr>"

definition gemini_test_result :: "string \<Rightarrow> string \<Rightarrow> neutral_message" where
  "gemini_test_result i c = \<lparr>msg_role = Tool, msg_content = [ToolResult i c False]\<rparr>"

definition test_gemini_synthesized_call_ids_unique_across_messages :: bool where
  "test_gemini_synthesized_call_ids_unique_across_messages \<longleftrightarrow>
     (let messages = [gemini_test_call [] ''f1'' (jobj []), gemini_test_call [] ''f2'' (jobj [])] in
      gemini_test_part [] messages 0 (\<lambda>p. at (at p ''functionCall'') ''id'' = String ''fc_1'') \<and>
      gemini_test_part [] messages 1 (\<lambda>p. at (at p ''functionCall'') ''id'' = String ''fc_2''))"

definition test_gemini_function_response_parses_name_when_id_missing :: bool where
  "test_gemini_function_response_parses_name_when_id_missing \<longleftrightarrow>
     unwrapped (gemini_parse_request json_text
       ''{
            \"contents\": [{\"role\": \"user\", \"parts\": [
                {\"functionResponse\": {\"name\": \"get_weather\", \"response\": {\"result\": \"22c\"}}}
            ]}]
        }'')
       (\<lambda>req. nth_is (req_messages req) 0 (\<lambda>m. nth_is (msg_content m) 0 (\<lambda>b. case b of
          ToolResult i c _ \<Rightarrow> i = ''get_weather'' \<and> str_contains c ''22c'' | _ \<Rightarrow> False)))"

definition test_gemini_name_keyed_tool_result_correlates_via_reverse_map :: bool where
  "test_gemini_name_keyed_tool_result_correlates_via_reverse_map \<longleftrightarrow>
     gemini_test_part ''m'' [gemini_test_call ''call_1'' ''get_weather'' (jobj []), gemini_test_result ''get_weather'' ''22c''] 1
       (\<lambda>p. at (at p ''functionResponse'') ''name'' = String ''get_weather'' \<and>
            at (at p ''functionResponse'') ''id'' = String ''call_1'')"

definition test_gemini_tool_result_serializes_function_name_from_history :: bool where
  "test_gemini_tool_result_serializes_function_name_from_history \<longleftrightarrow>
     gemini_test_part [] [gemini_test_call ''call_1'' ''get_weather'' (jobj [(''city'', String ''paris'')]),
         gemini_test_result ''call_1'' ''22c''] 1
       (\<lambda>p. at (at p ''functionResponse'') ''name'' = String ''get_weather'' \<and>
            at (at p ''functionResponse'') ''id'' = String ''call_1'')"

definition test_gemini_tool_result_with_unknown_id_falls_back_to_id :: bool where
  "test_gemini_tool_result_with_unknown_id_falls_back_to_id \<longleftrightarrow>
     gemini_test_part [] [gemini_test_result ''ghost_1'' ''x''] 0
       (\<lambda>p. at (at p ''functionResponse'') ''name'' = String ''ghost_1'')"

definition test_gemini_synthesizes_id_for_idless_function_call_in_request :: bool where
  "test_gemini_synthesizes_id_for_idless_function_call_in_request \<longleftrightarrow>
     gemini_test_part [] [gemini_test_call [] ''f'' (jobj [(''a'', jnum 1)])] 0
       (\<lambda>p. at (at p ''functionCall'') ''id'' = String ''fc_1'')"

definition test_gemini_synthesizes_id_for_idless_function_call_in_response :: bool where
  "test_gemini_synthesizes_id_for_idless_function_call_in_response \<longleftrightarrow>
     unwrapped (gemini_parse_response json_text
       ''{\"candidates\":[{\"content\":{\"role\":\"model\",\"parts\":[
            {\"functionCall\":{\"name\":\"get_weather\",\"args\":{\"city\":\"paris\"}}}
        ]}}]}'')
       (\<lambda>resp. nth_is (resp_content resp) 0 (\<lambda>b. case b of
          ToolUse i n _ \<Rightarrow> i = ''fc_1'' \<and> n = ''get_weather'' | _ \<Rightarrow> False))"

text \<open>Every URL and conversion test passes on the model.\<close>

lemma gemini_url_tests_1:
  "test_gemini_rejects_query_injection_in_model"
  "test_gemini_rejects_path_traversal_in_model"
  "test_gemini_rejects_empty_and_whitespace_models"
  by code_simp+

lemma gemini_url_tests_2:
  "test_gemini_accepts_normal_model_ids"
  "test_gemini_accepts_prefixed_model_ids"
  "test_gemini_stream_url_switches_endpoint_and_keeps_validation"
  by code_simp+

lemma gemini_convert_tests_1:
  "test_gemini_parses_function_response_message_and_wrapper_round_trip"
  "test_gemini_parses_basic_request_with_system_and_generation_config"
  "test_gemini_parses_parts_including_thought_images_and_function_calls"
  by code_simp+

lemma gemini_convert_tests_2:
  "test_gemini_parses_function_response_as_tool_result"
  "test_gemini_parses_tools"
  "test_gemini_serialize_request_round_trips"
  by code_simp+

lemma gemini_convert_tests_3:
  "test_gemini_parses_response_with_finish_reason_and_usage"
  "test_gemini_serialize_response_round_trips"
  "test_gemini_errors_map_to_gemini_shape"
  by code_simp+

lemma gemini_call_id_tests_1:
  "test_gemini_synthesized_call_ids_unique_across_messages"
  "test_gemini_function_response_parses_name_when_id_missing"
  "test_gemini_name_keyed_tool_result_correlates_via_reverse_map"
  by code_simp+

lemma gemini_call_id_tests_2:
  "test_gemini_tool_result_serializes_function_name_from_history"
  "test_gemini_tool_result_with_unknown_id_falls_back_to_id"
  "test_gemini_synthesizes_id_for_idless_function_call_in_request"
  by code_simp+

lemma gemini_call_id_tests_3:
  "test_gemini_synthesizes_id_for_idless_function_call_in_response"
  by code_simp+

section \<open>Streams\<close>

definition gemini_test_chunk :: "value \<Rightarrow> string option \<Rightarrow> string" where
  "gemini_test_chunk parts finish =
     to_string json_text (jobj [(''candidates'', Array [jobj (
       [(''content'', jobj [(''role'', String ''model''), (''parts'', parts)]), (''index'', jnum 0)] @
       (case finish of None \<Rightarrow> [] | Some f \<Rightarrow> [(''finishReason'', String f)]))])])"

definition gemini_test_text :: "string \<Rightarrow> string" where
  "gemini_test_text t = gemini_test_chunk (Array [jobj [(''text'', String t)]]) None"

definition test_gemini_decodes_text_and_reasoning_chunks :: bool where
  "test_gemini_decodes_text_and_reasoning_chunks \<longleftrightarrow>
     (case gemini_feed json_text gemini_decoder_new (gemini_test_text ''Hel'') of (events1, d1) \<Rightarrow>
      case gemini_feed json_text d1 (gemini_test_text ''lo'') of (events2, d2) \<Rightarrow>
      case gemini_feed json_text d2 (gemini_test_chunk
          (Array [jobj [(''text'', String ''think''), (''thought'', Bool True)]]) None) of (events3, d3) \<Rightarrow>
      nth_is events1 0 is_message_start \<and>
         events2 = [TextDelta ''lo''] \<and>
         events3 = [ReasoningDelta ''think''])"

definition test_gemini_decodes_tool_call_chunks :: bool where
  "test_gemini_decodes_tool_call_chunks \<longleftrightarrow>
     (case gemini_feed json_text gemini_decoder_new (gemini_test_chunk (Array []) None) of (_, d1) \<Rightarrow>
      case gemini_feed json_text d1 (gemini_test_chunk (Array [jobj [(''functionCall'',
          jobj [(''id'', String ''c1''), (''name'', String ''f''), (''args'', jobj [(''a'', jnum 1)])])]]) None) of (events, _) \<Rightarrow>
      nth_is events 0 (\<lambda>e. case e of
           ToolCallDelta i c n a \<Rightarrow> i = 0 \<and> c = ''c1'' \<and> n = ''f'' \<and> str_contains a ''a'' | _ \<Rightarrow> False))"

definition test_gemini_synthesizes_id_for_idless_tool_call_chunk :: bool where
  "test_gemini_synthesizes_id_for_idless_tool_call_chunk \<longleftrightarrow>
     (case gemini_feed json_text gemini_decoder_new (gemini_test_chunk (Array []) None) of (_, d1) \<Rightarrow>
      case gemini_feed json_text d1 (gemini_test_chunk (Array [jobj [(''functionCall'',
          jobj [(''name'', String ''f''), (''args'', jobj [(''a'', jnum 1)])])]]) None) of (events, _) \<Rightarrow>
      nth_is events 0 (\<lambda>e. case e of
           ToolCallDelta i c n _ \<Rightarrow> i = 0 \<and> c = ''fc_1'' \<and> n = ''f'' | _ \<Rightarrow> False))"

definition test_gemini_decodes_finish_chunk_with_usage :: bool where
  "test_gemini_decodes_finish_chunk_with_usage \<longleftrightarrow>
     (case gemini_feed json_text gemini_decoder_new (gemini_test_text ''x'') of (_, d1) \<Rightarrow>
      case gemini_feed json_text d1 (to_string json_text
          (jobj [(''candidates'', Array [jobj [(''content'', jobj []), (''index'', jnum 0),
              (''finishReason'', String ''MAX_TOKENS'')]]),
            (''usageMetadata'', jobj [(''promptTokenCount'', jnum 10), (''candidatesTokenCount'', jnum 5)])])) of (events, d2) \<Rightarrow>
      nth_is events 0 (\<lambda>e. case e of
           MessageStop Length (Some u) \<Rightarrow> input_tokens u = 10 \<and> output_tokens u = 5 | _ \<Rightarrow> False) \<and>
         fst (gemini_finish d2) = [])"

definition test_gemini_finish_emits_stop_when_stream_closed_without_finish :: bool where
  "test_gemini_finish_emits_stop_when_stream_closed_without_finish \<longleftrightarrow>
     (case gemini_feed json_text gemini_decoder_new (gemini_test_text ''partial'') of (_, d1) \<Rightarrow>
      nth_is (fst (gemini_finish d1)) 0 is_message_stop)"

definition test_gemini_empty_stream_no_finish_event :: bool where
  "test_gemini_empty_stream_no_finish_event \<longleftrightarrow> fst (gemini_finish gemini_decoder_new) = []"

definition test_gemini_encodes_neutral_events_to_chunks :: bool where
  "test_gemini_encodes_neutral_events_to_chunks \<longleftrightarrow>
     (case gemini_encode json_text gemini_encoder_new (MessageStart [] ''m'' None) of (lines1, e1) \<Rightarrow>
      case gemini_encode json_text e1 (TextDelta ''hi'') of (lines2, e2) \<Rightarrow>
      case gemini_encode json_text e2 (ReasoningDelta ''r'') of (lines3, e3) \<Rightarrow>
      case gemini_encode json_text e3
          (MessageStop Length (Some \<lparr>input_tokens = 1, output_tokens = 2\<rparr>)) of (lines4, e4) \<Rightarrow>
      case gemini_encode json_text e4 (MessageStop Stop None) of (lines5, e5) \<Rightarrow>
      lines1 = [] \<and>
         nth_is lines2 0 (prefix ''data: '') \<and>
         frame_json lines2 (\<lambda>v. at (item (at (at (item (at v ''candidates'') 0) ''content'') ''parts'') 0) ''text'' =
           String ''hi'') \<and>
         frame_json lines3 (\<lambda>v. at (item (at (at (item (at v ''candidates'') 0) ''content'') ''parts'') 0) ''thought'' =
           Bool True) \<and>
         frame_json lines4 (\<lambda>v. at (item (at v ''candidates'') 0) ''finishReason'' = String ''MAX_TOKENS'' \<and>
           at (at v ''usageMetadata'') ''candidatesTokenCount'' = jnum 2) \<and>
         lines5 = [] \<and>
         gemini_done e5 = [])"

definition gemini_test_called :: "value \<Rightarrow> value" where
  "gemini_test_called v =
     at (item (at (at (item (at v ''candidates'') 0) ''content'') ''parts'') 0) ''functionCall''"

definition test_gemini_encodes_tool_call :: bool where
  "test_gemini_encodes_tool_call \<longleftrightarrow>
     (case gemini_encode json_text gemini_encoder_new (ToolCallDelta 0 ''c1'' ''f'' ''{\"a\":1}'') of (lines, _) \<Rightarrow>
      frame_json lines (\<lambda>v. at (gemini_test_called v) ''name'' = String ''f'' \<and>
           at (at (gemini_test_called v) ''args'') ''a'' = jnum 1))"

definition test_gemini_error_chunk_produces_error_event_and_no_synthetic_stop :: bool where
  "test_gemini_error_chunk_produces_error_event_and_no_synthetic_stop \<longleftrightarrow>
     (case gemini_feed json_text gemini_decoder_new (to_string json_text
          (jobj [(''error'', jobj [(''code'', jnum 400), (''message'', String ''bad request''),
             (''status'', String ''INVALID_ARGUMENT'')])])) of (events, d1) \<Rightarrow>
      nth_is events 0 (\<lambda>e. case e of
           Error err \<Rightarrow> str_contains (error_to_string err) ''bad request'' | _ \<Rightarrow> False) \<and>
         nth_is events 0 (\<lambda>e. \<not> is_message_start e) \<and>
         fst (gemini_finish d1) = [])"

definition test_gemini_finish_chunk_emits_stop_only_once :: bool where
  "test_gemini_finish_chunk_emits_stop_only_once \<longleftrightarrow>
     (case gemini_feed json_text gemini_decoder_new (gemini_test_text ''x'') of (_, d1) \<Rightarrow>
      case gemini_feed json_text d1 (to_string json_text
          (jobj [(''candidates'', Array [jobj [(''content'', jobj []), (''index'', jnum 0),
              (''finishReason'', String ''STOP'')]])])) of (events1, d2) \<Rightarrow>
      case gemini_feed json_text d2 (to_string json_text
          (jobj [(''candidates'', Array [jobj [(''content'', jobj []), (''index'', jnum 0)]]),
            (''usageMetadata'', jobj [(''promptTokenCount'', jnum 10), (''candidatesTokenCount'', jnum 5)])])) of (events2, d3) \<Rightarrow>
      nth_is events1 0 (\<lambda>e. e = MessageStop Stop None) \<and>
         events2 = [] \<and>
         fst (gemini_finish d3) = [])"

definition test_gemini_finish_synthesized_stop_is_idempotent :: bool where
  "test_gemini_finish_synthesized_stop_is_idempotent \<longleftrightarrow>
     (case gemini_feed json_text gemini_decoder_new (gemini_test_text ''partial'') of (_, d1) \<Rightarrow>
      case gemini_finish d1 of (events1, d2) \<Rightarrow>
      case gemini_finish d2 of (events2, _) \<Rightarrow>
      nth_is events1 0 is_message_stop \<and> events2 = [])"

definition test_gemini_encoder_buffers_partial_tool_args_until_valid_json :: bool where
  "test_gemini_encoder_buffers_partial_tool_args_until_valid_json \<longleftrightarrow>
     (case gemini_encode json_text gemini_encoder_new (MessageStart [] ''m'' None) of (_, e1) \<Rightarrow>
      case gemini_encode json_text e1 (ToolCallDelta 0 ''call_1'' ''get_weather'' ''{\"city\":\"'') of (first, e2) \<Rightarrow>
      case gemini_encode json_text e2 (ToolCallDelta 0 [] [] ''Paris\"}'') of (second, e3) \<Rightarrow>
      case gemini_encode json_text e3 (ToolCallDelta 1 ''call_2'' ''f2'' ''{}'') of (third, _) \<Rightarrow>
      first = [] \<and>
         length second = 1 \<and>
         frame_json second (\<lambda>v. at (gemini_test_called v) ''name'' = String ''get_weather'' \<and>
           at (at (gemini_test_called v) ''args'') ''city'' = String ''Paris'') \<and>
         length third = 1)"

definition test_gemini_encoder_surfaces_incomplete_call_args_at_stop :: bool where
  "test_gemini_encoder_surfaces_incomplete_call_args_at_stop \<longleftrightarrow>
     (case gemini_encode json_text gemini_encoder_new (MessageStart [] ''m'' None) of (_, e1) \<Rightarrow>
      case gemini_encode json_text e1 (ToolCallDelta 0 ''call_1'' ''f'' ''{\"city\":'') of (_, e2) \<Rightarrow>
      case gemini_encode json_text e2 (MessageStop Stop None) of (lines, _) \<Rightarrow>
      list_ex (\<lambda>l. str_contains l ''\"functionCall\"'') lines)"

text \<open>Every stream test passes on the model.\<close>

lemma gemini_decoder_tests_1:
  "test_gemini_decodes_text_and_reasoning_chunks"
  "test_gemini_decodes_tool_call_chunks"
  "test_gemini_synthesizes_id_for_idless_tool_call_chunk"
  by code_simp+

lemma gemini_decoder_tests_2:
  "test_gemini_decodes_finish_chunk_with_usage"
  "test_gemini_finish_emits_stop_when_stream_closed_without_finish"
  "test_gemini_empty_stream_no_finish_event"
  by code_simp+

lemma gemini_decoder_tests_3:
  "test_gemini_error_chunk_produces_error_event_and_no_synthetic_stop"
  "test_gemini_finish_chunk_emits_stop_only_once"
  "test_gemini_finish_synthesized_stop_is_idempotent"
  by code_simp+

lemma gemini_encoder_tests:
  "test_gemini_encodes_neutral_events_to_chunks" "test_gemini_encodes_tool_call"
  "test_gemini_encoder_buffers_partial_tool_args_until_valid_json"
  "test_gemini_encoder_surfaces_incomplete_call_args_at_stop"
  by code_simp+

end
