(* ===== verification/RegexText.thy ===== *)
theory RegexText
  imports Tokens TestSupport
begin

text \<open>
  A concrete engine of regular expressions: the syntax that the rules and tests of the repository
  use, with the leftmost-first semantics that the \<open>regex\<close> crate documents. (The crate's classes
  and word boundaries are Unicode's; here they are ASCII's, which is the same on ASCII texts.)
  The model takes the crate as a parameter; this instance runs the repository's unit tests, with
  the built-in rules as they are written.
\<close>

section \<open>Expressions and matching\<close>

datatype rx =
    RSet bool "(char \<times> char) list"
  | RStart
  | RWordBoundary
  | REmpty
  | RSeq rx rx
  | RAlt rx rx
  | RRep rx nat "nat option"

text \<open>A position: the character before it and the text after it.\<close>

type_synonym place = "char option \<times> string"

text \<open>The order of characters, and how to decide it on their bits, the highest bit first.\<close>

definition char_le :: "char \<Rightarrow> char \<Rightarrow> bool" where
  "char_le a b \<longleftrightarrow> (of_char a :: int) \<le> of_char b"

fun bits_le :: "bool list \<Rightarrow> bool list \<Rightarrow> bool" where
  "bits_le (x # xs) (y # ys) = (if x = y then bits_le xs ys else y)"
| "bits_le _ _ = True"

primrec bits_value :: "bool list \<Rightarrow> int" where
  "bits_value [] = 0"
| "bits_value (x # xs) = of_bool x * 2 ^ length xs + bits_value xs"

lemma bits_value_bounds: "0 \<le> bits_value xs \<and> bits_value xs < 2 ^ length xs"
  by (induction xs) auto

lemma bits_le_value: "length xs = length ys \<Longrightarrow> bits_le xs ys \<longleftrightarrow> bits_value xs \<le> bits_value ys"
proof (induction xs arbitrary: ys)
  case Nil
  then show ?case by simp
next
  case (Cons x xs)
  then obtain y ys' where "ys = y # ys'" "length xs = length ys'" by (cases ys) auto
  then show ?case using Cons.IH [of ys'] bits_value_bounds [of xs] bits_value_bounds [of ys'] by auto
qed

lemma char_le_code [code]:
  "char_le (Char a0 a1 a2 a3 a4 a5 a6 a7) (Char b0 b1 b2 b3 b4 b5 b6 b7) =
     bits_le [a7, a6, a5, a4, a3, a2, a1, a0] [b7, b6, b5, b4, b3, b2, b1, b0]"
proof -
  have bits: "of_char (Char c0 c1 c2 c3 c4 c5 c6 c7) = bits_value [c7, c6, c5, c4, c3, c2, c1, c0]"
    for c0 c1 c2 c3 c4 c5 c6 c7
    by simp
  show ?thesis unfolding char_le_def bits by (rule bits_le_value [symmetric]) simp
qed

fun in_ranges :: "(char \<times> char) list \<Rightarrow> char \<Rightarrow> bool" where
  "in_ranges [] c = False"
| "in_ranges ((a, b) # rs) c = (if char_le a c \<and> char_le c b then True else in_ranges rs c)"

definition word_ranges :: "(char \<times> char) list" where
  "word_ranges = [(CHR ''0'', CHR ''9''), (CHR ''A'', CHR ''Z''), (CHR ''_'', CHR ''_''), (CHR ''a'', CHR ''z'')]"

definition is_word :: "char option \<Rightarrow> bool" where
  "is_word c \<longleftrightarrow> (case c of None \<Rightarrow> False | Some c \<Rightarrow> in_ranges word_ranges c)"

definition head :: "string \<Rightarrow> char option" where
  "head s = (case s of [] \<Rightarrow> None | c # _ \<Rightarrow> Some c)"

text \<open>Where a match that begins at a place can end, the preferred end first.\<close>

fun times :: "(place \<Rightarrow> place list) \<Rightarrow> nat \<Rightarrow> place \<Rightarrow> place list" where
  "times f 0 p = [p]"
| "times f (Suc m) p = concat (map (times f m) (f p))"

fun up_to :: "(place \<Rightarrow> place list) \<Rightarrow> nat \<Rightarrow> place \<Rightarrow> place list" where
  "up_to f 0 p = [p]"
| "up_to f (Suc k) p = concat (map (up_to f k) (filter (\<lambda>q. snd q \<noteq> snd p) (f p))) @ [p]"

definition more_times :: "(place \<Rightarrow> place list) \<Rightarrow> nat \<Rightarrow> nat option \<Rightarrow> place \<Rightarrow> place list" where
  "more_times f m n p = (case n of None \<Rightarrow> up_to f (length (snd p)) p | Some n \<Rightarrow> up_to f (n - m) p)"

fun ends :: "rx \<Rightarrow> place \<Rightarrow> place list" where
  "ends (RSet neg rs) p =
     (case snd p of [] \<Rightarrow> [] | c # s \<Rightarrow> if in_ranges rs c \<noteq> neg then [(Some c, s)] else [])"
| "ends RStart p = (case fst p of None \<Rightarrow> [p] | Some _ \<Rightarrow> [])"
| "ends RWordBoundary p = (if is_word (fst p) \<noteq> is_word (head (snd p)) then [p] else [])"
| "ends REmpty p = [p]"
| "ends (RSeq a b) p = concat (map (ends b) (ends a p))"
| "ends (RAlt a b) p = ends a p @ ends b p"
| "ends (RRep r m n) p = concat (map (more_times (ends r) m n) (times (ends r) m p))"

text \<open>The leftmost match from a place on: its span, and the place where it ends.\<close>

fun find_from :: "rx \<Rightarrow> nat \<Rightarrow> string \<Rightarrow> char option \<Rightarrow> (nat \<times> nat \<times> place) option" where
  "find_from r i [] prev =
     (case ends r (prev, []) of [] \<Rightarrow> None | q # _ \<Rightarrow> Some (i, i, q))"
| "find_from r i (c # s) prev =
     (case ends r (prev, c # s) of
        [] \<Rightarrow> find_from r (Suc i) s (Some c)
      | q # _ \<Rightarrow> Some (i, i + (Suc (length s) - length (snd q)), q))"

text \<open>
  All matches in turn. An empty match right after a match is passed over, by one character; each
  round consumes a character or is followed by one that does, so twice the length is enough fuel.
\<close>

fun find_all :: "nat \<Rightarrow> rx \<Rightarrow> nat option \<Rightarrow> nat \<Rightarrow> place \<Rightarrow> (nat \<times> nat) list" where
  "find_all 0 r last_end i p = []"
| "find_all (Suc k) r last_end i p =
     (case find_from r i (snd p) (fst p) of
        None \<Rightarrow> []
      | Some (s, e, q) \<Rightarrow>
          if s = e \<and> last_end = Some e
          then (case snd p of [] \<Rightarrow> [] | c # t \<Rightarrow> find_all k r None (Suc i) (Some c, t))
          else (s, e) # find_all k r (Some e) e q)"

definition regex_of :: "rx \<Rightarrow> regex" where
  "regex_of r =
     \<lparr>rx_find_iter = (\<lambda>t. find_all (2 * length t + 2) r None 0 (None, t)),
      rx_is_match = (\<lambda>t. find_from r 0 t None \<noteq> None)\<rparr>"

section \<open>Patterns\<close>

text \<open>What is read of a group: the alternatives before the last bar, and the items since, in reverse.\<close>

type_synonym group = "rx option \<times> rx list"

definition sequence :: "rx list \<Rightarrow> rx" where
  "sequence items = (case items of [] \<Rightarrow> REmpty | i # is \<Rightarrow> foldl (\<lambda>r x. RSeq x r) i is)"

definition close_group :: "group \<Rightarrow> rx" where
  "close_group g = (case g of (None, items) \<Rightarrow> sequence items | (Some a, items) \<Rightarrow> RAlt a (sequence items))"

definition add_item :: "rx \<Rightarrow> group list \<Rightarrow> group list" where
  "add_item r gs = (case gs of [] \<Rightarrow> [] | (a, items) # gs' \<Rightarrow> (a, r # items) # gs')"

definition repeat_last :: "nat \<Rightarrow> nat option \<Rightarrow> group list \<Rightarrow> group list option" where
  "repeat_last m n gs =
     (case gs of (a, r # items) # gs' \<Rightarrow> Some ((a, RRep r m n # items) # gs') | _ \<Rightarrow> None)"

fun class_ranges :: "string \<Rightarrow> (char \<times> char) list" where
  "class_ranges [] = []"
| "class_ranges [a] = [(a, a)]"
| "class_ranges [a, b] = [(a, a), (b, b)]"
| "class_ranges (a # d # b # cs) =
     (if d = CHR ''-'' then (a, b) # class_ranges cs else (a, a) # class_ranges (d # b # cs))"

definition class_of :: "string \<Rightarrow> rx" where
  "class_of body = (if head body = Some CHR ''^'' then RSet True (class_ranges (tl body)) else RSet False (class_ranges body))"

definition bounds_of :: "string \<Rightarrow> (nat \<times> nat option) option" where
  "bounds_of body =
     (case split_once_char CHR '','' body of
        None \<Rightarrow> if digits1 body then Some (nat (read_digits body), Some (nat (read_digits body))) else None
      | Some (m, n) \<Rightarrow>
          if \<not> digits1 m then None
          else if n = [] then Some (nat (read_digits m), None)
          else if digits1 n then Some (nat (read_digits m), Some (nat (read_digits n))) else None)"

definition escape_of :: "char \<Rightarrow> rx option" where
  "escape_of c =
     (if c = CHR ''b'' then Some RWordBoundary
      else if c = CHR ''d'' then Some (RSet False [(CHR ''0'', CHR ''9'')])
      else if is_ascii_alphanumeric c then None
      else Some (RSet False [(c, c)]))"

text \<open>One character or construct of the pattern: what is left of it, and the open groups.\<close>

definition pattern_step :: "char \<Rightarrow> string \<Rightarrow> group list \<Rightarrow> (string \<times> group list) option" where
  "pattern_step c t gs =
     (if c = CHR ''('' then Some (if prefix ''?:'' t then drop 2 t else t, (None, []) # gs)
      else if c = CHR '')'' then
        (case gs of g # h # gs' \<Rightarrow> Some (t, add_item (close_group g) (h # gs')) | _ \<Rightarrow> None)
      else if c = CHR ''|'' then
        (case gs of [] \<Rightarrow> None | g # gs' \<Rightarrow> Some (t, (Some (close_group g), []) # gs'))
      else if c = CHR ''['' then
        map_option (\<lambda>(body, t'). (t', add_item (class_of body) gs)) (split_once_char CHR '']'' t)
      else if c = CHR ''{'' then
        Option.bind (split_once_char CHR ''}'' t) (\<lambda>(body, t').
          Option.bind (bounds_of body) (\<lambda>(m, n). map_option (\<lambda>gs'. (t', gs')) (repeat_last m n gs)))
      else if c = CHR 0x5C then
        (case t of [] \<Rightarrow> None | x # t' \<Rightarrow> map_option (\<lambda>r. (t', add_item r gs)) (escape_of x))
      else if c = CHR ''*'' then map_option (Pair t) (repeat_last 0 None gs)
      else if c = CHR ''+'' then map_option (Pair t) (repeat_last 1 None gs)
      else if c = CHR ''?'' then map_option (Pair t) (repeat_last 0 (Some 1) gs)
      else if c = CHR ''^'' then Some (t, add_item RStart gs)
      else Some (t, add_item (RSet False [(c, c)]) gs))"

text \<open>Every step takes a character at least, so the length of the pattern is enough fuel.\<close>

fun parse_pattern :: "nat \<Rightarrow> string \<times> group list \<Rightarrow> rx option" where
  "parse_pattern k ([], gs) = (case gs of [g] \<Rightarrow> Some (close_group g) | _ \<Rightarrow> None)"
| "parse_pattern 0 (c # t, gs) = None"
| "parse_pattern (Suc k) (c # t, gs) = Option.bind (pattern_step c t gs) (parse_pattern k)"

definition regex_text :: "string \<Rightarrow> string + regex" where
  "regex_text pattern =
     (case parse_pattern (length pattern) (pattern, [(None, [])]) of
        None \<Rightarrow> Inl ''regex parse error''
      | Some r \<Rightarrow> Inr (regex_of r))"

definition spans_in :: "string \<Rightarrow> string \<Rightarrow> (nat \<times> nat) list" where
  "spans_in pattern text = (case regex_text pattern of Inl _ \<Rightarrow> [] | Inr r \<Rightarrow> rx_find_iter r text)"


end
