(* ===== verification/Tests_Privacy.thy ===== *)
theory Tests_Privacy
  imports RegexText RestoreStreams
begin

text \<open>
  The unit tests of the Privacy Guard (\<open>src/core/privacy.rs\<close>), run on the model: the patterns are
  compiled by the engine of \<open>RegexText\<close>, the tokens are found by the reference matcher and the
  JSON is that of \<open>JsonText\<close>. Not here: \<open>session_token_cap_fails_closed\<close>, whose text of 4104
  addresses is too long to evaluate; what it checks is proved for every text in \<open>Redaction\<close>.
\<close>

section \<open>Fixtures\<close>

definition guarded_config :: privacy_config where
  "guarded_config = default_privacy_config\<lparr>pc_enabled := True\<rparr>"

definition session_with :: "privacy_config \<Rightarrow> (redaction_session \<Rightarrow> bool) \<Rightarrow> bool" where
  "session_with config P \<longleftrightarrow> unwrapped (new_engine regex_text config) (\<lambda>engine. P (new_session engine))"

definition default_session :: "(redaction_session \<Rightarrow> bool) \<Rightarrow> bool" where
  "default_session P \<longleftrightarrow> session_with guarded_config P"

definition default_engine :: "(redaction_engine \<Rightarrow> bool) \<Rightarrow> bool" where
  "default_engine P \<longleftrightarrow> unwrapped (new_engine regex_text guarded_config) P"

definition engine_error_of :: "privacy_config \<Rightarrow> (engine_error \<Rightarrow> bool) \<Rightarrow> bool" where
  "engine_error_of config P \<longleftrightarrow> unwrapped_err (new_engine regex_text config) P"

definition guard_rule :: "string \<Rightarrow> string \<Rightarrow> string \<Rightarrow> rule_config" where
  "guard_rule name pattern replacement = \<lparr>rc_name = name, rc_pattern = pattern, rc_replacement = replacement\<rparr>"

definition with_rules :: "rule_config list \<Rightarrow> privacy_config" where
  "with_rules rules = guarded_config\<lparr>pc_rules := rules\<rparr>"

definition with_allow_list :: "string list \<Rightarrow> string list \<Rightarrow> privacy_config" where
  "with_allow_list domains patterns = guarded_config\<lparr>pc_allow_list := \<lparr>al_domains = domains, al_patterns = patterns\<rparr>\<rparr>"

text \<open>\<open>session.redact_text(text).unwrap()\<close>, and what the session is then.\<close>

definition redacting :: "redaction_session \<Rightarrow> string \<Rightarrow> (string \<Rightarrow> redaction_session \<Rightarrow> bool) \<Rightarrow> bool" where
  "redacting S text P \<longleftrightarrow>
     (case redact_text reference_matcher S text of
        (Inl _, _) \<Rightarrow> False
      | (Inr t, S') \<Rightarrow> P t S')"

definition restored_text :: "redaction_session \<Rightarrow> string \<Rightarrow> string" where
  "restored_text S text = fst (restore_text reference_matcher S text)"

text \<open>The fragments fed in turn, then \<open>finish()\<close>: all that was emitted.\<close>

definition fed :: "redaction_session \<Rightarrow> string list \<Rightarrow> (string \<Rightarrow> bool) \<Rightarrow> bool" where
  "fed S fragments P \<longleftrightarrow>
     unwrapped_opt (rs_feed_all reference_matcher json_text S (rs_new S) fragments)
       (\<lambda>(outs, st, _). P (concat outs @ fst (rs_finish st)))"

definition restoring :: "redaction_session \<Rightarrow> stream_restorer \<Rightarrow> stream_event
    \<Rightarrow> (stream_event option \<Rightarrow> redaction_session \<Rightarrow> stream_restorer \<Rightarrow> bool) \<Rightarrow> bool" where
  "restoring S R event P \<longleftrightarrow>
     unwrapped_opt (restore_event reference_matcher json_text S R event) (\<lambda>(out, R', S'). P out S' R')"

definition arguments_of :: "stream_event option \<Rightarrow> string option" where
  "arguments_of out = (case out of Some (ToolCallDelta _ _ _ args) \<Rightarrow> Some args | _ \<Rightarrow> None)"

section \<open>Redaction\<close>

definition test_disabled_by_default :: bool where
  "test_disabled_by_default \<longleftrightarrow>
     \<not> pc_enabled default_privacy_config \<and> pc_vault default_privacy_config = ''memory'' \<and>
     pc_rules default_privacy_config = []"

definition test_enabled_without_rules_uses_builtin_defaults :: bool where
  "test_enabled_without_rules_uses_builtin_defaults \<longleftrightarrow>
     default_engine (\<lambda>engine. 4 \<le> length (re_rules engine) \<and>
       redacting (new_session engine) ''write to john.doe@example.com or 10.1.2.3'' (\<lambda>t S.
         t = ''write to <EMAIL_1> or <IP_1>'' \<and> token_count S = 2))"

definition test_redacts_email_and_ipv4 :: bool where
  "test_redacts_email_and_ipv4 \<longleftrightarrow>
     default_session (\<lambda>S. redacting S ''Contact john.doe@example.com or use 192.168.1.50.'' (\<lambda>t S'.
       t = ''Contact <EMAIL_1> or use <IP_1>.'' \<and>
       lookup S' ''<EMAIL_1>'' = Some ''john.doe@example.com'' \<and>
       lookup S' ''<IP_1>'' = Some ''192.168.1.50''))"

definition test_reuses_token_for_repeated_value :: bool where
  "test_reuses_token_for_repeated_value \<longleftrightarrow>
     default_session (\<lambda>S. redacting S ''IP 192.168.1.50 and again 192.168.1.50'' (\<lambda>t S'.
       t = ''IP <IP_1> and again <IP_1>'' \<and> token_count S' = 1))"

definition test_allow_list_domain_skips_email :: bool where
  "test_allow_list_domain_skips_email \<longleftrightarrow>
     session_with (with_allow_list [''devstroop.com''] []) (\<lambda>S.
       redacting S ''mail alice@devstroop.com but also bob@example.com'' (\<lambda>t _.
         t = ''mail alice@devstroop.com but also <EMAIL_1>''))"

definition test_allow_list_domain_covers_subdomains :: bool where
  "test_allow_list_domain_covers_subdomains \<longleftrightarrow>
     session_with (with_allow_list [''devstroop.com''] []) (\<lambda>S.
       redacting S ''reach dev@api.devstroop.com'' (\<lambda>t _. t = ''reach dev@api.devstroop.com''))"

definition test_allow_list_pattern_skips_match :: bool where
  "test_allow_list_pattern_skips_match \<longleftrightarrow>
     session_with (with_allow_list [] [(''^192'' @ bsl # ''.168'' @ bsl # ''.'')]) (\<lambda>S.
       redacting S ''lan 192.168.1.50, wan 8.8.8.8'' (\<lambda>t _. t = ''lan 192.168.1.50, wan <IP_1>''))"

definition test_custom_rule_replacement_template :: bool where
  "test_custom_rule_replacement_template \<longleftrightarrow>
     session_with (with_rules [guard_rule ''PROJECT'' ('''' @ bsl # ''b[A-Z]{2,}-'' @ bsl # ''d{3}'' @ bsl # ''b'') ''<PROJECT_{n}>'']) (\<lambda>S.
       redacting S ''deploy ACME-123 and ACME-999'' (\<lambda>t S'.
         t = ''deploy <PROJECT_1> and <PROJECT_2>'' \<and>
         lookup S' ''<PROJECT_2>'' = Some ''ACME-999'' \<and>
         restored_text S' t = ''deploy ACME-123 and ACME-999''))"

definition test_non_stream_round_trip :: bool where
  "test_non_stream_round_trip \<longleftrightarrow>
     (let original = ''Contact john.doe@example.com, server 192.168.1.50, phone 555-123-4567.'' in
      default_session (\<lambda>S. redacting S original (\<lambda>t S'.
        \<not> str_contains t ''john.doe@example.com'' \<and> \<not> str_contains t ''192.168.1.50'' \<and>
        restored_text S' t = original)))"

definition test_restore_leaves_unknown_tokens_untouched :: bool where
  "test_restore_leaves_unknown_tokens_untouched \<longleftrightarrow>
     default_session (\<lambda>S. redacting S ''use 192.168.1.50'' (\<lambda>_ S'.
       restored_text S' ''<IP_1> vs <IP_99>'' = ''192.168.1.50 vs <IP_99>''))"

definition test_token_terminator_prevents_prefix_collision :: bool where
  "test_token_terminator_prevents_prefix_collision \<longleftrightarrow>
     (let ips = concat (map (\<lambda>i. ''10.0.0.'' @ dec i @ '' '') [1, 2, 3, 4, 5, 6, 7, 8, 9, 10]) in
      default_session (\<lambda>S. redacting S ips (\<lambda>t S'.
        str_contains t ''<IP_10>'' \<and>
        restored_text S' ''IPs <IP_1> and <IP_10>'' = ''IPs 10.0.0.1 and 10.0.0.10'' \<and>
        restored_text S' ''<IP_10>'' = ''10.0.0.10'')))"

definition test_later_rules_do_not_rematch_minted_tokens :: bool where
  "test_later_rules_do_not_rematch_minted_tokens \<longleftrightarrow>
     session_with (with_rules
         [guard_rule ''EMAIL'' ('''' @ bsl # ''b[A-Za-z0-9._%+-]+@[A-Za-z0-9.-]+'' @ bsl # ''.[A-Za-z]{2,}'' @ bsl # ''b'') ''<EMAIL_{n}>'',
          guard_rule ''DIGITS'' ('''' @ bsl # ''d+'') ''<NUM_{n}>'']) (\<lambda>S.
       redacting S ''mail a@b.com, id 12345'' (\<lambda>t S'.
         t = ''mail <EMAIL_1>, id <NUM_1>'' \<and> restored_text S' t = ''mail a@b.com, id 12345''))"

definition test_multiple_rules_apply_in_order :: bool where
  "test_multiple_rules_apply_in_order \<longleftrightarrow>
     session_with (with_rules
         [guard_rule ''CRED'' ('''' @ bsl # ''b[A-Za-z0-9]{8}'' @ bsl # ''b'') ''<CRED_{n}>'',
          guard_rule ''EMAIL'' ('''' @ bsl # ''b[A-Za-z0-9._%+-]+@[A-Za-z0-9.-]+'' @ bsl # ''.[A-Za-z]{2,}'' @ bsl # ''b'') ''<EMAIL_{n}>'']) (\<lambda>S.
       redacting S ''password hunter22, mail a@b.com'' (\<lambda>t S'.
         t = ''<CRED_1> <CRED_2>, mail <EMAIL_1>'' \<and> restored_text S' t = ''password hunter22, mail a@b.com''))"

section \<open>Streams of text\<close>

definition test_fragmented_stream_restore :: bool where
  "test_fragmented_stream_restore \<longleftrightarrow>
     default_session (\<lambda>S. redacting S ''use 192.168.1.50 now'' (\<lambda>_ S'.
       fed S' [''<'', ''IP'', ''_1'', ''>'', '' reached''] (\<lambda>out. out = ''192.168.1.50 reached'')))"

definition test_stream_restore_multiple_tokens_across_fragments :: bool where
  "test_stream_restore_multiple_tokens_across_fragments \<longleftrightarrow>
     default_session (\<lambda>S. redacting S ''192.168.1.50 and john@example.com'' (\<lambda>_ S'.
       fed S' [''The IP is <IP'', ''_1> and email <EMAIL'', ''_1> ok'']
         (\<lambda>out. out = ''The IP is 192.168.1.50 and email john@example.com ok'')))"

definition test_stream_finish_flushes_incomplete_token_literally :: bool where
  "test_stream_finish_flushes_incomplete_token_literally \<longleftrightarrow>
     default_session (\<lambda>S. redacting S ''x 192.168.1.50'' (\<lambda>_ S'.
       unwrapped_opt (rs_feed reference_matcher json_text S' (rs_new S') ''prefix <IP'') (\<lambda>(out, st, _).
         out = ''prefix '' \<and> fst (rs_finish st) = ''<IP'')))"

definition test_stream_no_false_positive_on_plain_text :: bool where
  "test_stream_no_false_positive_on_plain_text \<longleftrightarrow>
     default_session (\<lambda>S. redacting S ''192.168.1.50'' (\<lambda>_ S'.
       fed S' [''no tokens here <EMAIL_99> or <IP_99>''] (\<lambda>out. out = ''no tokens here <EMAIL_99> or <IP_99>'')))"

text \<open>The next two tests feed long texts, which the lemmas on fragments account for.\<close>

fun chunks :: "nat \<Rightarrow> 'a list \<Rightarrow> nat \<Rightarrow> 'a list list" where
  "chunks n xs 0 = []"
| "chunks n xs (Suc k) = (if xs = [] then [] else take n xs # chunks n (drop n xs) k)"

definition fed_to_the_end :: "redaction_session \<Rightarrow> string list \<Rightarrow> (string \<Rightarrow> restore_stream \<Rightarrow> bool) \<Rightarrow> bool" where
  "fed_to_the_end S fragments P \<longleftrightarrow>
     unwrapped_opt (rs_feed_all reference_matcher json_text S (rs_new S) fragments)
       (\<lambda>(outs, st, _). P (concat outs @ fst (rs_finish st)) (snd (rs_finish st)))"

definition test_stream_restore_large_plain_runs_stay_bounded :: bool where
  "test_stream_restore_large_plain_runs_stay_bounded \<longleftrightarrow>
     (let big = replicate 10000 CHR ''a'' in
      default_session (\<lambda>S. redacting S ''secret 192.168.1.50'' (\<lambda>_ S'.
        fed_to_the_end S' (chunks 333 big (length big) @ [''<IP_1>'']) (\<lambda>out stream.
          length out = length big + length ''192.168.1.50'' \<and>
          take 10000 out = big \<and>
          suffix ''192.168.1.50'' out \<and>
          length (rs_buffer stream) \<le> rs_max_token_len stream))))"

text \<open>The bytes of the ten characters that this test repeats.\<close>

definition japanese :: string where
  "japanese = map char_of ([0xE6, 0x97, 0xA5, 0xE6, 0x9C, 0xAC, 0xE8, 0xAA, 0x9E, 0xE3, 0x83, 0x86, 0xE3, 0x82, 0xAD,
     0xE3, 0x82, 0xB9, 0xE3, 0x83, 0x88, 0xE3, 0x81, 0xA7, 0xE3, 0x81, 0x99, 0xE3, 0x80, 0x82] :: int list)"

definition test_stream_restore_multibyte_text_does_not_panic :: bool where
  "test_stream_restore_multibyte_text_does_not_panic \<longleftrightarrow>
     (let big = concat (replicate 40 japanese) in
      default_session (\<lambda>S. redacting S ''secret 192.168.1.50'' (\<lambda>_ S'.
        fed_to_the_end S' (map concat (chunks 9 (chars big) (length (chars big))) @ [''<IP_1>'']) (\<lambda>out _.
          length out = length big + length ''192.168.1.50'' \<and> suffix ''192.168.1.50'' out))))"

section \<open>Requests, responses and events\<close>

definition test_request_blocks_redacted_and_round_trip :: bool where
  "test_request_blocks_redacted_and_round_trip \<longleftrightarrow>
     default_session (\<lambda>S.
       case redact_request reference_matcher S (new_request ''m''
              [\<lparr>msg_role = User, msg_content = [Text ''my ip is 192.168.1.50'', Image ''image/png'' ''iVBORw0KGgo='']\<rparr>,
               \<lparr>msg_role = Assistant, msg_content = [Thinking ''recall john@example.com'' None]\<rparr>]) of
         (Inl _, _, _) \<Rightarrow> False
       | (Inr _, req, S') \<Rightarrow>
           map msg_content (req_messages req) =
             [[Text ''my ip is <IP_1>'', Image ''image/png'' ''iVBORw0KGgo=''], [Thinking ''recall <EMAIL_1>'' None]] \<and>
           resp_content (fst (restore_response reference_matcher S'
             \<lparr>resp_id = ''r1'', resp_model = ''m'', resp_content = [Text ''blocked <IP_1> for <EMAIL_1>''],
              resp_finish_reason = Stop, resp_usage = None\<rparr>)) =
             [Text ''blocked 192.168.1.50 for john@example.com''])"

definition tool_input_of :: "content_block list \<Rightarrow> (value \<Rightarrow> bool) \<Rightarrow> bool" where
  "tool_input_of blocks P \<longleftrightarrow> nth_is blocks 0 (\<lambda>b. case b of ToolUse _ _ input \<Rightarrow> P input | _ \<Rightarrow> False)"

definition test_tool_input_json_redacted_and_restored :: bool where
  "test_tool_input_json_redacted_and_restored \<longleftrightarrow>
     default_session (\<lambda>S.
       case redact_request reference_matcher S (new_request ''m''
              [\<lparr>msg_role = User, msg_content =
                 [ToolUse ''call_1'' ''lookup''
                    (jobj [(''email'', String ''alice@example.com''),
                           (''nested'', jobj [(''note'', String ''ip 192.168.1.50'')]),
                           (''count'', Number (PosInt 3))])]\<rparr>]) of
         (Inl _, _, _) \<Rightarrow> False
       | (Inr _, req, S') \<Rightarrow>
           nth_is (req_messages req) 0 (\<lambda>m. tool_input_of (msg_content m) (\<lambda>input.
             at input ''email'' = String ''<EMAIL_1>'' \<and>
             at (at input ''nested'') ''note'' = String ''ip <IP_1>'' \<and>
             at input ''count'' = Number (PosInt 3))) \<and>
           tool_input_of (resp_content (fst (restore_response reference_matcher S'
             \<lparr>resp_id = ''r1'', resp_model = ''m'',
              resp_content = [ToolUse ''call_1'' ''lookup'' (jobj [(''email'', String ''<EMAIL_1>'')])],
              resp_finish_reason = Stop, resp_usage = None\<rparr>)))
             (\<lambda>input. at input ''email'' = String ''alice@example.com''))"

definition test_stream_restorer_restores_tokens_in_error_events :: bool where
  "test_stream_restorer_restores_tokens_in_error_events \<longleftrightarrow>
     default_session (\<lambda>S. redacting S ''mail 192.168.1.50'' (\<lambda>_ S'.
       restoring S' (sr_new S') (Error (Api ''invalid <IP_1>'')) (\<lambda>out _ _.
         case out of
           Some (Error e) \<Rightarrow> str_contains (error_to_string e) ''192.168.1.50'' \<and>
                            \<not> str_contains (error_to_string e) ''<IP_1>''
         | _ \<Rightarrow> False)))"

definition test_stream_restorer_restores_held_token_at_finish :: bool where
  "test_stream_restorer_restores_held_token_at_finish \<longleftrightarrow>
     default_session (\<lambda>S.
       case redact_request reference_matcher S (new_request ''m''
              [\<lparr>msg_role = User, msg_content = [Text ''192.168.1.50'']\<rparr>]) of
         (Inl _, _, _) \<Rightarrow> False
       | (Inr _, _, S0) \<Rightarrow>
           restoring S0 (sr_new S0) (MessageStart ''r1'' ''m'' None) (\<lambda>out S1 R1.
             out = Some (MessageStart ''r1'' ''m'' None) \<and>
           restoring S1 R1 (TextDelta ''<IP'') (\<lambda>out S2 R2. out = None \<and>
           restoring S2 R2 (TextDelta ''_1> ok'') (\<lambda>out S3 R3. out = Some (TextDelta ''192.168.1.50 ok'') \<and>
           restoring S3 R3 (ReasoningDelta ''nope <IP'') (\<lambda>out S4 R4. out = Some (ReasoningDelta ''nope '') \<and>
           restoring S4 R4 (ReasoningDelta ''_1>'') (\<lambda>out S5 R5. out = Some (ReasoningDelta ''192.168.1.50'') \<and>
           restoring S5 R5 (TextDelta []) (\<lambda>out S6 R6. out = None \<and>
           fst (sr_finish R6) = [])))))))"

definition test_stream_restorer_tool_args_channel :: bool where
  "test_stream_restorer_tool_args_channel \<longleftrightarrow>
     default_session (\<lambda>S. redacting S ''192.168.1.50'' (\<lambda>_ S0.
       restoring S0 (sr_new S0) (ToolCallDelta 0 ''call_1'' ''f'' ''{\"ip\":\"<IP'') (\<lambda>out S1 R1.
         arguments_of out = Some ''{\"ip\":\"'' \<and>
       restoring S1 R1 (ToolCallDelta 0 [] [] ''_1>\"}'') (\<lambda>out _ _.
         arguments_of out = Some ''192.168.1.50\"}''))))"

definition test_tool_args_restore_json_escapes_originals :: bool where
  "test_tool_args_restore_json_escapes_originals \<longleftrightarrow>
     session_with (with_rules [guard_rule ''QUOTED'' ''\"[^\"]*\"'' ''<QUOTED_{n}>'']) (\<lambda>S.
       redacting S ''say \"hello world\" now'' (\<lambda>_ S0.
       restoring S0 (sr_new S0) (ToolCallDelta 0 ''call_1'' ''f'' ''{\"msg\":\"<QUOTED'') (\<lambda>out1 S1 R1.
       restoring S1 R1 (ToolCallDelta 0 [] [] ''_1>\"}'') (\<lambda>out2 _ _.
         reads_json (unwrap_or (arguments_of out1) [] @ unwrap_or (arguments_of out2) [])
           (\<lambda>v. at v ''msg'' = String ''\"hello world\"'')))))"

definition test_stream_restorer_drops_empty_tool_call_delta :: bool where
  "test_stream_restorer_drops_empty_tool_call_delta \<longleftrightarrow>
     default_session (\<lambda>S. redacting S ''192.168.1.50'' (\<lambda>_ S0.
       restoring S0 (sr_new S0) (ToolCallDelta 0 [] [] ''<IP'') (\<lambda>held S1 R1. held = None \<and>
       restoring S1 R1 (ToolCallDelta 1 ''call_2'' ''f'' []) (\<lambda>started _ _. started \<noteq> None))))"

section \<open>Rejected configurations\<close>

definition test_invalid_vault_backend_fails_closed :: bool where
  "test_invalid_vault_backend_fails_closed \<longleftrightarrow>
     engine_error_of (guarded_config\<lparr>pc_vault := ''nqlite''\<rparr>) (\<lambda>e. e = UnsupportedVault ''nqlite'')"

definition rejected_template :: "string \<Rightarrow> string \<Rightarrow> bool" where
  "rejected_template replacement needle \<longleftrightarrow>
     engine_error_of (with_rules [guard_rule ''X'' ('''' @ bsl # ''bfoo'' @ bsl # ''b'') replacement]) (\<lambda>e.
       case e of BadReplacement _ what \<Rightarrow> str_contains what needle | _ \<Rightarrow> False)"

definition test_invalid_replacement_template_rejected :: bool where
  "test_invalid_replacement_template_rejected \<longleftrightarrow>
     rejected_template ''FOO'' (''must start with a single '' @ quoted ''<'') \<and>
     rejected_template ''<F<O{n}>'' ''must be non-empty and use only'' \<and>
     rejected_template ''<FOO{n}{n}>'' ''must contain exactly one'' \<and>
     rejected_template ''<FOO>'' ''must contain exactly one'' \<and>
     rejected_template ''<F O_{n}>'' ''must be non-empty and use only'' \<and>
     rejected_template ''<<X_{n}>'' ''must be non-empty and use only''"

definition test_digit_suffix_templates_rejected :: bool where
  "test_digit_suffix_templates_rejected \<longleftrightarrow>
     engine_error_of (with_rules [guard_rule ''A'' ('''' @ bsl # ''bfoo'' @ bsl # ''b'') ''<X_{n}>'', guard_rule ''B'' ('''' @ bsl # ''bbar'' @ bsl # ''b'') ''<X_1{n}>'']) (\<lambda>e.
       case e of CollidingTemplates _ _ _ _ \<Rightarrow> True | _ \<Rightarrow> False)"

definition test_invalid_rule_pattern_rejected :: bool where
  "test_invalid_rule_pattern_rejected \<longleftrightarrow>
     engine_error_of (with_rules [guard_rule ''X'' ''([unclosed'' ''<X_{n}>'']) (\<lambda>e.
       case e of InvalidPattern _ _ \<Rightarrow> True | _ \<Rightarrow> False)"

definition test_empty_matching_pattern_rejected :: bool where
  "test_empty_matching_pattern_rejected \<longleftrightarrow>
     list_all (\<lambda>bad. engine_error_of (with_rules [guard_rule ''X'' bad ''<X_{n}>'']) (\<lambda>e.
         case e of PatternMatchesEmpty _ \<Rightarrow> True | _ \<Rightarrow> False))
       [('''' @ bsl # ''b''), ''x*'', ''[A-Za-z]*'']"

definition test_replacement_without_token_grammar_rejected :: bool where
  "test_replacement_without_token_grammar_rejected \<longleftrightarrow>
     list_all (\<lambda>bad. engine_error_of (with_rules [guard_rule ''X'' ('''' @ bsl # ''bfoo'' @ bsl # ''b'') bad]) (\<lambda>e.
         case e of
           BadReplacement _ what \<Rightarrow>
             str_contains what (''must start with a single '' @ quoted ''<'') \<or>
             str_contains what (''must end with a single '' @ quoted ''>'') \<or>
             str_contains what ''must contain exactly one''
         | _ \<Rightarrow> False))
       [''TOK{n}'', ''<TOK{n}'', ''<TOK{n}X>'', ''{n}>'']"

definition test_duplicate_replacement_template_across_rules_rejected :: bool where
  "test_duplicate_replacement_template_across_rules_rejected \<longleftrightarrow>
     engine_error_of (with_rules [guard_rule ''A'' ('''' @ bsl # ''ba'' @ bsl # ''b'') ''<X_{n}>'', guard_rule ''B'' ('''' @ bsl # ''bb'' @ bsl # ''b'') ''<X_{n}>'']) (\<lambda>e.
       case e of SameTemplate _ _ _ \<Rightarrow> True | _ \<Rightarrow> False)"

section \<open>The tests pass\<close>

lemma privacy_engine_tests_1:
  "test_disabled_by_default"
  "test_invalid_vault_backend_fails_closed"
  "test_invalid_replacement_template_rejected"
  by code_simp+

lemma privacy_engine_tests_2:
  "test_digit_suffix_templates_rejected"
  "test_invalid_rule_pattern_rejected"
  "test_empty_matching_pattern_rejected"
  by code_simp+

lemma privacy_engine_tests_3:
  "test_replacement_without_token_grammar_rejected"
  "test_duplicate_replacement_template_across_rules_rejected"
  by code_simp+

lemma privacy_redaction_tests_1:
  "test_enabled_without_rules_uses_builtin_defaults"
  "test_redacts_email_and_ipv4"
  "test_reuses_token_for_repeated_value"
  by code_simp+

lemma privacy_redaction_tests_2:
  "test_allow_list_domain_skips_email"
  "test_allow_list_domain_covers_subdomains"
  "test_allow_list_pattern_skips_match"
  by code_simp+

lemma privacy_round_trip_tests_1:
  "test_custom_rule_replacement_template"
  "test_non_stream_round_trip"
  "test_restore_leaves_unknown_tokens_untouched"
  by code_simp+

lemma privacy_round_trip_tests_2:
  "test_token_terminator_prevents_prefix_collision"
  "test_later_rules_do_not_rematch_minted_tokens"
  "test_multiple_rules_apply_in_order"
  by code_simp+

lemma privacy_stream_tests:
  "test_fragmented_stream_restore" "test_stream_restore_multiple_tokens_across_fragments"
  "test_stream_finish_flushes_incomplete_token_literally" "test_stream_no_false_positive_on_plain_text"
  by code_simp+

lemma privacy_message_tests:
  "test_request_blocks_redacted_and_round_trip" "test_tool_input_json_redacted_and_restored"
  by code_simp+

lemma privacy_event_tests_1:
  "test_stream_restorer_restores_tokens_in_error_events"
  "test_stream_restorer_restores_held_token_at_finish"
  "test_stream_restorer_tool_args_channel"
  by code_simp+

lemma privacy_event_tests_2:
  "test_tool_args_restore_json_escapes_originals"
  "test_stream_restorer_drops_empty_tool_call_delta"
  by code_simp+

section \<open>The tests on long texts\<close>

lemma secret_is_tokenized:
  "default_session (\<lambda>S. redacting S ''secret 192.168.1.50'' (\<lambda>_ S'.
     keys S' = [''<IP_1>''] \<and> lookup S' ''<IP_1>'' = Some ''192.168.1.50''))"
  by code_simp

lemma default_session_redacting:
  assumes "default_session (\<lambda>S. redacting S text (\<lambda>t S'. P S'))"
    and "\<And>S'. session_ok S' \<Longrightarrow> P S' \<Longrightarrow> Q S'"
  shows "default_session (\<lambda>S. redacting S text (\<lambda>t S'. Q S'))"
proof -
  obtain E where E: "new_engine regex_text guarded_config = Inr E"
    "redacting (new_session E) text (\<lambda>t S'. P S')"
    using assms(1) by (auto simp: default_session_def session_with_def unwrapped_def split: sum.splits)
  then obtain t S' where r: "redact_text reference_matcher (new_session E) text = (Inr t, S')" "P S'"
    by (auto simp: redacting_def split: prod.splits sum.splits)
  have "session_ok S'"
    using redact_text_ok [OF reference_matcher_ok new_session_ok [OF new_engine_ok [OF E(1)]] r(1)] by blast
  with assms(2) E(1) r show ?thesis
    by (simp add: default_session_def session_with_def unwrapped_def redacting_def)
qed

lemma concat_chunks: "0 < n \<Longrightarrow> length xs \<le> k \<Longrightarrow> concat (chunks n xs k) = xs"
  by (induction n xs k rule: chunks.induct) auto

lemma concat_map_concat: "concat (map concat xs) = concat (concat xs)"
  by (induction xs) auto

lemma subst_plain:
  "CHR ''<'' \<notin> set plain \<Longrightarrow> subst [''<IP_1>''] g 0 (plain @ ''<IP_1>'') = plain @ g ''<IP_1>''"
  by (induction plain) (auto simp: tok_at_def)

text \<open>A text without \<open><\<close>, cut anywhere, and then the token: the text and the secret come out.\<close>

lemma fed_plain_then_token:
  assumes "session_ok S" "keys S = [''<IP_1>''] \<and> lookup S ''<IP_1>'' = Some ''192.168.1.50''"
    and "CHR ''<'' \<notin> set (concat fragments)"
    and P: "\<And>st. rs_buffer st = [] \<Longrightarrow> P (concat fragments @ ''192.168.1.50'') st"
  shows "fed_to_the_end S (fragments @ [''<IP_1>'']) P"
proof -
  obtain outs st S' where r: "rs_feed_all reference_matcher json_text S (rs_new S) (fragments @ [''<IP_1>'']) = Some (outs, st, S')"
    "emits json_text S (rs_new S) (concat (fragments @ [''<IP_1>''])) (concat outs) st"
    using rs_feed_all_emits [OF reference_matcher_ok assms(1) rs_new_ok [of S False], of json_text]
    unfolding rs_new_def by blast
  have "concat outs @ fst (rs_finish st) = subst (keys S) (spliced json_text False S) 0 (concat fragments @ ''<IP_1>'')"
    using emits_total [OF r(2) [unfolded rs_new_def]] by simp
  also have "\<dots> = concat fragments @ spliced json_text False S ''<IP_1>''"
    using subst_plain [OF assms(3)] assms(2) by simp
  also have "spliced json_text False S ''<IP_1>'' = ''192.168.1.50''"
    using assms(2) by (simp add: spliced_def splice_original_def original_def unwrap_or_def)
  finally show ?thesis using r(1) P [of "snd (rs_finish st)"]
    by (simp add: fed_to_the_end_def unwrapped_opt_def rs_finish_def)
qed

lemma large_runs_stay_bounded:
  assumes "CHR ''<'' \<notin> set big"
  shows "default_session (\<lambda>S. redacting S ''secret 192.168.1.50'' (\<lambda>_ S'.
        fed_to_the_end S' (chunks 333 big (length big) @ [''<IP_1>'']) (\<lambda>out stream.
          length out = length big + length ''192.168.1.50'' \<and>
          take (length big) out = big \<and>
          suffix ''192.168.1.50'' out \<and>
          length (rs_buffer stream) \<le> rs_max_token_len stream)))"
proof -
  have "concat (chunks 333 big (length big)) = big" by (simp add: concat_chunks)
  then show ?thesis using assms
    by (intro default_session_redacting [OF secret_is_tokenized] fed_plain_then_token) (auto simp: suffix_def)
qed

lemma privacy_large_runs: "test_stream_restore_large_plain_runs_stay_bounded"
proof -
  have "CHR ''<'' \<notin> set (replicate 10000 CHR ''a'')" by (simp add: set_replicate_conv_if)
  from large_runs_stay_bounded [OF this] show ?thesis
    unfolding test_stream_restore_large_plain_runs_stay_bounded_def Let_def by (simp only: length_replicate)
qed

lemma multibyte_text:
  assumes "CHR ''<'' \<notin> set big"
  shows "default_session (\<lambda>S. redacting S ''secret 192.168.1.50'' (\<lambda>_ S'.
        fed_to_the_end S' (map concat (chunks 9 (chars big) (length (chars big))) @ [''<IP_1>'']) (\<lambda>out _.
          length out = length big + length ''192.168.1.50'' \<and> suffix ''192.168.1.50'' out)))"
proof -
  have "concat (map concat (chunks 9 (chars big) (length (chars big)))) = big"
    by (simp add: concat_map_concat concat_chunks)
  then show ?thesis using assms
    by (intro default_session_redacting [OF secret_is_tokenized] fed_plain_then_token) (auto simp: suffix_def)
qed

lemma privacy_multibyte: "test_stream_restore_multibyte_text_does_not_panic"
proof -
  have "list_all (\<lambda>c. c \<noteq> CHR ''<'') japanese" by code_simp
  then have "CHR ''<'' \<notin> set (concat (replicate 40 japanese))" by (auto simp: list_all_iff set_replicate_conv_if)
  from multibyte_text [OF this] show ?thesis
    unfolding test_stream_restore_multibyte_text_does_not_panic_def Let_def .
qed

end
