(* ===== verification/ConfigFile.thy ===== *)
theory ConfigFile
  imports Config
begin

text \<open>
  From the TOML values of a configuration file to the configuration: what the attributes of the
  structs of \<open>src/config.rs\<close> and \<open>src/core/privacy.rs\<close> (\<open>Deserialize\<close>, \<open>default\<close>,
  \<open>deny_unknown_fields\<close>, \<open>rename\<close>) ask of \<open>serde\<close>. The text of TOML is the crate's: its reader is
  the parameter \<open>toml\<close>, and a document is a table with its keys in the order of the file.
\<close>

section \<open>Values and errors\<close>

datatype toml =
    TomlString string
  | TomlInteger i64
  | TomlFloat f64
  | TomlBoolean bool
  | TomlDatetime string
  | TomlArray "toml list"
  | TomlTable "(string \<times> toml) list"

type_synonym document = "(string \<times> toml) list"

datatype file_error =
    UnknownField string
  | DuplicateField string
  | MissingField string
  | WrongType
  | OutOfRange

definition field_error_text :: "string \<Rightarrow> string \<Rightarrow> string" where
  "field_error_text what name = what @ '' field `'' @ name @ ''`''"

fun file_error_text :: "file_error \<Rightarrow> string" where
  "file_error_text (UnknownField k) = field_error_text ''unknown'' k"
| "file_error_text (DuplicateField k) = field_error_text ''duplicate'' k"
| "file_error_text (MissingField k) = field_error_text ''missing'' k"
| "file_error_text WrongType = ''invalid type''"
| "file_error_text OutOfRange = ''invalid value''"

section \<open>Types of fields\<close>

fun de_string :: "toml \<Rightarrow> file_error + string" where
  "de_string (TomlString s) = Inr s"
| "de_string _ = Inl WrongType"

fun de_bool :: "toml \<Rightarrow> file_error + bool" where
  "de_bool (TomlBoolean b) = Inr b"
| "de_bool _ = Inl WrongType"

fun de_u64 :: "toml \<Rightarrow> file_error + u64" where
  "de_u64 (TomlInteger i) = (if 0 \<le> sint i then Inr i else Inl OutOfRange)"
| "de_u64 _ = Inl WrongType"

fun de_u16 :: "toml \<Rightarrow> file_error + u16" where
  "de_u16 (TomlInteger i) = (if 0 \<le> sint i \<and> sint i < 65536 then Inr (ucast i) else Inl OutOfRange)"
| "de_u16 _ = Inl WrongType"

definition mapped :: "('a \<Rightarrow> 'b) \<Rightarrow> 'e + 'a \<Rightarrow> 'e + 'b" where
  "mapped f r = (case r of Inl e \<Rightarrow> Inl e | Inr x \<Rightarrow> Inr (f x))"

fun de_items :: "('a \<Rightarrow> file_error + 'b) \<Rightarrow> 'a list \<Rightarrow> file_error + 'b list" where
  "de_items f [] = Inr []"
| "de_items f (v # vs) =
     (case f v of Inl e \<Rightarrow> Inl e | Inr x \<Rightarrow> mapped (Cons x) (de_items f vs))"

definition de_vec :: "(toml \<Rightarrow> file_error + 'a) \<Rightarrow> toml \<Rightarrow> file_error + 'a list" where
  "de_vec f v = (case v of TomlArray vs \<Rightarrow> de_items f vs | _ \<Rightarrow> Inl WrongType)"

definition de_strings :: "toml \<Rightarrow> file_error + string list" where
  "de_strings = de_vec de_string"

definition de_option :: "(toml \<Rightarrow> file_error + 'a) \<Rightarrow> toml \<Rightarrow> file_error + 'a option" where
  "de_option f v = mapped Some (f v)"

text \<open>\<open>HashMap<String, String>\<close>.\<close>

definition de_string_map :: "toml \<Rightarrow> file_error + (string \<times> string) list" where
  "de_string_map v =
     (case v of
        TomlTable es \<Rightarrow> de_items (\<lambda>(k, x). mapped (Pair k) (de_string x)) es
      | _ \<Rightarrow> Inl WrongType)"

section \<open>Structs\<close>

text \<open>
  The loop over the entries of a table: \<open>field\<close> reads one entry into the struct, or refuses its
  name; a field that occurs twice is refused. An array is read as the fields in their order.
\<close>

fun de_entries :: "(string \<Rightarrow> toml \<Rightarrow> 's \<Rightarrow> file_error + 's) \<Rightarrow> string list \<Rightarrow> document \<Rightarrow> 's \<Rightarrow> file_error + 's" where
  "de_entries field seen [] s = Inr s"
| "de_entries field seen ((k, v) # es) s =
     (if k \<in> set seen then Inl (DuplicateField k)
      else (case field k v s of Inl e \<Rightarrow> Inl e | Inr s' \<Rightarrow> de_entries field (k # seen) es s'))"

definition entries :: "string list \<Rightarrow> toml \<Rightarrow> document" where
  "entries names v = (case v of TomlTable es \<Rightarrow> es | TomlArray vs \<Rightarrow> zip names vs | _ \<Rightarrow> [])"

definition de_struct :: "string list \<Rightarrow> (string \<Rightarrow> toml \<Rightarrow> 's \<Rightarrow> file_error + 's) \<Rightarrow> 's \<Rightarrow> toml \<Rightarrow> file_error + 's" where
  "de_struct names field initial v =
     (case v of
        TomlTable _ \<Rightarrow> de_entries field [] (entries names v) initial
      | TomlArray _ \<Rightarrow> de_entries field [] (entries names v) initial
      | _ \<Rightarrow> Inl WrongType)"

text \<open>A struct without defaults: every field has to be there.\<close>

definition required :: "string \<Rightarrow> 'a option \<Rightarrow> file_error + 'a" where
  "required name x = (case x of None \<Rightarrow> Inl (MissingField name) | Some x \<Rightarrow> Inr x)"

definition header_field :: "string \<Rightarrow> toml \<Rightarrow> string option \<times> string option \<Rightarrow> file_error + (string option \<times> string option)" where
  "header_field k v p =
     (if k = ''name'' then mapped (\<lambda>x. (Some x, snd p)) (de_string v)
      else if k = ''value'' then mapped (\<lambda>x. (fst p, Some x)) (de_string v)
      else Inl (UnknownField k))"

definition de_header :: "toml \<Rightarrow> file_error + header_config" where
  "de_header v =
     (case de_struct [''name'', ''value''] header_field (None, None) v of
        Inl e \<Rightarrow> Inl e
      | Inr (n, x) \<Rightarrow>
          (case required ''name'' n of
             Inl e \<Rightarrow> Inl e
           | Inr n \<Rightarrow> mapped (\<lambda>x. \<lparr>hc_name = n, hc_value = x\<rparr>) (required ''value'' x)))"

definition rule_field :: "string \<Rightarrow> toml \<Rightarrow> string option \<times> string option \<times> string option
    \<Rightarrow> file_error + (string option \<times> string option \<times> string option)" where
  "rule_field k v p =
     (case p of (n, pat, r) \<Rightarrow>
        if k = ''name'' then mapped (\<lambda>x. (Some x, pat, r)) (de_string v)
        else if k = ''pattern'' then mapped (\<lambda>x. (n, Some x, r)) (de_string v)
        else if k = ''replacement'' then mapped (\<lambda>x. (n, pat, Some x)) (de_string v)
        else Inl (UnknownField k))"

definition de_rule :: "toml \<Rightarrow> file_error + rule_config" where
  "de_rule v =
     (case de_struct [''name'', ''pattern'', ''replacement''] rule_field (None, None, None) v of
        Inl e \<Rightarrow> Inl e
      | Inr (n, pat, r) \<Rightarrow>
          (case required ''name'' n of
             Inl e \<Rightarrow> Inl e
           | Inr n \<Rightarrow>
               (case required ''pattern'' pat of
                  Inl e \<Rightarrow> Inl e
                | Inr pat \<Rightarrow> mapped (\<lambda>r. \<lparr>rc_name = n, rc_pattern = pat, rc_replacement = r\<rparr>) (required ''replacement'' r))))"

text \<open>The structs with defaults: what is not in the file keeps the value of the default.\<close>

definition default_client :: client_config where
  "default_client = \<lparr>cc_protocols = [''openai'', ''anthropic'']\<rparr>"

definition client_field :: "string \<Rightarrow> toml \<Rightarrow> client_config \<Rightarrow> file_error + client_config" where
  "client_field k v s =
     (if k = ''protocols'' then mapped (\<lambda>x. s\<lparr>cc_protocols := x\<rparr>) (de_strings v)
      else Inl (UnknownField k))"

definition de_client :: "toml \<Rightarrow> file_error + client_config" where
  "de_client = de_struct [''protocols''] client_field default_client"

definition default_upstream :: upstream_config where
  "default_upstream = \<lparr>uc_protocol = ''openai'', uc_url = ''http://localhost:11434'', uc_authorization = [],
     uc_extra_headers = [], uc_timeout_ms = 60000\<rparr>"

definition upstream_field :: "string \<Rightarrow> toml \<Rightarrow> upstream_config \<Rightarrow> file_error + upstream_config" where
  "upstream_field k v s =
     (if k = ''protocol'' then mapped (\<lambda>x. s\<lparr>uc_protocol := x\<rparr>) (de_string v)
      else if k = ''url'' then mapped (\<lambda>x. s\<lparr>uc_url := x\<rparr>) (de_string v)
      else if k = ''authorization'' then mapped (\<lambda>x. s\<lparr>uc_authorization := x\<rparr>) (de_string v)
      else if k = ''extra_headers'' then mapped (\<lambda>x. s\<lparr>uc_extra_headers := x\<rparr>) (de_vec de_header v)
      else if k = ''timeout_ms'' then mapped (\<lambda>x. s\<lparr>uc_timeout_ms := x\<rparr>) (de_u64 v)
      else Inl (UnknownField k))"

definition de_upstream :: "toml \<Rightarrow> file_error + upstream_config" where
  "de_upstream = de_struct [''protocol'', ''url'', ''authorization'', ''extra_headers'', ''timeout_ms''] upstream_field default_upstream"

definition models_field :: "string \<Rightarrow> toml \<Rightarrow> models_config \<Rightarrow> file_error + models_config" where
  "models_field k v s =
     (if k = ''default'' then mapped (\<lambda>x. s\<lparr>mc_default := x\<rparr>) (de_string v)
      else if k = ''map'' then mapped (\<lambda>x. s\<lparr>mc_map := x\<rparr>) (de_string_map v)
      else if k = ''prefixes'' then mapped (\<lambda>x. s\<lparr>mc_prefixes := x\<rparr>) (de_strings v)
      else Inl (UnknownField k))"

definition de_models :: "toml \<Rightarrow> file_error + models_config" where
  "de_models = de_struct [''default'', ''map'', ''prefixes''] models_field \<lparr>mc_default = [], mc_map = [], mc_prefixes = []\<rparr>"

text \<open>The fields of \<open>ServerConfig\<close> have default functions of their own, which come before its \<open>Default\<close>.\<close>

definition default_host :: string where
  "default_host = ''127.0.0.1''"

definition default_port :: u16 where
  "default_port = 5000"

definition server_field :: "string \<Rightarrow> toml \<Rightarrow> server_config \<Rightarrow> file_error + server_config" where
  "server_field k v s =
     (if k = ''host'' then mapped (\<lambda>x. s\<lparr>sc_host := x\<rparr>) (de_string v)
      else if k = ''port'' then mapped (\<lambda>x. s\<lparr>sc_port := x\<rparr>) (de_u16 v)
      else Inl (UnknownField k))"

definition de_server :: "toml \<Rightarrow> file_error + server_config" where
  "de_server = de_struct [''host'', ''port''] server_field \<lparr>sc_host = default_host, sc_port = default_port\<rparr>"

definition auth_field :: "string \<Rightarrow> toml \<Rightarrow> auth_config \<Rightarrow> file_error + auth_config" where
  "auth_field k v s =
     (if k = ''api_keys'' then mapped (\<lambda>x. s\<lparr>ac_api_keys := x\<rparr>) (de_strings v)
      else Inl (UnknownField k))"

definition de_auth :: "toml \<Rightarrow> file_error + auth_config" where
  "de_auth = de_struct [''api_keys''] auth_field \<lparr>ac_api_keys = []\<rparr>"

definition allow_list_field :: "string \<Rightarrow> toml \<Rightarrow> allow_list_config \<Rightarrow> file_error + allow_list_config" where
  "allow_list_field k v s =
     (if k = ''domains'' then mapped (\<lambda>x. s\<lparr>al_domains := x\<rparr>) (de_strings v)
      else if k = ''patterns'' then mapped (\<lambda>x. s\<lparr>al_patterns := x\<rparr>) (de_strings v)
      else Inl (UnknownField k))"

definition de_allow_list :: "toml \<Rightarrow> file_error + allow_list_config" where
  "de_allow_list = de_struct [''domains'', ''patterns''] allow_list_field \<lparr>al_domains = [], al_patterns = []\<rparr>"

definition privacy_field :: "string \<Rightarrow> toml \<Rightarrow> privacy_config \<Rightarrow> file_error + privacy_config" where
  "privacy_field k v s =
     (if k = ''enabled'' then mapped (\<lambda>x. s\<lparr>pc_enabled := x\<rparr>) (de_bool v)
      else if k = ''vault'' then mapped (\<lambda>x. s\<lparr>pc_vault := x\<rparr>) (de_string v)
      else if k = ''rules'' then mapped (\<lambda>x. s\<lparr>pc_rules := x\<rparr>) (de_vec de_rule v)
      else if k = ''allow_list'' then mapped (\<lambda>x. s\<lparr>pc_allow_list := x\<rparr>) (de_allow_list v)
      else Inl (UnknownField k))"

definition de_privacy :: "toml \<Rightarrow> file_error + privacy_config" where
  "de_privacy = de_struct [''enabled'', ''vault'', ''rules'', ''allow_list''] privacy_field default_privacy_config"

definition memory_field :: "string \<Rightarrow> toml \<Rightarrow> memory_config \<Rightarrow> file_error + memory_config" where
  "memory_field k v s =
     (if k = ''enabled'' then mapped (\<lambda>x. s\<lparr>mm_enabled := x\<rparr>) (de_bool v)
      else if k = ''path'' then mapped (\<lambda>x. s\<lparr>mm_path := x\<rparr>) (de_option de_string v)
      else if k = ''ttl_hours'' then mapped (\<lambda>x. s\<lparr>mm_ttl_hours := x\<rparr>) (de_option de_u64 v)
      else if k = ''flush_interval_secs'' then mapped (\<lambda>x. s\<lparr>mm_flush_interval_secs := x\<rparr>) (de_option de_u64 v)
      else Inl (UnknownField k))"

definition de_memory :: "toml \<Rightarrow> file_error + memory_config" where
  "de_memory = de_struct [''enabled'', ''path'', ''ttl_hours'', ''flush_interval_secs''] memory_field
     \<lparr>mm_enabled = False, mm_path = None, mm_ttl_hours = None, mm_flush_interval_secs = None\<rparr>"

section \<open>The file\<close>

definition config_field :: "string \<Rightarrow> toml \<Rightarrow> config \<Rightarrow> file_error + config" where
  "config_field k v s =
     (if k = ''client'' then mapped (\<lambda>x. s\<lparr>cf_client := x\<rparr>) (de_client v)
      else if k = ''upstream'' then mapped (\<lambda>x. s\<lparr>cf_upstream := x\<rparr>) (de_upstream v)
      else if k = ''models'' then mapped (\<lambda>x. s\<lparr>cf_models := x\<rparr>) (de_models v)
      else if k = ''server'' then mapped (\<lambda>x. s\<lparr>cf_server := x\<rparr>) (de_server v)
      else if k = ''auth'' then mapped (\<lambda>x. s\<lparr>cf_auth := x\<rparr>) (de_auth v)
      else if k = ''privacy_guard'' then mapped (\<lambda>x. s\<lparr>cf_privacy := x\<rparr>) (de_privacy v)
      else if k = ''memory'' then mapped (\<lambda>x. s\<lparr>cf_memory := x\<rparr>) (de_memory v)
      else Inl (UnknownField k))"

definition config_of :: "document \<Rightarrow> file_error + config" where
  "config_of doc = de_entries config_field [] doc default_config"

text \<open>\<open>toml::from_str::<Config>\<close>: the crate reads the text, the structs read the document.\<close>

definition config_from_str :: "(string \<Rightarrow> string + document) \<Rightarrow> string \<Rightarrow> string + config" where
  "config_from_str toml raw =
     (case toml raw of
        Inl e \<Rightarrow> Inl e
      | Inr doc \<Rightarrow> (case config_of doc of Inl e \<Rightarrow> Inl (file_error_text e) | Inr cfg \<Rightarrow> Inr cfg))"

section \<open>What a struct that was read says of its table\<close>

text \<open>The names are those that \<open>field\<close> knows, each at most once.\<close>

lemma de_entries_known:
  assumes "de_entries field seen es s = Inr s'" "\<And>k v s s'. field k v s = Inr s' \<Longrightarrow> k \<in> K"
  shows "fst ` set es \<subseteq> K"
  using assms(1)
proof (induction es arbitrary: seen s)
  case (Cons e es)
  then show ?case using assms(2) by (cases e) (auto split: if_splits sum.splits)
qed simp

text \<open>
  One field \<open>get\<close> of the struct: when the table has the key that writes it, its value is what
  \<open>de\<close> reads there, otherwise it is what it was.
\<close>

lemma de_entries_keeps:
  assumes "de_entries field seen es s = Inr s'" "k \<in> set seen"
    and "\<And>k' v s s'. k' \<noteq> k \<Longrightarrow> field k' v s = Inr s' \<Longrightarrow> get s' = get s"
  shows "get s' = get s \<and> map_of es k = None"
  using assms(1,2)
proof (induction es arbitrary: seen s)
  case (Cons e es)
  obtain k' v where e: "e = (k', v)" by (cases e)
  with Cons.prems obtain s1 where "k' \<noteq> k" "field k' v s = Inr s1" "de_entries field (k' # seen) es s1 = Inr s'"
    by (auto split: if_splits sum.splits)
  then show ?case using Cons.IH [of "k' # seen" s1] Cons.prems(2) assms(3) [of k' v s s1] e by auto
qed simp

lemma de_entries_get:
  assumes "de_entries field seen es s = Inr s'"
    and "\<And>k' v s s'. k' \<noteq> k \<Longrightarrow> field k' v s = Inr s' \<Longrightarrow> get s' = get s"
    and "\<And>v s s'. field k v s = Inr s' \<Longrightarrow> de v = Inr (get s')"
  shows "case map_of es k of None \<Rightarrow> get s' = get s | Some v \<Rightarrow> de v = Inr (get s')"
  using assms(1)
proof (induction es arbitrary: seen s)
  case (Cons e es)
  obtain k' v where e: "e = (k', v)" by (cases e)
  with Cons.prems obtain s1 where s1: "field k' v s = Inr s1" "de_entries field (k' # seen) es s1 = Inr s'"
    by (auto split: if_splits sum.splits)
  show ?case
  proof (cases "k' = k")
    case True
    then show ?thesis
      using de_entries_keeps [OF s1(2), of k get] assms(2) assms(3) [of v s s1] s1(1) e by simp
  next
    case False
    then show ?thesis using Cons.IH [OF s1(2)] assms(2) [OF False s1(1)] e by (auto split: option.splits)
  qed
qed simp

lemma mapped_Inr: "mapped f r = Inr y \<longleftrightarrow> (\<exists>x. r = Inr x \<and> y = f x)"
  by (cases r) (auto simp: mapped_def)

lemma de_struct_entries: "de_struct names field d v = Inr s \<Longrightarrow> de_entries field [] (entries names v) d = Inr s"
  by (cases v) (auto simp: de_struct_def)

section \<open>What opens the gateway is written in the file\<close>

definition sections :: "string set" where
  "sections = {''client'', ''upstream'', ''models'', ''server'', ''auth'', ''privacy_guard'', ''memory''}"

lemma config_field_known: "config_field k v s = Inr s' \<Longrightarrow> k \<in> sections"
  by (auto simp: config_field_def sections_def split: if_splits)

lemma config_of_server:
  assumes "config_of doc = Inr cfg"
  shows "case map_of doc ''server'' of None \<Rightarrow> cf_server cfg = cf_server default_config | Some v \<Rightarrow> de_server v = Inr (cf_server cfg)"
  using assms unfolding config_of_def
  by (rule de_entries_get) (auto simp: config_field_def mapped_Inr split: if_splits)

lemma config_of_auth:
  assumes "config_of doc = Inr cfg"
  shows "case map_of doc ''auth'' of None \<Rightarrow> cf_auth cfg = cf_auth default_config | Some v \<Rightarrow> de_auth v = Inr (cf_auth cfg)"
  using assms unfolding config_of_def
  by (rule de_entries_get) (auto simp: config_field_def mapped_Inr split: if_splits)

lemma de_server_host:
  assumes "de_server v = Inr s"
  shows "case map_of (entries [''host'', ''port''] v) ''host'' of None \<Rightarrow> sc_host s = default_host | Some x \<Rightarrow> de_string x = Inr (sc_host s)"
proof -
  have "de_entries server_field [] (entries [''host'', ''port''] v) \<lparr>sc_host = default_host, sc_port = default_port\<rparr> = Inr s"
    using assms by (simp add: de_server_def de_struct_entries)
  then have "case map_of (entries [''host'', ''port''] v) ''host'' of
      None \<Rightarrow> sc_host s = sc_host \<lparr>sc_host = default_host, sc_port = default_port\<rparr> | Some x \<Rightarrow> de_string x = Inr (sc_host s)"
    by (rule de_entries_get) (auto simp: server_field_def mapped_Inr split: if_splits)
  then show ?thesis by (simp split: option.splits)
qed

lemma de_auth_keys:
  assumes "de_auth v = Inr s"
  shows "fst ` set (entries [''api_keys''] v) \<subseteq> {''api_keys''} \<and>
    (case map_of (entries [''api_keys''] v) ''api_keys'' of
       None \<Rightarrow> ac_api_keys s = [] | Some x \<Rightarrow> de_strings x = Inr (ac_api_keys s))"
proof -
  have e: "de_entries auth_field [] (entries [''api_keys''] v) \<lparr>ac_api_keys = []\<rparr> = Inr s"
    using assms by (simp add: de_auth_def de_struct_entries)
  have "fst ` set (entries [''api_keys''] v) \<subseteq> {''api_keys''}"
    by (rule de_entries_known [OF e]) (auto simp: auth_field_def split: if_splits)
  moreover have "case map_of (entries [''api_keys''] v) ''api_keys'' of
       None \<Rightarrow> ac_api_keys s = ac_api_keys \<lparr>ac_api_keys = []\<rparr> | Some x \<Rightarrow> de_strings x = Inr (ac_api_keys s)"
    by (rule de_entries_get [OF e]) (auto simp: auth_field_def mapped_Inr split: if_splits)
  ultimately show ?thesis by (simp split: option.splits)
qed

lemma de_strings_Nil: "de_strings v = Inr [] \<longleftrightarrow> v = TomlArray []"
  by (cases v) (auto simp: de_strings_def de_vec_def mapped_def elim!: de_items.elims split: sum.splits)

lemma de_string_Inr: "de_string v = Inr s \<longleftrightarrow> v = TomlString s"
  by (cases v) auto

text \<open>What a document has at a key of a section.\<close>

definition written :: "document \<Rightarrow> string \<Rightarrow> string list \<Rightarrow> string \<Rightarrow> toml option" where
  "written doc sec names key = Option.bind (map_of doc sec) (\<lambda>v. map_of (entries names v) key)"

text \<open>
  C35: a configuration that opens the gateway to every client on a reachable interface was written so:
  the file that was read (\<open>CONFIG_PATH\<close>, or \<open>config.toml\<close> when the variable is not set) names the
  address, lists no keys, and has no section and no entry of \<open>[auth]\<close> with another name, so no
  missing file, omitted section or misspelt key leads to it.
\<close>

theorem open_proxy_is_written:
  assumes "load H (config_from_str toml) fs config_path = Inr cfg" "is_open_proxy cfg"
  shows "\<exists>raw doc host. fs (unwrap_or config_path ''config.toml'') = Some (Inr raw) \<and> toml raw = Inr doc \<and>
    config_of doc = Inr cfg \<and> validate H cfg = Inr () \<and>
    fst ` set doc \<subseteq> sections \<and>
    written doc ''server'' [''host'', ''port''] ''host'' = Some (TomlString host) \<and> \<not> host_is_loopback host \<and>
    written doc ''auth'' [''api_keys''] ''api_keys'' \<in> {None, Some (TomlArray [])} \<and>
    (\<forall>v. map_of doc ''auth'' = Some v \<longrightarrow> fst ` set (entries [''api_keys''] v) \<subseteq> {''api_keys''})"
proof -
  obtain raw where raw: "fs (unwrap_or config_path ''config.toml'') = Some (Inr raw)"
      "config_from_str toml raw = Inr cfg" "validate H cfg = Inr ()"
    using open_proxy_is_explicit [OF assms] by blast
  then obtain doc where doc: "toml raw = Inr doc" "config_of doc = Inr cfg"
    by (auto simp: config_from_str_def split: sum.splits)
  have loop: "host_is_loopback default_host" by (simp add: default_host_def host_is_loopback_def)
  have "sc_host (cf_server cfg) \<noteq> default_host" and keys: "ac_api_keys (cf_auth cfg) = []"
    using assms(2) loop by (auto simp: is_open_proxy_def)
  then obtain v where v: "map_of doc ''server'' = Some v" "de_server v = Inr (cf_server cfg)"
    using config_of_server [OF doc(2)] by (auto simp: default_config_def default_host_def split: option.splits)
  then have host: "written doc ''server'' [''host'', ''port''] ''host'' = Some (TomlString (sc_host (cf_server cfg)))"
    using de_server_host [OF v(2)] \<open>sc_host (cf_server cfg) \<noteq> default_host\<close>
    by (auto simp: written_def de_string_Inr split: option.splits)
  have auth: "written doc ''auth'' [''api_keys''] ''api_keys'' \<in> {None, Some (TomlArray [])} \<and>
    (\<forall>v. map_of doc ''auth'' = Some v \<longrightarrow> fst ` set (entries [''api_keys''] v) \<subseteq> {''api_keys''})"
  proof (cases "map_of doc ''auth''")
    case None
    then show ?thesis by (simp add: written_def)
  next
    case (Some a)
    then have "de_auth a = Inr (cf_auth cfg)" using config_of_auth [OF doc(2)] by simp
    from de_auth_keys [OF this] show ?thesis
      using Some keys by (auto simp: written_def de_strings_Nil split: option.splits)
  qed
  have "fst ` set doc \<subseteq> sections"
    using de_entries_known [OF doc(2) [unfolded config_of_def], of sections] config_field_known by blast
  with raw doc host auth assms(2) show ?thesis by (auto simp: is_open_proxy_def)
qed

definition open_document :: document where
  "open_document = [(''server'', TomlTable [(''host'', TomlString ''0.0.0.0'')]), (''auth'', TomlTable [])]"

definition opened_config :: config where
  "opened_config = default_config\<lparr>cf_server := \<lparr>sc_host = ''0.0.0.0'', sc_port = 5000\<rparr>\<rparr>"

lemma open_document_loads:
  "load example_http (config_from_str (\<lambda>raw. Inr open_document)) example_files None = Inr opened_config"
proof -
  have "config_of open_document = Inr opened_config" by code_simp
  moreover have "validate example_http opened_config = Inr ()"
    unfolding validate_ok by (simp add: example_http_def opened_config_def default_config_def)
  ultimately show ?thesis
    by (simp add: load_def load_path_def example_files_def config_from_str_def)
qed

theorem open_proxy_is_written_witness:
  "is_open_proxy opened_config \<and> written open_document ''server'' [''host'', ''port''] ''host'' = Some (TomlString ''0.0.0.0'')"
proof -
  have opened: "is_open_proxy opened_config" by code_simp
  then have "\<exists>raw doc host. example_files (unwrap_or None ''config.toml'') = Some (Inr raw) \<and>
      Inr open_document = (Inr doc :: string + document) \<and>
      written doc ''server'' [''host'', ''port''] ''host'' = Some (TomlString host)"
    using open_proxy_is_written [OF open_document_loads] by blast
  then show ?thesis using opened by (auto simp: written_def open_document_def entries_def)
qed

section \<open>Every configuration can be written\<close>

definition toml_strings :: "string list \<Rightarrow> toml" where
  "toml_strings ss = TomlArray (map TomlString ss)"

definition toml_header :: "header_config \<Rightarrow> toml" where
  "toml_header h = TomlTable [(''name'', TomlString (hc_name h)), (''value'', TomlString (hc_value h))]"

definition toml_rule :: "rule_config \<Rightarrow> toml" where
  "toml_rule r = TomlTable [(''name'', TomlString (rc_name r)), (''pattern'', TomlString (rc_pattern r)),
     (''replacement'', TomlString (rc_replacement r))]"

definition toml_optional :: "string \<Rightarrow> ('a \<Rightarrow> toml) \<Rightarrow> 'a option \<Rightarrow> document" where
  "toml_optional k f x = (case x of None \<Rightarrow> [] | Some x \<Rightarrow> [(k, f x)])"

definition document_of :: "config \<Rightarrow> document" where
  "document_of c =
     [(''client'', TomlTable [(''protocols'', toml_strings (cc_protocols (cf_client c)))]),
      (''upstream'', let u = cf_upstream c in TomlTable
         [(''protocol'', TomlString (uc_protocol u)), (''url'', TomlString (uc_url u)),
          (''authorization'', TomlString (uc_authorization u)),
          (''extra_headers'', TomlArray (map toml_header (uc_extra_headers u))),
          (''timeout_ms'', TomlInteger (uc_timeout_ms u))]),
      (''models'', let m = cf_models c in TomlTable
         [(''default'', TomlString (mc_default m)),
          (''map'', TomlTable (map (\<lambda>(k, x). (k, TomlString x)) (mc_map m))),
          (''prefixes'', toml_strings (mc_prefixes m))]),
      (''server'', TomlTable [(''host'', TomlString (sc_host (cf_server c))), (''port'', TomlInteger (ucast (sc_port (cf_server c))))]),
      (''auth'', TomlTable [(''api_keys'', toml_strings (ac_api_keys (cf_auth c)))]),
      (''privacy_guard'', let p = cf_privacy c in TomlTable
         [(''enabled'', TomlBoolean (pc_enabled p)), (''vault'', TomlString (pc_vault p)),
          (''rules'', TomlArray (map toml_rule (pc_rules p))),
          (''allow_list'', TomlTable [(''domains'', toml_strings (al_domains (pc_allow_list p))),
             (''patterns'', toml_strings (al_patterns (pc_allow_list p)))])]),
      (''memory'', let m = cf_memory c in TomlTable
         ([(''enabled'', TomlBoolean (mm_enabled m))] @ toml_optional ''path'' TomlString (mm_path m) @
          toml_optional ''ttl_hours'' TomlInteger (mm_ttl_hours m) @
          toml_optional ''flush_interval_secs'' TomlInteger (mm_flush_interval_secs m)))]"

text \<open>The integers of TOML are signed.\<close>

definition toml_integers :: "config \<Rightarrow> bool" where
  "toml_integers c \<longleftrightarrow>
     0 \<le> sint (uc_timeout_ms (cf_upstream c)) \<and>
     (\<forall>n. mm_ttl_hours (cf_memory c) = Some n \<longrightarrow> 0 \<le> sint n) \<and>
     (\<forall>n. mm_flush_interval_secs (cf_memory c) = Some n \<longrightarrow> 0 \<le> sint n)"

lemma de_items_map: "(\<And>x. x \<in> set xs \<Longrightarrow> f (g x) = Inr (h x)) \<Longrightarrow> de_items f (map g xs) = Inr (map h xs)"
  by (induction xs) (auto simp: mapped_def)

lemma de_strings_toml: "de_strings (toml_strings ss) = Inr ss"
  using de_items_map [of ss de_string TomlString "\<lambda>s. s"]
  by (simp add: de_strings_def toml_strings_def de_vec_def)

lemma de_header_toml: "de_header (toml_header h) = Inr h"
  by (simp add: de_header_def toml_header_def de_struct_def entries_def header_field_def mapped_def required_def)

lemma de_rule_toml: "de_rule (toml_rule r) = Inr r"
  by (simp add: de_rule_def toml_rule_def de_struct_def entries_def rule_field_def mapped_def required_def)

lemma de_string_map_toml: "de_string_map (TomlTable (map (\<lambda>(k, x). (k, TomlString x)) m)) = Inr m"
  using de_items_map [of m "\<lambda>(k, x). mapped (Pair k) (de_string x)" "\<lambda>(k, x). (k, TomlString x)" "\<lambda>p. p"]
  by (auto simp: de_string_map_def mapped_def)

lemmas struct_simps = de_struct_def entries_def mapped_Inr mapped_def de_strings_toml Let_def

lemma de_upstream_toml:
  assumes "0 \<le> sint (uc_timeout_ms u)"
  shows "de_upstream (TomlTable
         [(''protocol'', TomlString (uc_protocol u)), (''url'', TomlString (uc_url u)),
          (''authorization'', TomlString (uc_authorization u)),
          (''extra_headers'', TomlArray (map toml_header (uc_extra_headers u))),
          (''timeout_ms'', TomlInteger (uc_timeout_ms u))]) = Inr u"
  using assms de_items_map [of "uc_extra_headers u" de_header toml_header "\<lambda>h. h"]
  by (simp add: de_upstream_def upstream_field_def struct_simps de_vec_def de_header_toml)

lemma de_privacy_toml:
  "de_privacy (TomlTable
         [(''enabled'', TomlBoolean (pc_enabled p)), (''vault'', TomlString (pc_vault p)),
          (''rules'', TomlArray (map toml_rule (pc_rules p))),
          (''allow_list'', TomlTable [(''domains'', toml_strings (al_domains (pc_allow_list p))),
             (''patterns'', toml_strings (al_patterns (pc_allow_list p)))])]) = Inr p"
  using de_items_map [of "pc_rules p" de_rule toml_rule "\<lambda>r. r"]
  by (simp add: de_privacy_def privacy_field_def de_allow_list_def allow_list_field_def struct_simps de_vec_def de_rule_toml)

lemma de_memory_toml:
  assumes "\<forall>n. mm_ttl_hours m = Some n \<longrightarrow> 0 \<le> sint n" "\<forall>n. mm_flush_interval_secs m = Some n \<longrightarrow> 0 \<le> sint n"
  shows "de_memory (TomlTable
         ([(''enabled'', TomlBoolean (mm_enabled m))] @ toml_optional ''path'' TomlString (mm_path m) @
          toml_optional ''ttl_hours'' TomlInteger (mm_ttl_hours m) @
          toml_optional ''flush_interval_secs'' TomlInteger (mm_flush_interval_secs m))) = Inr m"
  using assms
  by (cases "mm_path m"; cases "mm_ttl_hours m"; cases "mm_flush_interval_secs m")
    (simp_all add: de_memory_def memory_field_def struct_simps toml_optional_def de_option_def)

lemma server_port_integer: "0 \<le> sint (ucast (p :: u16) :: i64) \<and> sint (ucast p :: i64) < 65536 \<and> (ucast (ucast p :: i64) :: u16) = p"
proof -
  have b: "0 \<le> uint p \<and> uint p < 65536" using unsigned_less [of p] by (auto simp: unsigned_greater_eq)
  then have u: "uint (ucast p :: i64) = uint p" by (simp add: unsigned_ucast_eq take_bit_int_eq_self)
  have "signed_take_bit 63 (uint p) = uint p"
    by (rule signed_take_bit_int_eq_self) (use b in \<open>auto intro: order_trans [of _ 0]\<close>)
  with u have "sint (ucast p :: i64) = uint p" by (simp add: sint_uint)
  moreover have "(ucast (ucast p :: i64) :: u16) = p" 
    using u by (metis ucast_eq word_of_int_uint)
  ultimately show ?thesis using b by simp
qed

lemma de_server_toml:
  "de_server (TomlTable [(''host'', TomlString (sc_host s)), (''port'', TomlInteger (ucast (sc_port s)))]) = Inr s"
  using server_port_integer [of "sc_port s"]
  by (simp add: de_server_def server_field_def struct_simps)

lemma config_document_roundtrip:
  assumes "toml_integers c"
  shows "config_of (document_of c) = Inr c"
  using assms de_upstream_toml [of "cf_upstream c"] de_privacy_toml [of "cf_privacy c"] de_memory_toml [of "cf_memory c"]
    de_server_toml [of "cf_server c"] de_string_map_toml [of "mc_map (cf_models c)"]
  by (simp add: config_of_def document_of_def config_field_def toml_integers_def struct_simps
    de_client_def client_field_def de_models_def models_field_def de_auth_def auth_field_def)

end
