(* ===== verification/TomlText.thy ===== *)
theory TomlText
  imports ConfigFile JsonText
begin

text \<open>
  A concrete reader of TOML documents, for the configurations that the repository's tests and its
  example file write: comments, tables, arrays of tables, bare, quoted and dotted keys, basic and
  literal strings, integers, booleans, arrays and inline tables on one line. The model takes the
  \<open>toml\<close> crate as a parameter; this instance stands for it in the tests.
\<close>

section \<open>Values\<close>

definition skip_blanks :: "string \<Rightarrow> string" where
  "skip_blanks = dropWhile (\<lambda>c. c = CHR '' '' \<or> c = CHR 0x09)"

definition line_end :: "string \<Rightarrow> bool" where
  "line_end s \<longleftrightarrow> (case skip_blanks s of [] \<Rightarrow> True | c # _ \<Rightarrow> c = CHR ''#'' \<or> c = CHR 0x0D)"

fun read_basic :: "string \<Rightarrow> string \<Rightarrow> (string \<times> string) option" where
  "read_basic [] acc = None"
| "read_basic [c] acc = (if c = CHR 0x22 then Some (rev acc, []) else None)"
| "read_basic (c # d # s) acc =
     (if c = CHR 0x22 then Some (rev acc, d # s)
      else if c = CHR 0x5C then (case escaped d of None \<Rightarrow> None | Some x \<Rightarrow> read_basic s (x # acc))
      else read_basic (d # s) (c # acc))"

definition bare_char :: "char \<Rightarrow> bool" where
  "bare_char c \<longleftrightarrow> is_ascii_alphanumeric c \<or> c = CHR ''_'' \<or> c = CHR ''-''"

definition span_while :: "(char \<Rightarrow> bool) \<Rightarrow> string \<Rightarrow> string \<times> string" where
  "span_while f s = (takeWhile f s, dropWhile f s)"

definition read_key_part :: "string \<Rightarrow> (string \<times> string) option" where
  "read_key_part s =
     (case skip_blanks s of
        [] \<Rightarrow> None
      | c # t \<Rightarrow>
          if c = CHR 0x22 then read_basic t []
          else if c = CHR 0x27 then split_once_char CHR 0x27 t
          else (case span_while bare_char (c # t) of (k, r) \<Rightarrow> if k = [] then None else Some (k, r)))"

text \<open>Keys, with their number of parts bounded by the fuel.\<close>

fun read_keys :: "nat \<Rightarrow> string \<Rightarrow> (string list \<times> string) option" where
  "read_keys 0 s = None"
| "read_keys (Suc n) s =
     (case read_key_part s of
        None \<Rightarrow> None
      | Some (k, r) \<Rightarrow>
          (case skip_blanks r of
             [] \<Rightarrow> Some ([k], [])
           | c # t \<Rightarrow> if c = CHR ''.'' then map_option (\<lambda>(ks, q). (k # ks, q)) (read_keys n t) else Some ([k], c # t)))"

definition read_scalar :: "string \<Rightarrow> toml option" where
  "read_scalar w =
     (if w = ''true'' then Some (TomlBoolean True)
      else if w = ''false'' then Some (TomlBoolean False)
      else
        (let neg = prefix ''-'' w; ds = filter (\<lambda>c. c \<noteq> CHR ''_'') (if neg then tl w else w) in
         if digits1 ds \<and> read_digits ds < 2 ^ 63
         then Some (TomlInteger (word_of_int (if neg then - read_digits ds else read_digits ds)))
         else None))"

text \<open>Values: every step consumes a character at least, so the length of the line is enough fuel.\<close>

fun read_toml :: "nat \<Rightarrow> string \<Rightarrow> (toml \<times> string) option"
  and read_toml_items :: "nat \<Rightarrow> string \<Rightarrow> (toml list \<times> string) option"
  and read_toml_pairs :: "nat \<Rightarrow> string \<Rightarrow> (document \<times> string) option" where
  "read_toml 0 s = None"
| "read_toml (Suc n) s =
     (case skip_blanks s of
        [] \<Rightarrow> None
      | c # t \<Rightarrow>
          if c = CHR 0x22 then map_option (\<lambda>(x, r). (TomlString x, r)) (read_basic t [])
          else if c = CHR 0x27 then map_option (\<lambda>(x, r). (TomlString x, r)) (split_once_char CHR 0x27 t)
          else if c = CHR ''['' then map_option (\<lambda>(vs, r). (TomlArray vs, r)) (read_toml_items n t)
          else if c = CHR ''{'' then map_option (\<lambda>(es, r). (TomlTable es, r)) (read_toml_pairs n t)
          else (case span_while bare_char (c # t) of (w, r) \<Rightarrow> map_option (\<lambda>v. (v, r)) (read_scalar w)))"
| "read_toml_items 0 s = None"
| "read_toml_items (Suc n) s =
     (case skip_blanks s of
        [] \<Rightarrow> None
      | c # t \<Rightarrow>
          if c = CHR '']'' then Some ([], t)
          else
            (case read_toml n (c # t) of
               None \<Rightarrow> None
             | Some (v, r) \<Rightarrow>
                 (case skip_blanks r of
                    [] \<Rightarrow> None
                  | d # q \<Rightarrow>
                      if d = CHR '','' then map_option (\<lambda>(vs, q'). (v # vs, q')) (read_toml_items n q)
                      else if d = CHR '']'' then Some ([v], q)
                      else None)))"
| "read_toml_pairs 0 s = None"
| "read_toml_pairs (Suc n) s =
     (case skip_blanks s of
        [] \<Rightarrow> None
      | c # t \<Rightarrow>
          if c = CHR ''}'' then Some ([], t)
          else
            (case read_key_part (c # t) of
               None \<Rightarrow> None
             | Some (k, r) \<Rightarrow>
                 (case skip_blanks r of
                    [] \<Rightarrow> None
                  | e # q \<Rightarrow>
                      if e \<noteq> CHR ''='' then None
                      else
                        (case read_toml n q of
                           None \<Rightarrow> None
                         | Some (v, r) \<Rightarrow>
                             (case skip_blanks r of
                                [] \<Rightarrow> None
                              | d # q \<Rightarrow>
                                  if d = CHR '','' then map_option (\<lambda>(es, q'). ((k, v) # es, q')) (read_toml_pairs n q)
                                  else if d = CHR ''}'' then Some ([(k, v)], q)
                                  else None)))))"

section \<open>Documents\<close>

text \<open>A change of the table at a path, which is made when it is not there; an array means its last table.\<close>

fun at_path :: "string list \<Rightarrow> (document \<Rightarrow> document option) \<Rightarrow> document \<Rightarrow> document option" where
  "at_path [] f d = f d"
| "at_path (k # ks) f d =
     (case map_of d k of
        None \<Rightarrow> map_option (\<lambda>t. d @ [(k, TomlTable t)]) (at_path ks f [])
      | Some (TomlTable t) \<Rightarrow> map_option (\<lambda>t'. AList.update k (TomlTable t') d) (at_path ks f t)
      | Some (TomlArray vs) \<Rightarrow>
          (case rev vs of
             TomlTable t # rest \<Rightarrow>
               map_option (\<lambda>t'. AList.update k (TomlArray (rev (TomlTable t' # rest))) d) (at_path ks f t)
           | _ \<Rightarrow> None)
      | _ \<Rightarrow> None)"

definition put_value :: "string \<Rightarrow> toml \<Rightarrow> document \<Rightarrow> document option" where
  "put_value k v d = (if map_of d k = None then Some (d @ [(k, v)]) else None)"

definition append_table :: "string \<Rightarrow> document \<Rightarrow> document option" where
  "append_table k d =
     (case map_of d k of
        None \<Rightarrow> Some (d @ [(k, TomlArray [TomlTable []])])
      | Some (TomlArray vs) \<Rightarrow> Some (AList.update k (TomlArray (vs @ [TomlTable []])) d)
      | _ \<Rightarrow> None)"

text \<open>One line: the path of the table that is open, and the document.\<close>

definition toml_line :: "string \<Rightarrow> string list \<times> document \<Rightarrow> (string list \<times> document) option" where
  "toml_line s st =
     (case st of (path, d) \<Rightarrow>
        if line_end s then Some st
        else if prefix ''[['' (skip_blanks s) then
          (case read_keys (length s) (drop 2 (skip_blanks s)) of
             None \<Rightarrow> None
           | Some (ks, r) \<Rightarrow>
               if prefix '']]'' r \<and> line_end (drop 2 r)
               then map_option (Pair ks) (at_path (butlast ks) (append_table (last ks)) d) else None)
        else if prefix ''['' (skip_blanks s) then
          (case read_keys (length s) (drop 1 (skip_blanks s)) of
             None \<Rightarrow> None
           | Some (ks, r) \<Rightarrow>
               if prefix '']'' r \<and> line_end (drop 1 r) then map_option (Pair ks) (at_path ks Some d) else None)
        else
          (case read_keys (length s) s of
             None \<Rightarrow> None
           | Some (ks, r) \<Rightarrow>
               if \<not> prefix ''='' r then None
               else
                 (case read_toml (length s) (drop 1 r) of
                    None \<Rightarrow> None
                  | Some (v, r) \<Rightarrow>
                      if line_end r
                      then map_option (Pair path) (at_path (path @ butlast ks) (put_value (last ks) v) d) else None)))"

fun toml_lines :: "string list \<Rightarrow> string list \<times> document \<Rightarrow> document option" where
  "toml_lines [] st = Some (snd st)"
| "toml_lines (l # ls) st = Option.bind (toml_line l st) (toml_lines ls)"

definition toml_text :: "string \<Rightarrow> string + document" where
  "toml_text raw =
     (case toml_lines (split_char CHR 0x0A raw) ([], []) of
        None \<Rightarrow> Inl ''TOML parse error''
      | Some d \<Rightarrow> Inr d)"

end
