(* ===== verification/Tests_Config.thy ===== *)
theory Tests_Config
  imports TestSupport TomlText
begin

text \<open>
  The unit tests of the configuration (\<open>src/config.rs\<close>), run on the model: the texts are read by
  \<open>TomlText\<close>, the rules of headers and URLs are those of \<open>test_http\<close>.
\<close>

section \<open>The crates on the texts of the tests\<close>

text \<open>
  Values and names of headers as HTTP defines them, and the scheme of a URL: what precedes
  \<open>://\<close>, which a relative text does not have.
\<close>

definition value_byte :: "char \<Rightarrow> bool" where
  "value_byte c \<longleftrightarrow> (32 \<le> byte c \<and> byte c \<noteq> 127) \<or> byte c = 9"

definition token_char :: "char \<Rightarrow> bool" where
  "token_char c \<longleftrightarrow> is_ascii_alphanumeric c \<or> c \<in> set (CHR 0x27 # ''!#$%&*+-.^_`|~'')"

definition test_http :: http_crates where
  "test_http =
     \<lparr>header_value_ok = list_all value_byte, header_to_str = visible_ascii,
      header_name_ok = (\<lambda>s. s \<noteq> [] \<and> list_all token_char s),
      url_scheme = (\<lambda>s. case split_once_str ''://'' s of None \<Rightarrow> Inl ''relative URL without a base'' | Some (p, _) \<Rightarrow> Inr p)\<rparr>"

definition parsed :: "string \<Rightarrow> (config \<Rightarrow> bool) \<Rightarrow> bool" where
  "parsed raw P \<longleftrightarrow> unwrapped (config_from_str toml_text raw) P"

definition rejected :: "string \<Rightarrow> (string \<Rightarrow> bool) \<Rightarrow> bool" where
  "rejected raw P \<longleftrightarrow> unwrapped_err (config_from_str toml_text raw) P"

definition valid :: "config \<Rightarrow> bool" where
  "valid cfg \<longleftrightarrow> validate test_http cfg = Inr ()"

definition text_lines :: "string list \<Rightarrow> string" where
  "text_lines ls = concat (map (\<lambda>l. l @ [CHR 0x0A]) ls)"

section \<open>Validation\<close>

definition test_default_config_is_valid :: bool where
  "test_default_config_is_valid \<longleftrightarrow>
     cc_protocols (cf_client default_config) = [''openai'', ''anthropic''] \<and>
     sc_port (cf_server default_config) = 5000"

definition with_keys :: "string list \<Rightarrow> config" where
  "with_keys keys = default_config\<lparr>cf_auth := \<lparr>ac_api_keys = keys\<rparr>\<rparr>"

definition test_validate_rejects_non_header_safe_keys :: bool where
  "test_validate_rejects_non_header_safe_keys \<longleftrightarrow>
     \<not> valid (with_keys [''sk-'' @ [CHR 0xC3, CHR 0xA9]]) \<and> \<not> valid (with_keys ['' sk-1''])"

definition with_upstream :: "string \<Rightarrow> header_config list \<Rightarrow> config" where
  "with_upstream url headers =
     default_config\<lparr>cf_upstream := (cf_upstream default_config)\<lparr>uc_url := url, uc_extra_headers := headers\<rparr>\<rparr>"

definition test_validate_rejects_bad_url_and_header_names :: bool where
  "test_validate_rejects_bad_url_and_header_names \<longleftrightarrow>
     \<not> valid (with_upstream ''not-a-url'' []) \<and>
     \<not> valid (with_upstream ''file:///etc/passwd'' []) \<and>
     \<not> valid (with_upstream ''http://127.0.0.1:9090'' [\<lparr>hc_name = ''bad header name!'', hc_value = ''v''\<rparr>]) \<and>
     valid (with_upstream ''http://127.0.0.1:9090'' [\<lparr>hc_name = ''x-api-key'', hc_value = ''v''\<rparr>])"

definition test_validate_rejects_empty_model_prefix :: bool where
  "test_validate_rejects_empty_model_prefix \<longleftrightarrow>
     \<not> valid (default_config\<lparr>cf_models := (cf_models default_config)\<lparr>mc_prefixes := [[]]\<rparr>\<rparr>)"

definition test_no_upstream_url_is_valid_without_check :: bool where
  "test_no_upstream_url_is_valid_without_check \<longleftrightarrow> valid (with_upstream ''http://127.0.0.1:9090'' [])"

definition test_default_host_is_loopback :: bool where
  "test_default_host_is_loopback \<longleftrightarrow> sc_host (cf_server default_config) = ''127.0.0.1''"

definition with_memory :: "string option \<Rightarrow> config" where
  "with_memory path =
     default_config\<lparr>cf_memory := (cf_memory default_config)\<lparr>mm_enabled := True, mm_path := path\<rparr>\<rparr>"

definition test_memory_enabled_requires_path :: bool where
  "test_memory_enabled_requires_path \<longleftrightarrow> validate test_http (with_memory None) = Inl MemoryPathMissing"

definition test_memory_enabled_with_path_validates :: bool where
  "test_memory_enabled_with_path_validates \<longleftrightarrow> valid (with_memory (Some ''llmgate.nql''))"

section \<open>Reading\<close>

definition test_parses_toml :: bool where
  "test_parses_toml \<longleftrightarrow>
     parsed (text_lines
         [[], ''[client]'', ''protocols = [\"openai\"]'', [],
          ''[upstream]'', ''protocol = \"anthropic\"'', ''url = \"https://api.anthropic.com\"'',
          ''authorization = \"Bearer sk-test\"'', ''timeout_ms = 30_000'', [],
          ''[models]'', ''default = \"claude-3-5-sonnet\"'', ''prefixes = [\"gateway/\"]'',
          ''[models.map]'', ''\"gpt-4o\" = \"claude-3-5-sonnet\"'']) (\<lambda>cfg.
       cc_protocols (cf_client cfg) = [''openai''] \<and>
       uc_protocol (cf_upstream cfg) = ''anthropic'' \<and>
       uc_timeout_ms (cf_upstream cfg) = 30000 \<and>
       mc_default (cf_models cfg) = ''claude-3-5-sonnet'' \<and>
       map_of (mc_map (cf_models cfg)) ''gpt-4o'' = Some ''claude-3-5-sonnet'' \<and>
       sc_port (cf_server cfg) = default_port)"

definition test_parses_privacy_guard_section :: bool where
  "test_parses_privacy_guard_section \<longleftrightarrow>
     parsed (text_lines
         [[], ''[privacy_guard]'', ''enabled = true'', ''vault = \"memory\"'', [],
          ''[[privacy_guard.rules]]'', ''name = \"INTERNAL_IP\"'',
          ''pattern = '' @ quoted ('''' @ bsl # ''b10'' @ bsl # ''.'' @ bsl # ''d{1,3}'' @ bsl # ''.'' @ bsl # ''d{1,3}'' @ bsl # ''.'' @ bsl # ''d{1,3}'' @ bsl # ''b''), ''replacement = \"<IP_{n}>\"'', [],
          ''[privacy_guard.allow_list]'', ''domains = [\"devstroop.com\"]'',
          ''patterns = ['' @ quoted ('''' @ bsl # ''bfoo@example'' @ bsl # ''.com'' @ bsl # ''b'') @ '']'']) (\<lambda>cfg.
       pc_enabled (cf_privacy cfg) \<and>
       pc_vault (cf_privacy cfg) = ''memory'' \<and>
       length (pc_rules (cf_privacy cfg)) = 1 \<and>
       nth_is (pc_rules (cf_privacy cfg)) 0 (\<lambda>r. rc_name r = ''INTERNAL_IP'' \<and> rc_replacement r = ''<IP_{n}>'') \<and>
       al_domains (pc_allow_list (cf_privacy cfg)) = [''devstroop.com''] \<and>
       length (al_patterns (pc_allow_list (cf_privacy cfg))) = 1)"

definition test_privacy_guard_disabled_when_section_absent :: bool where
  "test_privacy_guard_disabled_when_section_absent \<longleftrightarrow>
     parsed (text_lines [''[server]'', ''port = 5001'']) (\<lambda>cfg. \<not> pc_enabled (cf_privacy cfg))"

definition test_explicit_config_path_missing_errors :: bool where
  "test_explicit_config_path_missing_errors \<longleftrightarrow>
     load_path test_http (config_from_str toml_text) (\<lambda>_. None) ''/nonexistent/llmgate-test.toml'' =
       Inl (ConfigMissing ''/nonexistent/llmgate-test.toml'')"

definition test_load_path_reads_existing_file :: bool where
  "test_load_path_reads_existing_file \<longleftrightarrow>
     (let files = (\<lambda>path. if path = ''c.toml'' then Some (Inr (text_lines [''[server]'', ''port = 5001''])) else None)
      in unwrapped (load_path test_http (config_from_str toml_text) files ''c.toml'') (\<lambda>cfg.
           sc_port (cf_server cfg) = 5001))"

definition test_unknown_auth_keys_field_is_rejected :: bool where
  "test_unknown_auth_keys_field_is_rejected \<longleftrightarrow>
     rejected (text_lines [''[auth]'', ''api_key = \"sk-secret\"'']) (\<lambda>e. str_contains e ''unknown field'')"

definition test_empty_api_key_is_rejected :: bool where
  "test_empty_api_key_is_rejected \<longleftrightarrow>
     parsed (text_lines [''[auth]'', ''api_keys = [\"\"]'']) (\<lambda>cfg. validate test_http cfg = Inl EmptyKey) \<and>
     parsed (text_lines [''[auth]'', ''api_keys = [\"   \"]'']) (\<lambda>cfg. \<not> valid cfg)"

definition test_extra_header_requires_name_and_value :: bool where
  "test_extra_header_requires_name_and_value \<longleftrightarrow>
     rejected (text_lines [''[upstream]'', ''protocol = \"openai\"'', ''extra_headers = [{ name = \"x-api-key\" }]''])
       (\<lambda>e. str_contains e ''missing field'')"

definition test_memory_unknown_field_rejected :: bool where
  "test_memory_unknown_field_rejected \<longleftrightarrow>
     rejected (text_lines [''[server]'', ''port = 5050'', ''[memory]'', ''enabled = true'',
         ''path = '' @ quoted ''/tmp/cfg-test.nql'', ''bogus = 1''])
       (\<lambda>e. str_contains e ''bogus'')"

section \<open>The example file\<close>

text \<open>\<open>config.example.toml\<close> without its comments and blank lines.\<close>

definition example_toml :: string where
  "example_toml = text_lines
     [''[client]'', ''protocols = [\"openai\", \"anthropic\"]'',
      ''[upstream]'', ''protocol = \"openai\"'', ''url = \"https://api.example.com\"'',
      ''authorization = \"Bearer <your-upstream-api-key>\"'', ''timeout_ms = 60_000'',
      ''[models]'', ''default = \"\"'', ''prefixes = []'',
      ''[server]'', ''host = \"127.0.0.1\"'', ''port = 5000'',
      ''[auth]'', ''api_keys = []'',
      ''[privacy_guard]'', ''enabled = false'', ''vault = \"memory\"'',
      ''[memory]'', ''enabled = false'']"

text \<open>It is valid, and it shows the defaults, as it says, but for the URL and the credentials of the upstream.\<close>

lemma example_toml_loads:
  "parsed example_toml (\<lambda>cfg. valid cfg \<and>
     cfg = default_config\<lparr>cf_upstream := (cf_upstream default_config)
       \<lparr>uc_url := ''https://api.example.com'', uc_authorization := ''Bearer <your-upstream-api-key>''\<rparr>\<rparr>)"
  by code_simp

lemma example_toml_not_default: "\<not> parsed example_toml (\<lambda>cfg. cfg = default_config)"
  by code_simp

section \<open>The tests pass\<close>

lemma config_validation_tests:
  "test_default_config_is_valid" "test_validate_rejects_non_header_safe_keys"
  "test_validate_rejects_bad_url_and_header_names" "test_validate_rejects_empty_model_prefix"
  "test_no_upstream_url_is_valid_without_check" "test_default_host_is_loopback"
  "test_memory_enabled_requires_path" "test_memory_enabled_with_path_validates"
  by code_simp+

lemma config_reading_tests:
  "test_parses_toml" "test_parses_privacy_guard_section" "test_privacy_guard_disabled_when_section_absent"
  "test_explicit_config_path_missing_errors" "test_load_path_reads_existing_file"
  by code_simp+

lemma config_rejection_tests:
  "test_unknown_auth_keys_field_is_rejected" "test_empty_api_key_is_rejected"
  "test_extra_header_requires_name_and_value" "test_memory_unknown_field_rejected"
  by code_simp+

end
